(* ===== verification/Prelude.thy ===== *)
theory Prelude
  imports Main "HOL-Library.Word"
begin

text \<open>
  Shared vocabulary of the development: the machine integer types of the C
  sources, the memory-mapped bus through which every driver reaches the
  hardware, little-endian words over bytes, and the generic lemmas and theorem
  collections the components use.

  The hardware is not code of the repository. It enters every definition as the
  parameter \<open>hw\<close>, a record of the kinds of bus access that the C code performs (a
  32-bit register read, stores of 32, 16 and 8 bits and a byte load), over a hardware state of an arbitrary type. What the code relies
  on about a peripheral is stated as a locale in the theory that uses it.
\<close>

unbundle bit_operations_syntax

type_synonym u8 = "8 word"
type_synonym u16 = "16 word"
type_synonym u32 = "32 word"

text \<open>Facts that evaluate register masks and addresses, and facts that evaluate the
  little-endian codec.\<close>

named_theorems reg_defs
named_theorems le_simps

section \<open>The bus\<close>

record 'h mmio =
  rd32 :: "u32 \<Rightarrow> 'h \<Rightarrow> u32 \<times> 'h"
  wr32 :: "u32 \<Rightarrow> u32 \<Rightarrow> 'h \<Rightarrow> 'h"
  wr16 :: "u32 \<Rightarrow> u16 \<Rightarrow> 'h \<Rightarrow> 'h"
  wr8 :: "u32 \<Rightarrow> u8 \<Rightarrow> 'h \<Rightarrow> 'h"
  ld8 :: "u32 \<Rightarrow> 'h \<Rightarrow> u8"

text \<open>The read-modify-write statements \<open>REG |= m\<close> and \<open>REG &= m\<close> on a volatile
  register: one read, then one write.\<close>

definition or32 :: "'h mmio \<Rightarrow> u32 \<Rightarrow> u32 \<Rightarrow> 'h \<Rightarrow> 'h" where
  "or32 hw r m h = (let (v, h) = rd32 hw r h in wr32 hw r (v OR m) h)"

definition and32 :: "'h mmio \<Rightarrow> u32 \<Rightarrow> u32 \<Rightarrow> 'h \<Rightarrow> 'h" where
  "and32 hw r m h = (let (v, h) = rd32 hw r h in wr32 hw r (v AND m) h)"

text \<open>\<open>REG = (REG & m) | x\<close> through a local copy, as the configuration functions of the
  peripheral drivers do it: one read and one write.\<close>

definition modify32 :: "'h mmio \<Rightarrow> u32 \<Rightarrow> u32 \<Rightarrow> u32 \<Rightarrow> 'h \<Rightarrow> 'h" where
  "modify32 hw r m x h = (let (v, h) = rd32 hw r h in wr32 hw r (v AND m OR x) h)"

text \<open>The alias address of one bit of a peripheral register in the Cortex-M3 bit band.\<close>

definition bb_alias :: "u32 \<Rightarrow> u32 \<Rightarrow> u32" where
  "bb_alias offset bitno = 0x42000000 + offset * 32 + bitno * 4"

text \<open>Registers that keep what is written to them, and what the read-modify-write
  statements do there.\<close>

locale plain_regs =
  fixes hw :: "'h mmio" and reg :: "'h \<Rightarrow> u32 \<Rightarrow> u32" and R :: "u32 set"
  assumes rd_reg: "r \<in> R \<Longrightarrow> fst (rd32 hw r h) = reg h r"
      "r \<in> R \<Longrightarrow> reg (snd (rd32 hw r h)) = reg h"
    and wr_reg: "r \<in> R \<Longrightarrow> reg (wr32 hw r x h) = (reg h)(r := x)"
begin

lemma rd_regE:
  assumes "r \<in> R"
  obtains h' where "rd32 hw r h = (reg h r, h')" and "reg h' = reg h"
  using rd_reg [OF assms, of h] by (metis prod.collapse)

lemma rmw_reg:
  assumes "r \<in> R"
  shows "reg (or32 hw r m h) = (reg h)(r := reg h r OR m)"
    and "reg (and32 hw r m h) = (reg h)(r := reg h r AND m)"
    and "reg (modify32 hw r m x h) = (reg h)(r := reg h r AND m OR x)"
proof -
  obtain h' where "rd32 hw r h = (reg h r, h')" "reg h' = reg h"
    using rd_regE [OF assms] by metis
  then show "reg (or32 hw r m h) = (reg h)(r := reg h r OR m)"
    and "reg (and32 hw r m h) = (reg h)(r := reg h r AND m)"
    and "reg (modify32 hw r m x h) = (reg h)(r := reg h r AND m OR x)"
    by (simp_all add: or32_def and32_def modify32_def wr_reg [OF assms])
qed

end

text \<open>A register file that is nothing but memory.\<close>

definition ram_hw :: "(u32 \<Rightarrow> u32) mmio" where
  "ram_hw = \<lparr>rd32 = (\<lambda>r m. (m r, m)), wr32 = (\<lambda>r x m. m(r := x)), wr16 = (\<lambda>_ _ m. m),
     wr8 = (\<lambda>_ _ m. m), ld8 = (\<lambda>_ _. 0)\<rparr>"

interpretation ram: plain_regs ram_hw "\<lambda>m. m" UNIV
  by unfold_locales (simp_all add: ram_hw_def)

text \<open>A part of the hardware state that the accesses to the addresses in \<open>S\<close> leave alone.\<close>

locale bus_frame =
  fixes hw :: "'h mmio" and part :: "'h \<Rightarrow> 'v" and S :: "u32 \<Rightarrow> bool"
  assumes rd_frame: "S r \<Longrightarrow> part (snd (rd32 hw r h)) = part h"
    and wr_frame: "S r \<Longrightarrow> part (wr32 hw r x h) = part h"
    and wr8_frame: "S r \<Longrightarrow> part (wr8 hw r y h) = part h"
begin

lemma rmw_frame:
  assumes "S r"
  shows "part (or32 hw r m h) = part h" "part (and32 hw r m h) = part h"
    "part (modify32 hw r m x h) = part h"
  using rd_frame [OF assms, of h] wr_frame [OF assms]
  by (simp_all add: or32_def and32_def modify32_def case_prod_unfold Let_def)

end

section \<open>Little-endian words\<close>

definition le32 :: "u8 \<Rightarrow> u8 \<Rightarrow> u8 \<Rightarrow> u8 \<Rightarrow> u32" where
  "le32 b0 b1 b2 b3 =
     ucast b0 OR push_bit 8 (ucast b1) OR push_bit 16 (ucast b2) OR push_bit 24 (ucast b3)"

definition byte_of :: "u32 \<Rightarrow> nat \<Rightarrow> u8" where
  "byte_of w i = ucast (drop_bit (8 * i) w)"

definition le32_bytes :: "u32 \<Rightarrow> u8 list" where
  "le32_bytes w = [byte_of w 0, byte_of w 1, byte_of w 2, byte_of w 3]"

definition ld32 :: "'h mmio \<Rightarrow> u32 \<Rightarrow> 'h \<Rightarrow> u32" where
  "ld32 hw a h = le32 (ld8 hw a h) (ld8 hw (a + 1) h) (ld8 hw (a + 2) h) (ld8 hw (a + 3) h)"

text \<open>The memory contents at a word address, and the memory after a word or a half
  word has been stored there.\<close>

definition mem32 :: "(u32 \<Rightarrow> u8) \<Rightarrow> u32 \<Rightarrow> u32" where
  "mem32 m a = le32 (m a) (m (a + 1)) (m (a + 2)) (m (a + 3))"

definition put16 :: "u32 \<Rightarrow> u16 \<Rightarrow> (u32 \<Rightarrow> u8) \<Rightarrow> u32 \<Rightarrow> u8" where
  "put16 a x m = m(a := ucast x, a + 1 := ucast (drop_bit 8 x))"

definition put32 :: "u32 \<Rightarrow> u32 \<Rightarrow> (u32 \<Rightarrow> u8) \<Rightarrow> u32 \<Rightarrow> u8" where
  "put32 a w m = m(a := byte_of w 0, a + 1 := byte_of w 1, a + 2 := byte_of w 2, a + 3 := byte_of w 3)"

lemma byte_of_le32 [le_simps, simp]:
  "byte_of (le32 b0 b1 b2 b3) 0 = b0"
  "byte_of (le32 b0 b1 b2 b3) (Suc 0) = b1"
  "byte_of (le32 b0 b1 b2 b3) 2 = b2"
  "byte_of (le32 b0 b1 b2 b3) 3 = b3"
  by (auto simp: byte_of_def le32_def bit_simps bit_eq_iff dest: bit_imp_le_length)

lemma le32_byte_of [le_simps, simp]:
  "le32 (byte_of w 0) (byte_of w (Suc 0)) (byte_of w 2) (byte_of w 3) = w"
proof (rule bit_word_eqI)
  fix n :: nat
  assume "n < LENGTH(32)"
  then consider "n < 8" | "8 \<le> n" "n < 16" | "16 \<le> n" "n < 24" | "24 \<le> n" "n < 32" by fastforce
  then show "bit (le32 (byte_of w 0) (byte_of w (Suc 0)) (byte_of w 2) (byte_of w 3)) n = bit w n"
    by cases (auto simp: byte_of_def le32_def bit_simps)
qed

lemma unat_ucast_u8 [simp]: "unat (ucast (b :: u8) :: u32) = unat b"
proof -
  have "unat b < 2 ^ LENGTH(8)" by (rule unsigned_less)
  then show ?thesis by (simp add: unsigned_ucast_eq take_bit_nat_eq_self_iff)
qed

lemma unat_ucast_u16 [simp]: "unat (ucast (b :: u16) :: u32) = unat b"
proof -
  have "unat b < 2 ^ LENGTH(16)" by (rule unsigned_less)
  then show ?thesis by (simp add: unsigned_ucast_eq take_bit_nat_eq_self_iff)
qed

lemma offset_neq [simp]:
  "(a :: u32) \<noteq> a + 1" "a \<noteq> a + 2" "a \<noteq> a + 3"
  "a + 1 \<noteq> a + 2" "a + 1 \<noteq> a + 3" "a + 2 \<noteq> a + 3"
  "a + 1 \<noteq> a" "a + 2 \<noteq> a" "a + 3 \<noteq> a"
  "a + 2 \<noteq> a + 1" "a + 3 \<noteq> a + 1" "a + 3 \<noteq> a + 2"
  by (auto simp: add.commute [of _ a])

lemma mem32_put32 [simp]: "mem32 (put32 a w m) a = w"
  by (simp add: mem32_def put32_def)

text \<open>Storing the low and then the high half word is storing the word.\<close>

lemma put16_put16:
  "put16 (a + 2) (ucast (drop_bit 16 w)) (put16 a (ucast w) m) = put32 a w m"
proof -
  have "ucast (ucast w :: u16) = byte_of w 0" "ucast (drop_bit 8 (ucast w :: u16)) = byte_of w 1"
    "ucast (ucast (drop_bit 16 w) :: u16) = byte_of w 2"
    "ucast (drop_bit 8 (ucast (drop_bit 16 w) :: u16)) = byte_of w 3"
    by (auto simp: byte_of_def bit_eq_iff bit_simps)
  then show ?thesis by (auto simp: put16_def put32_def fun_eq_iff add.assoc)
qed

end
