(* ===== verification/Flash.thy ===== *)
theory Flash
  imports Prelude
begin

text \<open>
  The flash driver \<open>stm32f10x_flash.c\<close> of the standard peripheral library, in the
  configuration of both firmware projects (\<open>STM32F10X_CL\<close>: the single-bank
  branches; \<open>USE_FULL_ASSERT\<close> is off, so \<open>assert_param\<close> is empty). The driver is
  written against the bus parameter \<open>hw\<close>; its polling loops take the timeout
  counter of the source as their structural argument, so they terminate as the
  source does.

  The second half states what the driver relies on: the locale \<open>fpec\<close> lists the
  documented reactions of the flash program and erase controller (key sequence,
  control register, half-word programming, page erase, busy flag) to bus accesses.
  The locale \<open>nor_flash\<close> is the contract the driver gives its clients: a page erase
  and a word program operation over the flash contents. The driver fulfils it on
  every controller that satisfies \<open>fpec\<close>.
\<close>

unbundle bit_operations_syntax

section \<open>Registers and constants\<close>

definition FLASH_ACR :: u32 where "FLASH_ACR = 0x40022000"
definition FLASH_KEYR :: u32 where "FLASH_KEYR = 0x40022004"
definition FLASH_OPTKEYR :: u32 where "FLASH_OPTKEYR = 0x40022008"
definition FLASH_SR :: u32 where "FLASH_SR = 0x4002200C"
definition FLASH_CR :: u32 where "FLASH_CR = 0x40022010"
definition FLASH_AR :: u32 where "FLASH_AR = 0x40022014"
definition FLASH_OBR :: u32 where "FLASH_OBR = 0x4002201C"
definition FLASH_WRPR :: u32 where "FLASH_WRPR = 0x40022020"

definition OB_RDP :: u32 where "OB_RDP = 0x1FFFF800"
definition OB_USER :: u32 where "OB_USER = 0x1FFFF802"
definition OB_WRP0 :: u32 where "OB_WRP0 = 0x1FFFF808"
definition OB_WRP1 :: u32 where "OB_WRP1 = 0x1FFFF80A"
definition OB_WRP2 :: u32 where "OB_WRP2 = 0x1FFFF80C"
definition OB_WRP3 :: u32 where "OB_WRP3 = 0x1FFFF80E"

lemmas flash_addr_defs = FLASH_ACR_def FLASH_KEYR_def FLASH_OPTKEYR_def FLASH_SR_def FLASH_CR_def
  FLASH_AR_def FLASH_OBR_def FLASH_WRPR_def OB_RDP_def OB_USER_def OB_WRP0_def OB_WRP1_def
  OB_WRP2_def OB_WRP3_def

definition FLASH_KEY1 :: u32 where [reg_defs]: "FLASH_KEY1 = 0x45670123"
definition FLASH_KEY2 :: u32 where [reg_defs]: "FLASH_KEY2 = 0xCDEF89AB"
definition RDP_Key :: u16 where [reg_defs]: "RDP_Key = 0x00A5"

definition ACR_LATENCY_Mask :: u32 where [reg_defs]: "ACR_LATENCY_Mask = 0x00000038"
definition ACR_HLFCYA_Mask :: u32 where [reg_defs]: "ACR_HLFCYA_Mask = 0xFFFFFFF7"
definition ACR_PRFTBE_Mask :: u32 where [reg_defs]: "ACR_PRFTBE_Mask = 0xFFFFFFEF"
definition ACR_PRFTBS_Mask :: u32 where [reg_defs]: "ACR_PRFTBS_Mask = 0x00000020"
definition CR_PG_Set :: u32 where [reg_defs]: "CR_PG_Set = 0x00000001"
definition CR_PG_Reset :: u32 where [reg_defs]: "CR_PG_Reset = 0x00001FFE"
definition CR_PER_Set :: u32 where [reg_defs]: "CR_PER_Set = 0x00000002"
definition CR_PER_Reset :: u32 where [reg_defs]: "CR_PER_Reset = 0x00001FFD"
definition CR_MER_Set :: u32 where [reg_defs]: "CR_MER_Set = 0x00000004"
definition CR_MER_Reset :: u32 where [reg_defs]: "CR_MER_Reset = 0x00001FFB"
definition CR_OPTPG_Set :: u32 where [reg_defs]: "CR_OPTPG_Set = 0x00000010"
definition CR_OPTPG_Reset :: u32 where [reg_defs]: "CR_OPTPG_Reset = 0x00001FEF"
definition CR_OPTER_Set :: u32 where [reg_defs]: "CR_OPTER_Set = 0x00000020"
definition CR_OPTER_Reset :: u32 where [reg_defs]: "CR_OPTER_Reset = 0x00001FDF"
definition CR_STRT_Set :: u32 where [reg_defs]: "CR_STRT_Set = 0x00000040"
definition CR_LOCK_Set :: u32 where [reg_defs]: "CR_LOCK_Set = 0x00000080"

definition RDPRT_Mask :: u32 where [reg_defs]: "RDPRT_Mask = 0x00000002"
definition WRP0_Mask :: u32 where [reg_defs]: "WRP0_Mask = 0x000000FF"
definition WRP1_Mask :: u32 where [reg_defs]: "WRP1_Mask = 0x0000FF00"
definition WRP2_Mask :: u32 where [reg_defs]: "WRP2_Mask = 0x00FF0000"
definition WRP3_Mask :: u32 where [reg_defs]: "WRP3_Mask = 0xFF000000"
definition EraseTimeout :: u32 where "EraseTimeout = 0x000B0000"
definition ProgramTimeout :: u32 where "ProgramTimeout = 0x00002000"

definition FLASH_FLAG_BSY :: u32 where [reg_defs]: "FLASH_FLAG_BSY = 0x00000001"
definition FLASH_FLAG_EOP :: u32 where [reg_defs]: "FLASH_FLAG_EOP = 0x00000020"
definition FLASH_FLAG_PGERR :: u32 where [reg_defs]: "FLASH_FLAG_PGERR = 0x00000004"
definition FLASH_FLAG_WRPRTERR :: u32 where [reg_defs]: "FLASH_FLAG_WRPRTERR = 0x00000010"
definition FLASH_FLAG_OPTERR :: u32 where [reg_defs]: "FLASH_FLAG_OPTERR = 0x00000001"

datatype FLASH_Status = FLASH_BUSY | FLASH_ERROR_PG | FLASH_ERROR_WRP | FLASH_COMPLETE | FLASH_TIMEOUT
datatype FlagStatus = RESET | SET
datatype FunctionalState = DISABLE | ENABLE

text \<open>The C value of a status, for the one place that compares it with a flag constant.\<close>

fun status_value :: "FLASH_Status \<Rightarrow> u32" where
  "status_value FLASH_BUSY = 1"
| "status_value FLASH_ERROR_PG = 2"
| "status_value FLASH_ERROR_WRP = 3"
| "status_value FLASH_COMPLETE = 4"
| "status_value FLASH_TIMEOUT = 5"

section \<open>Access control, lock and unlock\<close>

definition FLASH_SetLatency :: "'h mmio \<Rightarrow> u32 \<Rightarrow> 'h \<Rightarrow> 'h" where
  "FLASH_SetLatency hw FLASH_Latency h =
     (let (tmpreg, h) = rd32 hw FLASH_ACR h;
          tmpreg = tmpreg AND ACR_LATENCY_Mask;
          tmpreg = tmpreg OR FLASH_Latency
      in wr32 hw FLASH_ACR tmpreg h)"

definition FLASH_HalfCycleAccessCmd :: "'h mmio \<Rightarrow> u32 \<Rightarrow> 'h \<Rightarrow> 'h" where
  "FLASH_HalfCycleAccessCmd hw x h = or32 hw FLASH_ACR x (and32 hw FLASH_ACR ACR_HLFCYA_Mask h)"

definition FLASH_PrefetchBufferCmd :: "'h mmio \<Rightarrow> u32 \<Rightarrow> 'h \<Rightarrow> 'h" where
  "FLASH_PrefetchBufferCmd hw x h = or32 hw FLASH_ACR x (and32 hw FLASH_ACR ACR_PRFTBE_Mask h)"

definition FLASH_Unlock :: "'h mmio \<Rightarrow> 'h \<Rightarrow> 'h" where
  "FLASH_Unlock hw h = wr32 hw FLASH_KEYR FLASH_KEY2 (wr32 hw FLASH_KEYR FLASH_KEY1 h)"

definition FLASH_UnlockBank1 :: "'h mmio \<Rightarrow> 'h \<Rightarrow> 'h" where
  "FLASH_UnlockBank1 hw h = wr32 hw FLASH_KEYR FLASH_KEY2 (wr32 hw FLASH_KEYR FLASH_KEY1 h)"

definition FLASH_Lock :: "'h mmio \<Rightarrow> 'h \<Rightarrow> 'h" where
  "FLASH_Lock hw h = or32 hw FLASH_CR CR_LOCK_Set h"

definition FLASH_LockBank1 :: "'h mmio \<Rightarrow> 'h \<Rightarrow> 'h" where
  "FLASH_LockBank1 hw h = or32 hw FLASH_CR CR_LOCK_Set h"

section \<open>Status and waiting\<close>

definition FLASH_GetStatus :: "'h mmio \<Rightarrow> 'h \<Rightarrow> FLASH_Status \<times> 'h" where
  "FLASH_GetStatus hw h =
     (let (sr, h) = rd32 hw FLASH_SR h in
      if sr AND FLASH_FLAG_BSY = FLASH_FLAG_BSY then (FLASH_BUSY, h)
      else let (sr, h) = rd32 hw FLASH_SR h in
        if sr AND FLASH_FLAG_PGERR \<noteq> 0 then (FLASH_ERROR_PG, h)
        else let (sr, h) = rd32 hw FLASH_SR h in
          if sr AND FLASH_FLAG_WRPRTERR \<noteq> 0 then (FLASH_ERROR_WRP, h)
          else (FLASH_COMPLETE, h))"

text \<open>The bank-1 flag constants are the plain ones in this configuration.\<close>

definition FLASH_GetBank1Status :: "'h mmio \<Rightarrow> 'h \<Rightarrow> FLASH_Status \<times> 'h" where
  "FLASH_GetBank1Status hw h =
     (let (sr, h) = rd32 hw FLASH_SR h in
      if sr AND FLASH_FLAG_BSY = FLASH_FLAG_BSY then (FLASH_BUSY, h)
      else let (sr, h) = rd32 hw FLASH_SR h in
        if sr AND FLASH_FLAG_PGERR \<noteq> 0 then (FLASH_ERROR_PG, h)
        else let (sr, h) = rd32 hw FLASH_SR h in
          if sr AND FLASH_FLAG_WRPRTERR \<noteq> 0 then (FLASH_ERROR_WRP, h)
          else (FLASH_COMPLETE, h))"

text \<open>The polling loop: the status, what is left of the timeout counter, the hardware.\<close>

fun wait_loop :: "'h mmio \<Rightarrow> nat \<Rightarrow> FLASH_Status \<Rightarrow> 'h \<Rightarrow> FLASH_Status \<times> nat \<times> 'h" where
  "wait_loop hw 0 status h = (status, 0, h)"
| "wait_loop hw (Suc t) status h =
     (if status = FLASH_BUSY
      then let (status, h) = FLASH_GetBank1Status hw h in wait_loop hw t status h
      else (status, Suc t, h))"

definition FLASH_WaitForLastOperation :: "'h mmio \<Rightarrow> u32 \<Rightarrow> 'h \<Rightarrow> FLASH_Status \<times> 'h" where
  "FLASH_WaitForLastOperation hw Timeout h =
     (let (status, h) = FLASH_GetBank1Status hw h;
          (status, t, h) = wait_loop hw (unat Timeout) status h
      in (if t = 0 then FLASH_TIMEOUT else status, h))"

fun bank1_wait_loop :: "'h mmio \<Rightarrow> nat \<Rightarrow> FLASH_Status \<Rightarrow> 'h \<Rightarrow> FLASH_Status \<times> nat \<times> 'h" where
  "bank1_wait_loop hw 0 status h = (status, 0, h)"
| "bank1_wait_loop hw (Suc t) status h =
     (if status_value status = FLASH_FLAG_BSY
      then let (status, h) = FLASH_GetBank1Status hw h in bank1_wait_loop hw t status h
      else (status, Suc t, h))"

definition FLASH_WaitForLastBank1Operation :: "'h mmio \<Rightarrow> u32 \<Rightarrow> 'h \<Rightarrow> FLASH_Status \<times> 'h" where
  "FLASH_WaitForLastBank1Operation hw Timeout h =
     (let (status, h) = FLASH_GetBank1Status hw h;
          (status, t, h) = bank1_wait_loop hw (unat Timeout) status h
      in (if t = 0 then FLASH_TIMEOUT else status, h))"

section \<open>Erasing\<close>

definition FLASH_ErasePage :: "'h mmio \<Rightarrow> u32 \<Rightarrow> 'h \<Rightarrow> FLASH_Status \<times> 'h" where
  "FLASH_ErasePage hw Page_Address h =
     (let (status, h) = FLASH_WaitForLastOperation hw EraseTimeout h in
      if status = FLASH_COMPLETE then
        let h = or32 hw FLASH_CR CR_PER_Set h;
            h = wr32 hw FLASH_AR Page_Address h;
            h = or32 hw FLASH_CR CR_STRT_Set h;
            (status, h) = FLASH_WaitForLastOperation hw EraseTimeout h;
            h = and32 hw FLASH_CR CR_PER_Reset h
        in (status, h)
      else (status, h))"

definition FLASH_EraseAllPages :: "'h mmio \<Rightarrow> 'h \<Rightarrow> FLASH_Status \<times> 'h" where
  "FLASH_EraseAllPages hw h =
     (let (status, h) = FLASH_WaitForLastOperation hw EraseTimeout h in
      if status = FLASH_COMPLETE then
        let h = or32 hw FLASH_CR CR_MER_Set h;
            h = or32 hw FLASH_CR CR_STRT_Set h;
            (status, h) = FLASH_WaitForLastOperation hw EraseTimeout h;
            h = and32 hw FLASH_CR CR_MER_Reset h
        in (status, h)
      else (status, h))"

definition FLASH_EraseAllBank1Pages :: "'h mmio \<Rightarrow> 'h \<Rightarrow> FLASH_Status \<times> 'h" where
  "FLASH_EraseAllBank1Pages hw h =
     (let (status, h) = FLASH_WaitForLastBank1Operation hw EraseTimeout h in
      if status = FLASH_COMPLETE then
        let h = or32 hw FLASH_CR CR_MER_Set h;
            h = or32 hw FLASH_CR CR_STRT_Set h;
            (status, h) = FLASH_WaitForLastBank1Operation hw EraseTimeout h;
            h = and32 hw FLASH_CR CR_MER_Reset h
        in (status, h)
      else (status, h))"

section \<open>Programming\<close>

definition FLASH_ProgramWord :: "'h mmio \<Rightarrow> u32 \<Rightarrow> u32 \<Rightarrow> 'h \<Rightarrow> FLASH_Status \<times> 'h" where
  "FLASH_ProgramWord hw Address Data h =
     (let (status, h) = FLASH_WaitForLastOperation hw ProgramTimeout h in
      if status = FLASH_COMPLETE then
        let h = or32 hw FLASH_CR CR_PG_Set h;
            h = wr16 hw Address (ucast Data) h;
            (status, h) = FLASH_WaitForLastOperation hw ProgramTimeout h
        in if status = FLASH_COMPLETE then
             let tmp = Address + 2;
                 h = wr16 hw tmp (ucast (drop_bit 16 Data)) h;
                 (status, h) = FLASH_WaitForLastOperation hw ProgramTimeout h;
                 h = and32 hw FLASH_CR CR_PG_Reset h
             in (status, h)
           else (status, and32 hw FLASH_CR CR_PG_Reset h)
      else (status, h))"

definition FLASH_ProgramHalfWord :: "'h mmio \<Rightarrow> u32 \<Rightarrow> u16 \<Rightarrow> 'h \<Rightarrow> FLASH_Status \<times> 'h" where
  "FLASH_ProgramHalfWord hw Address Data h =
     (let (status, h) = FLASH_WaitForLastOperation hw ProgramTimeout h in
      if status = FLASH_COMPLETE then
        let h = or32 hw FLASH_CR CR_PG_Set h;
            h = wr16 hw Address Data h;
            (status, h) = FLASH_WaitForLastOperation hw ProgramTimeout h;
            h = and32 hw FLASH_CR CR_PG_Reset h
        in (status, h)
      else (status, h))"

section \<open>Option bytes\<close>

definition FLASH_GetReadOutProtectionStatus :: "'h mmio \<Rightarrow> 'h \<Rightarrow> FlagStatus \<times> 'h" where
  "FLASH_GetReadOutProtectionStatus hw h =
     (let (obr, h) = rd32 hw FLASH_OBR h
      in (if obr AND RDPRT_Mask \<noteq> 0 then SET else RESET, h))"

definition optkey_unlock :: "'h mmio \<Rightarrow> 'h \<Rightarrow> 'h" where
  "optkey_unlock hw h = wr32 hw FLASH_OPTKEYR FLASH_KEY2 (wr32 hw FLASH_OPTKEYR FLASH_KEY1 h)"

definition FLASH_EraseOptionBytes :: "'h mmio \<Rightarrow> 'h \<Rightarrow> FLASH_Status \<times> 'h" where
  "FLASH_EraseOptionBytes hw h =
     (let (rdprt, h) = FLASH_GetReadOutProtectionStatus hw h;
          rdptmp = (if rdprt \<noteq> RESET then 0x00 else RDP_Key);
          (status, h) = FLASH_WaitForLastOperation hw EraseTimeout h in
      if status = FLASH_COMPLETE then
        let h = optkey_unlock hw h;
            h = or32 hw FLASH_CR CR_OPTER_Set h;
            h = or32 hw FLASH_CR CR_STRT_Set h;
            (status, h) = FLASH_WaitForLastOperation hw EraseTimeout h
        in if status = FLASH_COMPLETE then
             let h = and32 hw FLASH_CR CR_OPTER_Reset h;
                 h = or32 hw FLASH_CR CR_OPTPG_Set h;
                 h = wr16 hw OB_RDP rdptmp h;
                 (status, h) = FLASH_WaitForLastOperation hw ProgramTimeout h
             in (status, if status \<noteq> FLASH_TIMEOUT then and32 hw FLASH_CR CR_OPTPG_Reset h else h)
           else (status, if status \<noteq> FLASH_TIMEOUT then and32 hw FLASH_CR CR_OPTPG_Reset h else h)
      else (status, h))"

definition FLASH_ProgramOptionByteData :: "'h mmio \<Rightarrow> u32 \<Rightarrow> u8 \<Rightarrow> 'h \<Rightarrow> FLASH_Status \<times> 'h" where
  "FLASH_ProgramOptionByteData hw Address Data h =
     (let (status, h) = FLASH_WaitForLastOperation hw ProgramTimeout h in
      if status = FLASH_COMPLETE then
        let h = optkey_unlock hw h;
            h = or32 hw FLASH_CR CR_OPTPG_Set h;
            h = wr16 hw Address (ucast Data) h;
            (status, h) = FLASH_WaitForLastOperation hw ProgramTimeout h
        in (status, if status \<noteq> FLASH_TIMEOUT then and32 hw FLASH_CR CR_OPTPG_Reset h else h)
      else (status, h))"

text \<open>The four write-protection bytes of a page mask, in the order they are programmed.\<close>

definition wrp_data :: "u32 \<Rightarrow> (u32 \<times> u16) list" where
  "wrp_data FLASH_Pages =
     (let p = NOT FLASH_Pages in
      [(OB_WRP0, ucast (p AND WRP0_Mask)),
       (OB_WRP1, ucast (drop_bit 8 (p AND WRP1_Mask))),
       (OB_WRP2, ucast (drop_bit 16 (p AND WRP2_Mask))),
       (OB_WRP3, ucast (drop_bit 24 (p AND WRP3_Mask)))])"

fun program_wrp :: "'h mmio \<Rightarrow> (u32 \<times> u16) list \<Rightarrow> FLASH_Status \<Rightarrow> 'h \<Rightarrow> FLASH_Status \<times> 'h" where
  "program_wrp hw [] status h = (status, h)"
| "program_wrp hw ((a, x) # ws) status h =
     (if status = FLASH_COMPLETE \<and> x \<noteq> 0xFF
      then let h = wr16 hw a x h;
               (status, h) = FLASH_WaitForLastOperation hw ProgramTimeout h
           in program_wrp hw ws status h
      else program_wrp hw ws status h)"

definition FLASH_EnableWriteProtection :: "'h mmio \<Rightarrow> u32 \<Rightarrow> 'h \<Rightarrow> FLASH_Status \<times> 'h" where
  "FLASH_EnableWriteProtection hw FLASH_Pages h =
     (let (status, h) = FLASH_WaitForLastOperation hw ProgramTimeout h in
      if status = FLASH_COMPLETE then
        let h = optkey_unlock hw h;
            h = or32 hw FLASH_CR CR_OPTPG_Set h;
            (status, h) = program_wrp hw (wrp_data FLASH_Pages) status h
        in (status, if status \<noteq> FLASH_TIMEOUT then and32 hw FLASH_CR CR_OPTPG_Reset h else h)
      else (status, h))"

definition FLASH_ReadOutProtection :: "'h mmio \<Rightarrow> FunctionalState \<Rightarrow> 'h \<Rightarrow> FLASH_Status \<times> 'h" where
  "FLASH_ReadOutProtection hw NewState h =
     (let (status, h) = FLASH_WaitForLastOperation hw EraseTimeout h in
      if status = FLASH_COMPLETE then
        let h = optkey_unlock hw h;
            h = or32 hw FLASH_CR CR_OPTER_Set h;
            h = or32 hw FLASH_CR CR_STRT_Set h;
            (status, h) = FLASH_WaitForLastOperation hw EraseTimeout h
        in if status = FLASH_COMPLETE then
             let h = and32 hw FLASH_CR CR_OPTER_Reset h;
                 h = or32 hw FLASH_CR CR_OPTPG_Set h;
                 h = wr16 hw OB_RDP (if NewState \<noteq> DISABLE then 0x00 else RDP_Key) h;
                 (status, h) = FLASH_WaitForLastOperation hw EraseTimeout h
             in (status, if status \<noteq> FLASH_TIMEOUT then and32 hw FLASH_CR CR_OPTPG_Reset h else h)
           else (status, if status \<noteq> FLASH_TIMEOUT then and32 hw FLASH_CR CR_OPTER_Reset h else h)
      else (status, h))"

definition FLASH_UserOptionByteConfig ::
  "'h mmio \<Rightarrow> u16 \<Rightarrow> u16 \<Rightarrow> u16 \<Rightarrow> 'h \<Rightarrow> FLASH_Status \<times> 'h" where
  "FLASH_UserOptionByteConfig hw OB_IWDG OB_STOP OB_STDBY h =
     (let h = optkey_unlock hw h;
          (status, h) = FLASH_WaitForLastOperation hw ProgramTimeout h in
      if status = FLASH_COMPLETE then
        let h = or32 hw FLASH_CR CR_OPTPG_Set h;
            h = wr16 hw OB_USER (OB_IWDG OR (OB_STOP OR (OB_STDBY OR 0xF8))) h;
            (status, h) = FLASH_WaitForLastOperation hw ProgramTimeout h
        in (status, if status \<noteq> FLASH_TIMEOUT then and32 hw FLASH_CR CR_OPTPG_Reset h else h)
      else (status, h))"

definition FLASH_GetUserOptionByte :: "'h mmio \<Rightarrow> 'h \<Rightarrow> u32 \<times> 'h" where
  "FLASH_GetUserOptionByte hw h = (let (obr, h) = rd32 hw FLASH_OBR h in (drop_bit 2 obr, h))"

definition FLASH_GetWriteProtectionOptionByte :: "'h mmio \<Rightarrow> 'h \<Rightarrow> u32 \<times> 'h" where
  "FLASH_GetWriteProtectionOptionByte hw h = rd32 hw FLASH_WRPR h"

section \<open>Flags and interrupts\<close>

definition FLASH_GetPrefetchBufferStatus :: "'h mmio \<Rightarrow> 'h \<Rightarrow> FlagStatus \<times> 'h" where
  "FLASH_GetPrefetchBufferStatus hw h =
     (let (acr, h) = rd32 hw FLASH_ACR h
      in (if acr AND ACR_PRFTBS_Mask \<noteq> 0 then SET else RESET, h))"

definition FLASH_ITConfig :: "'h mmio \<Rightarrow> u32 \<Rightarrow> FunctionalState \<Rightarrow> 'h \<Rightarrow> 'h" where
  "FLASH_ITConfig hw FLASH_IT NewState h =
     (if NewState \<noteq> DISABLE then or32 hw FLASH_CR FLASH_IT h
      else and32 hw FLASH_CR (NOT FLASH_IT) h)"

definition FLASH_GetFlagStatus :: "'h mmio \<Rightarrow> u32 \<Rightarrow> 'h \<Rightarrow> FlagStatus \<times> 'h" where
  "FLASH_GetFlagStatus hw FLASH_FLAG h =
     (if FLASH_FLAG = FLASH_FLAG_OPTERR then
        let (obr, h) = rd32 hw FLASH_OBR h
        in (if obr AND FLASH_FLAG_OPTERR \<noteq> 0 then SET else RESET, h)
      else
        let (sr, h) = rd32 hw FLASH_SR h
        in (if sr AND FLASH_FLAG \<noteq> 0 then SET else RESET, h))"

definition FLASH_ClearFlag :: "'h mmio \<Rightarrow> u32 \<Rightarrow> 'h \<Rightarrow> 'h" where
  "FLASH_ClearFlag hw FLASH_FLAG h = wr32 hw FLASH_SR FLASH_FLAG h"

section \<open>What the driver relies on: the program and erase controller\<close>

text \<open>
  The state of the controller as the STM32F10xxx flash programming manual describes it,
  for a 256 Kbyte connectivity-line device with pages of 2 Kbytes. \<open>v_key\<close> counts the
  keys of the unlock sequence seen so far, \<open>v_busy\<close> the status reads that will still
  see the busy flag, \<open>v_wrp\<close> the write-protected pages (by their base address), \<open>v_mem\<close>
  the contents of the array once the operation under way has ended (a read of the array
  during an operation stalls the bus until then).
\<close>

record fpec_view =
  v_key :: nat
  v_cr :: u32
  v_ar :: u32
  v_busy :: nat
  v_eop :: bool
  v_pgerr :: bool
  v_wrprterr :: bool
  v_wrp :: "u32 \<Rightarrow> bool"
  v_mem :: "u32 \<Rightarrow> u8"

definition page_of :: "u32 \<Rightarrow> u32" where
  "page_of a = a AND 0xFFFFF800"

definition in_flash :: "u32 \<Rightarrow> bool" where
  "in_flash a \<longleftrightarrow> 0x08000000 \<le> a \<and> a < 0x08040000"

definition v_locked :: "fpec_view \<Rightarrow> bool" where
  "v_locked v \<longleftrightarrow> v_cr v AND CR_LOCK_Set \<noteq> 0"

definition fpec_sr :: "fpec_view \<Rightarrow> u32" where
  "fpec_sr v =
     (if 0 < v_busy v then FLASH_FLAG_BSY else 0) OR
     (if v_pgerr v then FLASH_FLAG_PGERR else 0) OR
     (if v_wrprterr v then FLASH_FLAG_WRPRTERR else 0) OR
     (if v_busy v = 0 \<and> v_eop v then FLASH_FLAG_EOP else 0)"

text \<open>A key write while the controller is locked: the right sequence clears the lock bit,
  anything else blocks the controller until the next reset.\<close>

definition fpec_key :: "u32 \<Rightarrow> fpec_view \<Rightarrow> fpec_view" where
  "fpec_key k v =
     (if v_key v = 0 \<and> k = FLASH_KEY1 then v\<lparr>v_key := 1\<rparr>
      else if v_key v = 1 \<and> k = FLASH_KEY2
      then v\<lparr>v_key := 0, v_cr := v_cr v AND NOT CR_LOCK_Set\<rparr>
      else v\<lparr>v_key := 2\<rparr>)"

definition erase_mem :: "u32 \<Rightarrow> (u32 \<Rightarrow> u8) \<Rightarrow> u32 \<Rightarrow> u8" where
  "erase_mem p m = (\<lambda>a. if page_of a = p then 0xFF else m a)"

text \<open>A control register write while unlocked and idle. Setting the start bit with the
  page-erase bit erases the page selected by the address register, with the mass-erase
  bit the whole array; the start bit reads back as 0 once the operation is over. \<open>n\<close> is
  how long the operation keeps the controller busy.\<close>

definition fpec_cr :: "nat \<Rightarrow> u32 \<Rightarrow> fpec_view \<Rightarrow> fpec_view" where
  "fpec_cr n x v =
     (let v = v\<lparr>v_cr := x AND NOT CR_STRT_Set\<rparr> in
      if x AND CR_STRT_Set = 0 then v
      else if x AND CR_MER_Set \<noteq> 0 then
        (if \<exists>p. v_wrp v p then v\<lparr>v_wrprterr := True\<rparr>
         else v\<lparr>v_busy := n, v_eop := True, v_mem := (\<lambda>a. if in_flash a then 0xFF else v_mem v a)\<rparr>)
      else if x AND CR_PER_Set \<noteq> 0 then
        (if v_wrp v (page_of (v_ar v)) then v\<lparr>v_wrprterr := True\<rparr>
         else v\<lparr>v_busy := n, v_eop := True, v_mem := erase_mem (page_of (v_ar v)) (v_mem v)\<rparr>)
      else v)"

text \<open>A half-word store to the array with the programming bit set: it is refused on a
  write-protected page and on a location that is not erased, unless the value is 0.\<close>

definition prog16_ok :: "u32 \<Rightarrow> u16 \<Rightarrow> fpec_view \<Rightarrow> bool" where
  "prog16_ok a x v \<longleftrightarrow>
     \<not> v_wrp v (page_of a) \<and> (v_mem v a = 0xFF \<and> v_mem v (a + 1) = 0xFF \<or> x = 0)"

definition fpec_store16 :: "nat \<Rightarrow> u32 \<Rightarrow> u16 \<Rightarrow> fpec_view \<Rightarrow> fpec_view" where
  "fpec_store16 n a x v =
     (if v_wrp v (page_of a) then v\<lparr>v_wrprterr := True\<rparr>
      else if prog16_ok a x v then v\<lparr>v_busy := n, v_eop := True, v_mem := put16 a x (v_mem v)\<rparr>
      else v\<lparr>v_pgerr := True\<rparr>)"

locale fpec =
  fixes hw :: "'h mmio"
    and view :: "'h \<Rightarrow> fpec_view"
    and t_erase :: "'h \<Rightarrow> nat"
    and t_prog :: "'h \<Rightarrow> nat"
  assumes rd_SR: "fst (rd32 hw FLASH_SR h) = fpec_sr (view h)"
      "view (snd (rd32 hw FLASH_SR h)) = (view h)\<lparr>v_busy := v_busy (view h) - 1\<rparr>"
    and rd_CR: "v_busy (view h) = 0 \<Longrightarrow> fst (rd32 hw FLASH_CR h) = v_cr (view h)"
      "view (snd (rd32 hw FLASH_CR h)) = view h"
    and wr_KEYR: "v_locked (view h) \<Longrightarrow> view (wr32 hw FLASH_KEYR k h) = fpec_key k (view h)"
    and wr_AR: "v_busy (view h) = 0 \<Longrightarrow> view (wr32 hw FLASH_AR a h) = (view h)\<lparr>v_ar := a\<rparr>"
    and wr_CR: "\<not> v_locked (view h) \<Longrightarrow> v_busy (view h) = 0 \<Longrightarrow>
      x AND (CR_OPTPG_Set OR CR_OPTER_Set) = 0 \<Longrightarrow>
      view (wr32 hw FLASH_CR x h) = fpec_cr (t_erase h) x (view h)"
    and wr_array: "\<not> v_locked (view h) \<Longrightarrow> v_busy (view h) = 0 \<Longrightarrow>
      v_cr (view h) AND CR_PG_Set \<noteq> 0 \<Longrightarrow> in_flash a \<Longrightarrow> a AND 1 = 0 \<Longrightarrow>
      view (wr16 hw a d h) = fpec_store16 (t_prog h) a d (view h)"
    and ld_array: "in_flash a \<Longrightarrow> ld8 hw a h = v_mem (view h) a"
    and erase_in_time: "t_erase h < unat EraseTimeout"
    and prog_in_time: "t_prog h < unat ProgramTimeout"

text \<open>The state between driver operations: unlocked, no key pending, idle, no sticky error flag.\<close>

definition ready :: "fpec_view \<Rightarrow> bool" where
  "ready v \<longleftrightarrow> v_key v = 0 \<and> v_cr v = 0 \<and> v_busy v = 0 \<and> \<not> v_pgerr v \<and> \<not> v_wrprterr v"

text \<open>The status a finished operation reports.\<close>

definition view_status :: "fpec_view \<Rightarrow> FLASH_Status" where
  "view_status v = (if v_pgerr v then FLASH_ERROR_PG
     else if v_wrprterr v then FLASH_ERROR_WRP else FLASH_COMPLETE)"

lemma readyD: "ready v \<Longrightarrow> \<not> v_locked v" "ready v \<Longrightarrow> v_busy v = 0" "ready v \<Longrightarrow> v_cr v = 0"
  "ready v \<Longrightarrow> \<not> v_pgerr v" "ready v \<Longrightarrow> \<not> v_wrprterr v"
  by (simp_all add: ready_def v_locked_def)

lemma ready_status: "ready v \<Longrightarrow> view_status v = FLASH_COMPLETE"
  by (simp add: ready_def view_status_def)

lemma view_status_simps [simp]:
  "view_status (v\<lparr>v_busy := n\<rparr>) = view_status v" "view_status v \<noteq> FLASH_BUSY"
  by (simp_all add: view_status_def)

lemma fpec_sr_flags:
  "fpec_sr v AND FLASH_FLAG_BSY = FLASH_FLAG_BSY \<longleftrightarrow> 0 < v_busy v"
  "fpec_sr v AND FLASH_FLAG_PGERR \<noteq> 0 \<longleftrightarrow> v_pgerr v"
  "fpec_sr v AND FLASH_FLAG_WRPRTERR \<noteq> 0 \<longleftrightarrow> v_wrprterr v"
  by (cases "v_busy v = 0"; cases "v_pgerr v"; cases "v_wrprterr v"; cases "v_eop v";
      simp add: fpec_sr_def reg_defs)+

context fpec
begin

lemma status_busy:
  assumes "0 < v_busy (view h)"
  obtains h' where "FLASH_GetBank1Status hw h = (FLASH_BUSY, h')"
    and "view h' = (view h)\<lparr>v_busy := v_busy (view h) - 1\<rparr>"
proof -
  obtain sr h' where r: "rd32 hw FLASH_SR h = (sr, h')" by fastforce
  with rd_SR [of h] have "sr = fpec_sr (view h)" "view h' = (view h)\<lparr>v_busy := v_busy (view h) - 1\<rparr>"
    by auto
  with r assms that show thesis by (simp add: FLASH_GetBank1Status_def fpec_sr_flags)
qed

lemma rd_SR_idle:
  assumes "v_busy (view h) = 0"
  obtains h' where "rd32 hw FLASH_SR h = (fpec_sr (view h), h')" and "view h' = view h"
proof -
  obtain sr h' where r: "rd32 hw FLASH_SR h = (sr, h')" by fastforce
  with rd_SR [of h] assms have "sr = fpec_sr (view h)" "view h' = (view h)\<lparr>v_busy := v_busy (view h)\<rparr>"
    by auto
  with r that show thesis by simp
qed

lemma status_idle:
  assumes "v_busy (view h) = 0"
  obtains h' where "FLASH_GetBank1Status hw h = (view_status (view h), h')" and "view h' = view h"
proof -
  obtain h1 where 1: "rd32 hw FLASH_SR h = (fpec_sr (view h), h1)" "view h1 = view h"
    using rd_SR_idle [OF assms] by metis
  obtain h2 where 2: "rd32 hw FLASH_SR h1 = (fpec_sr (view h), h2)" "view h2 = view h"
    using rd_SR_idle [of h1] 1 assms by metis
  obtain h3 where 3: "rd32 hw FLASH_SR h2 = (fpec_sr (view h), h3)" "view h3 = view h"
    using rd_SR_idle [of h2] 2 assms by metis
  show thesis
    using that [of "if v_pgerr (view h) then h2 else h3"] 1 2 3 assms
    by (auto simp: FLASH_GetBank1Status_def view_status_def fpec_sr_flags)
qed

lemma wait_loop_idle [simp]: "s \<noteq> FLASH_BUSY \<Longrightarrow> wait_loop hw t s h = (s, t, h)"
  by (cases t) auto

text \<open>The loop ends with the operation when the timeout counter outlasts it.\<close>

lemma wait_loop_busy:
  assumes "v_busy (view h) < t"
  shows "\<exists>t' h'. wait_loop hw t FLASH_BUSY h = (view_status (view h), t', h') \<and> 0 < t - v_busy (view h) \<and>
    t' = t - Suc (v_busy (view h)) \<and> view h' = (view h)\<lparr>v_busy := 0\<rparr>"
  using assms
proof (induction t arbitrary: h)
  case (Suc t)
  show ?case
  proof (cases "v_busy (view h)")
    case 0
    then obtain h' where "FLASH_GetBank1Status hw h = (view_status (view h), h')" "view h' = view h"
      using status_idle by metis
    then show ?thesis using 0 by simp
  next
    case (Suc n)
    then obtain h' where h': "FLASH_GetBank1Status hw h = (FLASH_BUSY, h')"
      "view h' = (view h)\<lparr>v_busy := n\<rparr>"
      using status_busy [of h] by auto
    with Suc.prems Suc have "v_busy (view h') < t" by simp
    from Suc.IH [OF this] h' Suc show ?thesis by simp
  qed
qed simp

lemma wait_for_last:
  assumes "v_busy (view h) < unat T"
  obtains h' where "FLASH_WaitForLastOperation hw T h = (view_status (view h), h')"
    and "view h' = (view h)\<lparr>v_busy := 0\<rparr>"
proof (cases "v_busy (view h)")
  case 0
  with status_idle obtain h' where "FLASH_GetBank1Status hw h = (view_status (view h), h')"
    "view h' = view h" by metis
  then show thesis using that [of h'] 0 assms
    by (simp add: FLASH_WaitForLastOperation_def)
next
  case (Suc n)
  then obtain h1 where h1: "FLASH_GetBank1Status hw h = (FLASH_BUSY, h1)"
    "view h1 = (view h)\<lparr>v_busy := n\<rparr>"
    using status_busy [of h] by auto
  with assms Suc have "v_busy (view h1) < unat T" by simp
  from wait_loop_busy [OF this] obtain h' where
    "wait_loop hw (unat T) FLASH_BUSY h1 = (view_status (view h1), unat T - Suc n, h')"
    "view h' = (view h)\<lparr>v_busy := 0\<rparr>" using h1 by auto
  with h1 that assms Suc show thesis
    by (simp add: FLASH_WaitForLastOperation_def)
qed

text \<open>An operation that outlasts the counter, or ends only with its last read, is a time-out.\<close>

lemma wait_loop_out: "t \<le> v_busy (view h) \<Longrightarrow> fst (snd (wait_loop hw t FLASH_BUSY h)) = 0"
proof (induction t arbitrary: h)
  case (Suc t)
  then obtain h' where "FLASH_GetBank1Status hw h = (FLASH_BUSY, h')" "view h' = (view h)\<lparr>v_busy := v_busy (view h) - 1\<rparr>"
    using status_busy [of h] by auto
  with Suc show ?case by simp
qed simp

lemma wait_loop_last:
  assumes "Suc (v_busy (view h)) = t"
  shows "fst (snd (wait_loop hw t FLASH_BUSY h)) = 0"
  using wait_loop_busy [of h t] assms by auto

lemma wait_for_last_out:
  assumes "unat T \<le> v_busy (view h)"
  shows "fst (FLASH_WaitForLastOperation hw T h) = FLASH_TIMEOUT"
proof (cases "v_busy (view h)")
  case 0
  with assms show ?thesis by (simp add: FLASH_WaitForLastOperation_def split_beta Let_def)
next
  case (Suc n)
  then obtain h1 where "FLASH_GetBank1Status hw h = (FLASH_BUSY, h1)" "view h1 = (view h)\<lparr>v_busy := n\<rparr>"
    using status_busy [of h] by auto
  then have h1: "FLASH_GetBank1Status hw h = (FLASH_BUSY, h1)" "v_busy (view h1) = n" by simp_all
  have "fst (snd (wait_loop hw (unat T) FLASH_BUSY h1)) = 0"
  proof (cases "unat T \<le> n")
    case True
    then show ?thesis using wait_loop_out [of "unat T" h1] h1(2) by simp
  next
    case False
    then show ?thesis using wait_loop_last [of h1 "unat T"] h1(2) assms Suc by simp
  qed
  with h1(1) show ?thesis by (simp add: FLASH_WaitForLastOperation_def split_beta Let_def)
qed

lemma or_CR:
  assumes "\<not> v_locked (view h)" "v_busy (view h) = 0"
    and "(v_cr (view h) OR m) AND (CR_OPTPG_Set OR CR_OPTER_Set) = 0"
  obtains n where "n < unat EraseTimeout"
    and "view (or32 hw FLASH_CR m h) = fpec_cr n (v_cr (view h) OR m) (view h)"
proof -
  obtain x h1 where 1: "rd32 hw FLASH_CR h = (x, h1)" by fastforce
  with rd_CR [of h] assms(2) have "x = v_cr (view h)" "view h1 = view h" by auto
  with 1 wr_CR [of h1 "x OR m"] assms that [of "t_erase h1"] erase_in_time [of h1]
  show thesis by (simp add: or32_def)
qed

lemma and_CR:
  assumes "\<not> v_locked (view h)" "v_busy (view h) = 0"
    and "(v_cr (view h) AND m) AND (CR_OPTPG_Set OR CR_OPTER_Set) = 0"
    and "(v_cr (view h) AND m) AND CR_STRT_Set = 0"
  shows "view (and32 hw FLASH_CR m h) = (view h)\<lparr>v_cr := (v_cr (view h) AND m) AND NOT CR_STRT_Set\<rparr>"
proof -
  obtain x h1 where 1: "rd32 hw FLASH_CR h = (x, h1)" by fastforce
  with rd_CR [of h] assms(2) have "x = v_cr (view h)" "view h1 = view h" by auto
  with 1 wr_CR [of h1 "x AND m"] assms show ?thesis by (simp add: and32_def fpec_cr_def)
qed

end

text \<open>What a page erase and a word program do to an idle controller, as functions of
  its state.\<close>

definition erase_view :: "u32 \<Rightarrow> fpec_view \<Rightarrow> fpec_view" where
  "erase_view a v =
     (if v_wrp v (page_of a) then v\<lparr>v_ar := a, v_wrprterr := True\<rparr>
      else v\<lparr>v_ar := a, v_eop := True, v_mem := erase_mem (page_of a) (v_mem v)\<rparr>)"

definition program_view :: "u32 \<Rightarrow> u32 \<Rightarrow> fpec_view \<Rightarrow> fpec_view" where
  "program_view a w v =
     (let v1 = fpec_store16 0 a (ucast w) v in
      if view_status v1 = FLASH_COMPLETE then fpec_store16 0 (a + 2) (ucast (drop_bit 16 w)) v1
      else v1)"

lemma even_add_2: "(a :: u32) AND 1 = 0 \<Longrightarrow> (a + 2) AND 1 = 0"
  by (simp add: and_one_eq flip: even_iff_mod_2_eq_zero)

lemma store16_simps [simp]:
  "v_cr (fpec_store16 n a x v) = v_cr v" "v_wrp (fpec_store16 n a x v) = v_wrp v"
  "v_key (fpec_store16 n a x v) = v_key v" "v_ar (fpec_store16 n a x v) = v_ar v"
  "fpec_store16 n a x (v\<lparr>v_cr := c\<rparr>) = (fpec_store16 n a x v)\<lparr>v_cr := c\<rparr>"
  "(fpec_store16 n a x v)\<lparr>v_busy := 0\<rparr> = fpec_store16 0 a x (v\<lparr>v_busy := 0\<rparr>)"
  "v_busy (fpec_store16 n a x v) \<le> max n (v_busy v)"
  "view_status (v\<lparr>v_cr := c\<rparr>) = view_status v"
  by (simp_all add: fpec_store16_def prog16_ok_def view_status_def)

lemma store16_status: "view_status (fpec_store16 n a x v) = view_status (fpec_store16 m a x v)"
  by (simp add: fpec_store16_def prog16_ok_def view_status_def)

lemma mass_erase_view:
  assumes "v_busy v = 0" and "\<not> (\<exists>p. v_wrp v p)"
  shows "(fpec_cr n 0x44 (v\<lparr>v_cr := 4\<rparr>))\<lparr>v_busy := 0\<rparr> =
      v\<lparr>v_eop := True, v_mem := (\<lambda>a. if in_flash a then 0xFF else v_mem v a), v_cr := 4\<rparr>"
    and "v_busy (fpec_cr n 0x44 (v\<lparr>v_cr := 4\<rparr>)) = n"
proof -
  let ?m = "\<lambda>a. if in_flash a then 0xFF else v_mem v a"
  have e: "fpec_cr n 0x44 (v\<lparr>v_cr := 4\<rparr>) = v\<lparr>v_cr := 4, v_busy := n, v_eop := True, v_mem := ?m\<rparr>"
    using assms(2) by (auto simp: fpec_cr_def reg_defs Let_def cong: if_cong)
  then show "v_busy (fpec_cr n 0x44 (v\<lparr>v_cr := 4\<rparr>)) = n" by simp
  have "v = v\<lparr>v_busy := 0\<rparr>" using assms(1) by simp
  then have "v\<lparr>v_eop := True, v_mem := ?m, v_cr := 4\<rparr> = v\<lparr>v_busy := 0, v_eop := True, v_mem := ?m, v_cr := 4\<rparr>"
    by (rule arg_cong)
  with e show "(fpec_cr n 0x44 (v\<lparr>v_cr := 4\<rparr>))\<lparr>v_busy := 0\<rparr> = v\<lparr>v_eop := True, v_mem := ?m, v_cr := 4\<rparr>"
    by simp
qed

context fpec
begin

lemma ErasePage_view:
  assumes "ready (view h)"
  obtains h' where "FLASH_ErasePage hw a h = (view_status (erase_view a (view h)), h')"
    and "view h' = erase_view a (view h)"
proof -
  note r = readyD [OF assms]
  have T: "0 < unat EraseTimeout" by (simp add: EraseTimeout_def)
  then obtain h1 where 1: "FLASH_WaitForLastOperation hw EraseTimeout h = (FLASH_COMPLETE, h1)"
    "view h1 = view h" using wait_for_last [of h EraseTimeout] r ready_status [OF assms] by force
  obtain n2 where 2: "view (or32 hw FLASH_CR CR_PER_Set h1) = fpec_cr n2 2 (view h)"
    using or_CR [of h1 CR_PER_Set] r 1 by (auto simp: reg_defs)
  define h3 where "h3 = wr32 hw FLASH_AR a (or32 hw FLASH_CR CR_PER_Set h1)"
  have 3: "view h3 = (view h)\<lparr>v_cr := 2, v_ar := a\<rparr>"
    using wr_AR [of "or32 hw FLASH_CR CR_PER_Set h1" a] 2 r by (simp add: h3_def fpec_cr_def reg_defs)
  then obtain n4 where 4: "n4 < unat EraseTimeout"
    "view (or32 hw FLASH_CR CR_STRT_Set h3) = fpec_cr n4 0x42 (view h3)"
    using or_CR [of h3 CR_STRT_Set] r by (auto simp: reg_defs v_locked_def)
  define h4 where "h4 = or32 hw FLASH_CR CR_STRT_Set h3"
  have v4: "(view h4)\<lparr>v_busy := 0\<rparr> = (erase_view a (view h))\<lparr>v_cr := 2\<rparr>" "v_busy (view h4) < unat EraseTimeout"
    using 3 4 r T by (auto simp: h4_def fpec_cr_def erase_view_def reg_defs Let_def)
  have s4: "view_status (view h4) = view_status (erase_view a (view h))"
    using arg_cong [OF v4(1), of view_status] by simp
  obtain h5 where 5: "FLASH_WaitForLastOperation hw EraseTimeout h4 = (view_status (view h4), h5)"
    "view h5 = (erase_view a (view h))\<lparr>v_cr := 2\<rparr>"
    using wait_for_last [OF v4(2)] v4(1) by metis
  have "v_busy (erase_view a (view h)) = 0" "v_cr (erase_view a (view h)) = 0"
    using r by (auto simp: erase_view_def)
  then have "view (and32 hw FLASH_CR CR_PER_Reset h5) = erase_view a (view h)"
    using and_CR [of h5 CR_PER_Reset] 5 by (simp add: reg_defs v_locked_def)
  with that 1 5 s4 show thesis
    by (simp add: FLASH_ErasePage_def h3_def [symmetric] h4_def [symmetric])
qed

lemma EraseAllPages_view:
  assumes "ready (view h)" and "\<And>p. \<not> v_wrp (view h) p"
  obtains h' where "FLASH_EraseAllPages hw h = (FLASH_COMPLETE, h')"
    and "view h' = (view h)\<lparr>v_eop := True, v_mem := (\<lambda>a. if in_flash a then 0xFF else v_mem (view h) a)\<rparr>"
proof -
  note r = readyD [OF assms(1)]
  let ?v = "(view h)\<lparr>v_eop := True, v_mem := (\<lambda>a. if in_flash a then 0xFF else v_mem (view h) a)\<rparr>"
  have wrp: "\<not> (\<exists>p. v_wrp (view h) p)" and "0 < unat EraseTimeout" using assms(2) by (simp_all add: EraseTimeout_def)
  then obtain h1 where 1: "FLASH_WaitForLastOperation hw EraseTimeout h = (FLASH_COMPLETE, h1)"
    "view h1 = view h" using wait_for_last [of h EraseTimeout] r ready_status [OF assms(1)] by force
  define h2 where "h2 = or32 hw FLASH_CR CR_MER_Set h1"
  have 2: "view h2 = (view h)\<lparr>v_cr := 4\<rparr>"
    using or_CR [of h1 CR_MER_Set] r 1 by (auto simp: h2_def fpec_cr_def reg_defs)
  define h3 where "h3 = or32 hw FLASH_CR CR_STRT_Set h2"
  obtain n3 where 3: "n3 < unat EraseTimeout" "view h3 = fpec_cr n3 0x44 (view h2)"
    using or_CR [of h2 CR_STRT_Set] r 2 by (auto simp: h3_def reg_defs v_locked_def)
  have v3: "(view h3)\<lparr>v_busy := 0\<rparr> = ?v\<lparr>v_cr := 4\<rparr>" "v_busy (view h3) < unat EraseTimeout"
    using 2 3 r(2) mass_erase_view [OF r(2) wrp, of n3] by simp_all
  have "view_status ((view h3)\<lparr>v_busy := 0\<rparr>) = FLASH_COMPLETE"
    unfolding v3(1) using r by (simp add: view_status_def)
  then have "view_status (view h3) = FLASH_COMPLETE" by simp
  then obtain h4 where 4: "FLASH_WaitForLastOperation hw EraseTimeout h3 = (FLASH_COMPLETE, h4)"
    "view h4 = ?v\<lparr>v_cr := 4\<rparr>"
    using wait_for_last [OF v3(2)] v3(1) by metis
  have "view (and32 hw FLASH_CR CR_MER_Reset h4) = ?v"
    using and_CR [of h4 CR_MER_Reset] 4 r by (simp add: reg_defs v_locked_def)
  with that 1 4 show thesis by (simp add: FLASH_EraseAllPages_def h2_def [symmetric] h3_def [symmetric])
qed

text \<open>A half-word store with the programming bit set, and the wait for its end.\<close>

lemma store_wait:
  assumes "v_cr (view h) = 1" "v_busy (view h) = 0" "in_flash a" "a AND 1 = 0"
  obtains h' where "FLASH_WaitForLastOperation hw ProgramTimeout (wr16 hw a x h) =
      (view_status (fpec_store16 0 a x (view h)), h')"
    and "view h' = fpec_store16 0 a x (view h)"
proof -
  have s: "view (wr16 hw a x h) = fpec_store16 (t_prog h) a x (view h)"
    using wr_array [of h a x] assms by (simp add: reg_defs v_locked_def)
  have b: "v_busy (view (wr16 hw a x h)) < unat ProgramTimeout"
    using prog_in_time [of h] store16_simps(7) [of "t_prog h" a x "view h"] assms(2) s by simp
  have "(view h)\<lparr>v_busy := 0\<rparr> = view h" using assms(2) by (cases "view h") simp
  then have "(view (wr16 hw a x h))\<lparr>v_busy := 0\<rparr> = fpec_store16 0 a x (view h)"
    using s by simp
  moreover have "view_status (view (wr16 hw a x h)) = view_status (fpec_store16 0 a x (view h))"
    using s store16_status by simp
  ultimately show thesis using wait_for_last [OF b] that by metis
qed

lemma set_PG:
  assumes "ready (view h)"
  obtains h' where "FLASH_WaitForLastOperation hw ProgramTimeout h = (FLASH_COMPLETE, h')"
    and "view (or32 hw FLASH_CR CR_PG_Set h') = (view h)\<lparr>v_cr := 1\<rparr>"
proof -
  note r = readyD [OF assms]
  have "0 < unat ProgramTimeout" by (simp add: ProgramTimeout_def)
  then obtain h1 where 1: "FLASH_WaitForLastOperation hw ProgramTimeout h = (FLASH_COMPLETE, h1)"
    "view h1 = view h" using wait_for_last [of h ProgramTimeout] r ready_status [OF assms] by force
  then have "view (or32 hw FLASH_CR CR_PG_Set h1) = (view h)\<lparr>v_cr := 1\<rparr>"
    using or_CR [of h1 CR_PG_Set] r by (auto simp: fpec_cr_def reg_defs)
  with 1 that show thesis by blast
qed

lemma clear_PG:
  assumes "v_cr (view h) = 1" "v_busy (view h) = 0"
  shows "view (and32 hw FLASH_CR CR_PG_Reset h) = (view h)\<lparr>v_cr := 0\<rparr>"
  using and_CR [of h CR_PG_Reset] assms by (simp add: reg_defs v_locked_def)

lemma store16_busy0: "v_busy v = 0 \<Longrightarrow> v_busy (fpec_store16 0 a x v) = 0"
  using store16_simps(7) [of 0 a x v] by simp

lemma store16_cr_undo: "v_cr v = c \<Longrightarrow> (fpec_store16 n a x v)\<lparr>v_cr := c\<rparr> = fpec_store16 n a x v"
  by (cases "fpec_store16 n a x v") (use store16_simps(1) [of n a x v] in auto)

lemma ProgramHalfWord_view:
  assumes "ready (view h)" "in_flash a" "a AND 1 = 0"
  obtains h' where "FLASH_ProgramHalfWord hw a x h = (view_status (fpec_store16 0 a x (view h)), h')"
    and "view h' = fpec_store16 0 a x (view h)"
proof -
  note r = readyD [OF assms(1)]
  let ?v = "fpec_store16 0 a x (view h)"
  obtain h1 where 1: "FLASH_WaitForLastOperation hw ProgramTimeout h = (FLASH_COMPLETE, h1)"
    "view (or32 hw FLASH_CR CR_PG_Set h1) = (view h)\<lparr>v_cr := 1\<rparr>"
    using set_PG [OF assms(1)] by blast
  then obtain h2 where 2: "FLASH_WaitForLastOperation hw ProgramTimeout
      (wr16 hw a x (or32 hw FLASH_CR CR_PG_Set h1)) = (view_status ?v, h2)" "view h2 = ?v\<lparr>v_cr := 1\<rparr>"
    using store_wait [of "or32 hw FLASH_CR CR_PG_Set h1" a x] r assms by auto
  have "view (and32 hw FLASH_CR CR_PG_Reset h2) = ?v"
    using clear_PG [of h2] 2 r by (simp add: store16_busy0 store16_cr_undo)
  with 1 2 that show thesis by (simp add: FLASH_ProgramHalfWord_def)
qed

lemma ProgramWord_view:
  assumes "ready (view h)" "in_flash a" "in_flash (a + 2)" "a AND 1 = 0"
  obtains h' where "FLASH_ProgramWord hw a w h = (view_status (program_view a w (view h)), h')"
    and "view h' = program_view a w (view h)"
proof -
  note r = readyD [OF assms(1)]
  let ?v1 = "fpec_store16 0 a (ucast w) (view h)"
  obtain h1 where 1: "FLASH_WaitForLastOperation hw ProgramTimeout h = (FLASH_COMPLETE, h1)"
    "view (or32 hw FLASH_CR CR_PG_Set h1) = (view h)\<lparr>v_cr := 1\<rparr>"
    using set_PG [OF assms(1)] by blast
  then obtain h2 where 2: "FLASH_WaitForLastOperation hw ProgramTimeout
      (wr16 hw a (ucast w) (or32 hw FLASH_CR CR_PG_Set h1)) = (view_status ?v1, h2)"
    "view h2 = ?v1\<lparr>v_cr := 1\<rparr>"
    using store_wait [of "or32 hw FLASH_CR CR_PG_Set h1" a "ucast w"] r assms by auto
  have b: "v_busy ?v1 = 0" using r by (simp add: store16_busy0)
  show thesis
  proof (cases "view_status ?v1 = FLASH_COMPLETE")
    case False
    have "view (and32 hw FLASH_CR CR_PG_Reset h2) = ?v1"
      using clear_PG [of h2] 2 r b by (simp add: store16_cr_undo)
    with False 1 2 that show thesis by (simp add: FLASH_ProgramWord_def program_view_def)
  next
    case True
    let ?v2 = "fpec_store16 0 (a + 2) (ucast (drop_bit 16 w)) ?v1"
    obtain h3 where 3: "FLASH_WaitForLastOperation hw ProgramTimeout
        (wr16 hw (a + 2) (ucast (drop_bit 16 w)) h2) = (view_status ?v2, h3)" "view h3 = ?v2\<lparr>v_cr := 1\<rparr>"
      using store_wait [of h2 "a + 2" "ucast (drop_bit 16 w)"] 2 b assms even_add_2 by auto
    have "view (and32 hw FLASH_CR CR_PG_Reset h3) = ?v2"
      using clear_PG [of h3] 3 r b by (simp add: store16_busy0 store16_cr_undo)
    with True 1 2 3 that show thesis by (simp add: FLASH_ProgramWord_def program_view_def)
  qed
qed

text \<open>Unlocking a controller that has seen no key since its reset, and locking an idle one.\<close>

lemma Unlock_view:
  assumes "v_locked (view h)" "v_key (view h) = 0"
  shows "view (FLASH_Unlock hw h) = (view h)\<lparr>v_key := 0, v_cr := v_cr (view h) AND NOT CR_LOCK_Set\<rparr>"
proof -
  have 1: "view (wr32 hw FLASH_KEYR FLASH_KEY1 h) = (view h)\<lparr>v_key := 1\<rparr>"
    using wr_KEYR [OF assms(1)] assms(2) by (simp add: fpec_key_def)
  with wr_KEYR [of "wr32 hw FLASH_KEYR FLASH_KEY1 h"] assms(1) show ?thesis
    by (simp add: FLASH_Unlock_def fpec_key_def v_locked_def)
qed

lemma Lock_view:
  assumes "v_cr (view h) = 0" "v_busy (view h) = 0"
  shows "view (FLASH_Lock hw h) = (view h)\<lparr>v_cr := CR_LOCK_Set\<rparr>"
  using or_CR [of h CR_LOCK_Set] assms
  by (auto simp: FLASH_Lock_def v_locked_def fpec_cr_def reg_defs)

end

text \<open>The state of the controller after a reset: locked, idle, no sticky error flag.\<close>

definition reset_view :: "fpec_view \<Rightarrow> bool" where
  "reset_view v \<longleftrightarrow> v_key v = 0 \<and> v_cr v = CR_LOCK_Set \<and> v_busy v = 0 \<and> \<not> v_pgerr v \<and> \<not> v_wrprterr v"

text \<open>Accesses outside the controller's registers and the array do not reach it.\<close>

definition off_flash :: "u32 \<Rightarrow> bool" where
  "off_flash r \<longleftrightarrow> \<not> (0x40022000 \<le> r \<and> r < 0x40022400) \<and> \<not> in_flash r"

locale fpec_soc = fpec hw view t_erase t_prog + bus_frame hw view off_flash
  for hw :: "'h mmio" and view :: "'h \<Rightarrow> fpec_view" and t_erase t_prog :: "'h \<Rightarrow> nat"
begin

lemma Unlock_reset:
  assumes "reset_view (view h)"
  shows "ready (view (FLASH_Unlock hw h))" "v_mem (view (FLASH_Unlock hw h)) = v_mem (view h)"
    "v_wrp (view (FLASH_Unlock hw h)) = v_wrp (view h)"
  using Unlock_view [of h] assms by (simp_all add: reset_view_def ready_def v_locked_def reg_defs)

lemma Lock_ready:
  assumes "ready (view h)"
  shows "reset_view (view (FLASH_Lock hw h))" "v_mem (view (FLASH_Lock hw h)) = v_mem (view h)"
    "v_wrp (view (FLASH_Lock hw h)) = v_wrp (view h)"
  using Lock_view [of h] assms by (simp_all add: reset_view_def ready_def)

end

end
