(* ===== verification/NorFlash.thy ===== *)
theory NorFlash
  imports Flash
begin

text \<open>
  The contract between the flash driver and its clients, the bootloader and the
  updater. The locale \<open>nor_flash\<close> fixes the two operations the clients call, a
  page erase and a word program, and states what they do to the flash contents;
  inside it the clients' two loops are verified once: erasing consecutive pages
  (\<open>erase_sector\<close> in both firmwares) and programming consecutive words
  (\<open>write_header\<close>, \<open>write_core_chunk\<close> and the copy loop of \<open>replace_core\<close>).
  Every controller that satisfies \<open>fpec\<close> provides the contract through
  \<open>FLASH_ErasePage\<close> and \<open>FLASH_ProgramWord\<close>. The theory ends with a reference
  controller, an executable instance of \<open>fpec\<close>.
\<close>

unbundle bit_operations_syntax

section \<open>The clients' loops\<close>

text \<open>\<open>STM32F107_PAGE_SIZE\<close> of \<open>flash_drv.c\<close> and \<open>updater.c\<close>.\<close>

definition STM32F107_PAGE_SIZE :: u32 where "STM32F107_PAGE_SIZE = 0x800"
definition STM32F107_LAST_PAGE_ADDR :: u32 where "STM32F107_LAST_PAGE_ADDR = 0x0803F800"

text \<open>The \<open>for\<close> loop of \<open>erase_sector\<close>: \<open>n\<close> pages from \<open>addr\<close>, result 2 on the first
  page that cannot be erased.\<close>

fun erase_pages :: "(u32 \<Rightarrow> 'h \<Rightarrow> FLASH_Status \<times> 'h) \<Rightarrow> nat \<Rightarrow> u32 \<Rightarrow> 'h \<Rightarrow> u8 \<times> 'h" where
  "erase_pages erase 0 addr h = (0, h)"
| "erase_pages erase (Suc n) addr h =
     (let (st, h) = erase addr h in
      if st \<noteq> FLASH_COMPLETE then (2, h)
      else erase_pages erase n (addr + STM32F107_PAGE_SIZE) h)"

text \<open>The programming loops: a list of words to consecutive addresses, stopping at the
  first word that cannot be programmed (\<open>False\<close>).\<close>

fun program_words :: "(u32 \<Rightarrow> u32 \<Rightarrow> 'h \<Rightarrow> FLASH_Status \<times> 'h) \<Rightarrow> u32 \<Rightarrow> u32 list \<Rightarrow> 'h \<Rightarrow> bool \<times> 'h" where
  "program_words prog addr [] h = (True, h)"
| "program_words prog addr (w # ws) h =
     (let (st, h) = prog addr w h in
      if st \<noteq> FLASH_COMPLETE then (False, h)
      else program_words prog (addr + 4) ws h)"

section \<open>Flash contents\<close>

text \<open>The pages \<open>p, p + 0x800, \<dots>\<close> erased one after the other; the words \<open>ws\<close> stored from \<open>a\<close>;
  the words found from \<open>a\<close>.\<close>

fun erase_region :: "u32 \<Rightarrow> nat \<Rightarrow> (u32 \<Rightarrow> u8) \<Rightarrow> u32 \<Rightarrow> u8" where
  "erase_region p 0 m = m"
| "erase_region p (Suc n) m = erase_region (p + STM32F107_PAGE_SIZE) n (erase_mem (page_of p) m)"

fun put_words :: "u32 \<Rightarrow> u32 list \<Rightarrow> (u32 \<Rightarrow> u8) \<Rightarrow> u32 \<Rightarrow> u8" where
  "put_words a [] m = m"
| "put_words a (w # ws) m = put_words (a + 4) ws (put32 a w m)"

fun get_words :: "u32 \<Rightarrow> nat \<Rightarrow> (u32 \<Rightarrow> u8) \<Rightarrow> u32 list" where
  "get_words a 0 m = []"
| "get_words a (Suc n) m = mem32 m a # get_words (a + 4) n m"

definition erased_at :: "(u32 \<Rightarrow> u8) \<Rightarrow> u32 \<Rightarrow> bool" where
  "erased_at m a \<longleftrightarrow> m a = 0xFF \<and> m (a + 1) = 0xFF \<and> m (a + 2) = 0xFF \<and> m (a + 3) = 0xFF"

text \<open>A word can be programmed: no page it touches is protected and each half word is
  erased or to become 0.\<close>

definition word_ok :: "(u32 \<Rightarrow> bool) \<Rightarrow> u32 \<Rightarrow> u32 \<Rightarrow> (u32 \<Rightarrow> u8) \<Rightarrow> bool" where
  "word_ok p a w m \<longleftrightarrow> \<not> p (page_of a) \<and> \<not> p (page_of (a + 2)) \<and>
     (m a = 0xFF \<and> m (a + 1) = 0xFF \<or> (ucast w :: u16) = 0) \<and>
     (m (a + 2) = 0xFF \<and> m (a + 3) = 0xFF \<or> (ucast (drop_bit 16 w) :: u16) = 0)"

lemma erased_word_ok: "erased_at m a \<Longrightarrow> \<not> p (page_of a) \<Longrightarrow> \<not> p (page_of (a + 2)) \<Longrightarrow> word_ok p a w m"
  by (simp add: word_ok_def erased_at_def)

section \<open>Ranges of flash addresses\<close>

definition flash_range :: "u32 \<Rightarrow> nat \<Rightarrow> bool" where
  "flash_range a n \<longleftrightarrow> 0x08000000 \<le> unat a \<and> unat a + n \<le> 0x08040000"

lemma flash_range_unat:
  assumes "flash_range a n" "k \<le> n"
  shows "unat (a + of_nat k) = unat a + k"
proof -
  have "unat (of_nat k :: u32) = k"
    using assms by (simp add: flash_range_def unat_of_nat take_bit_nat_eq_self)
  with assms show ?thesis
    by (simp add: flash_range_def unat_word_ariths)
qed

lemma flash_range_in_flash:
  assumes "flash_range a n" "k < n"
  shows "in_flash (a + of_nat k)"
  using flash_range_unat [OF assms(1), of k] assms
  by (simp add: in_flash_def flash_range_def word_le_nat_alt word_less_nat_alt)

lemma flash_range_inj:
  assumes "flash_range a n" "j \<le> n" "k \<le> n"
  shows "a + of_nat j = a + of_nat k \<longleftrightarrow> j = k"
  using flash_range_unat [OF assms(1,2)] flash_range_unat [OF assms(1,3)]
  by (metis add_left_cancel)

lemma flash_range_shift: "flash_range a (m + n) \<Longrightarrow> flash_range (a + of_nat m) n"
  using flash_range_unat [of a "m + n" m] by (simp add: flash_range_def)

lemma flash_range_mono: "flash_range a n \<Longrightarrow> m \<le> n \<Longrightarrow> flash_range a m"
  by (simp add: flash_range_def)

lemma flash_range_4: "flash_range a (4 * Suc n) \<Longrightarrow> flash_range (a + 4) (4 * n)"
  using flash_range_shift [of a 4 "4 * n"] by simp

lemma flash_range_word:
  assumes "flash_range a n" "4 \<le> n"
  shows "in_flash a" "in_flash (a + 2)"
  using flash_range_in_flash [OF assms(1), of 0] flash_range_in_flash [OF assms(1), of 2] assms(2)
  by simp_all

text \<open>A word store changes the four bytes at its address only.\<close>

lemma put32_other:
  assumes "flash_range a n" "4 \<le> n" "4 \<le> k" "k \<le> n"
  shows "put32 a w m (a + of_nat k) = m (a + of_nat k)"
  using flash_range_inj [OF assms(1), of k] assms(2-4)
    flash_range_inj [OF assms(1), of k 0] flash_range_inj [OF assms(1), of k 1]
    flash_range_inj [OF assms(1), of k 2] flash_range_inj [OF assms(1), of k 3]
  by (simp add: put32_def)

lemma put32_out:
  assumes "flash_range a n" "4 \<le> n" "\<not> (unat a \<le> unat x \<and> unat x < unat a + 4)"
  shows "put32 a w m x = m x"
  using assms flash_range_unat [OF assms(1), of 1] flash_range_unat [OF assms(1), of 2]
    flash_range_unat [OF assms(1), of 3]
  by (auto simp: put32_def)

lemma put_words_out:
  assumes "flash_range a (4 * length ws)" "\<not> (unat a \<le> unat x \<and> unat x < unat a + 4 * length ws)"
  shows "put_words a ws m x = m x"
  using assms
proof (induction ws arbitrary: a m)
  case (Cons w ws)
  have "unat (a + 4) = unat a + 4" using flash_range_unat [OF Cons.prems(1), of 4] by simp
  moreover have "put32 a w m x = m x" using put32_out [OF Cons.prems(1), of x] Cons.prems(2) by auto
  moreover have "\<not> (unat a + 4 \<le> unat x \<and> unat x < unat a + 4 + 4 * length ws)"
    using Cons.prems(2) by auto
  ultimately show ?case using Cons.IH [of "a + 4"] flash_range_4 [of a "length ws"] Cons.prems by simp
qed simp

lemma get_put_words:
  assumes "flash_range a (4 * length ws)"
  shows "get_words a (length ws) (put_words a ws m) = ws"
  using assms
proof (induction ws arbitrary: a m)
  case (Cons w ws)
  have r: "flash_range (a + 4) (4 * length ws)" using Cons.prems flash_range_4 [of a "length ws"] by simp
  have u: "unat (a + 4) = unat a + 4" "unat (a + 1) = unat a + 1" "unat (a + 2) = unat a + 2"
    "unat (a + 3) = unat a + 3"
    using flash_range_unat [OF Cons.prems, of 4] flash_range_unat [OF Cons.prems, of 1]
      flash_range_unat [OF Cons.prems, of 2] flash_range_unat [OF Cons.prems, of 3] by simp_all
  have "mem32 (put_words (a + 4) ws (put32 a w m)) a = mem32 (put32 a w m) a"
    using r u by (simp add: mem32_def put_words_out)
  with Cons.IH [OF r] show ?case by simp
qed simp

lemma get_words_cong:
  assumes "flash_range a (4 * n)" "\<And>k. k < 4 * n \<Longrightarrow> m (a + of_nat k) = m' (a + of_nat k)"
  shows "get_words a n m = get_words a n m'"
  using assms
proof (induction n arbitrary: a)
  case (Suc n)
  have "m (a + 4 + of_nat k) = m' (a + 4 + of_nat k)" if "k < 4 * n" for k
    using Suc.prems(2) [of "4 + k"] that by (simp add: algebra_simps)
  moreover have "mem32 m a = mem32 m' a"
    using Suc.prems(2) [of 0] Suc.prems(2) [of 1] Suc.prems(2) [of 2] Suc.prems(2) [of 3]
    by (simp add: mem32_def)
  ultimately show ?case using Suc.IH [OF flash_range_4 [OF Suc.prems(1)]] by simp
qed simp

lemma get_words_2: "get_words a 2 m = [mem32 m a, mem32 m (a + 4)]"
  by (simp add: eval_nat_numeral)

lemma get_words_split: "get_words a (n + k) m = get_words a n m @ get_words (a + 4 * of_nat n) k m"
  by (induction n arbitrary: a) (simp_all add: algebra_simps)

lemma length_get_words [simp]: "length (get_words a n m) = n"
  by (induction n arbitrary: a) auto

section \<open>Pages\<close>

lemma unat_page_of: "unat (page_of a) = unat a div 2048 * 2048"
proof -
  have m: "(0xFFFFF800 :: u32) = NOT (mask 11)" by (simp add: mask_eq_exp_minus_1)
  have "page_of a = push_bit 11 (drop_bit 11 a)"
    unfolding page_of_def m by (intro bit_word_eqI) (auto simp: bit_simps)
  moreover have "unat (drop_bit 11 a) = unat a div 2048"
    by (simp add: drop_bit_eq_div unat_div)
  moreover have "unat a < 2 ^ LENGTH(32)" by (rule unsigned_less)
  ultimately show ?thesis
    by (simp add: push_bit_eq_mult unat_word_ariths less_mult_imp_div_less)
qed

lemma page_of_iff:
  assumes "unat p mod 2048 = 0"
  shows "page_of x = p \<longleftrightarrow> unat p \<le> unat x \<and> unat x < unat p + 2048"
  using assms by (auto simp: word_unat_eq_iff unat_page_of)

lemma erase_region_apply:
  assumes "flash_range p (n * 2048)" "unat p mod 2048 = 0"
  shows "erase_region p n m x =
    (if unat p \<le> unat x \<and> unat x < unat p + n * 2048 then 0xFF else m x)"
  using assms
proof (induction n arbitrary: p m)
  case (Suc n)
  have u: "unat (p + 0x800) = unat p + 2048"
    using flash_range_unat [OF Suc.prems(1), of 2048] by simp
  moreover have "flash_range (p + 0x800) (n * 2048)"
    using flash_range_shift [of p 2048 "n * 2048"] Suc.prems(1) by simp
  moreover have "page_of p = p" using page_of_iff [OF Suc.prems(2), of p] by simp
  ultimately show ?case
    using Suc.IH [of "p + 0x800"] Suc.prems(2) page_of_iff [OF Suc.prems(2), of x]
    by (auto simp: STM32F107_PAGE_SIZE_def erase_mem_def)
qed auto

section \<open>The contract\<close>

locale nor_flash =
  fixes erase :: "u32 \<Rightarrow> 'h \<Rightarrow> FLASH_Status \<times> 'h"
    and prog :: "u32 \<Rightarrow> u32 \<Rightarrow> 'h \<Rightarrow> FLASH_Status \<times> 'h"
    and rdy :: "'h \<Rightarrow> bool"
    and mem :: "'h \<Rightarrow> u32 \<Rightarrow> u8"
    and wrp :: "'h \<Rightarrow> u32 \<Rightarrow> bool"
  assumes erase_ok: "rdy h \<Longrightarrow> \<not> wrp h (page_of a) \<Longrightarrow>
      \<exists>h'. erase a h = (FLASH_COMPLETE, h') \<and> rdy h' \<and> wrp h' = wrp h \<and>
        mem h' = erase_mem (page_of a) (mem h)"
    and erase_protected: "rdy h \<Longrightarrow> wrp h (page_of a) \<Longrightarrow>
      \<exists>h'. erase a h = (FLASH_ERROR_WRP, h') \<and> wrp h' = wrp h \<and> mem h' = mem h"
    and prog_ok: "rdy h \<Longrightarrow> in_flash a \<Longrightarrow> in_flash (a + 2) \<Longrightarrow> a AND 1 = 0 \<Longrightarrow>
      word_ok (wrp h) a w (mem h) \<Longrightarrow>
      \<exists>h'. prog a w h = (FLASH_COMPLETE, h') \<and> rdy h' \<and> wrp h' = wrp h \<and> mem h' = put32 a w (mem h)"
    and prog_refused: "rdy h \<Longrightarrow> in_flash a \<Longrightarrow> in_flash (a + 2) \<Longrightarrow> a AND 1 = 0 \<Longrightarrow>
      \<not> word_ok (wrp h) a w (mem h) \<Longrightarrow>
      \<exists>s h'. prog a w h = (s, h') \<and> s \<noteq> FLASH_COMPLETE \<and> wrp h' = wrp h \<and>
        (mem h' = mem h \<or> mem h' = put16 a (ucast w) (mem h))"
begin

lemma erase_pages_ok:
  assumes "rdy h" and "\<And>k. k < n \<Longrightarrow> \<not> wrp h (page_of (a + of_nat k * STM32F107_PAGE_SIZE))"
  shows "\<exists>h'. erase_pages erase n a h = (0, h') \<and> rdy h' \<and> wrp h' = wrp h \<and>
    mem h' = erase_region a n (mem h)"
  using assms
proof (induction n arbitrary: a h)
  case (Suc n)
  from Suc.prems(2) [of 0] erase_ok [OF Suc.prems(1)] obtain h1 where
    1: "erase a h = (FLASH_COMPLETE, h1)" "rdy h1" "wrp h1 = wrp h" "mem h1 = erase_mem (page_of a) (mem h)"
    by auto
  have "\<not> wrp h1 (page_of (a + STM32F107_PAGE_SIZE + of_nat k * STM32F107_PAGE_SIZE))" if "k < n" for k
    using Suc.prems(2) [of "Suc k"] that 1(3) by (simp add: algebra_simps)
  from Suc.IH [OF 1(2) this] 1 show ?case by simp
qed simp

lemma erase_pages_protected:
  assumes "rdy h" and "k < n" and "wrp h (page_of (a + of_nat k * STM32F107_PAGE_SIZE))"
  shows "fst (erase_pages erase n a h) = 2"
  using assms
proof (induction n arbitrary: a h k)
  case (Suc n)
  show ?case
  proof (cases "wrp h (page_of a)")
    case True
    with erase_protected [OF Suc.prems(1)] show ?thesis by fastforce
  next
    case False
    with erase_ok [OF Suc.prems(1)] obtain h1 where
      1: "erase a h = (FLASH_COMPLETE, h1)" "rdy h1" "wrp h1 = wrp h" by blast
    from False Suc.prems obtain j where "k = Suc j" by (cases k) auto
    with Suc.IH [OF 1(2), of j "a + STM32F107_PAGE_SIZE"] Suc.prems 1 show ?thesis
      by (simp add: algebra_simps)
  qed
qed simp

lemma program_words_ok:
  assumes "rdy h" and "flash_range a (4 * length ws)" and "a AND 1 = 0"
    and "\<And>k. k < 4 * length ws \<Longrightarrow> mem h (a + of_nat k) = 0xFF"
    and "\<And>k. k < 4 * length ws \<Longrightarrow> \<not> wrp h (page_of (a + of_nat k))"
  shows "\<exists>h'. program_words prog a ws h = (True, h') \<and> rdy h' \<and> wrp h' = wrp h \<and>
    mem h' = put_words a ws (mem h)"
  using assms
proof (induction ws arbitrary: a h)
  case (Cons w ws)
  have e: "erased_at (mem h) a"
    using Cons.prems(4) [of 0] Cons.prems(4) [of 1] Cons.prems(4) [of 2] Cons.prems(4) [of 3]
    by (simp add: erased_at_def)
  have "word_ok (wrp h) a w (mem h)"
    using erased_word_ok [OF e] Cons.prems(5) [of 0] Cons.prems(5) [of 2] by simp
  with prog_ok [OF Cons.prems(1)] flash_range_word [OF Cons.prems(2)] Cons.prems(3) obtain h1 where
    1: "prog a w h = (FLASH_COMPLETE, h1)" "rdy h1" "wrp h1 = wrp h" "mem h1 = put32 a w (mem h)"
    by fastforce
  have "mem h1 (a + 4 + of_nat k) = 0xFF" if "k < 4 * length ws" for k
    using put32_other [OF Cons.prems(2), of "4 + k" w "mem h"] Cons.prems(4) [of "4 + k"] that 1(4)
    by (simp add: algebra_simps)
  moreover have "\<not> wrp h1 (page_of (a + 4 + of_nat k))" if "k < 4 * length ws" for k
    using Cons.prems(5) [of "4 + k"] that 1(3) by (simp add: algebra_simps)
  moreover have "(a + 4) AND 1 = 0"
    using even_add_2 [OF even_add_2 [OF Cons.prems(3)]] by (simp add: add.assoc)
  ultimately show ?case
    using Cons.IH [of h1 "a + 4"] 1 flash_range_4 [of a "length ws"] Cons.prems(2) by simp
qed simp

lemma program_words_append:
  "program_words prg a (us @ vs) h =
     (let (ok, h1) = program_words prg a us h
      in if ok then program_words prg (a + 4 * of_nat (length us)) vs h1 else (False, h1))"
  by (induction us arbitrary: a h) (auto simp: algebra_simps split: prod.splits)

text \<open>Whatever happens, the loop writes inside its range only.\<close>

lemma program_words_frame:
  assumes "rdy h" and "flash_range a (4 * length ws)" and "a AND 1 = 0"
    and "program_words prog a ws h = (b, h')"
    and "\<not> (unat a \<le> unat x \<and> unat x < unat a + 4 * length ws)"
  shows "mem h' x = mem h x \<and> wrp h' = wrp h \<and> (b \<longrightarrow> rdy h')"
  using assms
proof (induction ws arbitrary: a h)
  case (Cons w ws)
  note fr = flash_range_word [OF Cons.prems(2)]
  have out: "put32 a w (mem h) x = mem h x" "put16 a (ucast w) (mem h) x = mem h x"
    using put32_out [OF Cons.prems(2), of x] Cons.prems(5) flash_range_unat [OF Cons.prems(2), of 1]
    by (auto simp: put16_def)
  show ?case
  proof (cases "word_ok (wrp h) a w (mem h)")
    case True
    with prog_ok [OF Cons.prems(1)] fr Cons.prems(3) obtain h1 where
      1: "prog a w h = (FLASH_COMPLETE, h1)" "rdy h1" "wrp h1 = wrp h" "mem h1 = put32 a w (mem h)"
      by fastforce
    have "(a + 4) AND 1 = 0"
      using even_add_2 [OF even_add_2 [OF Cons.prems(3)]] by (simp add: add.assoc)
    moreover have "unat (a + 4) = unat a + 4" using flash_range_unat [OF Cons.prems(2), of 4] by simp
    moreover have "\<not> (unat a + 4 \<le> unat x \<and> unat x < unat a + 4 + 4 * length ws)"
      using Cons.prems(5) by auto
    ultimately show ?thesis
      using Cons.IH [of h1 "a + 4"] 1 flash_range_4 [of a "length ws"] Cons.prems out by simp
  next
    case False
    with prog_refused [OF Cons.prems(1)] fr Cons.prems(3) obtain s h1 where
      "prog a w h = (s, h1)" "s \<noteq> FLASH_COMPLETE" "wrp h1 = wrp h"
      "mem h1 = mem h \<or> mem h1 = put16 a (ucast w) (mem h)" by fastforce
    with Cons.prems(4) out show ?thesis by auto
  qed
qed auto

lemma program_words_refused:
  assumes "rdy h" and "flash_range a 4" and "a AND 1 = 0" and "\<not> word_ok (wrp h) a w (mem h)"
  shows "fst (program_words prog a (w # ws) h) = False"
  using prog_refused [OF assms(1) flash_range_word [OF assms(2) order_refl] assms(3,4)] by auto

end

section \<open>The driver fulfils the contract\<close>

lemma erase_view_ready:
  assumes "ready v"
  shows "v_wrp (erase_view a v) = v_wrp v"
    and "\<not> v_wrp v (page_of a) \<Longrightarrow> ready (erase_view a v) \<and> view_status (erase_view a v) = FLASH_COMPLETE \<and>
      v_mem (erase_view a v) = erase_mem (page_of a) (v_mem v)"
    and "v_wrp v (page_of a) \<Longrightarrow> view_status (erase_view a v) = FLASH_ERROR_WRP \<and> v_mem (erase_view a v) = v_mem v"
  using assms by (simp_all add: erase_view_def ready_def view_status_def)

lemma program_view_ok:
  assumes "ready v" "word_ok (v_wrp v) a w (v_mem v)"
  shows "ready (program_view a w v)" "view_status (program_view a w v) = FLASH_COMPLETE"
    "v_wrp (program_view a w v) = v_wrp v" "v_mem (program_view a w v) = put32 a w (v_mem v)"
proof -
  let ?v1 = "fpec_store16 0 a (ucast w) v"
  have "prog16_ok a (ucast w) v" using assms(2) by (auto simp: word_ok_def prog16_ok_def)
  then have 1: "?v1 = v\<lparr>v_busy := 0, v_eop := True, v_mem := put16 a (ucast w) (v_mem v)\<rparr>"
    using assms(2) by (simp add: fpec_store16_def word_ok_def)
  have "prog16_ok (a + 2) (ucast (drop_bit 16 w)) ?v1"
    using assms(2) 1 by (auto simp: word_ok_def prog16_ok_def put16_def add.assoc)
  then have "program_view a w v = v\<lparr>v_busy := 0, v_eop := True, v_mem := put32 a w (v_mem v)\<rparr>"
    using assms 1 by (simp add: program_view_def fpec_store16_def word_ok_def put16_put16 ready_def view_status_def Let_def)
  with assms(1) show "ready (program_view a w v)" "view_status (program_view a w v) = FLASH_COMPLETE"
    "v_wrp (program_view a w v) = v_wrp v" "v_mem (program_view a w v) = put32 a w (v_mem v)"
    by (simp_all add: ready_def view_status_def)
qed

lemma program_view_refused:
  assumes "ready v" "\<not> word_ok (v_wrp v) a w (v_mem v)"
  shows "view_status (program_view a w v) \<noteq> FLASH_COMPLETE" "v_wrp (program_view a w v) = v_wrp v"
    "v_mem (program_view a w v) = v_mem v \<or> v_mem (program_view a w v) = put16 a (ucast w) (v_mem v)"
proof -
  have put: "put16 a x m (a + 2) = m (a + 2)" "put16 a x m (a + 3) = m (a + 3)" for x m
    by (simp_all add: put16_def)
  show "view_status (program_view a w v) \<noteq> FLASH_COMPLETE"
    using assms put
    by (auto simp: program_view_def fpec_store16_def prog16_ok_def word_ok_def ready_def view_status_def add.assoc Let_def)
  show "v_wrp (program_view a w v) = v_wrp v"
    by (simp add: program_view_def Let_def)
  show "v_mem (program_view a w v) = v_mem v \<or> v_mem (program_view a w v) = put16 a (ucast w) (v_mem v)"
    using assms put
    by (auto simp: program_view_def fpec_store16_def prog16_ok_def word_ok_def ready_def view_status_def add.assoc Let_def)
qed

sublocale fpec \<subseteq> nor: nor_flash "FLASH_ErasePage hw" "FLASH_ProgramWord hw"
  "\<lambda>h. ready (view h)" "\<lambda>h. v_mem (view h)" "\<lambda>h. v_wrp (view h)"
proof
  fix h a
  assume r: "ready (view h)"
  obtain h' where h': "FLASH_ErasePage hw a h = (view_status (erase_view a (view h)), h')"
    "view h' = erase_view a (view h)" using ErasePage_view [OF r] by blast
  show "\<exists>h'. FLASH_ErasePage hw a h = (FLASH_COMPLETE, h') \<and> ready (view h') \<and>
      v_wrp (view h') = v_wrp (view h) \<and> v_mem (view h') = erase_mem (page_of a) (v_mem (view h))"
    if "\<not> v_wrp (view h) (page_of a)"
    using h' that erase_view_ready [OF r, of a] by simp
  show "\<exists>h'. FLASH_ErasePage hw a h = (FLASH_ERROR_WRP, h') \<and>
      v_wrp (view h') = v_wrp (view h) \<and> v_mem (view h') = v_mem (view h)"
    if "v_wrp (view h) (page_of a)"
    using h' that erase_view_ready [OF r, of a] by simp
next
  fix h a w
  assume "ready (view h)" "in_flash a" "in_flash (a + 2)" "a AND 1 = 0"
  then obtain h' where h': "FLASH_ProgramWord hw a w h = (view_status (program_view a w (view h)), h')"
    "view h' = program_view a w (view h)" using ProgramWord_view by blast
  show "\<exists>h'. FLASH_ProgramWord hw a w h = (FLASH_COMPLETE, h') \<and> ready (view h') \<and>
      v_wrp (view h') = v_wrp (view h) \<and> v_mem (view h') = put32 a w (v_mem (view h))"
    if "word_ok (v_wrp (view h)) a w (v_mem (view h))"
    using h' that program_view_ok [OF \<open>ready (view h)\<close>] by simp
  show "\<exists>s h'. FLASH_ProgramWord hw a w h = (s, h') \<and> s \<noteq> FLASH_COMPLETE \<and>
      v_wrp (view h') = v_wrp (view h) \<and>
      (v_mem (view h') = v_mem (view h) \<or> v_mem (view h') = put16 a (ucast w) (v_mem (view h)))"
    if "\<not> word_ok (v_wrp (view h)) a w (v_mem (view h))"
    using h' that program_view_refused [OF \<open>ready (view h)\<close>] by simp
qed

section \<open>Areas of the flash\<close>

definition writable :: "fpec_view \<Rightarrow> u32 \<Rightarrow> nat \<Rightarrow> bool" where
  "writable v a n \<longleftrightarrow> (\<forall>k < n. \<not> v_wrp v (page_of (a + of_nat k)))"

lemma writable_page:
  "writable v a (n * 2048) \<Longrightarrow> k < n \<Longrightarrow> \<not> v_wrp v (page_of (a + of_nat k * STM32F107_PAGE_SIZE))"
  unfolding writable_def STM32F107_PAGE_SIZE_def
  by (drule spec [of _ "k * 2048"]) simp

lemma writable_none [simp]: "v_wrp v = (\<lambda>_. False) \<Longrightarrow> writable v a n"
  by (simp add: writable_def)

definition blank :: "(u32 \<Rightarrow> u8) \<Rightarrow> u32 \<Rightarrow> nat \<Rightarrow> bool" where
  "blank m a n \<longleftrightarrow> (\<forall>k < n. m (a + of_nat k) = 0xFF)"

lemma put_words_append:
  "put_words a (us @ vs) m = put_words (a + 4 * of_nat (length us)) vs (put_words a us m)"
  by (induction us arbitrary: a m) (simp_all add: algebra_simps)

lemma area_split:
  "blank m a (i + j) \<longleftrightarrow> blank m a i \<and> blank m (a + of_nat i) j"
  "writable v a (i + j) \<longleftrightarrow> writable v a i \<and> writable v (a + of_nat i) j"
proof -
  have split: "(\<forall>k < i + j. P (a + of_nat k)) \<longleftrightarrow> (\<forall>k < i. P (a + of_nat k)) \<and> (\<forall>k < j. P (a + of_nat i + of_nat k))"
    for P :: "u32 \<Rightarrow> bool"
  proof safe
    fix k assume "\<forall>k < i. P (a + of_nat k)" "\<forall>k < j. P (a + of_nat i + of_nat k)" "k < i + j"
    then show "P (a + of_nat k)"
      by (cases "k < i") (auto simp: not_less add.assoc dest!: le_Suc_ex)
  next
    fix k assume *: "\<forall>k < i + j. P (a + of_nat k)" and "k < j"
    then show "P (a + of_nat i + of_nat k)" using * [rule_format, of "i + k"] by (simp add: add.assoc)
  qed simp
  show "blank m a (i + j) \<longleftrightarrow> blank m a i \<and> blank m (a + of_nat i) j"
    unfolding blank_def by (rule split)
  show "writable v a (i + j) \<longleftrightarrow> writable v a i \<and> writable v (a + of_nat i) j"
    unfolding writable_def by (rule split)
qed

text \<open>Words programmed at the start of an area leave the rest of it blank.\<close>

lemma blank_put_words:
  assumes "flash_range a (4 * length ws + n)" "blank m (a + of_nat (4 * length ws)) n"
  shows "blank (put_words a ws m) (a + of_nat (4 * length ws)) n"
  unfolding blank_def
proof (intro allI impI)
  fix k assume k: "k < n"
  have "unat (a + of_nat (4 * length ws) + of_nat k) = unat a + 4 * length ws + k"
    using flash_range_unat [OF assms(1), of "4 * length ws + k"] k by (simp add: add.assoc)
  then show "put_words a ws m (a + of_nat (4 * length ws) + of_nat k) = 0xFF"
    using put_words_out [OF flash_range_mono [OF assms(1), of "4 * length ws"]] assms(2) k
    by (simp add: blank_def)
qed

text \<open>The bound check of \<open>erase_sector\<close> passes for areas that end below the last page.\<close>

lemma last_addr_ok:
  assumes "unat start + unat (n :: u8) * 2048 \<le> 0x0803F800"
  shows "\<not> start + ucast n * STM32F107_PAGE_SIZE > STM32F107_LAST_PAGE_ADDR"
proof -
  have "unat (start + ucast n * STM32F107_PAGE_SIZE) = unat start + unat n * 2048"
    using assms by (simp add: STM32F107_PAGE_SIZE_def unat_word_ariths)
  with assms show ?thesis by (simp add: word_less_nat_alt STM32F107_LAST_PAGE_ADDR_def)
qed

context fpec
begin

lemmas device_contract = nor.erase_ok nor.erase_protected nor.prog_ok nor.prog_refused

lemma erase_area:
  assumes "ready (view h)" "writable (view h) a (n * 2048)"
  obtains h' where "erase_pages (FLASH_ErasePage hw) n a h = (0, h')" and "ready (view h')"
    and "v_wrp (view h') = v_wrp (view h)" and "v_mem (view h') = erase_region a n (v_mem (view h))"
  using nor.erase_pages_ok [OF assms(1) writable_page [OF assms(2)]] by blast

lemma program_refused:
  assumes "ready (view h)" "flash_range a 4" "a AND 1 = 0" "\<not> word_ok (v_wrp (view h)) a w (v_mem (view h))"
  obtains h' where "program_words (FLASH_ProgramWord hw) a (w # ws) h = (False, h')"
  using nor.program_words_refused [OF assms, of ws] by (metis prod.collapse)

lemma program_blank:
  assumes "ready (view h)" "flash_range a (4 * length ws)" "a AND 1 = 0"
    and "blank (v_mem (view h)) a (4 * length ws)" "writable (view h) a (4 * length ws)"
  obtains h' where "program_words (FLASH_ProgramWord hw) a ws h = (True, h')" and "ready (view h')"
    and "v_wrp (view h') = v_wrp (view h)" and "v_mem (view h') = put_words a ws (v_mem (view h))"
  using nor.program_words_ok [OF assms(1-3)] assms(4,5) by (auto simp: blank_def writable_def)

lemma ld32_mem:
  assumes "flash_range a 4"
  shows "ld32 hw a h = mem32 (v_mem (view h)) a"
proof -
  have "in_flash (a + of_nat k)" if "k < 4" for k using flash_range_in_flash [OF assms that] .
  from this [of 0] this [of 1] this [of 2] this [of 3] show ?thesis
    by (simp add: ld32_def mem32_def ld_array)
qed

end

section \<open>A reference controller\<close>

text \<open>
  The documented controller as an executable machine: its bus decodes the addresses of the
  controller's registers and of the flash array; a page erase keeps it busy for three status
  reads and a half-word store for two. Every other access leaves it unchanged.
\<close>

definition sim_rd32 :: "u32 \<Rightarrow> fpec_view \<Rightarrow> u32 \<times> fpec_view" where
  "sim_rd32 r v =
     (if r = FLASH_SR then (fpec_sr v, v\<lparr>v_busy := v_busy v - 1\<rparr>)
      else if r = FLASH_CR then (v_cr v, v) else (0, v))"

definition sim_wr32 :: "u32 \<Rightarrow> u32 \<Rightarrow> fpec_view \<Rightarrow> fpec_view" where
  "sim_wr32 r x v =
     (if r = FLASH_KEYR then (if v_locked v then fpec_key x v else v)
      else if r = FLASH_AR then v\<lparr>v_ar := x\<rparr>
      else if r = FLASH_CR then (if v_locked v then v else fpec_cr 3 x v)
      else v)"

definition sim_wr16 :: "u32 \<Rightarrow> u16 \<Rightarrow> fpec_view \<Rightarrow> fpec_view" where
  "sim_wr16 a x v =
     (if in_flash a \<and> \<not> v_locked v \<and> v_cr v AND CR_PG_Set \<noteq> 0 then fpec_store16 2 a x v else v)"

definition sim_hw :: "fpec_view mmio" where
  "sim_hw = \<lparr>rd32 = sim_rd32, wr32 = sim_wr32, wr16 = sim_wr16, wr8 = (\<lambda>_ _ v. v), ld8 = (\<lambda>a v. v_mem v a)\<rparr>"

interpretation sim: fpec_soc sim_hw "\<lambda>v. v" "\<lambda>_. 3" "\<lambda>_. 2"
  by unfold_locales
    (auto simp: off_flash_def sim_hw_def sim_rd32_def sim_wr32_def sim_wr16_def flash_addr_defs
      EraseTimeout_def ProgramTimeout_def)

text \<open>The reference controller after a reset, with given flash contents and protected pages.\<close>

definition sim_reset :: "(u32 \<Rightarrow> bool) \<Rightarrow> (u32 \<Rightarrow> u8) \<Rightarrow> fpec_view" where
  "sim_reset p m = \<lparr>v_key = 0, v_cr = CR_LOCK_Set, v_ar = 0, v_busy = 0, v_eop = False,
     v_pgerr = False, v_wrprterr = False, v_wrp = p, v_mem = m\<rparr>"

lemma sim_reset_simps [simp]:
  "reset_view (sim_reset p m)" "v_mem (sim_reset p m) = m" "v_wrp (sim_reset p m) = p"
  by (simp_all add: sim_reset_def reset_view_def)

text \<open>The reference controller between two operations of the driver.\<close>

definition sim_ready :: "(u32 \<Rightarrow> bool) \<Rightarrow> (u32 \<Rightarrow> u8) \<Rightarrow> fpec_view" where
  "sim_ready p m = (sim_reset p m)\<lparr>v_cr := 0\<rparr>"

lemma sim_ready_simps [simp]:
  "ready (sim_ready p m)" "v_mem (sim_ready p m) = m" "v_wrp (sim_ready p m) = p" "v_busy (sim_ready p m) = 0"
  by (simp_all add: sim_ready_def sim_reset_def ready_def)

section \<open>Properties of the driver\<close>

text \<open>C34: A word program. On an erased word of an unprotected page FLASH_ProgramWord reports
  FLASH_COMPLETE, the word reads back as written, every other byte keeps its value and the
  controller is ready for the next operation. Where a half word is neither erased nor to be
  written as 0, or its page is protected, the result is an error, and at most the lower half
  word has been written.\<close>

theorem FLASH_ProgramWord_contract:
  assumes "fpec hw view t_erase t_prog" and "ready (view h)" and "flash_range a 4" and "a AND 1 = 0"
  shows "if word_ok (v_wrp (view h)) a w (v_mem (view h))
    then \<exists>h'. FLASH_ProgramWord hw a w h = (FLASH_COMPLETE, h') \<and> ready (view h') \<and> ld32 hw a h' = w \<and>
      v_mem (view h') = put32 a w (v_mem (view h))
    else \<exists>s h'. FLASH_ProgramWord hw a w h = (s, h') \<and> s \<noteq> FLASH_COMPLETE \<and>
      (v_mem (view h') = v_mem (view h) \<or> v_mem (view h') = put16 a (ucast w) (v_mem (view h)))"
proof (cases "word_ok (v_wrp (view h)) a w (v_mem (view h))")
  case True
  then obtain h' where "FLASH_ProgramWord hw a w h = (FLASH_COMPLETE, h')" "ready (view h')"
    "v_mem (view h') = put32 a w (v_mem (view h))"
    using fpec.device_contract(3) [OF assms(1,2) flash_range_word [OF assms(3) order.refl] assms(4)] by blast
  with True fpec.ld32_mem [OF assms(1,3), of h'] show ?thesis by (simp add: mem32_put32)
next
  case False
  then show ?thesis
    using fpec.device_contract(4) [OF assms(1,2) flash_range_word [OF assms(3) order.refl] assms(4) False]
    by (simp only: if_False) blast
qed

theorem FLASH_ProgramWord_contract_witness:
  "\<exists>h'. FLASH_ProgramWord sim_hw 0x08010000 0x12345678 (sim_ready (\<lambda>_. False) (\<lambda>_. 0xFF)) = (FLASH_COMPLETE, h') \<and> ready h' \<and>
    ld32 sim_hw 0x08010000 h' = 0x12345678 \<and> v_mem h' = put32 0x08010000 0x12345678 (\<lambda>_. 0xFF)"
  using FLASH_ProgramWord_contract [OF sim.fpec_axioms, of "sim_ready (\<lambda>_. False) (\<lambda>_. 0xFF)" "0x08010000" "0x12345678"]
  by (simp add: word_ok_def flash_range_def)

text \<open>A page erase sets exactly the 2048 bytes of the page of the address to 0xFF and reports
  FLASH_COMPLETE; on a write-protected page it reports FLASH_ERROR_WRP and changes nothing.\<close>

theorem FLASH_ErasePage_contract:
  assumes "fpec hw view t_erase t_prog" and "ready (view h)"
  shows "\<exists>h'. FLASH_ErasePage hw a h = (if v_wrp (view h) (page_of a) then FLASH_ERROR_WRP else FLASH_COMPLETE, h') \<and>
    v_wrp (view h') = v_wrp (view h) \<and>
    (\<forall>b. v_mem (view h') b =
      (if \<not> v_wrp (view h) (page_of a) \<and> unat b div 2048 = unat a div 2048 then 0xFF else v_mem (view h) b))"
proof -
  have page: "page_of b = page_of a \<longleftrightarrow> unat b div 2048 = unat a div 2048" for b
    using unat_page_of [of a] unat_page_of [of b] word_unat_eq_iff [of "page_of b" "page_of a"] by simp
  show ?thesis
  proof (cases "v_wrp (view h) (page_of a)")
    case True
    with fpec.device_contract(2) [OF assms True] show ?thesis by auto
  next
    case False
    with fpec.device_contract(1) [OF assms False] show ?thesis by (auto simp: erase_mem_def page)
  qed
qed

theorem FLASH_ErasePage_contract_witness:
  "\<exists>h'. FLASH_ErasePage sim_hw 0x08004010 (sim_ready (\<lambda>_. False) (\<lambda>_. 7)) = (FLASH_COMPLETE, h') \<and>
    v_wrp h' = (\<lambda>_. False) \<and>
    (\<forall>b. v_mem h' b = (if unat b div 2048 = unat (0x08004010 :: u32) div 2048 then 0xFF else 7))"
  using FLASH_ErasePage_contract [OF sim.fpec_axioms, of "sim_ready (\<lambda>_. False) (\<lambda>_. 7)" "0x08004010"]
  by (simp cong: if_cong)

text \<open>A mass erase of a device without protected pages leaves 0xFF everywhere in the array
  and nothing else changed.\<close>

theorem FLASH_EraseAllPages_contract:
  assumes "fpec hw view t_erase t_prog" and "ready (view h)" and "\<forall>p. \<not> v_wrp (view h) p"
  shows "\<exists>h'. FLASH_EraseAllPages hw h = (FLASH_COMPLETE, h') \<and> ready (view h') \<and>
    (\<forall>a. ld8 hw a h' = v_mem (view h') a \<or> \<not> in_flash a) \<and>
    (\<forall>a. v_mem (view h') a = (if in_flash a then 0xFF else v_mem (view h) a))"
proof -
  have wrp: "\<And>p. \<not> v_wrp (view h) p" using assms(3) by blast
  obtain h' where "FLASH_EraseAllPages hw h = (FLASH_COMPLETE, h')"
    "view h' = (view h)\<lparr>v_eop := True, v_mem := (\<lambda>a. if in_flash a then 0xFF else v_mem (view h) a)\<rparr>"
    using fpec.EraseAllPages_view [OF assms(1,2) wrp] .
  moreover have "ld8 hw a h' = v_mem (view h') a \<or> \<not> in_flash a" for a
    using fpec.ld_array [OF assms(1)] by blast
  ultimately show ?thesis using assms(2) by (simp add: ready_def)
qed

theorem FLASH_EraseAllPages_contract_witness:
  "\<exists>h'. FLASH_EraseAllPages sim_hw (sim_ready (\<lambda>_. False) (\<lambda>_. 7)) = (FLASH_COMPLETE, h') \<and> ready h' \<and>
    v_mem h' 0x0803FFFF = 0xFF \<and> v_mem h' 0x08040000 = 7"
proof -
  obtain h' where "FLASH_EraseAllPages sim_hw (sim_ready (\<lambda>_. False) (\<lambda>_. 7)) = (FLASH_COMPLETE, h')" "ready h'"
    "\<forall>a. v_mem h' a = (if in_flash a then 0xFF else 7)"
    using FLASH_EraseAllPages_contract [OF sim.fpec_axioms, of "sim_ready (\<lambda>_. False) (\<lambda>_. 7)"] by auto
  then show ?thesis by (simp add: in_flash_def)
qed

text \<open>The wait for an operation is exact: with a counter of T it returns the outcome of the
  operation when fewer than T further status reads see the busy flag, and FLASH_TIMEOUT
  otherwise; it always returns.\<close>

theorem FLASH_WaitForLastOperation_exact:
  assumes "fpec hw view t_erase t_prog"
  shows "fst (FLASH_WaitForLastOperation hw T h) = (if v_busy (view h) < unat T then view_status (view h) else FLASH_TIMEOUT)"
proof (cases "v_busy (view h) < unat T")
  case True
  then show ?thesis using fpec.wait_for_last [OF assms True] by (metis fst_conv)
next
  case False
  then show ?thesis using fpec.wait_for_last_out [OF assms, of T h] by simp
qed

theorem FLASH_WaitForLastOperation_exact_witness:
  "fst (FLASH_WaitForLastOperation sim_hw 5 ((sim_ready (\<lambda>_. False) (\<lambda>_. 0xFF))\<lparr>v_busy := 5\<rparr>)) = FLASH_TIMEOUT"
  using FLASH_WaitForLastOperation_exact [OF sim.fpec_axioms, of 5 "(sim_ready (\<lambda>_. False) (\<lambda>_. 0xFF))\<lparr>v_busy := 5\<rparr>"]
  by simp

end
