(* ===== verification/Gpio.thy ===== *)
theory Gpio
  imports Rcc
begin

text \<open>
  The port driver \<open>stm32f10x_gpio.c\<close> over the bus parameter \<open>hw\<close>. A port is its base
  address, the fields of \<open>GPIO_TypeDef\<close> are offsets from it. The locale \<open>gpio_port\<close> states
  the documented behaviour of a port (configuration and output registers keep what is
  written, \<open>BSRR\<close> and \<open>BRR\<close> set and clear output bits); in it \<open>GPIO_Init\<close> is shown to
  configure exactly the selected pins.
\<close>

unbundle bit_operations_syntax

section \<open>Ports, pins and modes\<close>

definition GPIOA :: u32 where "GPIOA = 0x40010800"
definition GPIOB :: u32 where "GPIOB = 0x40010C00"
definition GPIOC :: u32 where "GPIOC = 0x40011000"
definition GPIOD :: u32 where "GPIOD = 0x40011400"
definition GPIOE :: u32 where "GPIOE = 0x40011800"
definition GPIOF :: u32 where "GPIOF = 0x40011C00"
definition GPIOG :: u32 where "GPIOG = 0x40012000"

definition CRL :: u32 where [reg_defs]: "CRL = 0x00"
definition CRH :: u32 where [reg_defs]: "CRH = 0x04"
definition IDR :: u32 where [reg_defs]: "IDR = 0x08"
definition ODR :: u32 where [reg_defs]: "ODR = 0x0C"
definition BSRR :: u32 where [reg_defs]: "BSRR = 0x10"
definition BRR :: u32 where [reg_defs]: "BRR = 0x14"
definition LCKR :: u32 where [reg_defs]: "LCKR = 0x18"

definition AFIO_EVCR :: u32 where "AFIO_EVCR = 0x40010000"
definition AFIO_MAPR :: u32 where "AFIO_MAPR = 0x40010004"
definition AFIO_EXTICR :: u32 where "AFIO_EXTICR = 0x40010008"
definition AFIO_MAPR2 :: u32 where "AFIO_MAPR2 = 0x4001001C"
definition EVCR_EVOE_BB :: u32 where "EVCR_EVOE_BB = bb_alias 0x10000 0x07"
definition MAPR_MII_RMII_SEL_BB :: u32 where "MAPR_MII_RMII_SEL_BB = bb_alias 0x10004 0x17"

definition RCC_APB2Periph_AFIO :: u32 where [reg_defs]: "RCC_APB2Periph_AFIO = 0x00000001"
definition RCC_APB2Periph_GPIOA :: u32 where [reg_defs]: "RCC_APB2Periph_GPIOA = 0x00000004"
definition RCC_APB2Periph_GPIOB :: u32 where [reg_defs]: "RCC_APB2Periph_GPIOB = 0x00000008"
definition RCC_APB2Periph_GPIOC :: u32 where [reg_defs]: "RCC_APB2Periph_GPIOC = 0x00000010"
definition RCC_APB2Periph_GPIOD :: u32 where [reg_defs]: "RCC_APB2Periph_GPIOD = 0x00000020"
definition RCC_APB2Periph_GPIOE :: u32 where [reg_defs]: "RCC_APB2Periph_GPIOE = 0x00000040"
definition RCC_APB2Periph_GPIOF :: u32 where [reg_defs]: "RCC_APB2Periph_GPIOF = 0x00000080"
definition RCC_APB2Periph_GPIOG :: u32 where [reg_defs]: "RCC_APB2Periph_GPIOG = 0x00000100"

datatype GPIOMode_TypeDef = GPIO_Mode_AIN | GPIO_Mode_IN_FLOATING | GPIO_Mode_IPD | GPIO_Mode_IPU
  | GPIO_Mode_Out_OD | GPIO_Mode_Out_PP | GPIO_Mode_AF_OD | GPIO_Mode_AF_PP

datatype GPIOSpeed_TypeDef = GPIO_Speed_10MHz | GPIO_Speed_2MHz | GPIO_Speed_50MHz

datatype BitAction = Bit_RESET | Bit_SET

fun mode_value :: "GPIOMode_TypeDef \<Rightarrow> u32" where
  "mode_value GPIO_Mode_AIN = 0x0"
| "mode_value GPIO_Mode_IN_FLOATING = 0x04"
| "mode_value GPIO_Mode_IPD = 0x28"
| "mode_value GPIO_Mode_IPU = 0x48"
| "mode_value GPIO_Mode_Out_OD = 0x14"
| "mode_value GPIO_Mode_Out_PP = 0x10"
| "mode_value GPIO_Mode_AF_OD = 0x1C"
| "mode_value GPIO_Mode_AF_PP = 0x18"

fun speed_value :: "GPIOSpeed_TypeDef \<Rightarrow> u32" where
  "speed_value GPIO_Speed_10MHz = 1"
| "speed_value GPIO_Speed_2MHz = 2"
| "speed_value GPIO_Speed_50MHz = 3"

record GPIO_InitTypeDef =
  GPIO_Pin :: u16
  GPIO_Speed :: GPIOSpeed_TypeDef
  GPIO_Mode :: GPIOMode_TypeDef

section \<open>Operations\<close>

definition reset_pulse :: "'h mmio \<Rightarrow> u32 \<Rightarrow> 'h \<Rightarrow> 'h" where
  "reset_pulse hw periph h =
     RCC_APB2PeriphResetCmd hw periph DISABLE (RCC_APB2PeriphResetCmd hw periph ENABLE h)"

definition GPIO_DeInit :: "'h mmio \<Rightarrow> u32 \<Rightarrow> 'h \<Rightarrow> 'h" where
  "GPIO_DeInit hw GPIOx h =
     (if GPIOx = GPIOA then reset_pulse hw RCC_APB2Periph_GPIOA h
      else if GPIOx = GPIOB then reset_pulse hw RCC_APB2Periph_GPIOB h
      else if GPIOx = GPIOC then reset_pulse hw RCC_APB2Periph_GPIOC h
      else if GPIOx = GPIOD then reset_pulse hw RCC_APB2Periph_GPIOD h
      else if GPIOx = GPIOE then reset_pulse hw RCC_APB2Periph_GPIOE h
      else if GPIOx = GPIOF then reset_pulse hw RCC_APB2Periph_GPIOF h
      else if GPIOx = GPIOG then reset_pulse hw RCC_APB2Periph_GPIOG h
      else h)"

definition GPIO_AFIODeInit :: "'h mmio \<Rightarrow> 'h \<Rightarrow> 'h" where
  "GPIO_AFIODeInit hw h = reset_pulse hw RCC_APB2Periph_AFIO h"

definition init_mode :: "GPIO_InitTypeDef \<Rightarrow> u32" where
  "init_mode g =
     (let currentmode = mode_value (GPIO_Mode g) AND 0x0F
      in if mode_value (GPIO_Mode g) AND 0x10 \<noteq> 0 then currentmode OR speed_value (GPIO_Speed g)
         else currentmode)"

text \<open>The four bits of a pin in its configuration register are cleared, then set.\<close>

definition set_nibble :: "nat \<Rightarrow> u32 \<Rightarrow> u32 \<Rightarrow> u32" where
  "set_nibble pinpos currentmode tmpreg =
     (let pinmask = push_bit (4 * pinpos) 0x0F;
          tmpreg = tmpreg AND NOT pinmask
      in tmpreg OR push_bit (4 * pinpos) currentmode)"

text \<open>The output bit of a pin with a pull resistor.\<close>

definition pull_store :: "'h mmio \<Rightarrow> u32 \<Rightarrow> GPIOMode_TypeDef \<Rightarrow> u32 \<Rightarrow> 'h \<Rightarrow> 'h" where
  "pull_store hw GPIOx mode pos h =
     (if mode = GPIO_Mode_IPD then wr32 hw (GPIOx + BRR) pos h
      else if mode = GPIO_Mode_IPU then wr32 hw (GPIOx + BSRR) pos h
      else h)"

text \<open>One configuration loop of \<open>GPIO_Init\<close>, over the pin positions it visits. \<open>first\<close> is the
  number of the loop's first pin: 0 for the loop over \<open>CRL\<close>, 8 for the loop over \<open>CRH\<close>.\<close>

fun init_loop :: "'h mmio \<Rightarrow> u32 \<Rightarrow> GPIO_InitTypeDef \<Rightarrow> nat \<Rightarrow> nat list \<Rightarrow> u32 \<Rightarrow> 'h \<Rightarrow> u32 \<times> 'h" where
  "init_loop hw GPIOx g first [] tmpreg h = (tmpreg, h)"
| "init_loop hw GPIOx g first (pinpos # ps) tmpreg h =
     (let pos = push_bit (pinpos + first) 1;
          currentpin = ucast (GPIO_Pin g) AND pos
      in if currentpin = pos then
           init_loop hw GPIOx g first ps (set_nibble pinpos (init_mode g) tmpreg)
             (pull_store hw GPIOx (GPIO_Mode g) pos h)
         else init_loop hw GPIOx g first ps tmpreg h)"

text \<open>The read of a configuration register, the loop over its pins and the write back.\<close>

definition init_half :: "'h mmio \<Rightarrow> u32 \<Rightarrow> u32 \<Rightarrow> nat \<Rightarrow> GPIO_InitTypeDef \<Rightarrow> 'h \<Rightarrow> 'h" where
  "init_half hw GPIOx CRx first g h =
     (let (tmpreg, h) = rd32 hw (GPIOx + CRx) h;
          (tmpreg, h) = init_loop hw GPIOx g first [0..<8] tmpreg h
      in wr32 hw (GPIOx + CRx) tmpreg h)"

definition GPIO_Init :: "'h mmio \<Rightarrow> u32 \<Rightarrow> GPIO_InitTypeDef \<Rightarrow> 'h \<Rightarrow> 'h" where
  "GPIO_Init hw GPIOx g h =
     (let h = (if ucast (GPIO_Pin g) AND (0x00FF :: u32) \<noteq> 0 then init_half hw GPIOx CRL 0 g h else h)
      in if GPIO_Pin g > 0x00FF then init_half hw GPIOx CRH 8 g h else h)"

definition GPIO_StructInit :: GPIO_InitTypeDef where
  "GPIO_StructInit = \<lparr>GPIO_Pin = 0xFFFF, GPIO_Speed = GPIO_Speed_2MHz, GPIO_Mode = GPIO_Mode_IN_FLOATING\<rparr>"

definition GPIO_ReadInputDataBit :: "'h mmio \<Rightarrow> u32 \<Rightarrow> u16 \<Rightarrow> 'h \<Rightarrow> u8 \<times> 'h" where
  "GPIO_ReadInputDataBit hw GPIOx pin h =
     (let (idr, h) = rd32 hw (GPIOx + IDR) h in (if idr AND ucast pin \<noteq> 0 then 1 else 0, h))"

definition GPIO_ReadInputData :: "'h mmio \<Rightarrow> u32 \<Rightarrow> 'h \<Rightarrow> u16 \<times> 'h" where
  "GPIO_ReadInputData hw GPIOx h = (let (idr, h) = rd32 hw (GPIOx + IDR) h in (ucast idr, h))"

definition GPIO_ReadOutputDataBit :: "'h mmio \<Rightarrow> u32 \<Rightarrow> u16 \<Rightarrow> 'h \<Rightarrow> u8 \<times> 'h" where
  "GPIO_ReadOutputDataBit hw GPIOx pin h =
     (let (odr, h) = rd32 hw (GPIOx + ODR) h in (if odr AND ucast pin \<noteq> 0 then 1 else 0, h))"

definition GPIO_ReadOutputData :: "'h mmio \<Rightarrow> u32 \<Rightarrow> 'h \<Rightarrow> u16 \<times> 'h" where
  "GPIO_ReadOutputData hw GPIOx h = (let (odr, h) = rd32 hw (GPIOx + ODR) h in (ucast odr, h))"

definition GPIO_SetBits :: "'h mmio \<Rightarrow> u32 \<Rightarrow> u16 \<Rightarrow> 'h \<Rightarrow> 'h" where
  "GPIO_SetBits hw GPIOx pin h = wr32 hw (GPIOx + BSRR) (ucast pin) h"

definition GPIO_ResetBits :: "'h mmio \<Rightarrow> u32 \<Rightarrow> u16 \<Rightarrow> 'h \<Rightarrow> 'h" where
  "GPIO_ResetBits hw GPIOx pin h = wr32 hw (GPIOx + BRR) (ucast pin) h"

definition GPIO_WriteBit :: "'h mmio \<Rightarrow> u32 \<Rightarrow> u16 \<Rightarrow> BitAction \<Rightarrow> 'h \<Rightarrow> 'h" where
  "GPIO_WriteBit hw GPIOx pin BitVal h =
     (if BitVal \<noteq> Bit_RESET then wr32 hw (GPIOx + BSRR) (ucast pin) h
      else wr32 hw (GPIOx + BRR) (ucast pin) h)"

definition GPIO_Write :: "'h mmio \<Rightarrow> u32 \<Rightarrow> u16 \<Rightarrow> 'h \<Rightarrow> 'h" where
  "GPIO_Write hw GPIOx PortVal h = wr32 hw (GPIOx + ODR) (ucast PortVal) h"

definition GPIO_PinLockConfig :: "'h mmio \<Rightarrow> u32 \<Rightarrow> u16 \<Rightarrow> 'h \<Rightarrow> 'h" where
  "GPIO_PinLockConfig hw GPIOx pin h =
     (let tmp = 0x00010000 OR ucast pin;
          h = wr32 hw (GPIOx + LCKR) tmp h;
          h = wr32 hw (GPIOx + LCKR) (ucast pin) h;
          h = wr32 hw (GPIOx + LCKR) tmp h;
          (tmp, h) = rd32 hw (GPIOx + LCKR) h;
          (tmp, h) = rd32 hw (GPIOx + LCKR) h
      in h)"

definition GPIO_EventOutputConfig :: "'h mmio \<Rightarrow> u8 \<Rightarrow> u8 \<Rightarrow> 'h \<Rightarrow> 'h" where
  "GPIO_EventOutputConfig hw GPIO_PortSource GPIO_PinSource h =
     (let (tmpreg, h) = rd32 hw AFIO_EVCR h;
          tmpreg = tmpreg AND 0xFF80;
          tmpreg = tmpreg OR push_bit 4 (ucast GPIO_PortSource);
          tmpreg = tmpreg OR ucast GPIO_PinSource
      in wr32 hw AFIO_EVCR tmpreg h)"

definition GPIO_EventOutputCmd :: "'h mmio \<Rightarrow> FunctionalState \<Rightarrow> 'h \<Rightarrow> 'h" where
  "GPIO_EventOutputCmd hw NewState h = wr32 hw EVCR_EVOE_BB (state_value NewState) h"

text \<open>The remapping masks are shifted by \<open>(GPIO_Remap >> 0x15) * 0x10\<close>. For the remaps of
  \<open>MAPR2\<close> that is far beyond the word width; the shift instruction of the core uses the low
  byte of the amount, which \<open>lsl\<close> writes out.\<close>

definition lsl :: "u32 \<Rightarrow> u32 \<Rightarrow> u32" where
  "lsl x n = push_bit (unat (n AND 0xFF)) x"

definition GPIO_PinRemapConfig :: "'h mmio \<Rightarrow> u32 \<Rightarrow> FunctionalState \<Rightarrow> 'h \<Rightarrow> 'h" where
  "GPIO_PinRemapConfig hw GPIO_Remap NewState h =
     (let r = (if GPIO_Remap AND 0x80000000 = 0x80000000 then AFIO_MAPR2 else AFIO_MAPR);
          (tmpreg, h) = rd32 hw r h;
          tmpmask = drop_bit 16 (GPIO_Remap AND 0x000F0000);
          tmp = GPIO_Remap AND 0xFFFF;
          (tmpreg, h) =
            (if GPIO_Remap AND (0x00200000 OR 0x00100000) = 0x00200000 OR 0x00100000
             then (tmpreg AND 0xF0FFFFFF, and32 hw AFIO_MAPR 0xF0FFFFFF h)
             else if GPIO_Remap AND 0x00100000 = 0x00100000
             then (tmpreg AND NOT (push_bit (unat tmpmask) 0x03) OR NOT 0xF0FFFFFF, h)
             else (tmpreg AND NOT (lsl tmp (drop_bit 0x15 GPIO_Remap * 0x10)) OR NOT 0xF0FFFFFF, h));
          tmpreg = (if NewState \<noteq> DISABLE then tmpreg OR lsl tmp (drop_bit 0x15 GPIO_Remap * 0x10)
                    else tmpreg)
      in wr32 hw r tmpreg h)"

definition GPIO_EXTILineConfig :: "'h mmio \<Rightarrow> u8 \<Rightarrow> u8 \<Rightarrow> 'h \<Rightarrow> 'h" where
  "GPIO_EXTILineConfig hw GPIO_PortSource GPIO_PinSource h =
     (let sh = 4 * unat (GPIO_PinSource AND 0x03);
          tmp = push_bit sh 0x0F;
          r = AFIO_EXTICR + 4 * ucast (drop_bit 2 GPIO_PinSource);
          h = and32 hw r (NOT tmp) h
      in or32 hw r (push_bit sh (ucast GPIO_PortSource)) h)"

definition GPIO_ETH_MediaInterfaceConfig :: "'h mmio \<Rightarrow> u32 \<Rightarrow> 'h \<Rightarrow> 'h" where
  "GPIO_ETH_MediaInterfaceConfig hw x h = wr32 hw MAPR_MII_RMII_SEL_BB x h"

section \<open>The configuration of a port\<close>

locale gpio_port = plain_regs hw reg "{b + CRL, b + CRH, b + ODR}"
  for hw :: "'h mmio" and reg :: "'h \<Rightarrow> u32 \<Rightarrow> u32" and b :: u32 +
  assumes wr_BSRR: "reg (wr32 hw (b + BSRR) x h) =
      (reg h)(b + ODR := reg h (b + ODR) AND NOT (drop_bit 16 x) OR x AND 0xFFFF)"
    and wr_BRR: "reg (wr32 hw (b + BRR) x h) =
      (reg h)(b + ODR := reg h (b + ODR) AND NOT (x AND 0xFFFF))"


lemma pin_selected:
  assumes "i < 16"
  shows "ucast (p :: u16) AND 2 ^ i = (2 ^ i :: u32) \<longleftrightarrow> bit p i"
proof
  assume "ucast p AND 2 ^ i = (2 ^ i :: u32)"
  then have "bit (ucast p AND 2 ^ i :: u32) i = bit (2 ^ i :: u32) i" by simp
  with assms show "bit p i" by (simp add: bit_simps)
next
  assume "bit p i"
  then show "ucast p AND 2 ^ i = (2 ^ i :: u32)" by (intro bit_word_eqI) (auto simp: bit_simps)
qed

lemma masks: "(0x0F :: u32) = mask 4" "(0xFFFF :: u32) = mask 16"
  by (simp_all add: mask_eq_exp_minus_1)

lemma init_mode_bits: "bit (init_mode g) k \<Longrightarrow> k < 4"
proof -
  have "init_mode g AND 0x0F = init_mode g"
    by (cases "GPIO_Mode g"; cases "GPIO_Speed g"; simp add: init_mode_def)
  then show "bit (init_mode g) k \<Longrightarrow> k < 4"
    by (metis masks(1) bit_mask_iff bit_and_iff)
qed

lemma bit_set_nibble:
  assumes "\<And>k. bit m k \<Longrightarrow> k < 4" and "n < 32"
  shows "bit (set_nibble p m t) n \<longleftrightarrow> (if n div 4 = p then bit m (n mod 4) else bit t n)"
proof -
  have "4 * p \<le> n \<and> n - 4 * p < 4 \<longleftrightarrow> n div 4 = p" by auto
  moreover have "n div 4 = p \<Longrightarrow> n - 4 * p = n mod 4" by (auto simp: minus_mult_div_eq_mod)
  ultimately show ?thesis
    using assms unfolding set_nibble_def masks Let_def by (auto simp: bit_simps)
qed

text \<open>What \<open>GPIO_Init\<close> leaves in the output register for a selected pin.\<close>

fun pull :: "GPIOMode_TypeDef \<Rightarrow> bool \<Rightarrow> bool" where
  "pull GPIO_Mode_IPD old = False"
| "pull GPIO_Mode_IPU old = True"
| "pull _ old = old"

text \<open>The configuration bits of pin \<open>i\<close>, and the pins one loop has configured.\<close>

definition pin_config :: "(u32 \<Rightarrow> u32) \<Rightarrow> u32 \<Rightarrow> nat \<Rightarrow> u32" where
  "pin_config r b i = drop_bit (4 * (i mod 8)) (r (b + (if i < 8 then CRL else CRH))) AND 0x0F"

definition picked :: "GPIO_InitTypeDef \<Rightarrow> nat \<Rightarrow> nat list \<Rightarrow> nat \<Rightarrow> bool" where
  "picked g first ps i \<longleftrightarrow> (\<exists>p \<in> set ps. i = p + first) \<and> bit (GPIO_Pin g) i"

lemma picked_simps:
  "picked g first (p # ps) k \<longleftrightarrow> k = p + first \<and> bit (GPIO_Pin g) k \<or> picked g first ps k"
  "p \<notin> set ps \<Longrightarrow> \<not> picked g first ps (p + first)"
  by (auto simp: picked_def)

context gpio_port
begin

lemma port_regs:
  "b + CRL \<noteq> b + CRH" "b + CRL \<noteq> b + ODR" "b + CRH \<noteq> b + ODR"
  by (simp_all add: reg_defs)

text \<open>The store that prepares the pull resistor of one pin.\<close>

lemma pull_store_reg:
  assumes "i < 16"
  shows "r \<noteq> b + ODR \<Longrightarrow> reg (pull_store hw b m (push_bit i 1) h) r = reg h r"
    and "k < 16 \<Longrightarrow> bit (reg (pull_store hw b m (push_bit i 1) h) (b + ODR)) k =
      (if k = i then pull m (bit (reg h (b + ODR)) k) else bit (reg h (b + ODR)) k)"
proof -
  show "r \<noteq> b + ODR \<Longrightarrow> reg (pull_store hw b m (push_bit i 1) h) r = reg h r"
    by (cases m) (simp_all add: pull_store_def wr_BRR wr_BSRR)
  show "k < 16 \<Longrightarrow> bit (reg (pull_store hw b m (push_bit i 1) h) (b + ODR)) k =
      (if k = i then pull m (bit (reg h (b + ODR)) k) else bit (reg h (b + ODR)) k)"
    using assms 
    by (cases m) (auto simp: pull_store_def wr_BRR [unfolded masks] wr_BSRR [unfolded masks] bit_simps bit_1_iff)
qed

lemma init_loop_step:
  assumes "p + first < 16"
  shows "init_loop hw b g first (p # ps) t h =
    (if bit (GPIO_Pin g) (p + first)
     then init_loop hw b g first ps (set_nibble p (init_mode g) t)
            (pull_store hw b (GPIO_Mode g) (push_bit (p + first) 1) h)
     else init_loop hw b g first ps t h)"
  using pin_selected [OF assms, of "GPIO_Pin g"] by (simp add: Let_def)

lemma init_loop_conf:
  assumes "\<forall>p \<in> set ps. p + first < 16" "distinct ps" "n < 32"
  shows "bit (fst (init_loop hw b g first ps t h)) n =
    (if n div 4 \<in> set ps \<and> bit (GPIO_Pin g) (n div 4 + first)
     then bit (init_mode g) (n mod 4) else bit t n)"
  using assms
proof (induction ps arbitrary: t h)
  case (Cons p ps)
  note sn = bit_set_nibble [OF init_mode_bits Cons.prems(3), where p = p and t = t]
  have p: "p + first < 16" "p \<notin> set ps" using Cons.prems by simp_all
  show ?case
  proof (cases "bit (GPIO_Pin g) (p + first)")
    case True
    with Cons.IH [OF _ _ Cons.prems(3)] Cons.prems(1,2) p sn show ?thesis
      by (auto simp: init_loop_step simp del: init_loop.simps)
  next
    case False
    with Cons.IH [OF _ _ Cons.prems(3)] Cons.prems(1,2) p show ?thesis
      by (auto simp: init_loop_step simp del: init_loop.simps)
  qed
qed simp

lemma init_loop_frame:
  assumes "\<forall>p \<in> set ps. p + first < 16" "r \<noteq> b + ODR"
  shows "reg (snd (init_loop hw b g first ps t h)) r = reg h r"
  using assms(1)
proof (induction ps arbitrary: t h)
  case (Cons p ps)
  then show ?case using pull_store_reg(1) [OF _ assms(2)]
    by (simp add: init_loop_step del: init_loop.simps)
qed simp

lemma init_loop_odr:
  assumes "\<forall>p \<in> set ps. p + first < 16" "distinct ps" "k < 16"
  shows "bit (reg (snd (init_loop hw b g first ps t h)) (b + ODR)) k = (if picked g first ps k
    then pull (GPIO_Mode g) (bit (reg h (b + ODR)) k) else bit (reg h (b + ODR)) k)"
  using assms
proof (induction ps arbitrary: t h)
  case (Cons p ps)
  have p: "p + first < 16" "p \<notin> set ps" using Cons.prems by simp_all
  show ?case
    using Cons.IH [OF _ _ Cons.prems(3)] Cons.prems(1,2) p pull_store_reg(2) [OF p(1) Cons.prems(3)]
    by (cases "bit (GPIO_Pin g) (p + first)"; cases "k = p + first")
      (simp_all add: init_loop_step picked_simps del: init_loop.simps)
qed (simp add: picked_def)

lemma init_half_reg:
  assumes "r = CRL \<or> r = CRH" "first = 0 \<or> first = 8"
  shows "n < 32 \<Longrightarrow> bit (reg (init_half hw b r first g h) (b + r)) n =
      (if bit (GPIO_Pin g) (n div 4 + first) then bit (init_mode g) (n mod 4) else bit (reg h (b + r)) n)"
    and "r' \<noteq> b + r \<Longrightarrow> r' \<noteq> b + ODR \<Longrightarrow> reg (init_half hw b r first g h) r' = reg h r'"
    and "k < 16 \<Longrightarrow> bit (reg (init_half hw b r first g h) (b + ODR)) k =
      (if picked g first [0..<8] k then pull (GPIO_Mode g) (bit (reg h (b + ODR)) k)
       else bit (reg h (b + ODR)) k)"
proof -
  have R: "b + r \<in> {b + CRL, b + CRH, b + ODR}" "b + ODR \<noteq> b + r" using assms(1) port_regs by auto
  obtain h1 where h1: "rd32 hw (b + r) h = (reg h (b + r), h1)" "reg h1 = reg h"
    using rd_regE [OF R(1)] by metis
  define L where "L = init_loop hw b g first [0..<8] (reg h (b + r)) h1"
  have H: "reg (init_half hw b r first g h) = (reg (snd L))(b + r := fst L)"
    using h1 wr_reg [OF R(1)] by (simp add: init_half_def L_def case_prod_unfold Let_def)
  have P: "\<forall>p \<in> set [0..<8]. p + first < 16" using assms(2) by auto
  show "bit (reg (init_half hw b r first g h) (b + r)) n =
      (if bit (GPIO_Pin g) (n div 4 + first) then bit (init_mode g) (n mod 4) else bit (reg h (b + r)) n)"
    if "n < 32"
    using init_loop_conf [OF P _ that] that by (auto simp: H L_def)
  show "reg (init_half hw b r first g h) r' = reg h r'" if "r' \<noteq> b + r" "r' \<noteq> b + ODR"
    using init_loop_frame [OF P that(2)] that(1) h1 by (simp add: H L_def)
  show "bit (reg (init_half hw b r first g h) (b + ODR)) k =
      (if picked g first [0..<8] k then pull (GPIO_Mode g) (bit (reg h (b + ODR)) k)
       else bit (reg h (b + ODR)) k)" if "k < 16"
    using init_loop_odr [OF P _ that] R h1 by (simp add: H L_def del: upt.simps)
qed

end

text \<open>A half that \<open>GPIO_Init\<close> skips has no selected pin.\<close>

lemma skipped_pins:
  "ucast (p :: u16) AND (0x00FF :: u32) = 0 \<Longrightarrow> i < 8 \<Longrightarrow> \<not> bit p i"
  "\<not> p > (0x00FF :: u16) \<Longrightarrow> 8 \<le> i \<Longrightarrow> \<not> bit p i"
proof -
  have m: "(0x00FF :: u32) = mask 8" by (simp add: mask_eq_exp_minus_1)
  show "\<not> bit p i" if "ucast p AND (0x00FF :: u32) = 0" "i < 8"
  proof -
    have "bit (ucast p AND (mask 8 :: u32)) i \<longleftrightarrow> bit p i" using that(2) by (auto simp: bit_simps)
    with that(1) show ?thesis unfolding m by simp
  qed
  show "\<not> bit p i" if "\<not> p > (0x00FF :: u16)" "8 \<le> i"
  proof -
    have "take_bit 8 (unat p) = unat p"
      using that(1) by (simp add: take_bit_nat_eq_self_iff word_less_nat_alt not_less)
    with that(2) have "\<not> bit (unat p) i" by (metis bit_take_bit_iff not_le)
    then show ?thesis by (auto simp: bit_unsigned_iff dest: bit_imp_le_length)
  qed
qed

text \<open>The configuration of a port after \<open>GPIO_Init\<close>, pin by pin.\<close>

context gpio_port
begin

lemma GPIO_Init_bits:
  defines "low \<equiv> \<lambda>g h. if ucast (GPIO_Pin g) AND (0x00FF :: u32) \<noteq> 0 then init_half hw b CRL 0 g h else h"
  shows "n < 32 \<Longrightarrow> bit (reg (low g h) (b + CRL)) n =
      (if bit (GPIO_Pin g) (n div 4) then bit (init_mode g) (n mod 4) else bit (reg h (b + CRL)) n)"
    and "reg (low g h) (b + CRH) = reg h (b + CRH)"
    and "k < 16 \<Longrightarrow> bit (reg (low g h) (b + ODR)) k = (if k < 8 \<and> bit (GPIO_Pin g) k
       then pull (GPIO_Mode g) (bit (reg h (b + ODR)) k) else bit (reg h (b + ODR)) k)"
    and "GPIO_Init hw b g h = (if GPIO_Pin g > 0x00FF then init_half hw b CRH 8 g (low g h) else low g h)"
proof -
  have p: "picked g 0 [0..<8] k \<longleftrightarrow> k < 8 \<and> bit (GPIO_Pin g) k" by (auto simp: picked_def)
  note sk = skipped_pins(1) [of "GPIO_Pin g"]
  show "bit (reg (low g h) (b + CRL)) n =
      (if bit (GPIO_Pin g) (n div 4) then bit (init_mode g) (n mod 4) else bit (reg h (b + CRL)) n)"
    if "n < 32"
    using init_half_reg(1) [of CRL 0 n g h] that sk [of "n div 4"] by (auto simp: low_def)
  show "reg (low g h) (b + CRH) = reg h (b + CRH)"
    using init_half_reg(2) [of CRL 0 "b + CRH" g h] port_regs by (auto simp: low_def)
  show "bit (reg (low g h) (b + ODR)) k = (if k < 8 \<and> bit (GPIO_Pin g) k
       then pull (GPIO_Mode g) (bit (reg h (b + ODR)) k) else bit (reg h (b + ODR)) k)" if "k < 16"
    using init_half_reg(3) [of CRL 0 k g h] that sk [of k] by (auto simp: low_def p)
  show "GPIO_Init hw b g h = (if GPIO_Pin g > 0x00FF then init_half hw b CRH 8 g (low g h) else low g h)"
    by (simp add: GPIO_Init_def low_def Let_def)
qed

lemma GPIO_Init_CR:
  assumes "n < 32"
  shows "bit (reg (GPIO_Init hw b g h) (b + CRL)) n =
      (if bit (GPIO_Pin g) (n div 4) then bit (init_mode g) (n mod 4) else bit (reg h (b + CRL)) n)"
    and "bit (reg (GPIO_Init hw b g h) (b + CRH)) n =
      (if bit (GPIO_Pin g) (n div 4 + 8) then bit (init_mode g) (n mod 4) else bit (reg h (b + CRH)) n)"
  using GPIO_Init_bits(1) [OF assms, where g = g and h = h] GPIO_Init_bits(2) [where g = g and h = h] init_half_reg(2) [of CRH 8 "b + CRL" g]
    init_half_reg(1) [of CRH 8 n g] port_regs assms skipped_pins(2) [of "GPIO_Pin g" "n div 4 + 8"]
  by (auto simp: GPIO_Init_bits(4))

lemma GPIO_Init_ODR:
  assumes "k < 16"
  shows "bit (reg (GPIO_Init hw b g h) (b + ODR)) k = (if bit (GPIO_Pin g) k
       then pull (GPIO_Mode g) (bit (reg h (b + ODR)) k) else bit (reg h (b + ODR)) k)"
proof -
  have p: "picked g 8 [0..<8] k \<longleftrightarrow> \<not> k < 8 \<and> bit (GPIO_Pin g) k"
    using assms by (auto simp: picked_def intro: bexI [of _ "k - 8"])
  show ?thesis
    using GPIO_Init_bits(3) [OF assms, where g = g and h = h]
      init_half_reg(3) [where r = CRH and first = 8 and k = k and g = g] assms
      skipped_pins(2) [of "GPIO_Pin g" k]
    by (auto simp: GPIO_Init_bits(4) p)
qed

lemma GPIO_Init_pin:
  assumes "i < 16"
  shows "pin_config (reg (GPIO_Init hw b g h)) b i =
    (if bit (GPIO_Pin g) i then init_mode g else pin_config (reg h) b i)"
proof (rule bit_word_eqI)
  fix k :: nat
  assume "k < LENGTH(32)"
  have *: "(4 * (i mod 8) + k) div 4 = i mod 8" "(4 * (i mod 8) + k) mod 4 = k" if "k < 4"
    using that by auto
  have "i mod 8 = (if i < 8 then i else i - 8)" using assms by (simp add: mod_if)
  then show "bit (pin_config (reg (GPIO_Init hw b g h)) b i) k =
      bit (if bit (GPIO_Pin g) i then init_mode g else pin_config (reg h) b i) k"
    using assms init_mode_bits [of g k] GPIO_Init_CR [of "4 * (i mod 8) + k" g h] *
    unfolding pin_config_def masks by (cases "k < 4"; cases "i < 8") (auto simp: bit_simps)
qed

end

text \<open>A port driver call reaches the registers of its port only.\<close>

context bus_frame
begin

lemma init_loop_part:
  assumes "S (b + BSRR)" "S (b + BRR)"
  shows "part (snd (init_loop hw b g first ps t h)) = part h"
  by (induction ps arbitrary: t h) (simp_all add: Let_def pull_store_def wr_frame assms)

lemma GPIO_Init_part:
  assumes "S (b + CRL)" "S (b + CRH)" "S (b + BSRR)" "S (b + BRR)"
  shows "part (GPIO_Init hw b g h) = part h"
  using assms
  by (simp add: GPIO_Init_def init_half_def case_prod_unfold Let_def wr_frame rd_frame init_loop_part)

end

section \<open>A reference port\<close>

text \<open>The registers of port B as a machine.\<close>

definition port_wr32 :: "u32 \<Rightarrow> u32 \<Rightarrow> (u32 \<Rightarrow> u32) \<Rightarrow> u32 \<Rightarrow> u32" where
  "port_wr32 r x m =
     (if r = GPIOB + BSRR then m(GPIOB + ODR := m (GPIOB + ODR) AND NOT (drop_bit 16 x) OR x AND 0xFFFF)
      else if r = GPIOB + BRR then m(GPIOB + ODR := m (GPIOB + ODR) AND NOT (x AND 0xFFFF))
      else m(r := x))"

definition port_hw :: "(u32 \<Rightarrow> u32) mmio" where
  "port_hw = ram_hw\<lparr>wr32 := port_wr32\<rparr>"

interpretation portB: gpio_port port_hw "\<lambda>m. m" GPIOB
  by unfold_locales (auto simp: port_hw_def ram_hw_def port_wr32_def GPIOB_def reg_defs)

section \<open>Properties\<close>

text \<open>GPIO_Init configures exactly the selected pins: the four configuration bits of a selected
  pin become the requested mode (with the output speed), its output latch is set for a pull-up
  and cleared for a pull-down, and the configuration and the latch of every other pin of the
  port stay as they are.\<close>

theorem GPIO_Init_configures_pins:
  assumes "gpio_port hw reg b" and "i < 16"
  shows "pin_config (reg (GPIO_Init hw b g h)) b i =
      (if bit (GPIO_Pin g) i then init_mode g else pin_config (reg h) b i) \<and>
    bit (reg (GPIO_Init hw b g h) (b + ODR)) i =
      (if bit (GPIO_Pin g) i then pull (GPIO_Mode g) (bit (reg h (b + ODR)) i) else bit (reg h (b + ODR)) i)"
  using gpio_port.GPIO_Init_pin [OF assms] gpio_port.GPIO_Init_ODR [OF assms] by simp

theorem GPIO_Init_configures_pins_witness:
  "pin_config (GPIO_Init port_hw GPIOB \<lparr>GPIO_Pin = 0x8000, GPIO_Speed = GPIO_Speed_50MHz, GPIO_Mode = GPIO_Mode_Out_PP\<rparr>
      (\<lambda>_. 0x44444444)) GPIOB 15 = 3 \<and>
   pin_config (GPIO_Init port_hw GPIOB \<lparr>GPIO_Pin = 0x8000, GPIO_Speed = GPIO_Speed_50MHz, GPIO_Mode = GPIO_Mode_Out_PP\<rparr>
      (\<lambda>_. 0x44444444)) GPIOB 3 = 4"
  using GPIO_Init_configures_pins [OF portB.gpio_port_axioms, of 15
      "\<lparr>GPIO_Pin = 0x8000, GPIO_Speed = GPIO_Speed_50MHz, GPIO_Mode = GPIO_Mode_Out_PP\<rparr>" "\<lambda>_. 0x44444444"]
    GPIO_Init_configures_pins [OF portB.gpio_port_axioms, of 3
      "\<lparr>GPIO_Pin = 0x8000, GPIO_Speed = GPIO_Speed_50MHz, GPIO_Mode = GPIO_Mode_Out_PP\<rparr>" "\<lambda>_. 0x44444444"]
  by (simp add: init_mode_def pin_config_def)

end
