(* ===== verification/Cortex.thy ===== *)
theory Cortex
  imports Rcc
begin

text \<open>
  The interrupt controller, system control block and system timer: \<open>misc.c\<close> of the
  standard peripheral library and the inline functions of \<open>core_cm3.h\<close> that the two
  firmwares call, over the bus parameter \<open>hw\<close>.
\<close>

unbundle bit_operations_syntax

definition SCB_VTOR :: u32 where "SCB_VTOR = 0xE000ED08"
definition SCB_AIRCR :: u32 where "SCB_AIRCR = 0xE000ED0C"
definition SCB_SCR :: u32 where "SCB_SCR = 0xE000ED10"
definition SCB_SHP :: u32 where "SCB_SHP = 0xE000ED18"
definition NVIC_ISER :: u32 where "NVIC_ISER = 0xE000E100"
definition NVIC_ICER :: u32 where "NVIC_ICER = 0xE000E180"
definition NVIC_IP :: u32 where "NVIC_IP = 0xE000E400"
definition SysTick_CTRL :: u32 where "SysTick_CTRL = 0xE000E010"
definition SysTick_LOAD :: u32 where "SysTick_LOAD = 0xE000E014"
definition SysTick_VAL :: u32 where "SysTick_VAL = 0xE000E018"

definition AIRCR_VECTKEY_MASK :: u32 where [reg_defs]: "AIRCR_VECTKEY_MASK = 0x05FA0000"
definition NVIC_VectTab_FLASH :: u32 where [reg_defs]: "NVIC_VectTab_FLASH = 0x08000000"
definition NVIC_PriorityGroup_2 :: u32 where [reg_defs]: "NVIC_PriorityGroup_2 = 0x500"
definition SysTick_CLKSource_HCLK :: u32 where [reg_defs]: "SysTick_CLKSource_HCLK = 0x00000004"
definition SysTick_CLKSource_HCLK_Div8 :: u32 where [reg_defs]: "SysTick_CLKSource_HCLK_Div8 = 0xFFFFFFFB"
definition ETH_IRQn :: u8 where [reg_defs]: "ETH_IRQn = 61"

record NVIC_InitTypeDef =
  NVIC_IRQChannel :: u8
  NVIC_IRQChannelPreemptionPriority :: u8
  NVIC_IRQChannelSubPriority :: u8
  NVIC_IRQChannelCmd :: FunctionalState

definition NVIC_PriorityGroupConfig :: "'h mmio \<Rightarrow> u32 \<Rightarrow> 'h \<Rightarrow> 'h" where
  "NVIC_PriorityGroupConfig hw NVIC_PriorityGroup h =
     wr32 hw SCB_AIRCR (AIRCR_VECTKEY_MASK OR NVIC_PriorityGroup) h"

text \<open>The priority byte of \<open>NVIC_Init\<close>: the pre-emption priority above the subpriority, in
  the split that the priority group in \<open>AIRCR\<close> selects.\<close>

definition irq_priority :: "u32 \<Rightarrow> u8 \<Rightarrow> u8 \<Rightarrow> u8" where
  "irq_priority aircr pre sub =
     (let tmppriority = drop_bit 8 (0x700 - (aircr AND 0x700));
          tmppre = 4 - tmppriority;
          tmpsub = drop_bit (unat tmppriority) (0x0F :: u32);
          tmppriority = push_bit (unat tmppre) (ucast pre) OR (ucast sub AND tmpsub)
      in ucast (push_bit 4 tmppriority))"

definition NVIC_Init :: "'h mmio \<Rightarrow> NVIC_InitTypeDef \<Rightarrow> 'h \<Rightarrow> 'h" where
  "NVIC_Init hw n h =
     (let ch = NVIC_IRQChannel n;
          m = push_bit (unat (ch AND 0x1F)) 1
      in if NVIC_IRQChannelCmd n \<noteq> DISABLE then
           let (aircr, h) = rd32 hw SCB_AIRCR h;
               tmppriority = irq_priority aircr (NVIC_IRQChannelPreemptionPriority n)
                               (NVIC_IRQChannelSubPriority n);
               h = wr8 hw (NVIC_IP + ucast ch) tmppriority h
           in wr32 hw (NVIC_ISER + 4 * ucast (drop_bit 5 ch)) m h
         else wr32 hw (NVIC_ICER + 4 * ucast (drop_bit 5 ch)) m h)"

definition NVIC_SetVectorTable :: "'h mmio \<Rightarrow> u32 \<Rightarrow> u32 \<Rightarrow> 'h \<Rightarrow> 'h" where
  "NVIC_SetVectorTable hw NVIC_VectTab Offset h =
     wr32 hw SCB_VTOR (NVIC_VectTab OR (Offset AND 0x1FFFFF80)) h"

definition NVIC_SystemLPConfig :: "'h mmio \<Rightarrow> u8 \<Rightarrow> FunctionalState \<Rightarrow> 'h \<Rightarrow> 'h" where
  "NVIC_SystemLPConfig hw LowPowerMode NewState h =
     (if NewState \<noteq> DISABLE then or32 hw SCB_SCR (ucast LowPowerMode) h
      else and32 hw SCB_SCR (NOT (ucast LowPowerMode)) h)"

definition SysTick_CLKSourceConfig :: "'h mmio \<Rightarrow> u32 \<Rightarrow> 'h \<Rightarrow> 'h" where
  "SysTick_CLKSourceConfig hw SysTick_CLKSource h =
     (if SysTick_CLKSource = SysTick_CLKSource_HCLK then or32 hw SysTick_CTRL SysTick_CLKSource_HCLK h
      else and32 hw SysTick_CTRL SysTick_CLKSource_HCLK_Div8 h)"

text \<open>\<open>NVIC_SystemReset\<close> requests the reset and then waits for it in an endless loop; the
  result is the hardware state with the request written.\<close>

definition NVIC_SystemReset :: "'h mmio \<Rightarrow> 'h \<Rightarrow> 'h" where
  "NVIC_SystemReset hw h =
     (let (aircr, h) = rd32 hw SCB_AIRCR h
      in wr32 hw SCB_AIRCR (push_bit 16 0x5FA OR aircr AND 0x700 OR 0x4) h)"

text \<open>\<open>IRQn\<close> is negative for the processor exceptions, whose priorities are in the system
  control block; \<open>__NVIC_PRIO_BITS\<close> is 4.\<close>

definition NVIC_SetPriority :: "'h mmio \<Rightarrow> int \<Rightarrow> u32 \<Rightarrow> 'h \<Rightarrow> 'h" where
  "NVIC_SetPriority hw IRQn priority h =
     (let x = ucast (push_bit (8 - 4) priority AND 0xFF) in
      if IRQn < 0 then wr8 hw (SCB_SHP + ((word_of_int IRQn AND 0xF) - 4)) x h
      else wr8 hw (NVIC_IP + word_of_int IRQn) x h)"

definition SysTick_Config :: "'h mmio \<Rightarrow> u32 \<Rightarrow> 'h \<Rightarrow> u32 \<times> 'h" where
  "SysTick_Config hw ticks h =
     (if ticks > 0xFFFFFF then (1, h)
      else let h = wr32 hw SysTick_LOAD ((ticks AND 0xFFFFFF) - 1) h;
               h = NVIC_SetPriority hw (-1) (push_bit 4 1 - 1) h;
               h = wr32 hw SysTick_VAL 0 h;
               h = wr32 hw SysTick_CTRL (0x4 OR 0x2 OR 0x1) h
           in (0, h))"

section \<open>Properties\<close>

text \<open>The priority byte. When the priority group gives \<open>b\<close> of the four implemented priority
  bits to pre-emption, NVIC_Init writes the pre-emption priority into the upper \<open>b\<close> bits and
  the subpriority, cut to the remaining \<open>4 - b\<close> bits, below it; the unused lower half byte is 0.\<close>

theorem irq_priority_fields:
  assumes "b \<le> 4" and "aircr AND 0x700 = 0x700 - 0x100 * of_nat b"
  shows "irq_priority aircr pre sub = push_bit (8 - b) pre OR push_bit 4 (take_bit (4 - b) sub)"
proof -
  have m: "0x0F = (mask 4 :: u32)" "0x07 = (mask 3 :: u32)" "0x03 = (mask 2 :: u32)" "0x01 = (mask 1 :: u32)"
    by (simp_all add: mask_eq_exp_minus_1)
  have "b = 0 \<or> b = 1 \<or> b = 2 \<or> b = 3 \<or> b = 4" using assms(1) by auto
  then have "irq_priority aircr pre sub = ucast (push_bit 4 (push_bit (4 - b) (ucast pre) OR (ucast sub AND mask (4 - b))) :: u32)"
    using assms(2) by (elim disjE) (simp_all add: irq_priority_def m [symmetric] Let_def push_bit_eq_mult)
  also have "\<dots> = push_bit (8 - b) pre OR push_bit 4 (take_bit (4 - b) sub)"
  proof (rule bit_word_eqI)
    fix k :: nat
    assume k: "k < LENGTH(8)"
    have "k - 4 - (4 - b) = k - (8 - b)" "8 - b \<le> k \<longleftrightarrow> 4 \<le> k \<and> 4 - b \<le> k - 4" using assms(1) by auto
    with k show "bit (ucast (push_bit 4 (push_bit (4 - b) (ucast pre) OR (ucast sub AND mask (4 - b))) :: u32) :: u8) k =
        bit (push_bit (8 - b) pre OR push_bit 4 (take_bit (4 - b) sub)) k"
      by (auto simp: bit_simps)
  qed
  finally show ?thesis .
qed

theorem irq_priority_fields_witness:
  "irq_priority (0xFA050000 OR NVIC_PriorityGroup_2) 2 0 = 0x80"
  using irq_priority_fields [of 2 "0xFA050000 OR NVIC_PriorityGroup_2" 2 0] by (simp add: NVIC_PriorityGroup_2_def)

end
