(* ===== verification/Bootloader.thy ===== *)
theory Bootloader
  imports NorFlash Gpio Cortex
begin

text \<open>
  The bootloader firmware: \<open>flash_drv.c\<close> (new-core header, erase and copy), \<open>sys_init.c\<close>,
  \<open>main.c\<close> (core check, jump, error indication). Its global variables are the record
  \<open>boot\<close>, the hardware is the component \<open>dev\<close>.

  The loop counter of \<open>read_header\<close> is declared without an initial value. The model takes
  that value as the argument \<open>i0\<close>; a negative value makes the loop store in front of its
  buffer, which has no defined outcome (\<open>None\<close>).
\<close>

unbundle bit_operations_syntax

section \<open>Constants and state\<close>

definition NEW_CORE_FLASH_ADDR :: u32 where "NEW_CORE_FLASH_ADDR = 0x08010000"
definition CURRENT_CORE_FLASH_ADDR :: u32 where "CURRENT_CORE_FLASH_ADDR = 0x08004000"
definition CORE_HEADER_SIZE :: u32 where "CORE_HEADER_SIZE = 16"
definition APPLICATION_OFFSET :: u32 where "APPLICATION_OFFSET = 0x4000"
definition PAGES_AMOUNT_TO_ERASE :: u8 where "PAGES_AMOUNT_TO_ERASE = 64"

definition FLASH_WR_ERR :: u32 where "FLASH_WR_ERR = 2"
definition FLASH_ERASE_ERR :: u32 where "FLASH_ERASE_ERR = 3"

record 'h boot =
  dev :: 'h
  errno :: u32
  new_core_size :: u32

section \<open>Flash access of the bootloader\<close>

definition erase_sector :: "'h mmio \<Rightarrow> u32 \<Rightarrow> u8 \<Rightarrow> 'h \<Rightarrow> u8 \<times> 'h" where
  "erase_sector hw start_page_addr pages_amount h =
     (let last_addr = start_page_addr + ucast pages_amount * STM32F107_PAGE_SIZE in
      if last_addr > STM32F107_LAST_PAGE_ADDR then (1, h)
      else erase_pages (FLASH_ErasePage hw) (unat pages_amount) start_page_addr h)"

text \<open>The loop \<open>for (int i; i < 16; i++, addr++) buf[i] = *addr\<close>.\<close>

function header_loop :: "'h mmio \<Rightarrow> int \<Rightarrow> u32 \<Rightarrow> u8 list \<Rightarrow> 'h \<Rightarrow> u8 list option" where
  "header_loop hw i addr buf h =
     (if i < 16 then
        if i < 0 then None
        else header_loop hw (i + 1) (addr + 1) (buf[nat i := ld8 hw addr h]) h
      else Some buf)"
  by auto
termination by (relation "measure (\<lambda>(hw, i, addr, buf, h). nat (16 - i))") auto

declare header_loop.simps [simp del]

definition read_header :: "'h mmio \<Rightarrow> int \<Rightarrow> 'h boot \<Rightarrow> (u8 \<times> 'h boot) option" where
  "read_header hw i0 s =
     (case header_loop hw i0 NEW_CORE_FLASH_ADDR (replicate 16 0) (dev s) of
        None \<Rightarrow> None
      | Some buf \<Rightarrow>
          if buf ! 0 = 0x76 \<and> buf ! 1 = 0x65 \<and> buf ! 2 = 0x72
          then Some (1, s\<lparr>new_core_size := le32 (buf ! 12) (buf ! 13) (buf ! 14) (buf ! 15)\<rparr>)
          else Some (0, s))"

text \<open>The copy loop of \<open>replace_core\<close>: \<open>n\<close> words, False at the first word that cannot be
  programmed.\<close>

fun copy_words :: "'h mmio \<Rightarrow> nat \<Rightarrow> u32 \<Rightarrow> u32 \<Rightarrow> 'h \<Rightarrow> bool \<times> 'h" where
  "copy_words hw 0 addr_cpy_from addr_cpy_to h = (True, h)"
| "copy_words hw (Suc n) addr_cpy_from addr_cpy_to h =
     (let carrier_word = ld32 hw addr_cpy_from h;
          (st, h) = FLASH_ProgramWord hw addr_cpy_to carrier_word h
      in if st \<noteq> FLASH_COMPLETE then (False, h)
         else copy_words hw n (addr_cpy_from + 4) (addr_cpy_to + 4) h)"

definition replace_core :: "'h mmio \<Rightarrow> 'h boot \<Rightarrow> u8 \<times> 'h boot" where
  "replace_core hw s =
     (let (func_ret_val, h) = erase_sector hw CURRENT_CORE_FLASH_ADDR 8 (dev s);
          s = s\<lparr>dev := h\<rparr>
      in if func_ret_val \<noteq> 0 then (1, s\<lparr>errno := FLASH_ERASE_ERR\<rparr>)
         else let (ok, h) = copy_words hw (unat (new_core_size s))
                    (NEW_CORE_FLASH_ADDR + CORE_HEADER_SIZE) CURRENT_CORE_FLASH_ADDR (dev s);
                  s = s\<lparr>dev := h\<rparr>
              in if \<not> ok then (1, s\<lparr>errno := FLASH_WR_ERR\<rparr>) else (0, s))"

section \<open>Start-up\<close>

definition sys_init :: "'h mmio \<Rightarrow> 'h \<Rightarrow> 'h" where
  "sys_init hw h =
     (let h = RCC_APB2PeriphClockCmd hw RCC_APB2Periph_GPIOB ENABLE h
      in GPIO_Init hw GPIOB
           \<lparr>GPIO_Pin = 0x8000, GPIO_Speed = GPIO_Speed_50MHz, GPIO_Mode = GPIO_Mode_Out_PP\<rparr> h)"

definition check_core :: "'h mmio \<Rightarrow> int \<Rightarrow> 'h boot \<Rightarrow> 'h boot option" where
  "check_core hw i0 s =
     (let s = s\<lparr>dev := FLASH_Unlock hw (dev s)\<rparr> in
      case read_header hw i0 s of
        None \<Rightarrow> None
      | Some (temp, s) \<Rightarrow>
          if temp = 1 then
            let (temp, s) = replace_core hw s in
            if temp \<noteq> 0 then Some s
            else let (temp, h) = erase_sector hw NEW_CORE_FLASH_ADDR PAGES_AMOUNT_TO_ERASE (dev s);
                     s = s\<lparr>dev := h\<rparr>
                 in if temp \<noteq> 0 then Some s
                    else Some (s\<lparr>dev := FLASH_Lock hw (dev s)\<rparr>)
          else Some (s\<lparr>dev := FLASH_Lock hw (dev s)\<rparr>))"

text \<open>How \<open>main\<close> ends: it hands the processor to the application with the stack pointer and
  the entry point that \<open>__jump\<close> read, or stays in its error loop.\<close>

datatype 'h outcome = Jumped (msp: u32) (entry: u32) (hw_state: 'h) | Error_Loop (hw_state: 'h)

definition jump :: "'h mmio \<Rightarrow> u32 \<Rightarrow> 'h \<Rightarrow> 'h outcome" where
  "jump hw addr h =
     (let jump_address = ld32 hw (addr + 4) h;
          h = NVIC_SetVectorTable hw NVIC_VectTab_FLASH APPLICATION_OFFSET h
      in Jumped (ld32 hw addr h) jump_address h)"

definition main :: "'h mmio \<Rightarrow> int \<Rightarrow> 'h boot \<Rightarrow> ('h outcome \<times> 'h boot) option" where
  "main hw i0 s =
     (let s = s\<lparr>dev := sys_init hw (dev s)\<rparr> in
      case check_core hw i0 s of
        None \<Rightarrow> None
      | Some s \<Rightarrow>
          Some (if errno s = 0 then jump hw CURRENT_CORE_FLASH_ADDR (dev s) else Error_Loop (dev s), s))"

text \<open>One round of the error loop: the indicator on and off again.\<close>

definition error_blink :: "'h mmio \<Rightarrow> 'h \<Rightarrow> 'h" where
  "error_blink hw h = GPIO_ResetBits hw GPIOB 0x8000 (GPIO_SetBits hw GPIOB 0x8000 h)"

section \<open>What the bootloader reads\<close>

text \<open>A new core is announced by its header; its size field counts the words to copy.\<close>

definition has_header :: "(u32 \<Rightarrow> u8) \<Rightarrow> bool" where
  "has_header m \<longleftrightarrow> m 0x08010000 = 0x76 \<and> m 0x08010001 = 0x65 \<and> m 0x08010002 = 0x72"

definition header_size :: "(u32 \<Rightarrow> u8) \<Rightarrow> u32" where
  "header_size m = mem32 m 0x0801000C"

lemma header_loop_eq:
  assumes "0 \<le> i" "length buf = 16"
  shows "header_loop hw i addr buf h =
    Some (take (nat i) buf @ map (\<lambda>k. ld8 hw (addr + of_nat k) h) [0..<16 - nat i])"
  using assms
proof (induction hw i addr buf h rule: header_loop.induct)
  case (1 hw i addr buf h)
  show ?case
  proof (cases "i < 16")
    case False
    with 1 show ?thesis by (simp add: header_loop.simps)
  next
    case True
    let ?b = "buf[nat i := ld8 hw addr h]"
    have i: "nat (i + 1) = Suc (nat i)" "16 - nat i = Suc (16 - Suc (nat i))" "nat i < length buf"
      using 1 True by auto
    have "header_loop hw i addr buf h = header_loop hw (i + 1) (addr + 1) ?b h"
      using 1 True by (simp add: header_loop.simps)
    also have "\<dots> = Some (take (nat (i + 1)) ?b @
        map (\<lambda>k. ld8 hw (addr + 1 + of_nat k) h) [0..<16 - nat (i + 1)])"
      using 1 True by simp
    also have "take (nat (i + 1)) ?b = take (nat i) buf @ [ld8 hw addr h]"
      using i by (simp add: take_Suc_conv_app_nth)
    also have "map (\<lambda>k. ld8 hw (addr + 1 + of_nat k) h) [0..<16 - nat (i + 1)] =
        map (\<lambda>k. ld8 hw (addr + of_nat k) h) [1..<16 - nat i]"
      unfolding i(1) i(2) One_nat_def map_Suc_upt [symmetric] by (simp add: add.assoc)
    finally show ?thesis
      using i(2) upt_conv_Cons [of 0 "16 - nat i"] by simp
  qed
qed

context fpec
begin

lemma read_header_0:
  "read_header hw 0 s = Some (if has_header (v_mem (view (dev s)))
     then (1, s\<lparr>new_core_size := header_size (v_mem (view (dev s)))\<rparr>) else (0, s))"
proof -
  have "in_flash 0x08010000" "in_flash 0x08010001" "in_flash 0x08010002" "in_flash 0x0801000C"
    "in_flash 0x0801000D" "in_flash 0x0801000E" "in_flash 0x0801000F"
    by (simp_all add: in_flash_def)
  then show ?thesis
    by (simp add: read_header_def header_loop_eq NEW_CORE_FLASH_ADDR_def has_header_def
        header_size_def mem32_def ld_array upt_rec)
qed

text \<open>As long as source and target do not overlap, the copy loop programs the words that the
  source holds when it starts.\<close>

lemma copy_words_program:
  assumes "ready (view h)" "flash_range from (4 * n)" "flash_range to (4 * n)" "to AND 1 = 0"
    and "unat to + 4 * n \<le> unat from"
  shows "copy_words hw n from to h =
    program_words (FLASH_ProgramWord hw) to (get_words from n (v_mem (view h))) h"
  using assms
proof (induction n arbitrary: "from" to h)
  case (Suc n)
  let ?m = "v_mem (view h)"
  have ld: "ld32 hw from h = mem32 ?m from"
    using ld32_mem [OF flash_range_mono [OF Suc.prems(2)]] by simp
  have fl: "in_flash to" "in_flash (to + 2)" using flash_range_word [OF Suc.prems(3)] by simp_all
  show ?case
  proof (cases "word_ok (v_wrp (view h)) to (mem32 ?m from) ?m")
    case False
    with nor.prog_refused [OF Suc.prems(1) fl Suc.prems(4)] ld show ?thesis by fastforce
  next
    case True
    with nor.prog_ok [OF Suc.prems(1) fl Suc.prems(4)] obtain h1 where
      h1: "FLASH_ProgramWord hw to (mem32 ?m from) h = (FLASH_COMPLETE, h1)" "ready (view h1)"
        "v_mem (view h1) = put32 to (mem32 ?m from) ?m" by blast
    have u: "unat (from + 4) = unat from + 4" "unat (to + 4) = unat to + 4"
      using flash_range_unat [OF Suc.prems(2), of 4] flash_range_unat [OF Suc.prems(3), of 4] by simp_all
    have "v_mem (view h1) (from + 4 + of_nat k) = ?m (from + 4 + of_nat k)" if "k < 4 * n" for k
      using put32_out [OF Suc.prems(3)] flash_range_unat [OF Suc.prems(2), of "4 + k"] that Suc.prems(5) h1(3)
      by (simp add: add.assoc)
    then have "get_words (from + 4) n (v_mem (view h1)) = get_words (from + 4) n ?m"
      by (rule get_words_cong [OF flash_range_4 [OF Suc.prems(2)]])
    with Suc.IH [OF h1(2) flash_range_4 [OF Suc.prems(2)] flash_range_4 [OF Suc.prems(3)]] Suc.prems(4,5) u h1 ld
    show ?thesis using even_add_2 [OF even_add_2 [OF Suc.prems(4)]] by (simp add: add.assoc)
  qed
qed simp

lemma erase_sector_ok:
  assumes "ready (view h)" "unat start + unat n * 2048 \<le> 0x0803F800"
    and "\<And>k. k < unat n \<Longrightarrow> \<not> v_wrp (view h) (page_of (start + of_nat k * STM32F107_PAGE_SIZE))"
  shows "\<exists>h'. erase_sector hw start n h = (0, h') \<and> ready (view h') \<and>
    v_wrp (view h') = v_wrp (view h) \<and> v_mem (view h') = erase_region start (unat n) (v_mem (view h))"
  using nor.erase_pages_ok [OF assms(1,3)] last_addr_ok [OF assms(2)] by (simp add: erase_sector_def)

end

section \<open>Installing a new core\<close>

definition CORE_ADDR :: u32 where "CORE_ADDR = 0x08010010"

lemma core_addr: "NEW_CORE_FLASH_ADDR + CORE_HEADER_SIZE = CORE_ADDR"
  by (simp add: NEW_CORE_FLASH_ADDR_def CORE_HEADER_SIZE_def CORE_ADDR_def)

text \<open>The flash contents after \<open>replace_core\<close> and after the whole check, for a core of \<open>n\<close> words.\<close>

definition replaced :: "nat \<Rightarrow> (u32 \<Rightarrow> u8) \<Rightarrow> u32 \<Rightarrow> u8" where
  "replaced n m = put_words CURRENT_CORE_FLASH_ADDR (get_words CORE_ADDR n m)
     (erase_region CURRENT_CORE_FLASH_ADDR 8 m)"

definition installed :: "nat \<Rightarrow> (u32 \<Rightarrow> u8) \<Rightarrow> u32 \<Rightarrow> u8" where
  "installed n m = erase_region NEW_CORE_FLASH_ADDR 64 (replaced n m)"

lemma erased_current:
  "erase_region CURRENT_CORE_FLASH_ADDR 8 m x =
     (if 0x08004000 \<le> unat x \<and> unat x < 0x08008000 then 0xFF else m x)"
  using erase_region_apply [of CURRENT_CORE_FLASH_ADDR 8 m x]
  by (simp add: CURRENT_CORE_FLASH_ADDR_def flash_range_def)

lemma erased_new:
  "erase_region NEW_CORE_FLASH_ADDR 64 m x =
     (if 0x08010000 \<le> unat x \<and> unat x < 0x08030000 then 0xFF else m x)"
  using erase_region_apply [of NEW_CORE_FLASH_ADDR 64 m x]
  by (simp add: NEW_CORE_FLASH_ADDR_def flash_range_def)

lemma core_ranges:
  assumes "n \<le> 0x1000"
  shows "flash_range CORE_ADDR (4 * n)" "flash_range CURRENT_CORE_FLASH_ADDR (4 * n)"
    "unat CURRENT_CORE_FLASH_ADDR + 4 * n \<le> unat CORE_ADDR" "unat CURRENT_CORE_FLASH_ADDR = 0x08004000"
  using assms by (simp_all add: flash_range_def CORE_ADDR_def CURRENT_CORE_FLASH_ADDR_def)

lemma installed_words:
  assumes "n \<le> 0x1000"
  shows "get_words CURRENT_CORE_FLASH_ADDR n (installed n m) = get_words CORE_ADDR n m"
proof -
  note r = core_ranges [OF assms]
  have "get_words CURRENT_CORE_FLASH_ADDR n (installed n m) = get_words CURRENT_CORE_FLASH_ADDR n (replaced n m)"
    using flash_range_unat [OF r(2)] r(4) assms
    by (intro get_words_cong [OF r(2)]) (simp add: installed_def erased_new)
  also have "\<dots> = get_words CORE_ADDR n m"
    using get_put_words [of CURRENT_CORE_FLASH_ADDR "get_words CORE_ADDR n m"] r(2) by (simp add: replaced_def)
  finally show ?thesis .
qed

lemma installed_outside:
  assumes "n \<le> 0x1000" "\<not> (0x08004000 \<le> unat x \<and> unat x < 0x08008000)"
    and "\<not> (0x08010000 \<le> unat x \<and> unat x < 0x08030000)"
  shows "installed n m x = m x"
  using assms core_ranges [OF assms(1)] put_words_out [of CURRENT_CORE_FLASH_ADDR "get_words CORE_ADDR n m" x]
  by (auto simp: installed_def erased_new replaced_def erased_current)

context fpec_soc
begin

text \<open>The two halves of \<open>replace_core\<close>: the erased application area, and programming up to its
  end.\<close>

lemma erase_current_ok:
  assumes "ready (view h)" "writable (view h) CURRENT_CORE_FLASH_ADDR 0x4000"
  obtains h1 where "erase_sector hw CURRENT_CORE_FLASH_ADDR 8 h = (0, h1)" and "ready (view h1)"
    and "v_wrp (view h1) = v_wrp (view h)"
    and "v_mem (view h1) = erase_region CURRENT_CORE_FLASH_ADDR 8 (v_mem (view h))"
proof -
  have "\<exists>h1. erase_sector hw CURRENT_CORE_FLASH_ADDR 8 h = (0, h1) \<and> ready (view h1) \<and>
      v_wrp (view h1) = v_wrp (view h) \<and>
      v_mem (view h1) = erase_region CURRENT_CORE_FLASH_ADDR (unat (8 :: u8)) (v_mem (view h))"
    using writable_page [of "view h" CURRENT_CORE_FLASH_ADDR 8] assms(2)
    by (intro erase_sector_ok assms(1)) (simp_all add: CURRENT_CORE_FLASH_ADDR_def)
  with that show thesis by auto
qed

lemma program_current_ok:
  assumes "ready (view h)" "writable (view h) CURRENT_CORE_FLASH_ADDR 0x4000" "length ws \<le> 0x1000"
    and "v_mem (view h) = erase_region CURRENT_CORE_FLASH_ADDR 8 m"
  obtains h' where "program_words (FLASH_ProgramWord hw) CURRENT_CORE_FLASH_ADDR ws h = (True, h')"
    and "ready (view h')" and "v_wrp (view h') = v_wrp (view h)"
    and "v_mem (view h') = put_words CURRENT_CORE_FLASH_ADDR ws (v_mem (view h))"
proof -
  note r = core_ranges [OF assms(3)]
  have "\<exists>h'. program_words (FLASH_ProgramWord hw) CURRENT_CORE_FLASH_ADDR ws h = (True, h') \<and>
      ready (view h') \<and> v_wrp (view h') = v_wrp (view h) \<and>
      v_mem (view h') = put_words CURRENT_CORE_FLASH_ADDR ws (v_mem (view h))"
  proof (rule nor.program_words_ok [OF assms(1)])
    show "v_mem (view h) (CURRENT_CORE_FLASH_ADDR + of_nat k) = 0xFF" if "k < 4 * length ws" for k
      using that flash_range_unat [OF r(2), of k] r(4) assms(3) by (simp add: assms(4) erased_current)
    show "\<not> v_wrp (view h) (page_of (CURRENT_CORE_FLASH_ADDR + of_nat k))" if "k < 4 * length ws" for k
      using that assms(2,3) by (simp add: writable_def)
  qed (use r in \<open>simp_all add: CURRENT_CORE_FLASH_ADDR_def\<close>)
  with that show thesis by blast
qed

lemma source_kept:
  assumes "n \<le> 0x3000"
  shows "get_words CORE_ADDR n (erase_region CURRENT_CORE_FLASH_ADDR 8 m) = get_words CORE_ADDR n m"
proof -
  have r: "flash_range CORE_ADDR (4 * n)" using assms by (simp add: flash_range_def CORE_ADDR_def)
  show ?thesis
    using flash_range_unat [OF r]
    by (intro get_words_cong [OF r]) (simp add: erased_current CORE_ADDR_def)
qed

lemma replace_core_ok:
  assumes "ready (view (dev s))" "writable (view (dev s)) CURRENT_CORE_FLASH_ADDR 0x4000"
    and "unat (new_core_size s) \<le> 0x1000"
  obtains h' where "replace_core hw s = (0, s\<lparr>dev := h'\<rparr>)" and "ready (view h')"
    and "v_wrp (view h') = v_wrp (view (dev s))"
    and "v_mem (view h') = replaced (unat (new_core_size s)) (v_mem (view (dev s)))"
proof -
  let ?n = "unat (new_core_size s)" and ?m = "v_mem (view (dev s))"
  note r = core_ranges [OF assms(3)]
  obtain h1 where h1: "erase_sector hw CURRENT_CORE_FLASH_ADDR 8 (dev s) = (0, h1)" "ready (view h1)"
    "v_wrp (view h1) = v_wrp (view (dev s))" "v_mem (view h1) = erase_region CURRENT_CORE_FLASH_ADDR 8 ?m"
    using erase_current_ok [OF assms(1,2)] by blast
  have copy: "copy_words hw ?n CORE_ADDR CURRENT_CORE_FLASH_ADDR h1 =
      program_words (FLASH_ProgramWord hw) CURRENT_CORE_FLASH_ADDR (get_words CORE_ADDR ?n ?m) h1"
    using copy_words_program [OF h1(2) r(1,2) _ r(3)] source_kept [of ?n ?m] assms(3) h1(4)
    by (simp add: CURRENT_CORE_FLASH_ADDR_def)
  have "writable (view h1) CURRENT_CORE_FLASH_ADDR 0x4000" using assms(2) h1(3) by (simp add: writable_def)
  then obtain h2 where "copy_words hw ?n CORE_ADDR CURRENT_CORE_FLASH_ADDR h1 = (True, h2)"
    "ready (view h2)" "v_wrp (view h2) = v_wrp (view h1)" "v_mem (view h2) = replaced ?n ?m"
    using program_current_ok [OF h1(2) _ _ h1(4), of "get_words CORE_ADDR ?n ?m"] copy assms(3) h1(4)
    by (auto simp: replaced_def)
  with h1 that show thesis by (simp add: replace_core_def core_addr)
qed

lemma check_core_ok:
  assumes "reset_view (view (dev s))" "has_header (v_mem (view (dev s)))"
    and "unat (header_size (v_mem (view (dev s)))) \<le> 0x1000"
    and "writable (view (dev s)) CURRENT_CORE_FLASH_ADDR 0x4000"
    and "writable (view (dev s)) NEW_CORE_FLASH_ADDR 0x20000"
  obtains h' where "check_core hw 0 s = Some (s\<lparr>dev := h', new_core_size := header_size (v_mem (view (dev s)))\<rparr>)"
    and "reset_view (view h')" and "v_wrp (view h') = v_wrp (view (dev s))"
    and "v_mem (view h') = installed (unat (header_size (v_mem (view (dev s))))) (v_mem (view (dev s)))"
proof -
  let ?m = "v_mem (view (dev s))"
  let ?h = "FLASH_Unlock hw (dev s)"
  note u = Unlock_reset [OF assms(1)]
  define s1 where "s1 = s\<lparr>dev := ?h, new_core_size := header_size ?m\<rparr>"
  have rh: "read_header hw 0 (s\<lparr>dev := ?h\<rparr>) = Some (1, s1)"
    using assms(2) u by (simp add: read_header_0 s1_def)
  obtain h2 where h2: "replace_core hw s1 = (0, s1\<lparr>dev := h2\<rparr>)" "ready (view h2)"
    "v_wrp (view h2) = v_wrp (view (dev s))" "v_mem (view h2) = replaced (unat (header_size ?m)) ?m"
    using replace_core_ok [of s1] u assms by (auto simp: s1_def writable_def)
  have "\<exists>h3. erase_sector hw NEW_CORE_FLASH_ADDR PAGES_AMOUNT_TO_ERASE h2 = (0, h3) \<and> ready (view h3) \<and>
      v_wrp (view h3) = v_wrp (view h2) \<and>
      v_mem (view h3) = erase_region NEW_CORE_FLASH_ADDR (unat PAGES_AMOUNT_TO_ERASE) (v_mem (view h2))"
    using writable_page [of "view h2" NEW_CORE_FLASH_ADDR 64] assms(5) h2
    by (intro erase_sector_ok) (simp_all add: NEW_CORE_FLASH_ADDR_def PAGES_AMOUNT_TO_ERASE_def writable_def)
  then obtain h3 where h3: "erase_sector hw NEW_CORE_FLASH_ADDR PAGES_AMOUNT_TO_ERASE h2 = (0, h3)" "ready (view h3)"
    "v_wrp (view h3) = v_wrp (view h2)" "v_mem (view h3) = installed (unat (header_size ?m)) ?m"
    using h2 by (auto simp: installed_def PAGES_AMOUNT_TO_ERASE_def)
  have "check_core hw 0 s = Some (s1\<lparr>dev := FLASH_Lock hw h3\<rparr>)"
    using rh h2 h3 by (simp add: check_core_def)
  with that [of "FLASH_Lock hw h3"] Lock_ready [OF h3(2)] h2 h3 show thesis by (simp add: s1_def)
qed

lemma sys_init_view: "view (sys_init hw h) = view h"
proof -
  have o: "off_flash (GPIOB + CRL)" "off_flash (GPIOB + CRH)" "off_flash (GPIOB + BSRR)"
    "off_flash (GPIOB + BRR)" "off_flash RCC_APB2ENR"
    by (simp_all add: off_flash_def in_flash_def GPIOB_def reg_defs RCC_APB2ENR_def)
  show ?thesis
    by (simp add: sys_init_def GPIO_Init_part o RCC_APB2PeriphClockCmd_def rmw_frame)
qed

lemma jump_eq:
  "jump hw CURRENT_CORE_FLASH_ADDR h =
     Jumped (mem32 (v_mem (view h)) 0x08004000) (mem32 (v_mem (view h)) 0x08004004)
       (wr32 hw SCB_VTOR 0x08004000 h)"
  "view (hw_state (jump hw CURRENT_CORE_FLASH_ADDR h)) = view h"
proof -
  have f: "flash_range 0x08004000 4" "flash_range 0x08004004 4" "off_flash SCB_VTOR"
    by (simp_all add: flash_range_def off_flash_def in_flash_def SCB_VTOR_def)
  show 1: "jump hw CURRENT_CORE_FLASH_ADDR h =
     Jumped (mem32 (v_mem (view h)) 0x08004000) (mem32 (v_mem (view h)) 0x08004004)
       (wr32 hw SCB_VTOR 0x08004000 h)"
    using f by (simp add: jump_def CURRENT_CORE_FLASH_ADDR_def NVIC_SetVectorTable_def NVIC_VectTab_FLASH_def
        APPLICATION_OFFSET_def ld32_mem wr_frame)
  show "view (hw_state (jump hw CURRENT_CORE_FLASH_ADDR h)) = view h"
    using f by (simp add: 1 wr_frame)
qed

lemma check_core_no_header:
  assumes "reset_view (view (dev s))" "\<not> has_header (v_mem (view (dev s)))"
  obtains h' where "check_core hw 0 s = Some (s\<lparr>dev := h'\<rparr>)" and "reset_view (view h')"
    and "v_mem (view h') = v_mem (view (dev s))"
proof -
  note u = Unlock_reset [OF assms(1)]
  note l = Lock_ready [OF u(1)]
  show thesis
    using that [of "FLASH_Lock hw (FLASH_Unlock hw (dev s))"] u l assms(2)
    by (simp add: check_core_def read_header_0)
qed

lemma erase_sector_protected:
  assumes "ready (view h)" "unat start + unat n * 2048 \<le> 0x0803F800" "k < unat n"
    and "v_wrp (view h) (page_of (start + of_nat k * STM32F107_PAGE_SIZE))"
  shows "fst (erase_sector hw start n h) = 2"
  using nor.erase_pages_protected [OF assms(1,3,4)] last_addr_ok [OF assms(2)] by (simp add: erase_sector_def)

text \<open>A protected page in the application area: the error is recorded and nothing is copied.\<close>

lemma check_core_erase_error:
  assumes "reset_view (view (dev s))" "has_header (v_mem (view (dev s)))" "k < 8"
    and "v_wrp (view (dev s)) (page_of (CURRENT_CORE_FLASH_ADDR + of_nat k * STM32F107_PAGE_SIZE))"
  obtains s' where "check_core hw 0 s = Some s'" and "errno s' = FLASH_ERASE_ERR"
proof -
  note u = Unlock_reset [OF assms(1)]
  have "fst (erase_sector hw CURRENT_CORE_FLASH_ADDR 8 (FLASH_Unlock hw (dev s))) = 2"
    using assms(3,4) u by (intro erase_sector_protected [where k = k]) (simp_all add: CURRENT_CORE_FLASH_ADDR_def)
  then obtain h' where "erase_sector hw CURRENT_CORE_FLASH_ADDR 8 (FLASH_Unlock hw (dev s)) = (2, h')"
    by (metis prod.collapse)
  with that assms(2) u show thesis by (simp add: check_core_def read_header_0 replace_core_def)
qed

text \<open>The whole start with a new core in flash.\<close>

lemma main_ok:
  assumes "reset_view (view (dev s))" and "errno s = 0"
    and "has_header (v_mem (view (dev s)))"
    and "2 \<le> unat (header_size (v_mem (view (dev s))))" and "unat (header_size (v_mem (view (dev s)))) \<le> 0x1000"
    and "writable (view (dev s)) CURRENT_CORE_FLASH_ADDR 0x4000"
    and "writable (view (dev s)) NEW_CORE_FLASH_ADDR 0x20000"
  obtains h s' where "main hw 0 s = Some (Jumped (mem32 (v_mem (view (dev s))) 0x08010010)
      (mem32 (v_mem (view (dev s))) 0x08010014) (wr32 hw SCB_VTOR 0x08004000 h), s')"
    and "v_mem (view (wr32 hw SCB_VTOR 0x08004000 h)) =
      installed (unat (header_size (v_mem (view (dev s))))) (v_mem (view (dev s)))"
proof -
  let ?s = "s\<lparr>dev := sys_init hw (dev s)\<rparr>" and ?m = "v_mem (view (dev s))"
  obtain h' where h': "check_core hw 0 ?s = Some (?s\<lparr>dev := h', new_core_size := header_size ?m\<rparr>)"
    "v_mem (view h') = installed (unat (header_size ?m)) ?m"
    using check_core_ok [of ?s] assms sys_init_view by auto
  obtain n where n: "unat (header_size ?m) = Suc (Suc n)"
    using assms(4) le_Suc_ex [of 2 "unat (header_size ?m)"] by auto
  have "get_words CURRENT_CORE_FLASH_ADDR (Suc (Suc n)) (v_mem (view h')) = get_words CORE_ADDR (Suc (Suc n)) ?m"
    using installed_words [OF assms(5)] h'(2) n by simp
  then have "mem32 (v_mem (view h')) 0x08004000 = mem32 ?m 0x08010010"
    "mem32 (v_mem (view h')) 0x08004004 = mem32 ?m 0x08010014"
    by (simp_all add: CURRENT_CORE_FLASH_ADDR_def CORE_ADDR_def)
  moreover have "view (wr32 hw SCB_VTOR 0x08004000 h') = view h'"
    using jump_eq(2) [of h'] jump_eq(1) [of h'] by simp
  ultimately show thesis
    using that [of h'] h' assms(2) by (simp add: main_def jump_eq)
qed

text \<open>Erasing never locks the controller, whether it succeeds or not.\<close>

lemma erase_pages_unlocked:
  assumes "ready (view h)"
  shows "\<not> v_locked (view (snd (erase_pages (FLASH_ErasePage hw) n a h)))"
  using assms
proof (induction n arbitrary: a h)
  case 0
  then show ?case by (simp add: ready_def v_locked_def)
next
  case (Suc n)
  obtain h1 where h1: "FLASH_ErasePage hw a h = (view_status (erase_view a (view h)), h1)"
    "view h1 = erase_view a (view h)" using ErasePage_view [OF Suc.prems] by blast
  show ?case
  proof (cases "v_wrp (view h) (page_of a)")
    case True
    with h1 erase_view_ready [OF Suc.prems, of a] show ?thesis
      using Suc.prems by (simp add: erase_view_def ready_def v_locked_def)
  next
    case False
    with h1 erase_view_ready [OF Suc.prems, of a] Suc.IH [of h1] show ?thesis by simp
  qed
qed

text \<open>A protected page in the new-core area: the core is installed and \<open>errno\<close> stays as it
  was, but the controller is left unlocked.\<close>

lemma check_core_late_error:
  assumes "reset_view (view (dev s))" "has_header (v_mem (view (dev s)))"
    and "unat (header_size (v_mem (view (dev s)))) \<le> 0x1000"
    and "writable (view (dev s)) CURRENT_CORE_FLASH_ADDR 0x4000"
    and "k < 64" "v_wrp (view (dev s)) (page_of (NEW_CORE_FLASH_ADDR + of_nat k * STM32F107_PAGE_SIZE))"
  obtains s' where "check_core hw 0 s = Some s'" and "errno s' = errno s" and "\<not> v_locked (view (dev s'))"
proof -
  let ?m = "v_mem (view (dev s))"
  note u = Unlock_reset [OF assms(1)]
  define s1 where "s1 = s\<lparr>dev := FLASH_Unlock hw (dev s), new_core_size := header_size ?m\<rparr>"
  have rh: "read_header hw 0 (s\<lparr>dev := FLASH_Unlock hw (dev s)\<rparr>) = Some (1, s1)"
    using assms(2) u by (simp add: read_header_0 s1_def)
  obtain h2 where h2: "replace_core hw s1 = (0, s1\<lparr>dev := h2\<rparr>)" "ready (view h2)"
    "v_wrp (view h2) = v_wrp (view (dev s))"
    using replace_core_ok [of s1] u assms by (auto simp: s1_def writable_def)
  obtain r h3 where h3: "erase_sector hw NEW_CORE_FLASH_ADDR PAGES_AMOUNT_TO_ERASE h2 = (r, h3)" by fastforce
  have "r = 2"
    using erase_sector_protected [OF h2(2), of NEW_CORE_FLASH_ADDR PAGES_AMOUNT_TO_ERASE k] assms(5,6) h2(3) h3
    by (simp add: NEW_CORE_FLASH_ADDR_def PAGES_AMOUNT_TO_ERASE_def)
  moreover have "h3 = snd (erase_pages (FLASH_ErasePage hw) (unat PAGES_AMOUNT_TO_ERASE) NEW_CORE_FLASH_ADDR h2)"
    using h3 \<open>r = 2\<close> by (auto simp: erase_sector_def split: if_splits)
  ultimately show thesis
    using that [of "s1\<lparr>dev := h3\<rparr>"] erase_pages_unlocked [OF h2(2)] rh h2(1) h3
    by (simp add: check_core_def) (simp add: s1_def)
qed

text \<open>A size field beyond the eight erased pages: the copy fails at the first word behind them
  that cannot be programmed.\<close>

lemma replace_core_oversize:
  assumes "ready (view (dev s))" "writable (view (dev s)) CURRENT_CORE_FLASH_ADDR 0x4000"
    and "0x1000 < unat (new_core_size s)" "unat (new_core_size s) \<le> 0x3000"
    and "\<not> word_ok (v_wrp (view (dev s))) 0x08008000 (mem32 (v_mem (view (dev s))) 0x08014010) (v_mem (view (dev s)))"
  obtains h' where "replace_core hw s = (1, s\<lparr>dev := h', errno := FLASH_WR_ERR\<rparr>)"
proof -
  let ?n = "unat (new_core_size s)" and ?m = "v_mem (view (dev s))"
  let ?ws = "get_words CORE_ADDR 0x1000 ?m" and ?w = "mem32 ?m 0x08014010"
  have r: "flash_range CORE_ADDR (4 * ?n)" "flash_range CURRENT_CORE_FLASH_ADDR (4 * ?n)"
    "unat CURRENT_CORE_FLASH_ADDR + 4 * ?n \<le> unat CORE_ADDR"
    using assms(4) by (simp_all add: flash_range_def CORE_ADDR_def CURRENT_CORE_FLASH_ADDR_def)
  obtain h1 where h1: "erase_sector hw CURRENT_CORE_FLASH_ADDR 8 (dev s) = (0, h1)" "ready (view h1)"
    "v_wrp (view h1) = v_wrp (view (dev s))" "v_mem (view h1) = erase_region CURRENT_CORE_FLASH_ADDR 8 ?m"
    using erase_current_ok [OF assms(1,2)] by blast
  obtain j where j: "?n = 0x1000 + Suc j" using assms(3) less_iff_Suc_add by (metis add_Suc_right)
  have ws: "get_words CORE_ADDR ?n (v_mem (view h1)) = ?ws @ ?w # get_words 0x08014014 j ?m"
    using source_kept [OF assms(4), of ?m] get_words_split [of CORE_ADDR "0x1000" "Suc j" ?m] h1(4)
    by (simp add: j) (simp add: CORE_ADDR_def)
  have "writable (view h1) CURRENT_CORE_FLASH_ADDR 0x4000" using assms(2) h1(3) by (simp add: writable_def)
  then obtain h2 where h2: "program_words (FLASH_ProgramWord hw) CURRENT_CORE_FLASH_ADDR ?ws h1 = (True, h2)"
    "ready (view h2)" "v_wrp (view h2) = v_wrp (view h1)"
    "v_mem (view h2) = put_words CURRENT_CORE_FLASH_ADDR ?ws (v_mem (view h1))"
    using program_current_ok [OF h1(2) _ _ h1(4), of ?ws] by auto
  have mem: "v_mem (view h2) x = ?m x" if "0x08008000 \<le> unat x" for x
    using put_words_out [of CURRENT_CORE_FLASH_ADDR ?ws x] core_ranges(2,4) [of "0x1000"] that h2(4) h1(4) by (simp add: erased_current)
  have "\<not> word_ok (v_wrp (view h2)) 0x08008000 ?w (v_mem (view h2))"
    using assms(5) h1(3) h2(3) mem [of "0x08008000"] mem [of "0x08008001"] mem [of "0x08008002"] mem [of "0x08008003"]
    by (simp add: word_ok_def)
  then have "fst (program_words (FLASH_ProgramWord hw) 0x08008000 (?w # get_words 0x08014014 j ?m) h2) = False"
    by (intro nor.program_words_refused [OF h2(2)]) (simp_all add: flash_range_def)
  then obtain h3 where "program_words (FLASH_ProgramWord hw) 0x08008000 (?w # get_words 0x08014014 j ?m) h2 = (False, h3)"
    by (metis prod.collapse)
  then have "copy_words hw ?n CORE_ADDR CURRENT_CORE_FLASH_ADDR h1 = (False, h3)"
    using copy_words_program [OF h1(2) r(1,2) _ r(3)] ws h2(1)
    by (simp add: nor.program_words_append CURRENT_CORE_FLASH_ADDR_def del: program_words.simps)
  with h1(1) that show thesis by (simp add: replace_core_def core_addr)
qed

end

section \<open>Properties of the bootloader\<close>

text \<open>The example used below: flash contents that hold a new core of two words behind a header
  with the size field 2, and the state of the bootloader at reset.\<close>

definition demo_mem :: "u32 \<Rightarrow> u8" where
  "demo_mem = (\<lambda>_. 0xFF)(0x08010000 := 0x76, 0x08010001 := 0x65, 0x08010002 := 0x72,
     0x0801000C := 2, 0x0801000D := 0, 0x0801000E := 0, 0x0801000F := 0,
     0x08010010 := 0x00, 0x08010011 := 0x00, 0x08010012 := 0x01, 0x08010013 := 0x20,
     0x08010014 := 0x31, 0x08010015 := 0x41, 0x08010016 := 0x00, 0x08010017 := 0x08)"

definition boot_reset :: "'h \<Rightarrow> 'h boot" where
  "boot_reset h = \<lparr>dev = h, errno = 0, new_core_size = 0\<rparr>"

lemma boot_reset_simps [simp]:
  "dev (boot_reset h) = h" "errno (boot_reset h) = 0" "new_core_size (boot_reset h) = 0"
  by (simp_all add: boot_reset_def)

lemma demo_simps [simp]:
  "has_header demo_mem" "header_size demo_mem = 2"
  "mem32 demo_mem 0x08010010 = 0x20010000" "mem32 demo_mem 0x08010014 = 0x08004131"
  by (simp_all add: has_header_def header_size_def demo_mem_def mem32_def le32_def)

lemma demo_words [simp]: "get_words CORE_ADDR 2 demo_mem = [0x20010000, 0x08004131]"
  by (simp add: get_words_2 CORE_ADDR_def)







text \<open>If a page of the application area cannot be erased because it is write protected, \<open>main\<close>
  does not start an application: it ends in the error loop with \<open>errno = FLASH_ERASE_ERR\<close>.\<close>

theorem main_erase_error:
  assumes "fpec_soc hw view t_erase t_prog" and "reset_view (view (dev s))"
    and "has_header (v_mem (view (dev s)))" and "k < 8"
    and "v_wrp (view (dev s)) (page_of (CURRENT_CORE_FLASH_ADDR + of_nat k * STM32F107_PAGE_SIZE))"
  shows "\<exists>h s'. main hw 0 s = Some (Error_Loop h, s') \<and> errno s' = FLASH_ERASE_ERR"
proof -
  let ?s = "s\<lparr>dev := sys_init hw (dev s)\<rparr>"
  obtain s' where "check_core hw 0 ?s = Some s'" "errno s' = FLASH_ERASE_ERR"
    using fpec_soc.check_core_erase_error [OF assms(1), of ?s k] assms fpec_soc.sys_init_view [OF assms(1)]
    by auto
  then show ?thesis by (simp add: main_def FLASH_ERASE_ERR_def)
qed

theorem main_erase_error_witness:
  "\<exists>h s'. main sim_hw 0 (boot_reset (sim_reset (\<lambda>p. p = 0x08004800) demo_mem)) = Some (Error_Loop h, s')
     \<and> errno s' = FLASH_ERASE_ERR"
  using main_erase_error [OF sim.fpec_soc_axioms, of "boot_reset (sim_reset (\<lambda>p. p = 0x08004800) demo_mem)" 1]
  by (simp add: page_of_def CURRENT_CORE_FLASH_ADDR_def STM32F107_PAGE_SIZE_def)

text \<open>A size field above 4096 words leaves the eight erased pages: if the first word behind
  them cannot be programmed (it is neither blank nor to become 0, or its page is protected),
  \<open>main\<close> ends in the error loop with \<open>errno = FLASH_WR_ERR\<close>. The header comment gives the
  size in bytes, so this happens for every such core of more than 4096 bytes.\<close>

theorem main_oversize_error:
  assumes "fpec_soc hw view t_erase t_prog" and "reset_view (view (dev s))"
    and "has_header (v_mem (view (dev s)))"
    and "0x1000 < unat (header_size (v_mem (view (dev s))))"
    and "unat (header_size (v_mem (view (dev s)))) \<le> 0x3000"
    and "writable (view (dev s)) CURRENT_CORE_FLASH_ADDR 0x4000"
    and "\<not> word_ok (v_wrp (view (dev s))) 0x08008000 (mem32 (v_mem (view (dev s))) 0x08014010)
           (v_mem (view (dev s)))"
  shows "\<exists>h s'. main hw 0 s = Some (Error_Loop h, s') \<and> errno s' = FLASH_WR_ERR"
proof -
  define s0 where "s0 = s\<lparr>dev := FLASH_Unlock hw (sys_init hw (dev s))\<rparr>"
  have v: "view (sys_init hw (dev s)) = view (dev s)" by (rule fpec_soc.sys_init_view [OF assms(1)])
  have u: "ready (view (dev s0))" "v_mem (view (dev s0)) = v_mem (view (dev s))"
    "v_wrp (view (dev s0)) = v_wrp (view (dev s))"
    using fpec_soc.Unlock_reset [OF assms(1), of "sys_init hw (dev s)"] assms(2) v by (simp_all add: s0_def)
  define s1 where "s1 = s0\<lparr>new_core_size := header_size (v_mem (view (dev s)))\<rparr>"
  have rh: "read_header hw 0 s0 = Some (1, s1)"
    using fpec.read_header_0 [OF fpec_soc.axioms(1) [OF assms(1)], of s0] u assms(3) by (simp add: s1_def)
  obtain h' where "replace_core hw s1 = (1, s1\<lparr>dev := h', errno := FLASH_WR_ERR\<rparr>)"
    using fpec_soc.replace_core_oversize [OF assms(1), of s1] u assms by (auto simp: s1_def writable_def)
  with rh have "check_core hw 0 (s\<lparr>dev := sys_init hw (dev s)\<rparr>) = Some (s1\<lparr>dev := h', errno := FLASH_WR_ERR\<rparr>)"
    by (simp add: check_core_def s0_def)
  then show ?thesis by (simp add: main_def FLASH_WR_ERR_def)
qed

theorem main_oversize_error_witness:
  "\<exists>h s'. main sim_hw 0 (boot_reset (sim_reset (\<lambda>_. False)
      ((\<lambda>_. 0x55)(0x08010000 := 0x76, 0x08010001 := 0x65, 0x08010002 := 0x72,
         0x0801000C := 0x88, 0x0801000D := 0x13, 0x0801000E := 0, 0x0801000F := 0)))) =
     Some (Error_Loop h, s') \<and> errno s' = FLASH_WR_ERR"
  by (rule main_oversize_error [OF sim.fpec_soc_axioms])
    (simp_all add: has_header_def header_size_def mem32_def le32_def word_ok_def)

text \<open>Whether a header is found depends on the initial value of the loop counter that
  \<open>read_header\<close> leaves uninitialised: with 0 the header is recognised and its size field
  read, with any positive value a header is never found, and a negative value makes the
  loop store outside its buffer.\<close>

theorem read_header_counter:
  assumes "fpec hw view t_erase t_prog" and "has_header (v_mem (view (dev s)))"
  shows "read_header hw i0 s =
    (if i0 = 0 then Some (1, s\<lparr>new_core_size := header_size (v_mem (view (dev s)))\<rparr>)
     else if 0 < i0 then Some (0, s) else None)"
proof -
  consider "i0 = 0" | "0 < i0" | "i0 < 0" by linarith
  then show ?thesis
  proof cases
    case 1
    with fpec.read_header_0 [OF assms(1)] assms(2) show ?thesis by simp
  next
    case 2
    then have "(take (nat i0) (replicate 16 (0 :: u8)) @ xs) ! 0 = 0" for xs
      by (simp add: nth_append)
    with 2 show ?thesis by (simp add: read_header_def header_loop_eq)
  next
    case 3
    then show ?thesis by (simp add: read_header_def header_loop.simps)
  qed
qed

theorem read_header_counter_witness:
  "read_header sim_hw 7 (boot_reset (sim_reset (\<lambda>_. False) demo_mem)) =
     Some (0, boot_reset (sim_reset (\<lambda>_. False) demo_mem))"
  using read_header_counter [OF sim.fpec_axioms, of "boot_reset (sim_reset (\<lambda>_. False) demo_mem)" 7]
  by simp





end
