(* ===== verification/Crc.thy ===== *)
theory Crc
  imports NorFlash
begin

text \<open>
  The driver of the CRC calculation unit, \<open>stm32f10x_crc.c\<close>, and the documented behaviour of
  the unit as the locale \<open>crc_unit\<close>: a data register that folds every word written to it
  into the CRC-32 remainder (polynomial 0x04C11DB7, most significant bit first, start value
  0xFFFFFFFF).
\<close>

unbundle bit_operations_syntax

section \<open>The driver\<close>

definition CRC_DR :: u32 where "CRC_DR = 0x40023000"
definition CRC_IDR :: u32 where "CRC_IDR = 0x40023004"
definition CRC_CR :: u32 where "CRC_CR = 0x40023008"
definition CRC_CR_RESET :: u32 where [reg_defs]: "CRC_CR_RESET = 0x1"

definition CRC_ResetDR :: "'h mmio \<Rightarrow> 'h \<Rightarrow> 'h" where
  "CRC_ResetDR hw h = wr32 hw CRC_CR CRC_CR_RESET h"

definition CRC_CalcCRC :: "'h mmio \<Rightarrow> u32 \<Rightarrow> 'h \<Rightarrow> u32 \<times> 'h" where
  "CRC_CalcCRC hw Data h = rd32 hw CRC_DR (wr32 hw CRC_DR Data h)"

text \<open>The loop over the buffer, by the number of words left.\<close>

fun crc_block_loop :: "'h mmio \<Rightarrow> nat \<Rightarrow> u32 \<Rightarrow> 'h \<Rightarrow> 'h" where
  "crc_block_loop hw 0 p h = h"
| "crc_block_loop hw (Suc n) p h = crc_block_loop hw n (p + 4) (wr32 hw CRC_DR (ld32 hw p h) h)"

definition CRC_CalcBlockCRC :: "'h mmio \<Rightarrow> u32 \<Rightarrow> u32 \<Rightarrow> 'h \<Rightarrow> u32 \<times> 'h" where
  "CRC_CalcBlockCRC hw pBuffer BufferLength h =
     rd32 hw CRC_DR (crc_block_loop hw (unat BufferLength) pBuffer h)"

definition CRC_GetCRC :: "'h mmio \<Rightarrow> 'h \<Rightarrow> u32 \<times> 'h" where
  "CRC_GetCRC hw h = rd32 hw CRC_DR h"

definition CRC_SetIDRegister :: "'h mmio \<Rightarrow> u8 \<Rightarrow> 'h \<Rightarrow> 'h" where
  "CRC_SetIDRegister hw IDValue h = wr8 hw CRC_IDR IDValue h"

definition CRC_GetIDRegister :: "'h mmio \<Rightarrow> 'h \<Rightarrow> u8" where
  "CRC_GetIDRegister hw h = ld8 hw CRC_IDR h"

section \<open>The unit\<close>

text \<open>The remainder after one more data word: 32 polynomial division steps.\<close>

definition crc_shift :: "u32 \<Rightarrow> u32" where
  "crc_shift c = (if bit c 31 then push_bit 1 c XOR 0x04C11DB7 else push_bit 1 c)"

definition crc_word :: "u32 \<Rightarrow> u32 \<Rightarrow> u32" where
  "crc_word c d = (crc_shift ^^ 32) (c XOR d)"

locale crc_unit = fpec_soc hw view t_erase t_prog
  for hw :: "'h mmio" and view :: "'h \<Rightarrow> fpec_view" and t_erase t_prog :: "'h \<Rightarrow> nat" +
  fixes crc :: "'h \<Rightarrow> u32"
  assumes wr_DR: "crc (wr32 hw CRC_DR x h) = crc_word (crc h) x"
    and rd_DR: "fst (rd32 hw CRC_DR h) = crc h" "crc (snd (rd32 hw CRC_DR h)) = crc h"
    and wr_RESET: "crc (wr32 hw CRC_CR CRC_CR_RESET h) = 0xFFFFFFFF"
begin

lemma off_crc: "off_flash CRC_DR" "off_flash CRC_CR"
  by (simp_all add: off_flash_def in_flash_def CRC_DR_def CRC_CR_def)

lemma crc_block_loop_fold:
  assumes "flash_range p (4 * n)"
  shows "crc (crc_block_loop hw n p h) = fold (\<lambda>w c. crc_word c w) (get_words p n (v_mem (view h))) (crc h)"
    and "view (crc_block_loop hw n p h) = view h"
  using assms
proof (induction n arbitrary: p h)
  case (Suc n)
  { case 1
    then have r: "flash_range p 4" "flash_range (p + 4) (4 * n)"
      using flash_range_mono [of p "4 * Suc n" 4] flash_range_4 by auto
    then show ?case using Suc.IH(1) wr_DR wr_frame [OF off_crc(1)] by (simp add: ld32_mem)
  next
    case 2
    then have "flash_range (p + 4) (4 * n)" using flash_range_4 by auto
    then show ?case using Suc.IH(2) wr_frame [OF off_crc(1)] by simp
  }
qed simp_all

lemma CalcBlockCRC_fold:
  assumes "flash_range p (4 * unat n)"
  obtains h' where "CRC_CalcBlockCRC hw p n h =
      (fold (\<lambda>w c. crc_word c w) (get_words p (unat n) (v_mem (view h))) (crc h), h')"
    and "view h' = view h"
    and "crc h' = fold (\<lambda>w c. crc_word c w) (get_words p (unat n) (v_mem (view h))) (crc h)"
proof -
  let ?h = "crc_block_loop hw (unat n) p h"
  have "rd32 hw CRC_DR ?h = (crc ?h, snd (rd32 hw CRC_DR ?h))" using rd_DR(1) by (metis prod.collapse)
  with that [of "snd (rd32 hw CRC_DR ?h)"] crc_block_loop_fold [OF assms] rd_frame [OF off_crc(1)] rd_DR(2)
  show thesis by (simp add: CRC_CalcBlockCRC_def)
qed

lemma reset_crc: "crc (CRC_ResetDR hw h) = 0xFFFFFFFF" "view (CRC_ResetDR hw h) = view h"
  using wr_RESET wr_frame [OF off_crc(2)] by (simp_all add: CRC_ResetDR_def)

end

section \<open>A reference unit\<close>

text \<open>The flash controller of the theory \<open>NorFlash\<close> with a CRC unit beside it.\<close>

definition soc_hw :: "(fpec_view \<times> u32) mmio" where
  "soc_hw = \<lparr>
     rd32 = (\<lambda>r (v, c). if r = CRC_DR then (c, (v, c)) else let (x, v) = rd32 sim_hw r v in (x, (v, c))),
     wr32 = (\<lambda>r x (v, c). if r = CRC_DR then (v, crc_word c x)
       else if r = CRC_CR then (v, if x AND 1 \<noteq> 0 then 0xFFFFFFFF else c)
       else (wr32 sim_hw r x v, c)),
     wr16 = (\<lambda>a x (v, c). (wr16 sim_hw a x v, c)),
     wr8 = (\<lambda>_ _ s. s),
     ld8 = (\<lambda>a (v, c). ld8 sim_hw a v)\<rparr>"

interpretation soc: crc_unit soc_hw fst "\<lambda>_. 3" "\<lambda>_. 2" snd
  by unfold_locales
    (auto simp: soc_hw_def sim_hw_def sim_rd32_def sim_wr32_def sim_wr16_def flash_addr_defs off_flash_def
      EraseTimeout_def ProgramTimeout_def CRC_DR_def CRC_CR_def CRC_CR_RESET_def split_beta Let_def)

section \<open>Properties\<close>

text \<open>After a reset of the unit, CRC_CalcBlockCRC over an area of the flash returns the CRC of
  the little-endian words of the area, from the initial value 0xFFFFFFFF, and leaves the flash
  controller as it was; a second block continues the CRC of the first.\<close>

theorem CRC_CalcBlockCRC_result:
  assumes "crc_unit hw view t_erase t_prog crc" and "flash_range p (4 * unat n)" and "flash_range q (4 * unat m)"
  shows "\<exists>h1 h2. CRC_CalcBlockCRC hw p n (CRC_ResetDR hw h) =
      (fold (\<lambda>w c. crc_word c w) (get_words p (unat n) (v_mem (view h))) 0xFFFFFFFF, h1) \<and> view h1 = view h \<and>
    CRC_CalcBlockCRC hw q m h1 =
      (fold (\<lambda>w c. crc_word c w) (get_words p (unat n) (v_mem (view h)) @ get_words q (unat m) (v_mem (view h))) 0xFFFFFFFF, h2) \<and>
    view h2 = view h"
proof -
  let ?f = "fold (\<lambda>w c. crc_word c w)" and ?h = "CRC_ResetDR hw h"
  have r: "crc ?h = 0xFFFFFFFF" "view ?h = view h"
    using crc_unit.reset_crc [OF assms(1)] by simp_all
  obtain h1 where h1: "CRC_CalcBlockCRC hw p n ?h = (?f (get_words p (unat n) (v_mem (view h))) 0xFFFFFFFF, h1)"
    "view h1 = view h" "crc h1 = ?f (get_words p (unat n) (v_mem (view h))) 0xFFFFFFFF"
    using crc_unit.CalcBlockCRC_fold [OF assms(1,2), of ?h] r by metis
  obtain h2 where "CRC_CalcBlockCRC hw q m h1 = (?f (get_words q (unat m) (v_mem (view h))) (crc h1), h2)" "view h2 = view h"
    using crc_unit.CalcBlockCRC_fold [OF assms(1,3), of h1] h1(2) by metis
  with h1 show ?thesis by simp
qed

theorem CRC_CalcBlockCRC_result_witness:
  "\<exists>h1 h2. CRC_CalcBlockCRC soc_hw 0x08010000 1 (CRC_ResetDR soc_hw (sim_reset (\<lambda>_. False) (\<lambda>_. 0xFF), 0)) =
      (crc_word 0xFFFFFFFF 0xFFFFFFFF, h1) \<and>
    CRC_CalcBlockCRC soc_hw 0x08010004 1 h1 = (crc_word (crc_word 0xFFFFFFFF 0xFFFFFFFF) 0xFFFFFFFF, h2)"
  using CRC_CalcBlockCRC_result [OF soc.crc_unit_axioms, of "0x08010000" 1 "0x08010004" 1 "(sim_reset (\<lambda>_. False) (\<lambda>_. 0xFF), 0)"]
  by (auto simp: flash_range_def mem32_def le32_def)

end
