(* ===== verification/Updater.thy ===== *)
theory Updater
  imports Crc Cortex
begin

text \<open>
  The update protocol of the updater firmware, \<open>updater.c\<close>. The global and static variables
  are the record \<open>updater\<close>. A buffer argument is the list of bytes of the array it points
  into; a read beyond its end has no defined outcome (\<open>Fault\<close>). A command that reboots the
  device does not return (\<open>Rebooted\<close>).
\<close>

unbundle bit_operations_syntax

section \<open>Constants and state\<close>

definition UPD_COMMAND_SIZE :: u16 where [reg_defs]: "UPD_COMMAND_SIZE = 3"
definition HEADER_SIZE :: u32 where [reg_defs]: "HEADER_SIZE = 16"
definition NEW_CORE_START_ADDRESS :: u32 where "NEW_CORE_START_ADDRESS = 0x08010000"

definition ALL_OK :: u8 where [reg_defs]: "ALL_OK = 0"
definition UPDATER_UNREC_CMD :: u8 where [reg_defs]: "UPDATER_UNREC_CMD = 3"
definition GENERAL_ERROR :: u8 where [reg_defs]: "GENERAL_ERROR = 4"
definition FLASH_WRITE_ERR :: u32 where [reg_defs]: "FLASH_WRITE_ERR = 1"

record 'h updater =
  udev :: 'h
  g_upd :: u8
  uerrno :: u32
  crc_val :: u32
  chunk_addr :: u32
  total_core_size :: u32

definition updater_start :: "'h \<Rightarrow> 'h updater" where
  "updater_start h = \<lparr>udev = h, g_upd = 0, uerrno = 0, crc_val = 0,
     chunk_addr = NEW_CORE_START_ADDRESS + HEADER_SIZE, total_core_size = HEADER_SIZE\<rparr>"

datatype ('r, 's) run = Done 'r 's | Rebooted 's | Fault

section \<open>Buffers\<close>

definition word_at :: "u8 list \<Rightarrow> nat \<Rightarrow> u32 option" where
  "word_at buf i =
     (if i + 4 \<le> length buf then Some (le32 (buf ! i) (buf ! (i + 1)) (buf ! (i + 2)) (buf ! (i + 3)))
      else None)"

text \<open>The test \<open>buf[0] == a && buf[1] == b && buf[2] == c\<close>; None when it reads beyond the buffer.\<close>

fun match_bytes :: "u8 list \<Rightarrow> u8 list \<Rightarrow> bool option" where
  "match_bytes buf [] = Some True"
| "match_bytes [] (c # cs) = None"
| "match_bytes (b # buf) (c # cs) = (if b = c then match_bytes buf cs else Some False)"

definition cmd_upd :: "u8 list" where "cmd_upd = [0x75, 0x70, 0x64]"
definition cmd_ver :: "u8 list" where "cmd_ver = [0x76, 0x65, 0x72]"
definition cmd_del :: "u8 list" where "cmd_del = [0x64, 0x65, 0x6C]"
definition cmd_crc :: "u8 list" where "cmd_crc = [0x63, 0x72, 0x63]"
definition cmd_reb :: "u8 list" where "cmd_reb = [0x72, 0x65, 0x62]"

lemmas cmd_defs = cmd_upd_def cmd_ver_def cmd_del_def cmd_crc_def cmd_reb_def

section \<open>Operations\<close>

definition check_upd_request :: "'h mmio \<Rightarrow> u8 list \<Rightarrow> u16 \<Rightarrow> 'h updater \<Rightarrow> (u8, 'h updater) run" where
  "check_upd_request hw buf count s =
     (case match_bytes buf cmd_upd of
        None \<Rightarrow> Fault
      | Some True \<Rightarrow>
          if count = 3 then Done 1 (s\<lparr>g_upd := 1, udev := FLASH_Unlock hw (udev s)\<rparr>) else Done 0 s
      | Some False \<Rightarrow> Done 0 s)"

text \<open>The loop \<open>for (i = 0; i < count; i += 4)\<close> of \<open>write_header\<close> and \<open>write_core_chunk\<close>; False when
  a word cannot be programmed.\<close>

function write_loop :: "'h mmio \<Rightarrow> u8 list \<Rightarrow> u32 \<Rightarrow> nat \<Rightarrow> nat \<Rightarrow> 'h \<Rightarrow> (bool \<times> 'h) option" where
  "write_loop hw buf addr count i h =
     (if i < count then
        case word_at buf i of
          None \<Rightarrow> None
        | Some w \<Rightarrow>
            let (st, h) = FLASH_ProgramWord hw (addr + of_nat i) w h
            in if st \<noteq> FLASH_COMPLETE then Some (False, h)
               else write_loop hw buf addr count (i + 4) h
      else Some (True, h))"
  by auto
termination by (relation "measure (\<lambda>(hw, buf, addr, count, i, h). count - i)") auto

declare write_loop.simps [simp del]

definition write_header :: "'h mmio \<Rightarrow> u8 list \<Rightarrow> 'h updater \<Rightarrow> (u8, 'h updater) run" where
  "write_header hw buf s =
     (case write_loop hw buf NEW_CORE_START_ADDRESS (unat HEADER_SIZE) 0 (udev s) of
        None \<Rightarrow> Fault
      | Some (ok, h) \<Rightarrow>
          if ok then Done ALL_OK (s\<lparr>udev := h\<rparr>)
          else Done GENERAL_ERROR (s\<lparr>udev := h, uerrno := FLASH_WRITE_ERR\<rparr>))"

definition write_core_chunk :: "'h mmio \<Rightarrow> u8 list \<Rightarrow> u16 \<Rightarrow> u32 \<Rightarrow> 'h updater \<Rightarrow> (u8, 'h updater) run" where
  "write_core_chunk hw buf count addr s =
     (case write_loop hw buf addr (unat count) 0 (udev s) of
        None \<Rightarrow> Fault
      | Some (ok, h) \<Rightarrow>
          if ok then Done ALL_OK (s\<lparr>udev := h\<rparr>)
          else Done GENERAL_ERROR (s\<lparr>udev := h, uerrno := FLASH_WRITE_ERR\<rparr>))"

definition upd_finished :: "'h mmio \<Rightarrow> 'h updater \<Rightarrow> (u8, 'h updater) run" where
  "upd_finished hw s = Rebooted (s\<lparr>udev := NVIC_SystemReset hw (FLASH_Lock hw (udev s))\<rparr>)"

definition upd_erase_sector :: "'h mmio \<Rightarrow> u32 \<Rightarrow> u8 \<Rightarrow> 'h \<Rightarrow> u8 \<times> 'h" where
  "upd_erase_sector hw start_page_addr pages_amount h =
     (let last_addr = start_page_addr + ucast pages_amount * STM32F107_PAGE_SIZE in
      if last_addr > STM32F107_LAST_PAGE_ADDR then (1, h)
      else erase_pages (FLASH_ErasePage hw) (unat pages_amount) start_page_addr h)"

definition upd_calc_crc :: "'h mmio \<Rightarrow> u32 \<Rightarrow> 'h updater \<Rightarrow> u32 \<times> 'h updater" where
  "upd_calc_crc hw core_size s =
     (let (ret_val, h) = CRC_CalcBlockCRC hw NEW_CORE_START_ADDRESS core_size (udev s);
          (st, h) = FLASH_ProgramWord hw (NEW_CORE_START_ADDRESS + core_size) ret_val h;
          s = s\<lparr>udev := h\<rparr>
      in if st \<noteq> FLASH_COMPLETE then (0xFFFFFFFF, s\<lparr>uerrno := FLASH_WRITE_ERR\<rparr>) else (ret_val, s))"

text \<open>The page count of the erase command, truncated to the \<open>uint8_t\<close> it is kept in.\<close>

definition del_pages :: "u32 \<Rightarrow> u8" where
  "del_pages core_bytes =
     (let pages_amount = ucast (core_bytes div 2048) in if pages_amount < 1 then 1 else pages_amount)"

definition handle_command :: "'h mmio \<Rightarrow> u8 list \<Rightarrow> 'h updater \<Rightarrow> (u8, 'h updater) run" where
  "handle_command hw buf s =
     (case match_bytes buf cmd_del of
        None \<Rightarrow> Fault
      | Some True \<Rightarrow>
          let (ret_val, h) = upd_erase_sector hw NEW_CORE_START_ADDRESS (del_pages (total_core_size s)) (udev s)
          in Done ret_val (s\<lparr>udev := h\<rparr>)
      | Some False \<Rightarrow>
          (case match_bytes buf cmd_crc of
             None \<Rightarrow> Fault
           | Some True \<Rightarrow>
               let (v, s) = upd_calc_crc hw (total_core_size s) s in Done 0 (s\<lparr>crc_val := v\<rparr>)
           | Some False \<Rightarrow>
               (case match_bytes buf cmd_reb of
                  None \<Rightarrow> Fault
                | Some True \<Rightarrow> upd_finished hw s
                | Some False \<Rightarrow> Done UPDATER_UNREC_CMD s)))"

definition handle_upd_packet :: "'h mmio \<Rightarrow> u8 list \<Rightarrow> u16 \<Rightarrow> 'h updater \<Rightarrow> (u8, 'h updater) run" where
  "handle_upd_packet hw buf count s =
     (if ucast count = HEADER_SIZE then
        (case match_bytes buf cmd_ver of
           None \<Rightarrow> Fault
         | Some True \<Rightarrow> write_header hw buf s
         | Some False \<Rightarrow> Done UPDATER_UNREC_CMD s)
      else if count = UPD_COMMAND_SIZE then handle_command hw buf s
      else
        (case write_core_chunk hw buf count (chunk_addr s) s of
           Done ret_val s \<Rightarrow>
             if ret_val = ALL_OK
             then Done ret_val (s\<lparr>chunk_addr := chunk_addr s + ucast count,
                                  total_core_size := total_core_size s + ucast count\<rparr>)
             else Done ret_val s
         | r \<Rightarrow> r))"

section \<open>The writing loop\<close>

fun le_words :: "u8 list \<Rightarrow> u32 list" where
  "le_words (a # b # c # d # bs) = le32 a b c d # le_words bs"
| "le_words _ = []"

lemma le_words_append:
  "length xs = 4 * n \<Longrightarrow> le_words (xs @ ys) = le_words xs @ le_words ys"
proof (induction n arbitrary: xs)
  case (Suc n)
  then obtain a b c d bs where "xs = a # b # c # d # bs" "length bs = 4 * n"
    by (auto simp: length_Suc_conv numeral_eq_Suc)
  with Suc.IH show ?case by simp
qed simp

lemma length_le_words [simp]: "length (le_words bs) = length bs div 4"
  by (induction bs rule: le_words.induct) auto

text \<open>The loop programs the words of the buffer up to the first multiple of four that reaches
  \<open>count\<close>.\<close>

lemma write_loop_words:
  assumes "length bs = 4 * n" "c \<le> length pre + 4 * n" "length pre + 4 * n < c + 4"
  shows "write_loop hw (pre @ bs @ post) a c (length pre) h =
    Some (program_words (FLASH_ProgramWord hw) (a + of_nat (length pre)) (le_words bs) h)"
  using assms
proof (induction n arbitrary: pre bs h)
  case 0
  then show ?case by (simp add: write_loop.simps)
next
  case (Suc n)
  then obtain x y z w bs' where bs: "bs = x # y # z # w # bs'" "length bs' = 4 * n"
    by (auto simp: length_Suc_conv numeral_eq_Suc)
  have wd: "word_at (pre @ bs @ post) (length pre) = Some (le32 x y z w)"
    using bs by (simp add: word_at_def nth_append)
  have l: "length (pre @ [x, y, z, w]) = length pre + 4" by simp
  have IH: "write_loop hw (pre @ bs @ post) a c (length pre + 4) h' =
      Some (program_words (FLASH_ProgramWord hw) (a + of_nat (length pre) + 4) (le_words bs') h')" for h'
    using Suc.IH [of bs' "pre @ [x, y, z, w]" h', unfolded l] bs Suc.prems by (simp add: ac_simps)
  show ?case
    using Suc.prems bs wd IH by (subst write_loop.simps) (simp add: split_beta Let_def)
qed

lemma write_loop_program:
  assumes "4 * ((c + 3) div 4) \<le> length buf"
  shows "write_loop hw buf a c 0 h =
    Some (program_words (FLASH_ProgramWord hw) a (le_words (take (4 * ((c + 3) div 4)) buf)) h)"
proof -
  let ?n = "(c + 3) div 4"
  have "c \<le> 4 * ?n" "4 * ?n < c + 4" by presburger+
  with write_loop_words [of "take (4 * ?n) buf" ?n c "[]" hw "drop (4 * ?n) buf" a h] assms
  show ?thesis by simp
qed

section \<open>The protocol state\<close>

text \<open>Where the next chunk goes and how much has been received stay in step.\<close>

definition upd_inv :: "'h updater \<Rightarrow> bool" where
  "upd_inv s \<longleftrightarrow> chunk_addr s = NEW_CORE_START_ADDRESS + total_core_size s"

fun run_all :: "('s \<Rightarrow> bool) \<Rightarrow> ('r, 's) run \<Rightarrow> bool" where
  "run_all P (Done r s) = P s"
| "run_all P (Rebooted s) = P s"
| "run_all P Fault = True"

lemma write_statics:
  "run_all (\<lambda>s'. chunk_addr s' = chunk_addr s \<and> total_core_size s' = total_core_size s) (write_header hw buf s)"
  "run_all (\<lambda>s'. chunk_addr s' = chunk_addr s \<and> total_core_size s' = total_core_size s) (write_core_chunk hw buf c a s)"
  by (simp_all add: write_header_def write_core_chunk_def split: option.split prod.split)

lemma command_statics:
  "run_all (\<lambda>s'. chunk_addr s' = chunk_addr s \<and> total_core_size s' = total_core_size s) (handle_command hw buf s)"
  by (simp add: handle_command_def upd_finished_def upd_calc_crc_def Let_def
      split: option.split bool.split prod.split)



section \<open>Receiving a core\<close>

context fpec_soc
begin

lemma header_packet_ok:
  assumes "ready (view (udev s))" "length hdr = 16" "match_bytes hdr cmd_ver = Some True"
    and "blank (v_mem (view (udev s))) NEW_CORE_START_ADDRESS 16"
    and "writable (view (udev s)) NEW_CORE_START_ADDRESS 16"
  obtains h' where "handle_upd_packet hw hdr 16 s = Done ALL_OK (s\<lparr>udev := h'\<rparr>)" and "ready (view h')"
    and "v_wrp (view h') = v_wrp (view (udev s))"
    and "v_mem (view h') = put_words NEW_CORE_START_ADDRESS (le_words hdr) (v_mem (view (udev s)))"
proof -
  obtain h' where "program_words (FLASH_ProgramWord hw) NEW_CORE_START_ADDRESS (le_words hdr) (udev s) = (True, h')"
    "ready (view h')" "v_wrp (view h') = v_wrp (view (udev s))"
    "v_mem (view h') = put_words NEW_CORE_START_ADDRESS (le_words hdr) (v_mem (view (udev s)))"
    using program_blank [OF assms(1), of NEW_CORE_START_ADDRESS "le_words hdr"] assms
    by (auto simp: NEW_CORE_START_ADDRESS_def flash_range_def)
  with that assms(2,3) show thesis
    by (simp add: handle_upd_packet_def write_header_def write_loop_program reg_defs)
qed

lemma chunk_packet_ok:
  assumes "ready (view (udev s))" "unat count = 4 * n" "n \<noteq> 4" "4 * n \<le> length buf"
    and "flash_range (chunk_addr s) (4 * n)" "chunk_addr s AND 1 = 0"
    and "blank (v_mem (view (udev s))) (chunk_addr s) (4 * n)"
    and "writable (view (udev s)) (chunk_addr s) (4 * n)"
  obtains h' where "handle_upd_packet hw buf count s = Done ALL_OK (s\<lparr>udev := h',
      chunk_addr := chunk_addr s + of_nat (4 * n), total_core_size := total_core_size s + of_nat (4 * n)\<rparr>)"
    and "ready (view h')" and "v_wrp (view h') = v_wrp (view (udev s))"
    and "v_mem (view h') = put_words (chunk_addr s) (le_words (take (4 * n) buf)) (v_mem (view (udev s)))"
proof -
  have l: "length (le_words (take (4 * n) buf)) = n" using assms(4) by simp
  obtain h' where h': "program_words (FLASH_ProgramWord hw) (chunk_addr s) (le_words (take (4 * n) buf)) (udev s) = (True, h')"
    "ready (view h')" "v_wrp (view h') = v_wrp (view (udev s))"
    "v_mem (view h') = put_words (chunk_addr s) (le_words (take (4 * n) buf)) (v_mem (view (udev s)))"
    using program_blank [OF assms(1), of "chunk_addr s" "le_words (take (4 * n) buf)"] assms(5-8) l by metis
  have c: "(ucast count :: u32) = of_nat (4 * n)" using assms(2) by (metis of_nat_unat)
  have "unat (ucast count :: u32) \<noteq> unat HEADER_SIZE" using assms(2,3) by (simp add: HEADER_SIZE_def)
  then have "ucast count \<noteq> HEADER_SIZE" by metis
  moreover have "4 * n \<noteq> 3" by presburger
  then have "count \<noteq> UPD_COMMAND_SIZE" using assms(2) by (auto simp: UPD_COMMAND_SIZE_def)
  moreover have "4 * ((4 * n + 3) div 4) = 4 * n" by presburger
  ultimately show thesis
    using that [of h'] h' c assms(2,4)
    by (simp add: handle_upd_packet_def write_core_chunk_def write_loop_program)
qed

end

text \<open>A download as the sender performs it: the next packet follows a positive answer only.\<close>

fun send_chunks :: "'h mmio \<Rightarrow> u8 list list \<Rightarrow> 'h updater \<Rightarrow> (u8, 'h updater) run" where
  "send_chunks hw [] s = Done ALL_OK s"
| "send_chunks hw (c # cs) s =
     (case handle_upd_packet hw c (of_nat (length c)) s of
        Done r s' \<Rightarrow> if r = ALL_OK then send_chunks hw cs s' else Done r s'
      | r \<Rightarrow> r)"

text \<open>A chunk that fits a packet, is a whole number of words and is not taken for a header.\<close>

definition chunk_ok :: "u8 list \<Rightarrow> bool" where
  "chunk_ok c \<longleftrightarrow> length c mod 4 = 0 \<and> length c \<noteq> 16 \<and> length c \<le> 512"

lemma even_add_4n:
  assumes "(a :: u32) AND 1 = 0"
  shows "(a + of_nat (4 * n)) AND 1 = 0"
  using assms by (simp add: and_one_eq flip: even_iff_mod_2_eq_zero)

lemma le_words_concat:
  "\<forall>c \<in> set cs. chunk_ok c \<Longrightarrow> le_words (concat cs) = concat (map le_words cs)"
proof (induction cs)
  case (Cons c cs)
  then have "length c = 4 * (length c div 4)" by (auto simp: chunk_ok_def)
  with Cons show ?case using le_words_append by simp
qed simp

context fpec_soc
begin

lemma send_chunks_ok:
  assumes "ready (view (udev s))" "\<forall>c \<in> set cs. chunk_ok c"
    and "flash_range (chunk_addr s) (length (concat cs))" "chunk_addr s AND 1 = 0"
    and "blank (v_mem (view (udev s))) (chunk_addr s) (length (concat cs))"
    and "writable (view (udev s)) (chunk_addr s) (length (concat cs))"
  shows "\<exists>h'. send_chunks hw cs s = Done ALL_OK (s\<lparr>udev := h',
      chunk_addr := chunk_addr s + of_nat (length (concat cs)),
      total_core_size := total_core_size s + of_nat (length (concat cs))\<rparr>) \<and> ready (view h') \<and>
    v_wrp (view h') = v_wrp (view (udev s)) \<and>
    v_mem (view h') = put_words (chunk_addr s) (le_words (concat cs)) (v_mem (view (udev s)))"
  using assms
proof (induction cs arbitrary: s)
  case Nil
  then show ?case by (intro exI [of _ "udev s"]) (cases s, simp)
next
  case (Cons c cs)
  obtain n where n: "length c = 4 * n" "n \<noteq> 4" "n \<le> 128"
    using Cons.prems(2) that [of "length c div 4"] by (auto simp: chunk_ok_def)
  let ?L = "length (concat cs)" and ?a = "chunk_addr s"
  have cnt: "unat (of_nat (length c) :: u16) = 4 * n"
    using n unat_of_nat [of "length c", where 'a = 16] by (simp add: take_bit_nat_eq_self)
  have r: "flash_range ?a (4 * n)" "flash_range (?a + of_nat (4 * n)) ?L"
    using Cons.prems(3) n(1) flash_range_mono [of ?a _ "4 * n"] flash_range_shift [of ?a "4 * n" ?L]
    by simp_all
  have b: "blank (v_mem (view (udev s))) ?a (4 * n)" "blank (v_mem (view (udev s))) (?a + of_nat (4 * n)) ?L"
    "writable (view (udev s)) ?a (4 * n)" "writable (view (udev s)) (?a + of_nat (4 * n)) ?L"
    using Cons.prems(5,6) n(1) by (simp_all add: area_split)
  obtain h1 where h1: "handle_upd_packet hw c (of_nat (length c)) s = Done ALL_OK (s\<lparr>udev := h1,
      chunk_addr := ?a + of_nat (4 * n), total_core_size := total_core_size s + of_nat (4 * n)\<rparr>)"
    "ready (view h1)" "v_wrp (view h1) = v_wrp (view (udev s))"
    "v_mem (view h1) = put_words ?a (le_words c) (v_mem (view (udev s)))"
    using chunk_packet_ok [OF Cons.prems(1) cnt n(2) _ r(1) Cons.prems(4) b(1,3), of c] n(1) by auto
  let ?s1 = "s\<lparr>udev := h1, chunk_addr := ?a + of_nat (4 * n), total_core_size := total_core_size s + of_nat (4 * n)\<rparr>"
  have "blank (v_mem (view h1)) (?a + of_nat (4 * n)) ?L"
    using blank_put_words [of ?a "le_words c" ?L] Cons.prems(3) b(2) n(1) h1(4) by simp
  moreover have "writable (view h1) (?a + of_nat (4 * n)) ?L" using b(4) h1(3) by (simp add: writable_def)
  moreover have "(?a + of_nat (4 * n)) AND 1 = 0" using Cons.prems(4) by (rule even_add_4n)
  ultimately have "\<exists>h'. send_chunks hw cs ?s1 = Done ALL_OK (?s1\<lparr>udev := h',
      chunk_addr := chunk_addr ?s1 + of_nat ?L, total_core_size := total_core_size ?s1 + of_nat ?L\<rparr>) \<and>
      ready (view h') \<and> v_wrp (view h') = v_wrp (view h1) \<and>
      v_mem (view h') = put_words (chunk_addr ?s1) (le_words (concat cs)) (v_mem (view h1))"
    using Cons.IH [of ?s1] Cons.prems(2) r(2) h1(2) by simp
  moreover have "le_words (concat (c # cs)) = le_words c @ le_words (concat cs)"
    using le_words_append [OF n(1)] by simp
  ultimately show ?case
    using h1 n(1) by (auto simp: put_words_append add.assoc)
qed

end

lemma commands_differ:
  "match_bytes cmd_crc cmd_del = Some False" "match_bytes cmd_reb cmd_del = Some False"
  "match_bytes cmd_reb cmd_crc = Some False" "match_bytes cmd_del cmd_del = Some True"
  "match_bytes cmd_crc cmd_crc = Some True" "match_bytes cmd_reb cmd_reb = Some True"
  "handle_upd_packet hw buf 3 s = handle_command hw buf s"
  by (simp_all add: cmd_defs handle_upd_packet_def reg_defs)

context fpec_soc
begin

lemma reboot_ok:
  assumes "ready (view (udev s))"
  obtains h' where "handle_upd_packet hw cmd_reb 3 s = Rebooted (s\<lparr>udev := h'\<rparr>)" and "reset_view (view h')"
    and "v_mem (view h') = v_mem (view (udev s))" and "v_wrp (view h') = v_wrp (view (udev s))"
proof -
  have off: "off_flash SCB_AIRCR" by (simp add: off_flash_def in_flash_def SCB_AIRCR_def)
  have "view (NVIC_SystemReset hw h) = view h" for h
    by (simp add: NVIC_SystemReset_def split_beta Let_def wr_frame [OF off] rd_frame [OF off])
  then show thesis
    using that Lock_ready [OF assms] by (simp add: commands_differ handle_command_def upd_finished_def)
qed

lemma download_ok:
  assumes "ready (view (udev s))"
    and "chunk_addr s = 0x08010010" and "total_core_size s = 16"
    and "length hdr = 16" and "match_bytes hdr cmd_ver = Some True"
    and "\<forall>c \<in> set cs. chunk_ok c" and "length (concat cs) \<le> 0x1F000"
    and "blank (v_mem (view (udev s))) NEW_CORE_START_ADDRESS (16 + length (concat cs))"
    and "writable (view (udev s)) NEW_CORE_START_ADDRESS (16 + length (concat cs))"
  shows "\<exists>s1 s2. handle_upd_packet hw hdr 16 s = Done ALL_OK s1 \<and> send_chunks hw cs s1 = Done ALL_OK s2 \<and>
    v_mem (view (udev s2)) = put_words NEW_CORE_START_ADDRESS (le_words (hdr @ concat cs)) (v_mem (view (udev s))) \<and>
    unat (total_core_size s2) = 16 + length (concat cs) \<and> ready (view (udev s2)) \<and>
    v_wrp (view (udev s2)) = v_wrp (view (udev s))"
proof -
  let ?L = "length (concat cs)"
  have N: "NEW_CORE_START_ADDRESS + of_nat 16 = 0x08010010" by (simp add: NEW_CORE_START_ADDRESS_def)
  note ar = assms(8,9) [unfolded area_split N]
  obtain h1 where h1: "handle_upd_packet hw hdr 16 s = Done ALL_OK (s\<lparr>udev := h1\<rparr>)" "ready (view h1)"
    "v_wrp (view h1) = v_wrp (view (udev s))"
    "v_mem (view h1) = put_words NEW_CORE_START_ADDRESS (le_words hdr) (v_mem (view (udev s)))"
    using header_packet_ok [OF assms(1,4,5)] ar by blast
  have fr: "flash_range NEW_CORE_START_ADDRESS (16 + ?L)" "flash_range 0x08010010 ?L"
    using assms(7) by (simp_all add: flash_range_def NEW_CORE_START_ADDRESS_def)
  have "blank (v_mem (view h1)) 0x08010010 ?L"
    using blank_put_words [of NEW_CORE_START_ADDRESS "le_words hdr" ?L] fr ar(1) assms(4) h1(4)
    by (simp add: NEW_CORE_START_ADDRESS_def)
  moreover have "writable (view h1) 0x08010010 ?L" using ar(2) h1(3) by (simp add: writable_def)
  ultimately obtain h2 where h2: "send_chunks hw cs (s\<lparr>udev := h1\<rparr>) = Done ALL_OK (s\<lparr>udev := h2,
      chunk_addr := 0x08010010 + of_nat ?L, total_core_size := 16 + of_nat ?L\<rparr>)" "ready (view h2)"
    "v_wrp (view h2) = v_wrp (view h1)"
    "v_mem (view h2) = put_words 0x08010010 (le_words (concat cs)) (v_mem (view h1))"
    using send_chunks_ok [of "s\<lparr>udev := h1\<rparr>" cs] h1(2) assms(2,3,6) fr(2) by auto
  have "unat (16 + of_nat ?L :: u32) = 16 + ?L"
    using assms(7) unat_of_nat [of "16 + ?L", where 'a = 32] by (simp add: take_bit_nat_eq_self)
  moreover have "le_words (hdr @ concat cs) = le_words hdr @ le_words (concat cs)"
    using assms(4) by (intro le_words_append [of _ 4]) simp
  ultimately show ?thesis
    using h1 h2 assms(4) by (simp add: put_words_append NEW_CORE_START_ADDRESS_def)
qed

end

section \<open>Properties of the update protocol\<close>

text \<open>The example used below: a blank, unlocked flash, a header and two chunks.\<close>

definition demo_soc :: "(u32 \<Rightarrow> u8) \<Rightarrow> fpec_view \<times> u32" where
  "demo_soc m = ((sim_reset (\<lambda>_. False) m)\<lparr>v_cr := 0\<rparr>, 0xFFFFFFFF)"

lemma demo_soc_simps [simp]:
  "ready (fst (demo_soc m))" "v_mem (fst (demo_soc m)) = m" "v_wrp (fst (demo_soc m)) = (\<lambda>_. False)"
  "snd (demo_soc m) = 0xFFFFFFFF"
  by (simp_all add: demo_soc_def sim_reset_def ready_def)

definition demo_hdr :: "u8 list" where
  "demo_hdr = cmd_ver @ [0x2E, 0, 0, 0, 0, 0, 0, 0, 0, 3, 0, 0, 0]"

definition demo_chunks :: "u8 list list" where
  "demo_chunks = [[0x00, 0x00, 0x01, 0x20, 0x31, 0x41, 0x00, 0x08], [0x11, 0x22, 0x33, 0x44]]"

lemma updater_start_simps [simp]:
  "udev (updater_start h) = h" "chunk_addr (updater_start h) = 0x08010010"
  "total_core_size (updater_start h) = 16" "uerrno (updater_start h) = 0" "g_upd (updater_start h) = 0"
  by (simp_all add: updater_start_def NEW_CORE_START_ADDRESS_def HEADER_SIZE_def)

lemma blank_all [simp]: "blank (\<lambda>_. 0xFF) a n"
  by (simp add: blank_def)

text \<open>A request to update is accepted exactly when the buffer starts with the three bytes
  \<open>upd\<close> and the packet has three bytes; it then sets the update flag and unlocks the flash
  controller, and in every other case changes nothing.\<close>

theorem check_upd_request_spec:
  assumes "fpec_soc hw view t_erase t_prog" and "reset_view (view (udev s))" and "3 \<le> length buf"
  shows "\<exists>h'. check_upd_request hw buf count s =
    (if take 3 buf = cmd_upd \<and> count = 3 then Done 1 (s\<lparr>g_upd := 1, udev := h'\<rparr>) else Done 0 s) \<and>
    ready (view h') \<and> v_mem (view h') = v_mem (view (udev s))"
proof -
  obtain a b c r where "buf = a # b # c # r"
    using assms(3) by (auto simp: numeral_eq_Suc Suc_le_length_iff)
  then have "match_bytes buf cmd_upd = Some (take 3 buf = cmd_upd)" by (simp add: cmd_upd_def)
  with fpec_soc.Unlock_reset [OF assms(1,2)] show ?thesis
    by (intro exI [of _ "FLASH_Unlock hw (udev s)"]) (simp add: check_upd_request_def split: bool.split)
qed

theorem check_upd_request_spec_witness:
  "\<exists>h'. check_upd_request soc_hw cmd_upd 3 (updater_start (sim_reset (\<lambda>_. False) (\<lambda>_. 0xFF), 0)) =
    Done 1 ((updater_start (sim_reset (\<lambda>_. False) (\<lambda>_. 0xFF), 0))\<lparr>g_upd := 1, udev := h'\<rparr>) \<and> ready (fst h')"
  using check_upd_request_spec [OF soc.fpec_soc_axioms, of "updater_start (sim_reset (\<lambda>_. False) (\<lambda>_. 0xFF), 0)" cmd_upd 3]
  by (auto simp: cmd_upd_def)



text \<open>A chunk whose first word cannot be programmed (its place is neither blank nor to
  become 0, or protected) is answered with \<open>GENERAL_ERROR\<close> and \<open>errno = FLASH_WRITE_ERR\<close>; the
  place of the next chunk and the byte count stay as they were.\<close>

theorem chunk_write_error:
  assumes "fpec_soc hw view t_erase t_prog" and "ready (view (udev s))"
    and "count \<noteq> 16" and "4 \<le> unat count" and "unat count + 3 \<le> length buf"
    and "flash_range (chunk_addr s) 4" and "chunk_addr s AND 1 = 0"
    and "\<not> word_ok (v_wrp (view (udev s))) (chunk_addr s) (le32 (buf ! 0) (buf ! 1) (buf ! 2) (buf ! 3))
           (v_mem (view (udev s)))"
  shows "\<exists>h'. handle_upd_packet hw buf count s = Done GENERAL_ERROR (s\<lparr>udev := h', uerrno := FLASH_WRITE_ERR\<rparr>)"
proof -
  let ?n = "(unat count + 3) div 4"
  have n: "4 * ?n \<le> length buf" using assms(5) div_times_less_eq_dividend [of "unat count + 3" 4] by linarith
  have n1: "4 * ?n = Suc (Suc (Suc (Suc (4 * (?n - 1)))))" using assms(4) by (cases "?n") auto
  have "Suc (Suc (Suc (Suc 0))) \<le> length buf" using assms(4,5) by linarith
  then obtain a b c d r where buf: "buf = a # b # c # d # r" by (auto simp: Suc_le_length_iff)
  have w: "le_words (take (4 * ?n) buf) = le32 (buf ! 0) (buf ! 1) (buf ! 2) (buf ! 3) # le_words (take (4 * (?n - 1)) r)"
    unfolding buf n1 by simp
  obtain h' where "program_words (FLASH_ProgramWord hw) (chunk_addr s) (le_words (take (4 * ?n) buf)) (udev s) = (False, h')"
    unfolding w using fpec.program_refused [OF fpec_soc.axioms(1) [OF assms(1)] assms(2,6-8)] by blast
  moreover have "unat (ucast count :: u32) \<noteq> unat HEADER_SIZE" "count \<noteq> UPD_COMMAND_SIZE"
    using assms(3,4) by (auto simp: reg_defs word_unat_eq_iff)
  then have "ucast count \<noteq> HEADER_SIZE" "count \<noteq> UPD_COMMAND_SIZE" by metis+
  ultimately show ?thesis
    using n by (auto simp: handle_upd_packet_def write_core_chunk_def write_loop_program GENERAL_ERROR_def ALL_OK_def)
qed

theorem chunk_write_error_witness:
  "\<exists>h'. handle_upd_packet soc_hw (replicate 512 0x5A) 8 (updater_start (demo_soc (\<lambda>_. 0))) =
    Done GENERAL_ERROR ((updater_start (demo_soc (\<lambda>_. 0)))\<lparr>udev := h', uerrno := FLASH_WRITE_ERR\<rparr>)"
  by (rule chunk_write_error [OF soc.fpec_soc_axioms])
    (simp_all add: flash_range_def word_ok_def le32_def)

text \<open>C37: A chunk that is not a whole number of words: the last word is completed with the bytes
  that happen to follow in the buffer, while the place of the next chunk advances by the
  bytes received only, into the word already programmed.\<close>

theorem chunk_tail_overrun:
  assumes "fpec_soc hw view t_erase t_prog" and "ready (view (udev s))"
    and "unat count = 4 * n + r" and "0 < r" and "r < 4" and "count \<noteq> 3" and "4 * (n + 1) \<le> length buf"
    and "flash_range (chunk_addr s) (4 * (n + 1))" and "chunk_addr s AND 1 = 0"
    and "blank (v_mem (view (udev s))) (chunk_addr s) (4 * (n + 1))"
    and "writable (view (udev s)) (chunk_addr s) (4 * (n + 1))"
  shows "\<exists>s'. handle_upd_packet hw buf count s = Done ALL_OK s' \<and>
    v_mem (view (udev s')) = put_words (chunk_addr s) (le_words (take (4 * (n + 1)) buf)) (v_mem (view (udev s))) \<and>
    chunk_addr s' = chunk_addr s + ucast count"
proof -
  let ?ws = "le_words (take (4 * (n + 1)) buf)"
  have c: "4 * ((unat count + 3) div 4) = 4 * (n + 1)" using assms(3-5) by presburger
  have "length ?ws = n + 1" using assms(7) by simp
  then obtain h' where "program_words (FLASH_ProgramWord hw) (chunk_addr s) ?ws (udev s) = (True, h')"
    "v_mem (view h') = put_words (chunk_addr s) ?ws (v_mem (view (udev s)))"
    using fpec.program_blank [OF fpec_soc.axioms(1) [OF assms(1)] assms(2), of "chunk_addr s" ?ws] assms(8-11) by metis
  moreover have "unat (ucast count :: u32) \<noteq> unat HEADER_SIZE"
    unfolding HEADER_SIZE_def unat_ucast_u16 assms(3) using assms(4,5) by simp presburger
  then have "ucast count \<noteq> HEADER_SIZE" by metis
  ultimately show ?thesis
    using assms(6,7) write_loop_program [of "unat count" buf hw, unfolded c]
    by (simp add: handle_upd_packet_def write_core_chunk_def UPD_COMMAND_SIZE_def)
qed

theorem chunk_tail_overrun_witness:
  "\<exists>s'. handle_upd_packet soc_hw [1, 2, 3, 4, 5, 6, 0xEE, 0xEE] 6 (updater_start (demo_soc (\<lambda>_. 0xFF))) = Done ALL_OK s' \<and>
    chunk_addr s' = 0x08010016"
  using chunk_tail_overrun [OF soc.fpec_soc_axioms, of "updater_start (demo_soc (\<lambda>_. 0xFF))" 6 1 2 "[1, 2, 3, 4, 5, 6, 0xEE, 0xEE]"]
  by (auto simp: flash_range_def)

text \<open>C38: The command \<open>del\<close> erases the whole pages among the bytes received (the count is kept
  in eight bits, and at least one page is erased): a core that ends inside a page keeps the
  bytes of its last page. The byte count and the place of the next chunk are not reset.\<close>

theorem del_erases_whole_pages:
  assumes "fpec_soc hw view t_erase t_prog" and "ready (view (udev s))"
    and "p = max 1 (unat (total_core_size s) div 2048 mod 256)" and "p \<le> 95"
    and "writable (view (udev s)) NEW_CORE_START_ADDRESS (p * 2048)"
  shows "\<exists>h'. handle_upd_packet hw cmd_del 3 s = Done ALL_OK (s\<lparr>udev := h'\<rparr>) \<and>
    (\<forall>x. v_mem (view h') x = (if 0x08010000 \<le> unat x \<and> unat x < 0x08010000 + p * 2048 then 0xFF
       else v_mem (view (udev s)) x))"
proof -
  let ?q = "ucast (total_core_size s div 2048) :: u8"
  have q: "unat ?q = unat (total_core_size s) div 2048 mod 256"
    by (simp add: unsigned_ucast_eq unat_div take_bit_eq_mod)
  then have p: "unat (del_pages (total_core_size s)) = p"
    by (simp add: del_pages_def Let_def word_less_nat_alt assms(3))
  let ?n = "del_pages (total_core_size s)"
  have b: "unat NEW_CORE_START_ADDRESS + unat ?n * 2048 \<le> 0x0803F800"
    using p assms(4) by (simp add: NEW_CORE_START_ADDRESS_def)
  have fr: "flash_range NEW_CORE_START_ADDRESS (p * 2048)" "unat NEW_CORE_START_ADDRESS mod 2048 = 0"
    using assms(4) by (simp_all add: flash_range_def NEW_CORE_START_ADDRESS_def)
  obtain h' where "erase_pages (FLASH_ErasePage hw) p NEW_CORE_START_ADDRESS (udev s) = (0, h')"
    "v_mem (view h') = erase_region NEW_CORE_START_ADDRESS p (v_mem (view (udev s)))"
    using fpec.erase_area [OF fpec_soc.axioms(1) [OF assms(1)] assms(2,5)] by blast
  then show ?thesis
    using last_addr_ok [OF b] p erase_region_apply [OF fr]
    by (intro exI [of _ h'])
      (simp add: commands_differ handle_command_def upd_erase_sector_def ALL_OK_def NEW_CORE_START_ADDRESS_def)
qed

theorem del_erases_whole_pages_witness:
  "\<exists>h'. handle_upd_packet soc_hw cmd_del 3 ((updater_start (demo_soc (\<lambda>_. 7)))\<lparr>total_core_size := 3000\<rparr>) =
     Done ALL_OK ((updater_start (demo_soc (\<lambda>_. 7)))\<lparr>total_core_size := 3000, udev := h'\<rparr>) \<and>
     v_mem (fst h') 0x08010000 = 0xFF \<and> v_mem (fst h') 0x08010800 = 7"
  using del_erases_whole_pages [OF soc.fpec_soc_axioms, of "(updater_start (demo_soc (\<lambda>_. 7)))\<lparr>total_core_size := 3000\<rparr>" 1]
  by auto



text \<open>The command \<open>reb\<close> locks the flash controller and requests a system reset; the flash
  contents and the protocol variables are the ones before the command.\<close>

theorem reb_locks_and_reboots:
  assumes "fpec_soc hw view t_erase t_prog" and "ready (view (udev s))"
  shows "\<exists>h'. handle_upd_packet hw cmd_reb 3 s = Rebooted (s\<lparr>udev := h'\<rparr>) \<and>
    reset_view (view h') \<and> v_mem (view h') = v_mem (view (udev s)) \<and> v_wrp (view h') = v_wrp (view (udev s))"
  using fpec_soc.reboot_ok [OF assms] by blast

theorem reb_locks_and_reboots_witness:
  "\<exists>h'. handle_upd_packet soc_hw cmd_reb 3 (updater_start (demo_soc (\<lambda>_. 7))) =
     Rebooted ((updater_start (demo_soc (\<lambda>_. 7)))\<lparr>udev := h'\<rparr>) \<and> reset_view (fst h')"
  using reb_locks_and_reboots [OF soc.fpec_soc_axioms, of "updater_start (demo_soc (\<lambda>_. 7))"] by auto

text \<open>A packet of command or header length whose first three bytes are not a known word is
  answered with \<open>UPDATER_UNREC_CMD\<close> and has no effect on the device or on the protocol state.\<close>

theorem unknown_command_ignored:
  assumes "3 \<le> length buf"
    and "count = 3 \<and> take 3 buf \<notin> {cmd_del, cmd_crc, cmd_reb} \<or> count = 16 \<and> take 3 buf \<noteq> cmd_ver"
  shows "handle_upd_packet hw buf count s = Done UPDATER_UNREC_CMD s"
proof -
  obtain a b c r where "buf = a # b # c # r"
    using assms(1) by (auto simp: numeral_eq_Suc Suc_le_length_iff)
  then have "match_bytes buf [x, y, z] = Some (take 3 buf = [x, y, z])" for x y z by simp
  then show ?thesis
    using assms(2) by (auto simp: handle_upd_packet_def handle_command_def cmd_defs reg_defs)
qed

theorem unknown_command_ignored_witness:
  "handle_upd_packet soc_hw [1, 2, 3] 3 (updater_start (demo_soc (\<lambda>_. 7))) =
    Done UPDATER_UNREC_CMD (updater_start (demo_soc (\<lambda>_. 7)))"
  by (rule unknown_command_ignored) (simp_all add: cmd_defs)

end
