(* ===== verification/TinyPrintf.thy ===== *)
theory TinyPrintf
  imports Prelude
begin

text \<open>
  The formatted output of \<open>tiny_printf.c\<close>, which both firmwares carry. A format is the list of
  the characters before its terminating NUL, the variable arguments are a list of integers
  and strings, and the text written to a buffer is the list of its characters without the
  NUL that ends it. Where the source has no defined outcome the result is \<open>None\<close>: a missing
  argument or one of the wrong type, a format that ends with a percent sign (the scan then
  steps over the NUL), the negation of the smallest integer, and a text that does not fit
  the buffer it is written to. The system call \<open>_write\<close> is not code of the repository and
  enters as a parameter.
\<close>

section \<open>Numbers\<close>

text \<open>The first loop of \<open>ts_itoa\<close>: the largest power of the base that is not above the number.
  The product is a signed integer; a base below 2 makes the loop endless.\<close>

function itoa_div :: "nat \<Rightarrow> nat \<Rightarrow> nat \<Rightarrow> nat option" where
  "itoa_div d base v =
     (if base < 2 \<or> v = 0 then None
      else if base \<le> d div v then
        if v * base < 2 ^ 31 then itoa_div d base (v * base) else None
      else Some v)"
  by auto
termination
proof (relation "measure (\<lambda>(d, base, v). 2 ^ 31 - v)")
  fix d base v :: nat
  assume "\<not> (base < 2 \<or> v = 0)" "v * base < 2 ^ 31"
  moreover from this have "v * 1 < v * base" by (intro mult_less_mono2) auto
  ultimately have "2 ^ 31 - v * base < (2 ^ 31 - v :: nat)" by linarith
  then show "((d, base, v * base), (d, base, v)) \<in> measure (\<lambda>(d, base, v). 2 ^ 31 - v)"
    by simp
qed simp

declare itoa_div.simps [simp del]

definition digit_char :: "nat \<Rightarrow> char" where
  "digit_char num = (if num > 9 then char_of (num - 10 + 65) else char_of (num + 48))"

text \<open>The second loop: one digit for every power.\<close>

function itoa_digits :: "nat \<Rightarrow> nat \<Rightarrow> nat \<Rightarrow> string" where
  "itoa_digits d base v =
     (if base < 2 \<or> v = 0 then []
      else digit_char (d div v) # itoa_digits (d mod v) base (v div base))"
  by auto
termination by (relation "measure (\<lambda>(d, base, v). v)") auto

declare itoa_digits.simps [simp del]

definition ts_itoa :: "u32 \<Rightarrow> nat \<Rightarrow> string option" where
  "ts_itoa d base = map_option (itoa_digits (unat d) base) (itoa_div (unat d) base 1)"

section \<open>Formats\<close>

datatype arg = Int_Arg u32 | Str_Arg string

text \<open>The text of one conversion and the remaining arguments.\<close>

fun convert :: "char \<Rightarrow> arg list \<Rightarrow> (string \<times> arg list) option" where
  "convert c va =
     (if c = CHR ''c'' then
        (case va of Int_Arg w # va \<Rightarrow> Some ([char_of (unat w)], va) | _ \<Rightarrow> None)
      else if c = CHR ''d'' \<or> c = CHR ''i'' then
        (case va of
           Int_Arg w # va \<Rightarrow>
             if sint w < 0 then
               if sint w = - (2 ^ 31) then None
               else map_option (\<lambda>t. (CHR ''-'' # t, va)) (ts_itoa (- w) 10)
             else map_option (\<lambda>t. (t, va)) (ts_itoa w 10)
         | _ \<Rightarrow> None)
      else if c = CHR ''s'' then
        (case va of Str_Arg t # va \<Rightarrow> Some (t, va) | _ \<Rightarrow> None)
      else if c = CHR ''u'' then
        (case va of Int_Arg w # va \<Rightarrow> map_option (\<lambda>t. (t, va)) (ts_itoa w 10) | _ \<Rightarrow> None)
      else if c = CHR ''x'' \<or> c = CHR ''X'' then
        (case va of Int_Arg w # va \<Rightarrow> map_option (\<lambda>t. (t, va)) (ts_itoa w 16) | _ \<Rightarrow> None)
      else if c = CHR ''%'' then Some (''%'', va)
      else Some ([], va))"

declare convert.simps [simp del]

fun ts_formatstring :: "string \<Rightarrow> arg list \<Rightarrow> string option" where
  "ts_formatstring [] va = Some []"
| "ts_formatstring (f # fmt) va =
     (if f = CHR ''%'' then
        (case fmt of
           [] \<Rightarrow> None
         | c # fmt' \<Rightarrow>
             (case convert c va of
                None \<Rightarrow> None
              | Some (t, va') \<Rightarrow> map_option (append t) (ts_formatstring fmt' va')))
      else map_option (Cons f) (ts_formatstring fmt va))"

text \<open>The length that \<open>ts_formatlength\<close> reserves for one conversion.\<close>

definition convert_length :: "char \<Rightarrow> arg list \<Rightarrow> (nat \<times> arg list) option" where
  "convert_length c va =
     (if c = CHR ''c'' then (case va of Int_Arg w # va \<Rightarrow> Some (1, va) | _ \<Rightarrow> None)
      else if c = CHR ''d'' \<or> c = CHR ''i'' \<or> c = CHR ''u'' then
        (case va of Int_Arg w # va \<Rightarrow> Some (11, va) | _ \<Rightarrow> None)
      else if c = CHR ''s'' then (case va of Str_Arg t # va \<Rightarrow> Some (length t, va) | _ \<Rightarrow> None)
      else if c = CHR ''x'' \<or> c = CHR ''X'' then
        (case va of Int_Arg w # va \<Rightarrow> Some (8, va) | _ \<Rightarrow> None)
      else Some (1, va))"

fun ts_formatlength :: "string \<Rightarrow> arg list \<Rightarrow> nat option" where
  "ts_formatlength [] va = Some 0"
| "ts_formatlength (f # fmt) va =
     (if f = CHR ''%'' then
        (case fmt of
           [] \<Rightarrow> None
         | c # fmt' \<Rightarrow>
             (case convert_length c va of
                None \<Rightarrow> None
              | Some (n, va') \<Rightarrow> map_option (plus n) (ts_formatlength fmt' va')))
      else map_option Suc (ts_formatlength fmt va))"

section \<open>Output\<close>

text \<open>\<open>_write\<close>: the stream, the bytes and the output device to the result and the device.\<close>

type_synonym 'w writer = "int \<Rightarrow> string \<Rightarrow> 'w \<Rightarrow> int \<times> 'w"

text \<open>A text and its final NUL go into a buffer of \<open>n\<close> bytes.\<close>

definition fill_buffer :: "nat \<Rightarrow> string \<Rightarrow> string option" where
  "fill_buffer n t = (if length t + 1 \<le> n then Some t else None)"

definition siprintf :: "nat \<Rightarrow> string \<Rightarrow> arg list \<Rightarrow> (string \<times> int) option" where
  "siprintf n fmt va =
     (case ts_formatstring fmt va of
        None \<Rightarrow> None
      | Some t \<Rightarrow> map_option (\<lambda>b. (b, int (length t))) (fill_buffer n t))"

definition fiprintf :: "'w writer \<Rightarrow> int \<Rightarrow> string \<Rightarrow> arg list \<Rightarrow> 'w \<Rightarrow> (int \<times> 'w) option" where
  "fiprintf wr file fmt va w =
     (case ts_formatlength fmt va of
        None \<Rightarrow> None
      | Some n \<Rightarrow>
          (case ts_formatstring fmt va of
             None \<Rightarrow> None
           | Some t \<Rightarrow> (case fill_buffer n t of None \<Rightarrow> None | Some b \<Rightarrow> Some (wr file b w))))"

definition iprintf :: "'w writer \<Rightarrow> string \<Rightarrow> arg list \<Rightarrow> 'w \<Rightarrow> (int \<times> 'w) option" where
  "iprintf wr fmt va w =
     (case ts_formatlength fmt va of
        None \<Rightarrow> None
      | Some n \<Rightarrow>
          (case ts_formatstring fmt va of
             None \<Rightarrow> None
           | Some t \<Rightarrow> (case fill_buffer n t of None \<Rightarrow> None | Some b \<Rightarrow> Some (wr 1 b w))))"

definition EOF :: int where "EOF = - 1"

definition fputs :: "'w writer \<Rightarrow> string \<Rightarrow> int \<Rightarrow> 'w \<Rightarrow> int \<times> 'w" where
  "fputs wr s file w =
     (let (wlen, w) = wr file s w;
          (l, w) = wr file [CHR 0x0A] w;
          wlen = wlen + l
      in (if wlen = int (length s) + 1 then 0 else EOF, w))"

definition puts :: "'w writer \<Rightarrow> string \<Rightarrow> 'w \<Rightarrow> int \<times> 'w" where
  "puts wr s w =
     (let (numbytes, w) = wr 1 s w;
          (l, w) = wr 1 [CHR 0x0A] w;
          numbytes = numbytes + l
      in (if numbytes = int (length s) + 1 then 0 else EOF, w))"

text \<open>\<open>fwrite\<close>: the result of \<open>_write\<close> becomes unsigned in the division by the element size. The
  buffer holds at least \<open>size * count\<close> bytes.\<close>

definition fwrite :: "'w writer \<Rightarrow> string \<Rightarrow> u32 \<Rightarrow> u32 \<Rightarrow> int \<Rightarrow> 'w \<Rightarrow> (u32 \<times> 'w) option" where
  "fwrite wr buf elem_size count file w =
     (if elem_size = 0 then None
      else let (r, w) = wr file (take (unat (elem_size * count)) buf) w
           in Some (word_of_int r div elem_size, w))"

section \<open>Digits\<close>

text \<open>The value a digit string stands for.\<close>

definition digit_val :: "char \<Rightarrow> nat" where
  "digit_val c = (let x = of_char c in if 65 \<le> x then x - 55 else x - 48)"

definition digits_val :: "nat \<Rightarrow> string \<Rightarrow> nat" where
  "digits_val base t = foldl (\<lambda>a c. a * base + digit_val c) 0 t"

lemma digit_val_char: "n < 16 \<Longrightarrow> digit_val (digit_char n) = n"
  by (auto simp: digit_val_def digit_char_def Let_def)

text \<open>A base whose powers below \<open>2 ^ 32\<close> are signed 32-bit integers.\<close>

definition int_base :: "nat \<Rightarrow> bool" where
  "int_base base \<longleftrightarrow> 2 \<le> base \<and> base \<le> 16 \<and> (\<forall>k. base ^ k < 2 ^ 32 \<longrightarrow> base ^ k < 2 ^ 31)"

lemma int_base_10: "int_base 10"
proof -
  have "(10 :: nat) ^ k < 2 ^ 31" if "(10 :: nat) ^ k < 2 ^ 32" for k
  proof (cases "k \<le> 9")
    case True
    then have "(10 :: nat) ^ k \<le> 10 ^ 9" by (rule power_increasing) simp
    then show ?thesis by simp
  next
    case False
    then have "(10 :: nat) ^ 10 \<le> 10 ^ k" by (intro power_increasing) simp_all
    with that show ?thesis by simp
  qed
  then show ?thesis by (simp add: int_base_def)
qed

lemma int_base_16: "int_base 16"
proof -
  have "(16 :: nat) ^ k < 2 ^ 31" if "(16 :: nat) ^ k < 2 ^ 32" for k
  proof (cases "k \<le> 7")
    case True
    then have "(16 :: nat) ^ k \<le> 16 ^ 7" by (rule power_increasing) simp
    then show ?thesis by simp
  next
    case False
    then have "(16 :: nat) ^ 8 \<le> 16 ^ k" by (intro power_increasing) simp_all
    with that show ?thesis by simp
  qed
  then show ?thesis by (simp add: int_base_def)
qed

lemma itoa_div_power:
  assumes "int_base base" "d < 2 ^ 32" "k = 0 \<or> base ^ k \<le> d"
  shows "\<exists>j. itoa_div d base (base ^ k) = Some (base ^ j) \<and> d < base ^ Suc j \<and> (j = 0 \<or> base ^ j \<le> d)"
  using assms(3)
proof (induction "2 ^ 32 - base ^ k" arbitrary: k rule: less_induct)
  case less
  have b: "2 \<le> base" "0 < base ^ k" using assms(1) by (simp_all add: int_base_def)
  show ?case
  proof (cases "base \<le> d div base ^ k")
    case False
    then have "d < base ^ Suc k" using div_less_iff_less_mult [OF b(2), of d base] by (simp add: not_le)
    with False b less.prems show ?thesis
      by (intro exI [of _ k]) (simp add: itoa_div.simps)
  next
    case True
    then have le: "base ^ Suc k \<le> d" using b(2) by (simp add: less_eq_div_iff_mult_less_eq)
    with assms have lt: "base ^ k * base < 2 ^ 31" by (auto simp: int_base_def mult.commute dest: spec [of _ "Suc k"])
    have "base ^ k * 1 < base ^ k * base" using b by (intro mult_less_mono2) auto
    moreover have "(2 :: nat) ^ 32 - y < 2 ^ 32 - x" if "x * 1 < y" "y < 2 ^ 31" for x y :: nat
      using that by simp
    ultimately have "2 ^ 32 - base ^ Suc k < (2 ^ 32 - base ^ k :: nat)"
      using lt by (metis power_Suc2)
    from less.hyps [OF this] le lt True b show ?thesis
      by (simp add: itoa_div.simps [of d base "base ^ k"] mult.commute)
  qed
qed

lemma itoa_digits_val:
  assumes "2 \<le> base" "base \<le> 16" "d < base ^ Suc j"
  shows "foldl (\<lambda>a c. a * base + digit_val c) a (itoa_digits d base (base ^ j)) = a * base ^ Suc j + d"
    and "length (itoa_digits d base (base ^ j)) = Suc j"
  using assms(3)
proof (induction j arbitrary: a d)
  case 0
  have one: "itoa_digits d base (base ^ 0) = [digit_char d]" for d
    using assms(1) by (subst itoa_digits.simps) (simp add: itoa_digits.simps)
  { case 1 then show ?case unfolding one using assms(2) by (simp add: digit_val_char) }
  { case 2 show ?case unfolding one by simp }
next
  case (Suc j)
  have step: "itoa_digits d base (base ^ Suc j) = digit_char (d div base ^ Suc j) # itoa_digits (d mod base ^ Suc j) base (base ^ j)" for d
    using assms(1) by (subst itoa_digits.simps) simp
  have m: "d mod base ^ Suc j < base ^ Suc j" for d using assms(1) by simp
  { case 1
    then have "d div base ^ Suc j < base" by (simp add: less_mult_imp_div_less mult.commute)
    then have "digit_val (digit_char (d div base ^ Suc j)) = d div base ^ Suc j"
      using assms(2) by (intro digit_val_char) simp
    then show ?case
      unfolding step using Suc.IH(1) [OF m] mult_div_mod_eq [of "base ^ Suc j" d] by (simp add: algebra_simps)
  }
  { case 2 show ?case unfolding step using Suc.IH(2) [OF m] by simp }
qed

lemma itoa_digits_hd:
  assumes "2 \<le> base" "base \<le> 16" "d < base ^ Suc j" "j = 0 \<or> base ^ j \<le> d" "0 < d"
  shows "digit_val (hd (itoa_digits d base (base ^ j))) \<noteq> 0"
proof -
  have "0 < d div base ^ j" using assms by (auto simp: div_greater_zero_iff)
  moreover have "d div base ^ j < base" using assms(3) by (simp add: less_mult_imp_div_less)
  ultimately show ?thesis
    using assms(1,2) digit_val_char [of "d div base ^ j"] by (subst itoa_digits.simps) simp
qed

lemma ts_itoa_ok:
  assumes "int_base base"
  obtains t j where "ts_itoa d base = Some t" and "digits_val base t = unat d" and "length t = Suc j"
    and "j = 0 \<or> base ^ j \<le> unat d" and "0 < unat d \<Longrightarrow> digit_val (hd t) \<noteq> 0"
proof -
  have "unat d < 2 ^ LENGTH(32)" by (rule unsigned_less)
  then obtain j where j: "itoa_div (unat d) base 1 = Some (base ^ j)" "unat d < base ^ Suc j" "j = 0 \<or> base ^ j \<le> unat d"
    using itoa_div_power [OF assms, of "unat d" 0] by auto
  have b: "2 \<le> base" "base \<le> 16" using assms by (simp_all add: int_base_def)
  show thesis
    using that [of "itoa_digits (unat d) base (base ^ j)" j] j itoa_digits_val [OF b j(2)] itoa_digits_hd [OF b j(2,3)]
    by (simp add: ts_itoa_def digits_val_def)
qed

lemma itoa_length:
  assumes "int_base base" "2 ^ 32 \<le> base ^ n" "ts_itoa d base = Some t"
  shows "length t \<le> n"
proof -
  obtain j where j: "length t = Suc j" "j = 0 \<or> base ^ j \<le> unat d"
    using ts_itoa_ok [OF assms(1), of d] assms(3) by (metis option.inject)
  have "unat d < 2 ^ LENGTH(32)" by (rule unsigned_less)
  with assms(2) have d: "unat d < base ^ n" by simp
  have "j < n"
  proof (rule ccontr)
    assume "\<not> j < n"
    then have "base ^ n \<le> base ^ j" using assms(1) by (intro power_increasing) (auto simp: int_base_def)
    with d j(2) have "j = 0" by linarith
    with \<open>\<not> j < n\<close> assms(2) show False by simp
  qed
  with j(1) show ?thesis by simp
qed

lemma itoa_lengths:
  "ts_itoa d 10 = Some t \<Longrightarrow> length t \<le> 10" "ts_itoa d 16 = Some t \<Longrightarrow> length t \<le> 8"
  by (erule itoa_length [OF int_base_10, rotated], simp) (erule itoa_length [OF int_base_16, rotated], simp)

lemma convert_length:
  assumes "convert c va = Some (t, va')"
  shows "\<exists>n. convert_length c va = Some (n, va') \<and> length t \<le> n"
proof -
  consider "c = CHR ''c''" | "c = CHR ''d''" | "c = CHR ''i''" | "c = CHR ''s''" | "c = CHR ''u''"
    | "c = CHR ''x''" | "c = CHR ''X''" | "c \<notin> {CHR ''c'', CHR ''d'', CHR ''i'', CHR ''s'', CHR ''u'', CHR ''x'', CHR ''X''}"
    by blast
  then show ?thesis
  proof cases
    case 8
    with assms show ?thesis by (auto simp: convert.simps convert_length_def split: if_splits)
  qed (use assms itoa_lengths in \<open>force simp: convert.simps convert_length_def split: list.splits arg.splits if_splits\<close>)+
qed

section \<open>Properties of the formatted output\<close>

text \<open>\<open>ts_itoa\<close> ends for every 32-bit number and the bases 10 and 16, and the digits it writes
  stand for the number, without leading zeros.\<close>

theorem ts_itoa_roundtrip:
  assumes "base = 10 \<or> base = 16"
  shows "\<exists>t. ts_itoa d base = Some t \<and> digits_val base t = unat d \<and> t \<noteq> [] \<and>
    (d \<noteq> 0 \<longrightarrow> digit_val (hd t) \<noteq> 0)"
proof -
  have "int_base base" using assms int_base_10 int_base_16 by auto
  then obtain t j where "ts_itoa d base = Some t" "digits_val base t = unat d" "length t = Suc j"
    "0 < unat d \<Longrightarrow> digit_val (hd t) \<noteq> 0"
    using ts_itoa_ok by metis
  then show ?thesis by (auto simp: unat_gt_0)
qed

theorem ts_itoa_roundtrip_witness:
  "\<exists>t. ts_itoa 51966 16 = Some t \<and> digits_val 16 t = 51966"
  using ts_itoa_roundtrip [of 16 51966] by auto

text \<open>C35: Whenever a format and its arguments are in order, \<open>ts_formatlength\<close> returns a bound for
  the length of the text that \<open>ts_formatstring\<close> writes.\<close>

theorem formatlength_bounds_formatstring:
  assumes "ts_formatstring fmt va = Some t"
  shows "\<exists>n. ts_formatlength fmt va = Some n \<and> length t \<le> n"
  using assms
proof (induction fmt va arbitrary: t rule: ts_formatstring.induct)
  case (2 f fmt va)
  show ?case
  proof (cases "f = CHR ''%''")
    case False
    then obtain t' where "ts_formatstring fmt va = Some t'" "t = f # t'" using 2(3) by auto
    with 2(2) False show ?thesis by fastforce
  next
    case True
    with 2(3) obtain c fmt' u va' t' where c: "fmt = c # fmt'" "convert c va = Some (u, va')"
      "ts_formatstring fmt' va' = Some t'" "t = u @ t'"
      by (auto split: list.splits option.splits)
    obtain n where "convert_length c va = Some (n, va')" "length u \<le> n" using convert_length [OF c(2)] by blast
    moreover obtain k where "ts_formatlength fmt' va' = Some k" "length t' \<le> k"
      using 2(1) [OF True c(1,2) refl c(3)] by blast
    ultimately show ?thesis using True c(1,4) by simp
  qed
qed simp

theorem formatlength_bounds_formatstring_witness:
  "\<exists>n. ts_formatlength ''a%%'' [] = Some n \<and> length ''a%'' \<le> n"
  using formatlength_bounds_formatstring [of "''a%%''" "[]" "''a%''"] by (simp add: convert.simps)

text \<open>A format without a percent sign is copied as it is, its length is the bound, and the
  buffer that \<open>iprintf\<close> allocates has no room for the final NUL: the call has no defined outcome.\<close>

theorem iprintf_plain_overflow:
  assumes "CHR ''%'' \<notin> set fmt"
  shows "ts_formatstring fmt va = Some fmt \<and> ts_formatlength fmt va = Some (length fmt) \<and> iprintf wr fmt va w = None"
proof -
  have "ts_formatstring fmt va = Some fmt \<and> ts_formatlength fmt va = Some (length fmt)"
    using assms by (induction fmt) auto
  then show ?thesis by (simp add: iprintf_def fill_buffer_def)
qed

theorem iprintf_plain_overflow_witness:
  "iprintf (\<lambda>_ t w. (int (length t), w @ t)) ''boot'' [] [] = None"
  using iprintf_plain_overflow [of "''boot''"] by simp

end
