(* ===== verification/Clock.thy ===== *)
theory Clock
  imports Cortex
begin

text \<open>
  Clock start-up: \<open>system_stm32f10x.c\<close> of both firmwares, for the connectivity line and every
  system clock that the file can be configured for (the build selects 72 MHz), and
  \<open>premain.c\<close> of the updater. The loops that wait for a ready flag or for the clock switch
  have no bound in the source; a run that never leaves such a loop has the result \<open>None\<close>.

  The locale \<open>rcc_unit\<close> states the documented behaviour of the clock controller: the ready
  flags of an oscillator or loop come up some status reads after it has been enabled, and
  the clock switch takes effect some reads after it has been requested from a source that
  is ready. The start-up code is then shown to end with the clocks it announces.
\<close>

unbundle bit_operations_syntax

section \<open>Waiting\<close>

partial_function (option) poll :: "'h mmio \<Rightarrow> u32 \<Rightarrow> u32 \<Rightarrow> u32 \<Rightarrow> 'h \<Rightarrow> 'h option" where
  "poll hw r m x h = (let (v, h) = rd32 hw r h in if v AND m = x then Some h else poll hw r m x h)"

text \<open>The bounded wait for the external oscillator: the body runs before the test, at most
  \<open>HSE_STARTUP_TIMEOUT\<close> times.\<close>

fun hse_loop :: "'h mmio \<Rightarrow> nat \<Rightarrow> 'h \<Rightarrow> 'h" where
  "hse_loop hw 0 h = h"
| "hse_loop hw (Suc n) h =
     (let (cr, h) = rd32 hw RCC_CR h in if cr AND 0x00020000 = 0 then hse_loop hw n h else h)"

definition start_hse :: "'h mmio \<Rightarrow> 'h \<Rightarrow> bool \<times> 'h" where
  "start_hse hw h =
     (let h = or32 hw RCC_CR 0x00010000 h;
          h = hse_loop hw (unat HSE_STARTUP_TIMEOUT) h;
          (cr, h) = rd32 hw RCC_CR h
      in (cr AND 0x00020000 \<noteq> 0, h))"

section \<open>The system clock of \<open>system_stm32f10x.c\<close>\<close>

text \<open>The prefetch buffer and the wait states.\<close>

definition set_latency :: "'h mmio \<Rightarrow> u32 \<Rightarrow> 'h \<Rightarrow> 'h" where
  "set_latency hw latency h =
     (let h = or32 hw FLASH_ACR 0x10 h;
          h = and32 hw FLASH_ACR (NOT 0x03) h
      in or32 hw FLASH_ACR latency h)"

text \<open>The three bus prescalers, each \<open>RCC->CFGR |= x\<close>.\<close>

definition set_prescalers :: "'h mmio \<Rightarrow> u32 \<Rightarrow> 'h \<Rightarrow> 'h" where
  "set_prescalers hw ppre1 h =
     (let h = or32 hw RCC_CFGR 0x0 h; h = or32 hw RCC_CFGR 0x0 h in or32 hw RCC_CFGR ppre1 h)"

definition config_pll :: "'h mmio \<Rightarrow> u32 \<Rightarrow> 'h \<Rightarrow> 'h" where
  "config_pll hw pllmull h =
     (let h = and32 hw RCC_CFGR (NOT (0x00020000 OR 0x00010000 OR 0x003C0000)) h
      in or32 hw RCC_CFGR (0x0 OR 0x00010000 OR pllmull) h)"

definition start_pll2 :: "'h mmio \<Rightarrow> u32 \<Rightarrow> 'h \<Rightarrow> 'h option" where
  "start_pll2 hw prediv1 h =
     (let h = and32 hw RCC_CFGR2 (NOT (0xF0 OR 0xF00 OR 0xF OR 0x10000)) h;
          h = or32 hw RCC_CFGR2 (0x40 OR 0x600 OR 0x10000 OR prediv1) h;
          h = or32 hw RCC_CR 0x04000000 h
      in poll hw RCC_CR 0x08000000 0x08000000 h)"

definition start_pll :: "'h mmio \<Rightarrow> 'h \<Rightarrow> 'h option" where
  "start_pll hw h = poll hw RCC_CR 0x02000000 0x02000000 (or32 hw RCC_CR 0x01000000 h)"

definition switch_clock :: "'h mmio \<Rightarrow> u32 \<Rightarrow> u32 \<Rightarrow> 'h \<Rightarrow> 'h option" where
  "switch_clock hw sw sws h =
     (let h = and32 hw RCC_CFGR (NOT 0x3) h;
          h = or32 hw RCC_CFGR sw h
      in poll hw RCC_CFGR 0xC sws h)"

definition SetSysClockToHSE :: "'h mmio \<Rightarrow> 'h \<Rightarrow> 'h option" where
  "SetSysClockToHSE hw h =
     (let (HSEStatus, h) = start_hse hw h in
      if HSEStatus then
        let h = set_latency hw (if HSE_VALUE \<le> 24000000 then 0 else 1) h;
            h = set_prescalers hw 0x0 h
        in switch_clock hw 0x1 0x04 h
      else Some h)"

definition SetSysClockTo24 :: "'h mmio \<Rightarrow> 'h \<Rightarrow> 'h option" where
  "SetSysClockTo24 hw h =
     (let (HSEStatus, h) = start_hse hw h in
      if HSEStatus then
        let h = set_latency hw 0 h;
            h = set_prescalers hw 0x0 h;
            h = config_pll hw 0x00100000 h
        in Option.bind (start_pll2 hw 0x9 h) (\<lambda>h.
           Option.bind (start_pll hw h) (switch_clock hw 0x2 0x08))
      else Some h)"

definition SetSysClockTo36 :: "'h mmio \<Rightarrow> 'h \<Rightarrow> 'h option" where
  "SetSysClockTo36 hw h =
     (let (HSEStatus, h) = start_hse hw h in
      if HSEStatus then
        let h = set_latency hw 1 h;
            h = set_prescalers hw 0x0 h;
            h = config_pll hw 0x001C0000 h
        in Option.bind (start_pll2 hw 0x9 h) (\<lambda>h.
           Option.bind (start_pll hw h) (switch_clock hw 0x2 0x08))
      else Some h)"

definition SetSysClockTo48 :: "'h mmio \<Rightarrow> 'h \<Rightarrow> 'h option" where
  "SetSysClockTo48 hw h =
     (let (HSEStatus, h) = start_hse hw h in
      if HSEStatus then
        let h = set_latency hw 1 h;
            h = set_prescalers hw 0x400 h
        in Option.bind (start_pll2 hw 0x4 h) (\<lambda>h.
           let h = config_pll hw 0x00100000 h
           in Option.bind (start_pll hw h) (switch_clock hw 0x2 0x08))
      else Some h)"

definition SetSysClockTo56 :: "'h mmio \<Rightarrow> 'h \<Rightarrow> 'h option" where
  "SetSysClockTo56 hw h =
     (let (HSEStatus, h) = start_hse hw h in
      if HSEStatus then
        let h = set_latency hw 2 h;
            h = set_prescalers hw 0x400 h
        in Option.bind (start_pll2 hw 0x4 h) (\<lambda>h.
           let h = config_pll hw 0x00140000 h
           in Option.bind (start_pll hw h) (switch_clock hw 0x2 0x08))
      else Some h)"

definition SetSysClockTo72 :: "'h mmio \<Rightarrow> 'h \<Rightarrow> 'h option" where
  "SetSysClockTo72 hw h =
     (let (HSEStatus, h) = start_hse hw h in
      if HSEStatus then
        let h = set_latency hw 2 h;
            h = set_prescalers hw 0x400 h
        in Option.bind (start_pll2 hw 0x4 h) (\<lambda>h.
           let h = config_pll hw 0x001C0000 h
           in Option.bind (start_pll hw h) (switch_clock hw 0x2 0x08))
      else Some h)"

text \<open>The preprocessor's choice of the system clock.\<close>

datatype sysclk_freq_def = SYSCLK_FREQ_HSE | SYSCLK_FREQ_24MHz | SYSCLK_FREQ_36MHz
  | SYSCLK_FREQ_48MHz | SYSCLK_FREQ_56MHz | SYSCLK_FREQ_72MHz | SYSCLK_FREQ_HSI

fun SystemCoreClock :: "sysclk_freq_def \<Rightarrow> u32" where
  "SystemCoreClock SYSCLK_FREQ_HSE = HSE_VALUE"
| "SystemCoreClock SYSCLK_FREQ_24MHz = 24000000"
| "SystemCoreClock SYSCLK_FREQ_36MHz = 36000000"
| "SystemCoreClock SYSCLK_FREQ_48MHz = 48000000"
| "SystemCoreClock SYSCLK_FREQ_56MHz = 56000000"
| "SystemCoreClock SYSCLK_FREQ_72MHz = 72000000"
| "SystemCoreClock SYSCLK_FREQ_HSI = HSI_VALUE"

fun SetSysClock :: "sysclk_freq_def \<Rightarrow> 'h mmio \<Rightarrow> 'h \<Rightarrow> 'h option" where
  "SetSysClock SYSCLK_FREQ_HSE hw h = SetSysClockToHSE hw h"
| "SetSysClock SYSCLK_FREQ_24MHz hw h = SetSysClockTo24 hw h"
| "SetSysClock SYSCLK_FREQ_36MHz hw h = SetSysClockTo36 hw h"
| "SetSysClock SYSCLK_FREQ_48MHz hw h = SetSysClockTo48 hw h"
| "SetSysClock SYSCLK_FREQ_56MHz hw h = SetSysClockTo56 hw h"
| "SetSysClock SYSCLK_FREQ_72MHz hw h = SetSysClockTo72 hw h"
| "SetSysClock SYSCLK_FREQ_HSI hw h = Some h"

definition SystemInit :: "sysclk_freq_def \<Rightarrow> 'h mmio \<Rightarrow> 'h \<Rightarrow> 'h option" where
  "SystemInit f hw h =
     (let h = or32 hw RCC_CR 0x00000001 h;
          h = and32 hw RCC_CFGR 0xF0FF0000 h;
          h = and32 hw RCC_CR 0xFEF6FFFF h;
          h = and32 hw RCC_CR 0xFFFBFFFF h;
          h = and32 hw RCC_CFGR 0xFF80FFFF h;
          h = and32 hw RCC_CR 0xEBFFFFFF h;
          h = wr32 hw RCC_CIR 0x00FF0000 h;
          h = wr32 hw RCC_CFGR2 0x00000000 h
      in map_option (wr32 hw SCB_VTOR (0x08000000 OR 0x0)) (SetSysClock f hw h))"

definition AHBPrescTable :: "u8 list" where
  "AHBPrescTable = [0, 0, 0, 0, 0, 0, 0, 0, 1, 2, 3, 4, 6, 7, 8, 9]"

text \<open>\<open>SystemCoreClockUpdate\<close> repeats the frequency computation of \<open>RCC_GetClocksFreq\<close>, read for
  read, and applies the bus prescaler.\<close>

definition SystemCoreClockUpdate :: "'h mmio \<Rightarrow> 'h \<Rightarrow> u32 \<times> 'h" where
  "SystemCoreClockUpdate hw h =
     (let (clk, h) = sysclk_freq hw h;
          (cfgr, h) = rd32 hw RCC_CFGR h;
          tmp = AHBPrescTable ! unat (drop_bit 4 (cfgr AND 0xF0))
      in (drop_bit (unat tmp) clk, h))"

section \<open>The start-up code of \<open>premain.c\<close>\<close>

definition ResetRcc :: "'h mmio \<Rightarrow> 'h \<Rightarrow> 'h" where
  "ResetRcc hw h =
     (let h = and32 hw RCC_CFGR 0xF0FF0000 h;
          h = and32 hw RCC_CR 0xFEF6FFFF h;
          h = and32 hw RCC_CR 0xFFFBFFFF h;
          h = and32 hw RCC_CFGR 0xFF80FFFF h;
          h = and32 hw RCC_CR 0xEBFFFFFF h;
          h = wr32 hw RCC_CIR 0x00FF0000 h
      in wr32 hw RCC_CFGR2 0x00000000 h)"

text \<open>The wait for the oscillator, whose last status read decides.\<close>

fun premain_hse_loop :: "'h mmio \<Rightarrow> nat \<Rightarrow> u32 \<Rightarrow> 'h \<Rightarrow> u32 \<times> 'h" where
  "premain_hse_loop hw 0 hseStatus h = (hseStatus, h)"
| "premain_hse_loop hw (Suc n) hseStatus h =
     (if hseStatus = 0
      then let (cr, h) = rd32 hw RCC_CR h in premain_hse_loop hw n (cr AND 0x00020000) h
      else (hseStatus, h))"

definition HsiConfig :: "'h \<Rightarrow> (u32 \<times> 'h) option" where
  "HsiConfig h = Some (HSI_VALUE, h)"

definition HseConfig :: "'h mmio \<Rightarrow> 'h \<Rightarrow> (u32 \<times> 'h) option" where
  "HseConfig hw h =
     (let h = or32 hw RCC_CR 0x00010000 h;
          (hseStatus, h) = premain_hse_loop hw (unat HSE_STARTUP_TIMEOUT) 0 h
      in if hseStatus \<noteq> 0 then
           let h = wr32 hw FLASH_ACR (0x10 OR 0x08 OR 0x02) h
           in map_option (\<lambda>h. (HSE_VALUE, h)) (switch_clock hw 0x1 0x4 h)
         else Some (HSI_VALUE, h))"

text \<open>\<open>HsiPllConfig\<close> is empty in the source: \<open>systemCoreClock\<close>, the argument, keeps its value.\<close>

definition HsiPllConfig :: "u32 \<Rightarrow> 'h \<Rightarrow> (u32 \<times> 'h) option" where
  "HsiPllConfig clk h = Some (clk, h)"

definition HsePllConfig :: "'h mmio \<Rightarrow> 'h \<Rightarrow> (u32 \<times> 'h) option" where
  "HsePllConfig hw h =
     (let h = or32 hw RCC_CR 0x00010000 h;
          (hseStatus, h) = premain_hse_loop hw (unat HSE_STARTUP_TIMEOUT) 0 h
      in if hseStatus \<noteq> 0 then
           let h = wr32 hw FLASH_ACR (0x10 OR 0x02) h;
               h = or32 hw RCC_CFGR (0x0 OR 0x0 OR 0x400) h
           in Option.bind (start_pll2 hw 0x4 h) (\<lambda>h.
              let h = and32 hw RCC_CFGR (NOT (0x00010000 OR 0x003C0000)) h;
                  h = or32 hw RCC_CFGR (0x00010000 OR 0x001C0000) h
              in Option.bind (start_pll hw h) (\<lambda>h.
                 map_option (\<lambda>h. (72000000, h)) (switch_clock hw 0x2 0x8 h)))
         else Some (HSI_VALUE, h))"

datatype ClockSource = HSI | HSE | HSE_PLL | HSI_PLL

fun ClockConfig :: "'h mmio \<Rightarrow> ClockSource \<Rightarrow> u32 \<Rightarrow> 'h \<Rightarrow> (u32 \<times> 'h) option" where
  "ClockConfig hw HSI clk h = HsiConfig h"
| "ClockConfig hw HSE clk h = HseConfig hw h"
| "ClockConfig hw HSI_PLL clk h = HsiPllConfig clk h"
| "ClockConfig hw HSE_PLL clk h = HsePllConfig hw h"

definition premain :: "'h mmio \<Rightarrow> u32 \<Rightarrow> 'h \<Rightarrow> (u32 \<times> 'h) option" where
  "premain hw clk h = ClockConfig hw HSE_PLL clk (ResetRcc hw h)"

text \<open>\<open>system_init\<close> of the updater: the clocks, then a system tick every 72000 cycles.\<close>

definition system_init :: "'h mmio \<Rightarrow> u32 \<Rightarrow> 'h \<Rightarrow> (u32 \<times> 'h) option" where
  "system_init hw clk h =
     map_option (\<lambda>(clk, h). (clk, snd (SysTick_Config hw 72000 h))) (premain hw clk h)"

section \<open>What the start-up code relies on: the clock controller\<close>

text \<open>
  The state of the controller: the control bits without the ready flags, the status reads
  until each enabled oscillator or loop is ready, the configuration without the switch
  status, the reads until a requested switch is done, and the source in use (as the switch
  status field shows it).
\<close>

record rcc_view =
  rc_cr :: u32
  rc_hse :: nat
  rc_pll :: nat
  rc_pll2 :: nat
  rc_pll3 :: nat
  rc_cfgr :: u32
  rc_sw :: nat
  rc_sws :: u32
  rc_cfgr2 :: u32

definition cr_value :: "rcc_view \<Rightarrow> u32" where
  "cr_value v = rc_cr v OR 0x2 OR
     (if rc_cr v AND 0x00010000 \<noteq> 0 \<and> rc_hse v = 0 then 0x00020000 else 0) OR
     (if rc_cr v AND 0x01000000 \<noteq> 0 \<and> rc_pll v = 0 then 0x02000000 else 0) OR
     (if rc_cr v AND 0x04000000 \<noteq> 0 \<and> rc_pll2 v = 0 then 0x08000000 else 0) OR
     (if rc_cr v AND 0x10000000 \<noteq> 0 \<and> rc_pll3 v = 0 then 0x20000000 else 0)"

definition cr_ticks :: "nat \<Rightarrow> rcc_view \<Rightarrow> rcc_view" where
  "cr_ticks n v = v\<lparr>rc_hse := rc_hse v - n, rc_pll := rc_pll v - n, rc_pll2 := rc_pll2 v - n,
     rc_pll3 := rc_pll3 v - n\<rparr>"

text \<open>A write of the control register; the ready flags are read-only. \<open>t\<close> gives the start-up
  times of the four sources.\<close>

definition cr_write :: "nat \<times> nat \<times> nat \<times> nat \<Rightarrow> u32 \<Rightarrow> rcc_view \<Rightarrow> rcc_view" where
  "cr_write t x v =
     (let (th, tp, tp2, tp3) = t;
          started = (\<lambda>m. x AND m \<noteq> 0 \<and> rc_cr v AND m = 0)
      in v\<lparr>rc_cr := x AND 0xD5FDFFFD,
           rc_hse := if started 0x00010000 then th else rc_hse v,
           rc_pll := if started 0x01000000 then tp else rc_pll v,
           rc_pll2 := if started 0x04000000 then tp2 else rc_pll2 v,
           rc_pll3 := if started 0x10000000 then tp3 else rc_pll3 v\<rparr>)"

definition src_ready :: "rcc_view \<Rightarrow> bool" where
  "src_ready v \<longleftrightarrow>
     (let sw = rc_cfgr v AND 0x3 in
      sw = 0 \<or> sw = 1 \<and> rc_cr v AND 0x00010000 \<noteq> 0 \<and> rc_hse v = 0 \<or>
      sw = 2 \<and> rc_cr v AND 0x01000000 \<noteq> 0 \<and> rc_pll v = 0)"

definition sws_value :: "rcc_view \<Rightarrow> u32" where
  "sws_value v = (if rc_sw v = 0 \<and> src_ready v then push_bit 2 (rc_cfgr v AND 0x3) else rc_sws v)"

definition cfgr_read :: "rcc_view \<Rightarrow> rcc_view" where
  "cfgr_read v = v\<lparr>rc_sws := sws_value v, rc_sw := rc_sw v - 1\<rparr>"

definition cfgr_write :: "nat \<Rightarrow> u32 \<Rightarrow> rcc_view \<Rightarrow> rcc_view" where
  "cfgr_write t x v =
     v\<lparr>rc_cfgr := x AND 0xFFFFFFF3, rc_sws := sws_value v,
       rc_sw := if x AND 0x3 \<noteq> rc_cfgr v AND 0x3 then t else rc_sw v\<rparr>"

definition off_rcc :: "u32 \<Rightarrow> bool" where
  "off_rcc r \<longleftrightarrow> r \<noteq> RCC_CR \<and> r \<noteq> RCC_CFGR \<and> r \<noteq> RCC_CFGR2 \<and> \<not> (0x42420000 \<le> r \<and> r < 0x42430000)
     \<and> \<not> (0x40021000 \<le> r \<and> r < 0x40021008)"

locale rcc_unit = bus_frame hw clk off_rcc
  for hw :: "'h mmio" and clk :: "'h \<Rightarrow> rcc_view" +
  fixes t_on :: "'h \<Rightarrow> nat \<times> nat \<times> nat \<times> nat" and t_switch :: "'h \<Rightarrow> nat"
  assumes rd_CR: "fst (rd32 hw RCC_CR h) = cr_value (clk h)" "clk (snd (rd32 hw RCC_CR h)) = cr_ticks 1 (clk h)"
    and wr_CR: "clk (wr32 hw RCC_CR x h) = cr_write (t_on h) x (clk h)"
    and rd_CFGR: "fst (rd32 hw RCC_CFGR h) = rc_cfgr (clk h) OR sws_value (clk h)"
      "clk (snd (rd32 hw RCC_CFGR h)) = cfgr_read (clk h)"
    and wr_CFGR: "clk (wr32 hw RCC_CFGR x h) = cfgr_write (t_switch h) x (clk h)"
    and rd_CFGR2: "fst (rd32 hw RCC_CFGR2 h) = rc_cfgr2 (clk h)" "clk (snd (rd32 hw RCC_CFGR2 h)) = clk h"
    and wr_CFGR2: "clk (wr32 hw RCC_CFGR2 x h) = (clk h)\<lparr>rc_cfgr2 := x\<rparr>"
begin

lemma rmw_CR:
  "clk (or32 hw RCC_CR m h) =
     cr_write (t_on (snd (rd32 hw RCC_CR h))) (cr_value (clk h) OR m) (cr_ticks 1 (clk h))"
  "clk (and32 hw RCC_CR m h) =
     cr_write (t_on (snd (rd32 hw RCC_CR h))) (cr_value (clk h) AND m) (cr_ticks 1 (clk h))"
  using rd_CR [of h] wr_CR by (simp_all add: or32_def and32_def split_beta Let_def)

lemma rmw_CFGR:
  "clk (or32 hw RCC_CFGR m h) =
     cfgr_write (t_switch (snd (rd32 hw RCC_CFGR h))) ((rc_cfgr (clk h) OR sws_value (clk h)) OR m) (cfgr_read (clk h))"
  "clk (and32 hw RCC_CFGR m h) =
     cfgr_write (t_switch (snd (rd32 hw RCC_CFGR h))) ((rc_cfgr (clk h) OR sws_value (clk h)) AND m) (cfgr_read (clk h))"
  using rd_CFGR [of h] wr_CFGR by (simp_all add: or32_def and32_def split_beta Let_def)

lemma rmw_CFGR2:
  "clk (or32 hw RCC_CFGR2 m h) = (clk h)\<lparr>rc_cfgr2 := rc_cfgr2 (clk h) OR m\<rparr>"
  "clk (and32 hw RCC_CFGR2 m h) = (clk h)\<lparr>rc_cfgr2 := rc_cfgr2 (clk h) AND m\<rparr>"
  using rd_CFGR2 [of h] wr_CFGR2 by (simp_all add: or32_def and32_def split_beta Let_def)

end

text \<open>The enable bits of the three sources that the start-up uses, and the ready flags.\<close>

definition on_bits :: "rcc_view \<Rightarrow> u32" where
  "on_bits v = rc_cr v AND 0x05010000"

lemma on_bits_sub:
  "rc_cr v AND 0x00010000 = on_bits v AND 0x00010000" "rc_cr v AND 0x01000000 = on_bits v AND 0x01000000"
  "rc_cr v AND 0x04000000 = on_bits v AND 0x04000000"
  by (simp_all add: on_bits_def and.assoc)

lemma cr_value_on: "cr_value v AND 0x05010000 = on_bits v"
  by (simp add: cr_value_def on_bits_def bit.conj_disj_distrib2 bit.conj_disj_distrib)

lemma cr_value_flags:
  "(rc_cr v AND 0xD5FDFFFD = rc_cr v) \<Longrightarrow>
   cr_value v AND 0x00020000 = (if on_bits v AND 0x00010000 \<noteq> 0 \<and> rc_hse v = 0 then 0x00020000 else 0)"
  "(rc_cr v AND 0xD5FDFFFD = rc_cr v) \<Longrightarrow>
   cr_value v AND 0x02000000 = (if on_bits v AND 0x01000000 \<noteq> 0 \<and> rc_pll v = 0 then 0x02000000 else 0)"
  "(rc_cr v AND 0xD5FDFFFD = rc_cr v) \<Longrightarrow>
   cr_value v AND 0x08000000 = (if on_bits v AND 0x04000000 \<noteq> 0 \<and> rc_pll2 v = 0 then 0x08000000 else 0)"
proof -
  assume r: "rc_cr v AND 0xD5FDFFFD = rc_cr v"
  have z: "rc_cr v AND 0x00020000 = 0" "rc_cr v AND 0x02000000 = 0" "rc_cr v AND 0x08000000 = 0"
    using arg_cong [OF r, of "\<lambda>x. x AND 0x00020000"] arg_cong [OF r, of "\<lambda>x. x AND 0x02000000"]
      arg_cong [OF r, of "\<lambda>x. x AND 0x08000000"]
    by (simp_all add: and.assoc)
  show "cr_value v AND 0x00020000 = (if on_bits v AND 0x00010000 \<noteq> 0 \<and> rc_hse v = 0 then 0x00020000 else 0)"
    "cr_value v AND 0x02000000 = (if on_bits v AND 0x01000000 \<noteq> 0 \<and> rc_pll v = 0 then 0x02000000 else 0)"
    "cr_value v AND 0x08000000 = (if on_bits v AND 0x04000000 \<noteq> 0 \<and> rc_pll2 v = 0 then 0x08000000 else 0)"
    using z by (simp_all add: cr_value_def bit.conj_disj_distrib2 on_bits_sub)
qed

text \<open>The internal oscillator drives the system: neither switched nor about to be switched.\<close>

definition on_hsi :: "rcc_view \<Rightarrow> bool" where
  "on_hsi v \<longleftrightarrow> rc_cfgr v AND 0xF = 0 \<and> rc_sws v = 0"

lemma on_hsi_sub: "on_hsi v \<Longrightarrow> rc_cfgr v AND 0x3 = 0" "on_hsi v \<Longrightarrow> rc_cfgr v AND 0xFFFFFFF3 = rc_cfgr v"
proof -
  assume "on_hsi v"
  then have z: "rc_cfgr v AND 0xF = 0" by (simp add: on_hsi_def)
  from arg_cong [OF this, of "\<lambda>x. x AND 0x3"] show "rc_cfgr v AND 0x3 = 0" by (simp add: and.assoc)
  have "(0xFFFFFFF3 OR 0xF :: u32) = - 1" by simp
  then have "rc_cfgr v = (rc_cfgr v AND 0xFFFFFFF3) OR (rc_cfgr v AND 0xF)"
    by (simp only: bit.conj_disj_distrib [symmetric] and.right_neutral)
  with z show "rc_cfgr v AND 0xFFFFFFF3 = rc_cfgr v" by simp
qed

lemma on_hsi_sws: "on_hsi v \<Longrightarrow> sws_value v = 0"
  using on_hsi_sub(1) [of v] by (simp add: sws_value_def on_hsi_def)

lemma on_hsi_write:
  assumes "on_hsi v" and "x AND 0xF = 0"
  shows "cfgr_write t x (cfgr_read v) = v\<lparr>rc_cfgr := x, rc_sw := rc_sw v - 1\<rparr>"
    and "on_hsi (v\<lparr>rc_cfgr := x, rc_sw := n\<rparr>)"
proof -
  show x: "on_hsi (v\<lparr>rc_cfgr := x, rc_sw := n\<rparr>)" for n using assms by (simp add: on_hsi_def)
  have "sws_value (cfgr_read v) = 0"
    using assms(1) on_hsi_sws [OF assms(1)] by (intro on_hsi_sws) (simp add: on_hsi_def cfgr_read_def)
  moreover have "x AND 0x3 = 0" "x AND 0xFFFFFFF3 = x" using on_hsi_sub [OF x] by simp_all
  ultimately show "cfgr_write t x (cfgr_read v) = v\<lparr>rc_cfgr := x, rc_sw := rc_sw v - 1\<rparr>"
    using on_hsi_sub(1) [OF assms(1)] on_hsi_sws [OF assms(1)] assms(1)
    by (simp add: cfgr_write_def cfgr_read_def on_hsi_def)
qed

lemma on_hsi_rmw:
  assumes "on_hsi v"
  shows "m AND 0xF = 0 \<Longrightarrow> (rc_cfgr v OR m) AND 0xF = 0" "(rc_cfgr v AND m) AND 0xF = 0"
proof -
  have z: "rc_cfgr v AND 0xF = 0" using assms by (simp add: on_hsi_def)
  then show "m AND 0xF = 0 \<Longrightarrow> (rc_cfgr v OR m) AND 0xF = 0" by (simp add: bit.conj_disj_distrib2)
  have "(rc_cfgr v AND m) AND 0xF = (rc_cfgr v AND 0xF) AND m" by (simp only: and.assoc and.commute [of m])
  with z show "(rc_cfgr v AND m) AND 0xF = 0" by simp
qed

context rcc_unit
begin

lemma hsi_CFGR:
  assumes "on_hsi (clk h)"
  shows "m AND 0xF = 0 \<Longrightarrow> clk (or32 hw RCC_CFGR m h) = (clk h)\<lparr>rc_cfgr := rc_cfgr (clk h) OR m, rc_sw := rc_sw (clk h) - 1\<rparr>"
    and "clk (and32 hw RCC_CFGR m h) = (clk h)\<lparr>rc_cfgr := rc_cfgr (clk h) AND m, rc_sw := rc_sw (clk h) - 1\<rparr>"
  using on_hsi_write(1) [OF assms on_hsi_rmw(1) [OF assms]] on_hsi_write(1) [OF assms on_hsi_rmw(2) [OF assms]]
    on_hsi_sws [OF assms]
  by (simp_all add: rmw_CFGR)

end

lemma cr_ticks_simps [simp]:
  "rc_cr (cr_ticks n v) = rc_cr v" "rc_hse (cr_ticks n v) = rc_hse v - n" "rc_pll (cr_ticks n v) = rc_pll v - n"
  "rc_pll2 (cr_ticks n v) = rc_pll2 v - n" "rc_cfgr (cr_ticks n v) = rc_cfgr v" "rc_sws (cr_ticks n v) = rc_sws v"
  "rc_cfgr2 (cr_ticks n v) = rc_cfgr2 v" "on_bits (cr_ticks n v) = on_bits v" "cr_ticks a (cr_ticks b v) = cr_ticks (a + b) v"
  by (simp_all add: cr_ticks_def on_bits_def diff_diff_left add.commute)

text \<open>A step of the start-up: the sources that are on and ready, the configuration, and the
  internal oscillator still driving the system.\<close>

definition stage :: "u32 \<Rightarrow> u32 \<Rightarrow> u32 \<Rightarrow> rcc_view \<Rightarrow> bool" where
  "stage on c c2 v \<longleftrightarrow> on_bits v = on \<and> rc_cr v AND 0xD5FDFFFD = rc_cr v \<and> on_hsi v \<and>
     rc_cfgr v = c \<and> rc_cfgr2 v = c2 \<and> (on AND 0x00010000 \<noteq> 0 \<longrightarrow> rc_hse v = 0) \<and>
     (on AND 0x01000000 \<noteq> 0 \<longrightarrow> rc_pll v = 0)"

lemma stage_ticks: "stage on c c2 v \<Longrightarrow> stage on c c2 (cr_ticks n v)"
  by (auto simp: stage_def on_hsi_def)

lemma cr_write_view:
  "rc_cfgr (cr_write t x v) = rc_cfgr v" "rc_sws (cr_write t x v) = rc_sws v" "rc_cfgr2 (cr_write t x v) = rc_cfgr2 v"
  "on_bits (cr_write t x v) = x AND 0x05010000" "rc_cr (cr_write t x v) AND 0xD5FDFFFD = rc_cr (cr_write t x v)"
  "rc_cr v AND 0x00010000 \<noteq> 0 \<Longrightarrow> rc_hse (cr_write t x v) = rc_hse v"
  "rc_cr v AND 0x01000000 \<noteq> 0 \<Longrightarrow> rc_pll (cr_write t x v) = rc_pll v"
  "x AND 0x00010000 \<noteq> 0 \<Longrightarrow> rc_cr v AND 0x00010000 = 0 \<Longrightarrow> rc_hse (cr_write t x v) = fst t"
  by (simp_all add: cr_write_def on_bits_def and.assoc split_beta Let_def)

lemma stage_cr_write:
  assumes "stage on c c2 v" and "x AND 0x05010000 = on'" and "\<And>t. t \<in> {0x00010000, 0x01000000} \<Longrightarrow> on' AND t \<noteq> 0 \<Longrightarrow> on AND t \<noteq> 0"
  shows "stage on' c c2 (cr_write t x (cr_ticks n v))"
  unfolding stage_def
proof (intro conjI impI)
  let ?v = "cr_ticks n v"
  note v = stage_ticks [OF assms(1), of n, unfolded stage_def]
  show "on_bits (cr_write t x ?v) = on'" using assms(2) by (simp add: cr_write_view)
  show "rc_cr (cr_write t x ?v) AND 0xD5FDFFFD = rc_cr (cr_write t x ?v)" by (rule cr_write_view)
  show "on_hsi (cr_write t x ?v)" "rc_cfgr (cr_write t x ?v) = c" "rc_cfgr2 (cr_write t x ?v) = c2"
    using v by (auto simp: cr_write_view on_hsi_def)
  show "rc_hse (cr_write t x ?v) = 0" if "on' AND 0x00010000 \<noteq> 0"
    using v assms(3) [OF _ that] by (auto simp: cr_write_view on_bits_sub)
  show "rc_pll (cr_write t x ?v) = 0" if "on' AND 0x01000000 \<noteq> 0"
    using v assms(3) [OF _ that] by (auto simp: cr_write_view on_bits_sub)
qed

lemma stage_cfgr:
  "stage on c c2 v \<Longrightarrow> on_hsi (v\<lparr>rc_cfgr := x, rc_sw := n\<rparr>) \<Longrightarrow> stage on x c2 (v\<lparr>rc_cfgr := x, rc_sw := n\<rparr>)"
  by (simp add: stage_def on_bits_def)

context rcc_unit
begin

lemma stage_or_CFGR:
  assumes "stage on c c2 (clk h)" and "m AND 0xF = 0"
  shows "stage on (c OR m) c2 (clk (or32 hw RCC_CFGR m h))"
proof -
  have v: "on_hsi (clk h)" "rc_cfgr (clk h) = c" using assms(1) by (simp_all add: stage_def)
  show ?thesis
    using stage_cfgr [OF assms(1) on_hsi_write(2) [OF v(1) on_hsi_rmw(1) [OF v(1) assms(2)]]]
    by (simp add: hsi_CFGR(1) [OF v(1) assms(2)] v(2))
qed

lemma stage_and_CFGR:
  assumes "stage on c c2 (clk h)"
  shows "stage on (c AND m) c2 (clk (and32 hw RCC_CFGR m h))"
proof -
  have v: "on_hsi (clk h)" "rc_cfgr (clk h) = c" using assms(1) by (simp_all add: stage_def)
  show ?thesis
    using stage_cfgr [OF assms(1) on_hsi_write(2) [OF v(1) on_hsi_rmw(2) [OF v(1)]]]
    by (simp add: hsi_CFGR(2) [OF v(1)] v(2))
qed

lemma stage_CFGR2:
  assumes "stage on c c2 (clk h)"
  shows "stage on c (c2 OR m) (clk (or32 hw RCC_CFGR2 m h))"
    and "stage on c (c2 AND m) (clk (and32 hw RCC_CFGR2 m h))"
    and "stage on c m (clk (wr32 hw RCC_CFGR2 m h))"
  using assms by (auto simp: rmw_CFGR2 wr_CFGR2 stage_def on_hsi_def on_bits_def)

lemma stage_off:
  assumes "stage on c c2 (clk h)" and "off_rcc r"
  shows "stage on c c2 (clk (or32 hw r m h))" "stage on c c2 (clk (and32 hw r m h))" "stage on c c2 (clk (wr32 hw r m h))"
  using assms by (simp_all add: rmw_frame wr_frame)

lemma stage_and_CR:
  assumes "stage on c c2 (clk h)" and "on AND m = on'"
  shows "stage on' c c2 (clk (and32 hw RCC_CR m h))"
  unfolding rmw_CR
proof (rule stage_cr_write [OF assms(1)])
  have "(cr_value (clk h) AND m) AND 0x05010000 = (cr_value (clk h) AND 0x05010000) AND m"
    by (simp only: and.assoc and.commute [of m])
  also have "\<dots> = on'" using assms by (simp add: cr_value_on stage_def)
  finally show "(cr_value (clk h) AND m) AND 0x05010000 = on'" .
  show "on AND t \<noteq> 0" if "on' AND t \<noteq> 0" for t
  proof
    assume "on AND t = 0"
    moreover have "on' AND t = (on AND t) AND m" unfolding assms(2) [symmetric] by (simp only: and.assoc and.commute [of m])
    ultimately show False using that by simp
  qed
qed

text \<open>Waiting for a ready flag ends once the flag can come up, with the flag up.\<close>

lemma poll_CR:
  "cr_value (cr_ticks n (clk h)) AND m = m \<Longrightarrow> \<exists>h' k. poll hw RCC_CR m m h = Some h' \<and>
    clk h' = cr_ticks (Suc k) (clk h) \<and> cr_value (cr_ticks k (clk h)) AND m = m"
proof (induction n arbitrary: h)
  case 0
  then show ?case using rd_CR [of h]
    by (subst poll.simps) (auto simp: split_beta Let_def cr_ticks_def intro!: exI [of _ 0])
next
  case (Suc n)
  let ?h = "snd (rd32 hw RCC_CR h)"
  show ?case
  proof (cases "cr_value (clk h) AND m = m")
    case True
    then show ?thesis using rd_CR [of h]
      by (subst poll.simps) (auto simp: split_beta Let_def cr_ticks_def intro!: exI [of _ 0])
  next
    case False
    with rd_CR [of h] have "poll hw RCC_CR m m h = poll hw RCC_CR m m ?h" by (subst poll.simps) (simp add: split_beta)
    moreover have "cr_value (cr_ticks n (clk ?h)) AND m = m" using Suc.prems rd_CR(2) [of h] by simp
    from Suc.IH [OF this] obtain h' k where "poll hw RCC_CR m m ?h = Some h'" "clk h' = cr_ticks (Suc (Suc k)) (clk h)"
      "cr_value (cr_ticks (Suc k) (clk h)) AND m = m"
      using rd_CR(2) [of h] by auto
    ultimately show ?thesis by metis
  qed
qed

end

text \<open>The external oscillator has been enabled and needs \<open>n\<close> more status reads.\<close>

definition hse_wait :: "nat \<Rightarrow> u32 \<Rightarrow> u32 \<Rightarrow> rcc_view \<Rightarrow> bool" where
  "hse_wait n c c2 v \<longleftrightarrow> on_bits v = 0x00010000 \<and> rc_cr v AND 0xD5FDFFFD = rc_cr v \<and> on_hsi v \<and>
     rc_cfgr v = c \<and> rc_cfgr2 v = c2 \<and> rc_hse v = n"

lemma hse_wait_ticks: "hse_wait n c c2 v \<Longrightarrow> hse_wait (n - k) c c2 (cr_ticks k v)"
  by (auto simp: hse_wait_def on_hsi_def)

lemma hse_wait_flag: "hse_wait n c c2 v \<Longrightarrow> cr_value v AND 0x00020000 = (if n = 0 then 0x00020000 else 0)"
  by (simp add: hse_wait_def cr_value_flags)

lemma hse_wait_done: "hse_wait 0 c c2 v \<Longrightarrow> stage 0x00010000 c c2 v"
  by (simp add: hse_wait_def stage_def)

context rcc_unit
begin

lemma hse_on:
  assumes "stage 0 c c2 (clk h)"
  shows "hse_wait (fst (t_on (snd (rd32 hw RCC_CR h)))) c c2 (clk (or32 hw RCC_CR 0x00010000 h))"
proof -
  have v: "on_bits (clk h) = 0" "on_hsi (clk h)" "rc_cfgr (clk h) = c" "rc_cfgr2 (clk h) = c2"
    using assms by (simp_all add: stage_def)
  then have x: "(cr_value (clk h) OR 0x00010000) AND 0x05010000 = 0x00010000"
    by (simp add: bit.conj_disj_distrib2 cr_value_on)
  from arg_cong [OF this, of "\<lambda>x. x AND 0x00010000"]
  have "(cr_value (clk h) OR 0x00010000) AND 0x00010000 \<noteq> 0" by (simp add: and.assoc)
  moreover have "rc_cr (cr_ticks 1 (clk h)) AND 0x00010000 = 0" using v(1) on_bits_sub(1) [of "clk h"] by simp
  ultimately show ?thesis
    using v(2-4) x unfolding hse_wait_def rmw_CR by (auto simp: cr_write_view on_hsi_def)
qed

lemma rd_wait:
  assumes "hse_wait n c c2 (clk h)"
  shows "fst (rd32 hw RCC_CR h) AND 0x00020000 = (if n = 0 then 0x00020000 else 0)"
    and "hse_wait (n - 1) c c2 (clk (snd (rd32 hw RCC_CR h)))"
  using hse_wait_flag [OF assms] hse_wait_ticks [OF assms, of 1] by (simp_all add: rd_CR)

lemma hse_loop_wait:
  "hse_wait n c c2 (clk h) \<Longrightarrow> hse_wait (n - k) c c2 (clk (hse_loop hw k h))"
proof (induction k arbitrary: n h)
  case (Suc k)
  show ?case
  proof (cases n)
    case 0
    then show ?thesis using rd_wait [OF Suc.prems] by (simp add: split_beta Let_def)
  next
    case (Suc m)
    then show ?thesis using rd_wait [OF Suc.prems] Suc.IH [of m] by (simp add: split_beta Let_def)
  qed
qed simp

lemma premain_loop_wait:
  "hse_wait n c c2 (clk h) \<Longrightarrow> \<exists>h'. premain_hse_loop hw k 0 h = (if n < k then 0x00020000 else 0, h') \<and>
    hse_wait (n - k) c c2 (clk h')"
proof (induction k arbitrary: n h)
  case (Suc k)
  let ?h = "snd (rd32 hw RCC_CR h)"
  show ?case
  proof (cases n)
    case 0
    moreover have "premain_hse_loop hw k 0x00020000 ?h = (0x00020000, ?h)" by (cases k) simp_all
    ultimately show ?thesis using rd_wait [OF Suc.prems] by (simp add: split_beta Let_def)
  next
    case (Suc m)
    then show ?thesis using rd_wait [OF Suc.prems] Suc.IH [of m ?h] by (simp add: split_beta Let_def)
  qed
qed simp

lemma start_hse_wait:
  assumes "stage 0 c c2 (clk h)"
  obtains b h' n where "start_hse hw h = (b, h')" and "b \<longleftrightarrow> fst (t_on (snd (rd32 hw RCC_CR h))) \<le> 0x500"
    and "hse_wait n c c2 (clk h')" and "b \<Longrightarrow> n = 0"
proof -
  let ?n = "fst (t_on (snd (rd32 hw RCC_CR h)))"
  let ?h = "hse_loop hw (unat HSE_STARTUP_TIMEOUT) (or32 hw RCC_CR 0x00010000 h)"
  have w: "hse_wait (?n - 0x500) c c2 (clk ?h)"
    using hse_loop_wait [OF hse_on [OF assms], of "0x500"] by (simp add: HSE_STARTUP_TIMEOUT_def)
  show thesis
  proof
    show "start_hse hw h = (?n - 0x500 = 0, snd (rd32 hw RCC_CR ?h))"
      using rd_wait(1) [OF w] by (simp add: start_hse_def split_beta Let_def)
    show "hse_wait (?n - 0x500 - 1) c c2 (clk (snd (rd32 hw RCC_CR ?h)))" by (rule rd_wait(2) [OF w])
  qed auto
qed

lemma start_hse_stage:
  assumes "stage 0 c c2 (clk h)" and "fst (t_on (snd (rd32 hw RCC_CR h))) \<le> 0x500"
  obtains h' where "start_hse hw h = (True, h')" and "stage 0x00010000 c c2 (clk h')"
  using start_hse_wait [OF assms(1)] assms(2) hse_wait_done by metis

lemma stage_or_CR:
  assumes "stage on c c2 (clk h)" and "m AND 0x01010000 = 0"
  shows "stage (on OR (m AND 0x05010000)) c c2 (clk (or32 hw RCC_CR m h))"
  unfolding rmw_CR
proof (rule stage_cr_write [OF assms(1)])
  show "(cr_value (clk h) OR m) AND 0x05010000 = on OR (m AND 0x05010000)"
    using assms(1) by (simp add: bit.conj_disj_distrib2 cr_value_on stage_def)
  have "m AND 0x00010000 = 0" "m AND 0x01000000 = 0"
    using arg_cong [OF assms(2), of "\<lambda>x. x AND 0x00010000"] arg_cong [OF assms(2), of "\<lambda>x. x AND 0x01000000"]
    by (simp_all add: and.assoc)
  then show "on AND t \<noteq> 0" if "t \<in> {0x00010000, 0x01000000}" "(on OR (m AND 0x05010000)) AND t \<noteq> 0" for t
    using that by (auto simp: bit.conj_disj_distrib2 and.assoc)
qed

lemma start_pll2_stage:
  assumes "stage 0x00010000 c c2 (clk h)"
  obtains h' where "start_pll2 hw p h = Some h'"
    and "stage 0x04010000 c ((c2 AND NOT (0xF0 OR 0xF00 OR 0xF OR 0x10000)) OR (0x40 OR 0x600 OR 0x10000 OR p)) (clk h')"
proof -
  define h1 where "h1 = or32 hw RCC_CR 0x04000000 (or32 hw RCC_CFGR2 (0x40 OR 0x600 OR 0x10000 OR p)
    (and32 hw RCC_CFGR2 (NOT (0xF0 OR 0xF00 OR 0xF OR 0x10000)) h))"
  have s: "stage 0x04010000 c ((c2 AND NOT (0xF0 OR 0xF00 OR 0xF OR 0x10000)) OR (0x40 OR 0x600 OR 0x10000 OR p)) (clk h1)"
    unfolding h1_def using stage_or_CR [OF stage_CFGR2(1) [OF stage_CFGR2(2) [OF assms]], of "0x04000000"] by simp
  then have "cr_value (cr_ticks (rc_pll2 (clk h1)) (clk h1)) AND 0x08000000 = 0x08000000"
    by (simp add: stage_def cr_value_flags)
  from poll_CR [OF this] obtain h' k where "poll hw RCC_CR 0x08000000 0x08000000 h1 = Some h'"
    "clk h' = cr_ticks (Suc k) (clk h1)" by auto
  with stage_ticks [OF s, of "Suc k"] that [of h'] show thesis
    by (simp add: start_pll2_def h1_def Let_def)
qed

lemma start_pll_stage:
  assumes "stage 0x04010000 c c2 (clk h)"
  obtains h' where "start_pll hw h = Some h'" and "stage 0x05010000 c c2 (clk h')"
proof -
  define h1 where "h1 = or32 hw RCC_CR 0x01000000 h"
  have v: "on_bits (clk h) = 0x04010000" "on_hsi (clk h)" "rc_cfgr (clk h) = c" "rc_cfgr2 (clk h) = c2" "rc_hse (clk h) = 0"
    using assms by (simp_all add: stage_def)
  then have "(cr_value (clk h) OR 0x01000000) AND 0x05010000 = 0x05010000"
    by (simp add: bit.conj_disj_distrib2 cr_value_on)
  moreover have "rc_cr (cr_ticks 1 (clk h)) AND 0x00010000 \<noteq> 0" using v(1) on_bits_sub(1) [of "clk h"] by simp
  ultimately have s: "on_bits (clk h1) = 0x05010000" "rc_cr (clk h1) AND 0xD5FDFFFD = rc_cr (clk h1)" "on_hsi (clk h1)"
    "rc_cfgr (clk h1) = c" "rc_cfgr2 (clk h1) = c2" "rc_hse (clk h1) = 0"
    using v(2-5) unfolding h1_def rmw_CR by (auto simp: cr_write_view on_hsi_def)
  then have "cr_value (cr_ticks (rc_pll (clk h1)) (clk h1)) AND 0x02000000 = 0x02000000"
    by (simp add: cr_value_flags)
  from poll_CR [OF this] obtain h' k where h': "poll hw RCC_CR 0x02000000 0x02000000 h1 = Some h'"
    "clk h' = cr_ticks (Suc k) (clk h1)" "cr_value (cr_ticks k (clk h1)) AND 0x02000000 = 0x02000000" by auto
  have "rc_pll (clk h1) - k = 0" using h'(3) s(1,2) by (simp add: cr_value_flags split: if_splits)
  with s h'(2) have "stage 0x05010000 c c2 (clk h')" by (auto simp: stage_def on_hsi_def)
  with h'(1) that [of h'] show thesis by (simp add: start_pll_def h1_def)
qed

end

text \<open>The requested source drives the system.\<close>

definition settled :: "u32 \<Rightarrow> u32 \<Rightarrow> u32 \<Rightarrow> rcc_view \<Rightarrow> bool" where
  "settled c c2 sws v \<longleftrightarrow> rc_cfgr v = c \<and> rc_cfgr2 v = c2 \<and> rc_sws v = sws \<and> sws = push_bit 2 (c AND 0x3)"

lemma settled_sws: "settled c c2 sws v \<Longrightarrow> sws_value v = sws"
  by (simp add: settled_def sws_value_def)

lemma settled_read: "settled c c2 sws v \<Longrightarrow> settled c c2 sws (cfgr_read v)"
  using settled_sws [of c c2 sws v] by (simp add: settled_def cfgr_read_def)

lemma stage_settled: "stage on c c2 v \<Longrightarrow> settled c c2 0 v"
  using on_hsi_sub(1) [of v] by (auto simp: stage_def settled_def on_hsi_def simp del: push_bit_and)

lemma hse_wait_settled: "hse_wait n c c2 v \<Longrightarrow> settled c c2 0 v"
  using on_hsi_sub(1) [of v] by (auto simp: hse_wait_def settled_def on_hsi_def simp del: push_bit_and)

context rcc_unit
begin

lemma settled_CFGR:
  assumes "settled c c2 sws (clk h)"
  shows "fst (rd32 hw RCC_CFGR h) = c OR sws" and "settled c c2 sws (clk (snd (rd32 hw RCC_CFGR h)))"
  using settled_sws [OF assms] settled_read [OF assms] assms by (simp_all add: rd_CFGR settled_def)

lemma settled_CFGR2:
  assumes "settled c c2 sws (clk h)"
  shows "fst (rd32 hw RCC_CFGR2 h) = c2" and "settled c c2 sws (clk (snd (rd32 hw RCC_CFGR2 h)))"
  using assms by (simp_all add: rd_CFGR2 settled_def)

lemma settled_off:
  "settled c c2 sws (clk h) \<Longrightarrow> off_rcc r \<Longrightarrow> settled c c2 sws (clk (wr32 hw r x h))"
  by (simp add: wr_frame)

lemma poll_SWS:
  assumes "rc_sw (clk h) = n" and "src_ready (clk h)" and "c AND 0xC = 0" and "rc_cfgr (clk h) = c" and "rc_cfgr2 (clk h) = c2"
    and "rc_sws (clk h) = 0" and "sws = push_bit 2 (c AND 0x3)" and "sws \<noteq> 0"
  shows "\<exists>h'. poll hw RCC_CFGR 0xC sws h = Some h' \<and> settled c c2 sws (clk h')"
  using assms(1,2,4-6)
proof (induction n arbitrary: h)
  case 0
  then have "sws_value (clk h) = sws" using assms(7) by (simp add: sws_value_def)
  moreover have "sws AND 0xC = sws"
    using assms(7) by (simp add: and.assoc)
  ultimately have "fst (rd32 hw RCC_CFGR h) AND 0xC = sws" using 0(3) assms(3) by (simp add: rd_CFGR bit.conj_disj_distrib2)
  then have "poll hw RCC_CFGR 0xC sws h = Some (snd (rd32 hw RCC_CFGR h))" by (subst poll.simps) (simp add: split_beta)
  moreover have "settled c c2 sws (clk (snd (rd32 hw RCC_CFGR h)))"
    using 0 \<open>sws_value (clk h) = sws\<close> assms(7) by (simp add: rd_CFGR settled_def cfgr_read_def)
  ultimately show ?case by blast
next
  case (Suc n)
  let ?h = "snd (rd32 hw RCC_CFGR h)"
  have z: "sws_value (clk h) = 0" using Suc.prems by (simp add: sws_value_def)
  then have "fst (rd32 hw RCC_CFGR h) AND 0xC = 0" using Suc.prems(3) assms(3) by (simp add: rd_CFGR)
  then have "poll hw RCC_CFGR 0xC sws h = poll hw RCC_CFGR 0xC sws ?h" using assms(8) by (subst poll.simps) (auto simp: split_beta)
  moreover have "\<exists>h'. poll hw RCC_CFGR 0xC sws ?h = Some h' \<and> settled c c2 sws (clk h')"
    using Suc.prems z by (intro Suc.IH) (simp_all add: rd_CFGR cfgr_read_def src_ready_def)
  ultimately show ?case by simp
qed

lemma switch_clock_settled:
  assumes "stage on c c2 (clk h)"
    and "sw = 1 \<and> on AND 0x00010000 \<noteq> 0 \<and> sws = 4 \<or> sw = 2 \<and> on AND 0x01000000 \<noteq> 0 \<and> sws = 8"
  obtains h' where "switch_clock hw sw sws h = Some h'" and "settled (c OR sw) c2 sws (clk h')"
proof -
  define h1 where "h1 = and32 hw RCC_CFGR (NOT 0x3) h"
  define h2 where "h2 = or32 hw RCC_CFGR sw h1"
  have sw: "sw AND 0x3 = sw" "sw AND 0xFFFFFFF3 = sw" "sw AND 0xC = 0" "sw \<noteq> 0" "sws = push_bit 2 sw" "sws \<noteq> 0"
    using assms(2) by auto
  have "on_hsi (clk h)" "rc_cfgr (clk h) = c" using assms(1) by (simp_all add: stage_def)
  then have c: "c AND 0x3 = 0" "c AND 0xFFFFFFF3 = c" using on_hsi_sub [of "clk h"] by simp_all
  have c3: "c AND NOT 0x3 = c"
  proof -
    have "c = (c AND NOT 0x3) OR (c AND 0x3)" by (simp only: bit.conj_disj_distrib [symmetric] bit.disj_cancel_left and.right_neutral)
    with c(1) show ?thesis by simp
  qed
  have cC: "c AND 0xC = 0"
    using arg_cong [OF c(2), of "\<lambda>x. x AND 0xC"] by (simp add: and.assoc)
  have s: "stage on c c2 (clk h1)"
    using stage_and_CFGR [OF assms(1), of "NOT 0x3"] unfolding h1_def c3 .
  then have v: "on_hsi (clk h1)" "rc_cfgr (clk h1) = c" "rc_cfgr2 (clk h1) = c2" "on_bits (clk h1) = on"
    "on AND 0x00010000 \<noteq> 0 \<longrightarrow> rc_hse (clk h1) = 0" "on AND 0x01000000 \<noteq> 0 \<longrightarrow> rc_pll (clk h1) = 0"
    by (simp_all add: stage_def)
  note z = on_hsi_sws [OF v(1)]
  have z': "sws_value (cfgr_read (clk h1)) = 0"
    using v(1) z by (intro on_hsi_sws) (simp add: on_hsi_def cfgr_read_def)
  have "clk h2 = (clk h1)\<lparr>rc_cfgr := c OR sw, rc_sws := 0, rc_sw := t_switch (snd (rd32 hw RCC_CFGR h1))\<rparr>"
    using v c sw z z' unfolding h2_def rmw_CFGR
    by (simp add: cfgr_write_def cfgr_read_def bit.conj_disj_distrib2)
  then have "\<exists>h'. poll hw RCC_CFGR 0xC sws h2 = Some h' \<and> settled (c OR sw) c2 sws (clk h')"
    using v sw c cC assms(2) on_bits_sub [of "clk h1"]
    by (intro poll_SWS [OF refl]) (auto simp: src_ready_def bit.conj_disj_distrib2 on_bits_def)
  with that show thesis by (auto simp: switch_clock_def h2_def h1_def Let_def)
qed

end

section \<open>The clocks that the start-up code announces\<close>

text \<open>The frequency of the system clock for given configuration registers.\<close>

definition freq_of :: "u32 \<Rightarrow> u32 \<Rightarrow> u32" where
  "freq_of cfgr cfgr2 =
     (let sws = cfgr AND 0xC; pllmull = pll_mull cfgr; prediv1 = (cfgr2 AND 0xF) + 1;
          pll2 = HSE_VALUE div (drop_bit 4 (cfgr2 AND 0xF0) + 1) * (drop_bit 8 (cfgr2 AND 0xF00) + 2)
      in if sws = 4 then HSE_VALUE
         else if sws = 8 then
           if cfgr AND 0x00010000 = 0 then drop_bit 1 HSI_VALUE * pllmull
           else if cfgr2 AND 0x00010000 = 0 then HSE_VALUE div prediv1 * pllmull
           else pll2 div prediv1 * pllmull
         else HSI_VALUE)"

text \<open>What the configurations leave in the two registers, from the value \<open>c\<close> of the first one,
  and the switch status.\<close>

definition pll_config :: "u32 \<Rightarrow> u32 \<Rightarrow> u32 \<Rightarrow> u32" where
  "pll_config ppre1 pllmull c = ((c OR ppre1) AND NOT 0x003F0000) OR (0x00010000 OR pllmull) OR 0x2"

fun sys_config :: "sysclk_freq_def \<Rightarrow> u32 \<Rightarrow> u32 \<times> u32 \<times> u32" where
  "sys_config SYSCLK_FREQ_HSE c = (c OR 0x1, 0, 4)"
| "sys_config SYSCLK_FREQ_24MHz c = (pll_config 0x0 0x00100000 c, 0x10649, 8)"
| "sys_config SYSCLK_FREQ_36MHz c = (pll_config 0x0 0x001C0000 c, 0x10649, 8)"
| "sys_config SYSCLK_FREQ_48MHz c = (pll_config 0x400 0x00100000 c, 0x10644, 8)"
| "sys_config SYSCLK_FREQ_56MHz c = (pll_config 0x400 0x00140000 c, 0x10644, 8)"
| "sys_config SYSCLK_FREQ_72MHz c = (pll_config 0x400 0x001C0000 c, 0x10644, 8)"
| "sys_config SYSCLK_FREQ_HSI c = (c, 0, 0)"

lemma off_rcc_addrs: "off_rcc FLASH_ACR" "off_rcc RCC_CIR" "off_rcc SCB_VTOR"
  by (simp_all add: off_rcc_def FLASH_ACR_def RCC_CIR_def SCB_VTOR_def RCC_CR_def RCC_CFGR_def RCC_CFGR2_def)

context rcc_unit
begin

lemma sysclk_settled:
  assumes "settled c c2 sws (clk h)"
  obtains h' where "sysclk_freq hw h = (freq_of (c OR sws) c2, h')" and "settled c c2 sws (clk h')"
proof -
  note r = settled_CFGR [where c = c and ?c2.0 = c2 and sws = sws] settled_CFGR2 [where c = c and ?c2.0 = c2 and sws = sws]
  have "fst (sysclk_freq hw h) = freq_of (c OR sws) c2" "settled c c2 sws (clk (snd (sysclk_freq hw h)))"
    using assms by (simp_all add: sysclk_freq_def freq_of_def r split_beta Let_def CFGR_SWS_Mask_def
        CFGR_PLLSRC_Mask_def CFGR2_PREDIV1_def CFGR2_PREDIV2_def CFGR2_PLL2MUL_def CFGR2_PREDIV1SRC_def)
  with that show thesis by (metis prod.collapse)
qed

lemma set_latency_stage: "stage on c c2 (clk h) \<Longrightarrow> stage on c c2 (clk (set_latency hw l h))"
  by (simp add: set_latency_def Let_def stage_off off_rcc_addrs)

lemma set_prescalers_stage:
  assumes "stage on c c2 (clk h)" and "p AND 0xF = 0"
  shows "stage on (c OR p) c2 (clk (set_prescalers hw p h))"
proof -
  have "stage on c c2 (clk (or32 hw RCC_CFGR 0 h'))" if "stage on c c2 (clk h')" for h'
    using stage_or_CFGR [OF that, of 0] by simp
  with assms show ?thesis by (simp add: set_prescalers_def Let_def stage_or_CFGR)
qed

lemma config_pll_stage:
  assumes "stage on c c2 (clk h)" and "p AND 0xF = 0"
  shows "stage on ((c AND NOT 0x003F0000) OR (0x00010000 OR p)) c2 (clk (config_pll hw p h))"
  using stage_or_CFGR [OF stage_and_CFGR [OF assms(1)], of "0x00010000 OR p" "NOT 0x003F0000"] assms(2)
  by (simp add: config_pll_def Let_def bit.conj_disj_distrib2)

lemma pll_first_settled:
  assumes "stage 0x00010000 c 0 (clk h)" and "m AND 0xF = 0"
  shows "\<exists>h4. Option.bind (start_pll2 hw p (config_pll hw m h)) (\<lambda>h. Option.bind (start_pll hw h) (switch_clock hw 0x2 0x08)) = Some h4
    \<and> settled (pll_config 0 m c) (0x10640 OR p) 8 (clk h4)"
proof -
  obtain h2 where 2: "start_pll2 hw p (config_pll hw m h) = Some h2"
    "stage 0x04010000 ((c AND NOT 0x003F0000) OR (0x00010000 OR m)) (0x10640 OR p) (clk h2)"
    by (rule start_pll2_stage [OF config_pll_stage [OF assms(1,2)], of p]) (simp add: or.assoc [symmetric])
  obtain h3 where 3: "start_pll hw h2 = Some h3"
    "stage 0x05010000 ((c AND NOT 0x003F0000) OR (0x00010000 OR m)) (0x10640 OR p) (clk h3)"
    using start_pll_stage [OF 2(2)] .
  obtain h4 where "switch_clock hw 0x2 0x08 h3 = Some h4" "settled (pll_config 0 m c) (0x10640 OR p) 8 (clk h4)"
    by (rule switch_clock_settled [OF 3(2), of 2 8]) (simp_all add: pll_config_def or.assoc)
  with 2(1) 3(1) show ?thesis by simp
qed

lemma pll2_first_settled:
  assumes "stage 0x00010000 c 0 (clk h)" and "m AND 0xF = 0"
  shows "\<exists>h4. Option.bind (start_pll2 hw p h) (\<lambda>h. Option.bind (start_pll hw (config_pll hw m h)) (switch_clock hw 0x2 0x08)) = Some h4
    \<and> settled (pll_config 0 m c) (0x10640 OR p) 8 (clk h4)"
proof -
  obtain h2 where 2: "start_pll2 hw p h = Some h2" "stage 0x04010000 c (0x10640 OR p) (clk h2)"
    by (rule start_pll2_stage [OF assms(1), of p]) (simp add: or.assoc [symmetric])
  obtain h3 where 3: "start_pll hw (config_pll hw m h2) = Some h3"
    "stage 0x05010000 ((c AND NOT 0x003F0000) OR (0x00010000 OR m)) (0x10640 OR p) (clk h3)"
    using start_pll_stage [OF config_pll_stage [OF 2(2) assms(2)]] .
  obtain h4 where "switch_clock hw 0x2 0x08 h3 = Some h4" "settled (pll_config 0 m c) (0x10640 OR p) 8 (clk h4)"
    by (rule switch_clock_settled [OF 3(2), of 2 8]) (simp_all add: pll_config_def or.assoc)
  with 2(1) 3(1) show ?thesis by simp
qed

text \<open>Each variant of \<open>SetSysClock\<close>, with an oscillator that starts in time.\<close>

lemma hse_part:
  assumes "stage 0 c 0 (clk h)" and "\<forall>h. fst (t_on h) \<le> 0x500" and "p AND 0xF = 0"
  obtains h1 where "start_hse hw h = (True, h1)"
    and "stage 0x00010000 (c OR p) 0 (clk (set_prescalers hw p (set_latency hw l h1)))"
proof -
  obtain h1 where h1: "start_hse hw h = (True, h1)" "stage 0x00010000 c 0 (clk h1)"
    using start_hse_stage [OF assms(1)] assms(2) by blast
  show thesis by (rule that [OF h1(1) set_prescalers_stage [OF set_latency_stage [OF h1(2)] assms(3)]])
qed

lemma SetSysClock_settled:
  assumes "stage 0 c 0 (clk h)" and "\<forall>h. fst (t_on h) \<le> 0x500"
  shows "\<exists>h'. SetSysClock f hw h = Some h' \<and> (\<exists>c' c2' sws. sys_config f c = (c', c2', sws) \<and> settled c' c2' sws (clk h'))"
proof (cases f)
  case SYSCLK_FREQ_HSE
  obtain h1 where h1: "start_hse hw h = (True, h1)" "stage 0x00010000 c 0 (clk (set_prescalers hw 0 (set_latency hw 1 h1)))"
    by (rule hse_part [OF assms, of 0 1]) simp_all
  obtain h2 where "switch_clock hw 1 4 (set_prescalers hw 0 (set_latency hw 1 h1)) = Some h2" "settled (c OR 1) 0 4 (clk h2)"
    by (rule switch_clock_settled [OF h1(2), of 1 4]) auto
  with h1(1) show ?thesis by (simp add: SYSCLK_FREQ_HSE SetSysClockToHSE_def HSE_VALUE_def del: or_one_eq)
next
  case SYSCLK_FREQ_24MHz
  obtain h1 where h1: "start_hse hw h = (True, h1)" "stage 0x00010000 c 0 (clk (set_prescalers hw 0 (set_latency hw 0 h1)))"
    by (rule hse_part [OF assms, of 0 0]) simp_all
  from pll_first_settled [OF h1(2), of "0x00100000" 9] h1(1) show ?thesis
    by (simp add: SYSCLK_FREQ_24MHz SetSysClockTo24_def)
next
  case SYSCLK_FREQ_36MHz
  obtain h1 where h1: "start_hse hw h = (True, h1)" "stage 0x00010000 c 0 (clk (set_prescalers hw 0 (set_latency hw 1 h1)))"
    by (rule hse_part [OF assms, of 0 1]) simp_all
  from pll_first_settled [OF h1(2), of "0x001C0000" 9] h1(1) show ?thesis
    by (simp add: SYSCLK_FREQ_36MHz SetSysClockTo36_def)
next
  case SYSCLK_FREQ_48MHz
  obtain h1 where h1: "start_hse hw h = (True, h1)" "stage 0x00010000 (c OR 0x400) 0 (clk (set_prescalers hw 0x400 (set_latency hw 1 h1)))"
    by (rule hse_part [OF assms, of "0x400" 1]) simp_all
  from pll2_first_settled [OF h1(2), of "0x00100000" 4] h1(1) show ?thesis
    by (simp add: SYSCLK_FREQ_48MHz SetSysClockTo48_def pll_config_def)
next
  case SYSCLK_FREQ_56MHz
  obtain h1 where h1: "start_hse hw h = (True, h1)" "stage 0x00010000 (c OR 0x400) 0 (clk (set_prescalers hw 0x400 (set_latency hw 2 h1)))"
    by (rule hse_part [OF assms, of "0x400" 2]) simp_all
  from pll2_first_settled [OF h1(2), of "0x00140000" 4] h1(1) show ?thesis
    by (simp add: SYSCLK_FREQ_56MHz SetSysClockTo56_def pll_config_def)
next
  case SYSCLK_FREQ_72MHz
  obtain h1 where h1: "start_hse hw h = (True, h1)" "stage 0x00010000 (c OR 0x400) 0 (clk (set_prescalers hw 0x400 (set_latency hw 2 h1)))"
    by (rule hse_part [OF assms, of "0x400" 2]) simp_all
  from pll2_first_settled [OF h1(2), of "0x001C0000" 4] h1(1) show ?thesis
    by (simp add: SYSCLK_FREQ_72MHz SetSysClockTo72_def pll_config_def)
next
  case SYSCLK_FREQ_HSI
  then show ?thesis using stage_settled [OF assms(1)] by simp
qed

lemma reset_stage:
  assumes "stage 0 c c2 (clk h)"
  shows "stage 0 (c AND 0xF0800000) 0 (clk (ResetRcc hw h))"
proof -
  have "stage 0 ((c AND 0xF0FF0000) AND 0xFF80FFFF) 0 (clk (ResetRcc hw h))"
    unfolding ResetRcc_def Let_def
    by (intro stage_CFGR2(3) [where ?c2.0 = c2] stage_off(3) stage_and_CFGR stage_and_CR [where on = 0] off_rcc_addrs)
      (simp_all add: assms)
  then show ?thesis by (simp add: and.assoc)
qed

lemma SystemInit_settled:
  assumes "stage 0 c c2 (clk h)" and "\<forall>h. fst (t_on h) \<le> 0x500"
  obtains h' c' c2' sws where "SystemInit f hw h = Some h'" and "sys_config f (c AND 0xF0800000) = (c', c2', sws)"
    and "settled c' c2' sws (clk h')"
proof -
  define h1 where "h1 = ResetRcc hw (or32 hw RCC_CR 1 h)"
  have h1: "stage 0 (c AND 0xF0800000) 0 (clk h1)"
    unfolding h1_def using reset_stage [of c c2 "or32 hw RCC_CR 1 h"] stage_or_CR [OF assms(1), of 1] by simp
  obtain h2 c' c2' sws where h2: "SetSysClock f hw h1 = Some h2" "sys_config f (c AND 0xF0800000) = (c', c2', sws)"
    "settled c' c2' sws (clk h2)"
    using SetSysClock_settled [OF h1 assms(2), of f] by auto
  show thesis
  proof
    show "SystemInit f hw h = Some (wr32 hw SCB_VTOR 0x08000000 h2)"
      using h2(1) by (simp add: SystemInit_def h1_def ResetRcc_def Let_def)
    show "settled c' c2' sws (clk (wr32 hw SCB_VTOR 0x08000000 h2))"
      using settled_off [OF h2(3)] by (simp add: off_rcc_addrs)
  qed (rule h2(2))
qed

end

lemma sys_config_freq:
  assumes "sys_config f (c AND 0xF0800000) = (c', c2', sws)"
  shows "freq_of (c' OR sws) c2' = SystemCoreClock f" and "(c' OR sws) AND 0xF0 = 0"
  using assms by (cases f; auto simp: freq_of_def pll_config_def pll_mull_def CFGR_PLLMull_Mask_def HSE_VALUE_def
    HSI_VALUE_def Let_def bit.conj_disj_distrib2 and.assoc)+

text \<open>After a reset: only the internal oscillator is on, and it drives the system.\<close>

definition clk_reset :: "rcc_view \<Rightarrow> bool" where
  "clk_reset v \<longleftrightarrow> on_bits v = 0 \<and> rc_cr v AND 0xD5FDFFFD = rc_cr v \<and> on_hsi v"

lemma clk_reset_stage: "clk_reset v \<Longrightarrow> stage 0 (rc_cfgr v) (rc_cfgr2 v) v"
  by (simp add: clk_reset_def stage_def)

context rcc_unit
begin

lemma SystemCoreClockUpdate_settled:
  assumes "settled c c2 sws (clk h)" and "(c OR sws) AND 0xF0 = 0"
  shows "\<exists>h'. SystemCoreClockUpdate hw h = (freq_of (c OR sws) c2, h')"
proof -
  obtain h1 where h1: "sysclk_freq hw h = (freq_of (c OR sws) c2, h1)" "settled c c2 sws (clk h1)"
    using sysclk_settled [OF assms(1)] .
  with settled_CFGR [OF h1(2)] assms(2) show ?thesis
    by (simp add: SystemCoreClockUpdate_def AHBPrescTable_def split_beta Let_def del: drop_bit_and)
qed

lemma GetClocksFreq_settled:
  assumes "settled c c2 sws (clk h)" and "(c OR sws) AND 0xFFF0 = 0x400"
  obtains h' where "RCC_GetClocksFreq hw h = (let f = freq_of (c OR sws) c2 in
    \<lparr>SYSCLK_Frequency = f, HCLK_Frequency = f, PCLK1_Frequency = f div 2, PCLK2_Frequency = f, ADCCLK_Frequency = f div 2\<rparr>, h')"
proof -
  note r = settled_CFGR [where c = c and ?c2.0 = c2 and sws = sws]
  obtain h1 where h1: "sysclk_freq hw h = (freq_of (c OR sws) c2, h1)" "settled c c2 sws (clk h1)"
    using sysclk_settled [OF assms(1)] .
  have m: "(c OR sws) AND x = 0x400 AND x" if "0xFFF0 AND x = x" for x
    using arg_cong [OF assms(2), of "\<lambda>y. y AND x"] that by (simp only: and.assoc)
  have "fst (RCC_GetClocksFreq hw h) = (let f = freq_of (c OR sws) c2 in
      \<lparr>SYSCLK_Frequency = f, HCLK_Frequency = f, PCLK1_Frequency = f div 2, PCLK2_Frequency = f, ADCCLK_Frequency = f div 2\<rparr>)"
    using h1 by (simp add: RCC_GetClocksFreq_def r m split_beta Let_def CFGR_HPRE_Set_Mask_def CFGR_PPRE1_Set_Mask_def
        CFGR_PPRE2_Set_Mask_def CFGR_ADCPRE_Set_Mask_def APBAHBPrescTable_def ADCPrescTable_def drop_bit_eq_div)
  with that show thesis by (metis prod.collapse)
qed

text \<open>Without the external oscillator nothing is switched.\<close>

lemma SetSysClock_stalled:
  assumes "stage 0 c 0 (clk h)" and "\<forall>h. 0x500 < fst (t_on h)"
  shows "\<exists>h'. SetSysClock f hw h = Some h' \<and> settled c 0 0 (clk h')"
proof -
  obtain h' n where h': "start_hse hw h = (False, h')" "hse_wait n c 0 (clk h')"
    using start_hse_wait [OF assms(1)] assms(2) by (metis not_le)
  then show ?thesis using hse_wait_settled [OF h'(2)] stage_settled [OF assms(1)]
    by (cases f) (simp_all add: SetSysClockToHSE_def SetSysClockTo24_def SetSysClockTo36_def SetSysClockTo48_def
        SetSysClockTo56_def SetSysClockTo72_def)
qed

lemma SystemInit_stalled:
  assumes "stage 0 c c2 (clk h)" and "\<forall>h. 0x500 < fst (t_on h)"
  obtains h' where "SystemInit f hw h = Some h'" and "settled (c AND 0xF0800000) 0 0 (clk h')"
proof -
  define h1 where "h1 = ResetRcc hw (or32 hw RCC_CR 1 h)"
  have h1: "stage 0 (c AND 0xF0800000) 0 (clk h1)"
    unfolding h1_def using reset_stage [of c c2 "or32 hw RCC_CR 1 h"] stage_or_CR [OF assms(1), of 1] by simp
  obtain h2 where h2: "SetSysClock f hw h1 = Some h2" "settled (c AND 0xF0800000) 0 0 (clk h2)"
    using SetSysClock_stalled [OF h1 assms(2), of f] by auto
  have "SystemInit f hw h = Some (wr32 hw SCB_VTOR 0x08000000 h2)"
    using h2(1) by (simp add: SystemInit_def h1_def ResetRcc_def Let_def)
  with settled_off [OF h2(2), of SCB_VTOR] that show thesis by (simp add: off_rcc_addrs)
qed

lemma SysTick_settled: "settled c c2 sws (clk h) \<Longrightarrow> settled c c2 sws (clk (snd (SysTick_Config hw t h)))"
  by (simp add: SysTick_Config_def NVIC_SetPriority_def Let_def wr_frame wr8_frame off_rcc_def SCB_SHP_def SysTick_LOAD_def
      SysTick_VAL_def SysTick_CTRL_def RCC_CR_def RCC_CFGR_def RCC_CFGR2_def)

lemma HsePllConfig_settled:
  assumes "stage 0 c 0 (clk h)" and "\<forall>h. fst (t_on h) < 0x500"
  obtains h' where "HsePllConfig hw h = Some (72000000, h')"
    and "settled (((c OR 0x400) AND NOT 0x003D0000) OR 0x001D0000 OR 0x2) 0x10644 8 (clk h')"
proof -
  let ?h = "or32 hw RCC_CR 0x00010000 h" and ?c = "((c OR 0x400) AND NOT 0x003D0000) OR 0x001D0000"
  let ?t = "fst (t_on (snd (rd32 hw RCC_CR h)))"
  obtain h1 where "premain_hse_loop hw 0x500 0 ?h = (if ?t < 0x500 then 0x00020000 else 0, h1)" "hse_wait (?t - 0x500) c 0 (clk h1)"
    using premain_loop_wait [OF hse_on [OF assms(1)], of "0x500"] by blast
  moreover have t: "?t < 0x500" using assms(2) by blast
  ultimately have h1: "premain_hse_loop hw 0x500 0 ?h = (0x00020000, h1)" "stage 0x00010000 c 0 (clk h1)"
    using hse_wait_done [of c 0 "clk h1"] by simp_all
  define h2 where "h2 = or32 hw RCC_CFGR 0x400 (wr32 hw FLASH_ACR 0x12 h1)"
  have h2: "stage 0x00010000 (c OR 0x400) 0 (clk h2)"
    unfolding h2_def by (intro stage_or_CFGR stage_off(3) h1(2) off_rcc_addrs) simp
  obtain h3 where h3: "start_pll2 hw 4 h2 = Some h3" "stage 0x04010000 (c OR 0x400) 0x10644 (clk h3)"
    by (rule start_pll2_stage [OF h2, of 4]) simp
  define h4 where "h4 = or32 hw RCC_CFGR 0x001D0000 (and32 hw RCC_CFGR (NOT 0x003D0000) h3)"
  have "stage 0x04010000 ?c 0x10644 (clk h4)"
    unfolding h4_def by (intro stage_or_CFGR stage_and_CFGR h3(2)) simp
  then obtain h5 where h5: "start_pll hw h4 = Some h5" "stage 0x05010000 ?c 0x10644 (clk h5)"
    using start_pll_stage by blast
  obtain h6 where "switch_clock hw 2 8 h5 = Some h6" "settled (?c OR 0x2) 0x10644 8 (clk h6)"
    by (rule switch_clock_settled [OF h5(2), of 2 8]) simp_all
  with h1(1) h3(1) h5(1) that [of h6] show thesis
    by (simp add: HsePllConfig_def HSE_STARTUP_TIMEOUT_def h2_def h4_def or.assoc Let_def)
qed

end

section \<open>A reference clock controller\<close>

text \<open>The external oscillator needs \<open>th\<close> status reads, the loops and the switch a few.\<close>

definition clk_rd32 :: "u32 \<Rightarrow> rcc_view \<Rightarrow> u32 \<times> rcc_view" where
  "clk_rd32 r v =
     (if r = RCC_CR then (cr_value v, cr_ticks 1 v)
      else if r = RCC_CFGR then (rc_cfgr v OR sws_value v, cfgr_read v)
      else if r = RCC_CFGR2 then (rc_cfgr2 v, v) else (0, v))"

definition clk_wr32 :: "nat \<Rightarrow> u32 \<Rightarrow> u32 \<Rightarrow> rcc_view \<Rightarrow> rcc_view" where
  "clk_wr32 th r x v =
     (if r = RCC_CR then cr_write (th, 3, 2, 2) x v
      else if r = RCC_CFGR then cfgr_write 2 x v
      else if r = RCC_CFGR2 then v\<lparr>rc_cfgr2 := x\<rparr> else v)"

definition clk_hw :: "nat \<Rightarrow> rcc_view mmio" where
  "clk_hw th = \<lparr>rd32 = clk_rd32, wr32 = clk_wr32 th, wr16 = (\<lambda>_ _ v. v), wr8 = (\<lambda>_ _ v. v), ld8 = (\<lambda>_ _. 0)\<rparr>"

interpretation clk_sim: rcc_unit "clk_hw th" "\<lambda>v. v" "\<lambda>_. (th, 3, 2, 2)" "\<lambda>_. 2" for th
  by unfold_locales (auto simp: clk_hw_def clk_rd32_def clk_wr32_def off_rcc_def RCC_CR_def RCC_CFGR_def RCC_CFGR2_def)

definition clk_start :: rcc_view where
  "clk_start = \<lparr>rc_cr = 0x81, rc_hse = 0, rc_pll = 0, rc_pll2 = 0, rc_pll3 = 0, rc_cfgr = 0, rc_sw = 0,
     rc_sws = 0, rc_cfgr2 = 0\<rparr>"

lemma clk_start_reset: "clk_reset clk_start"
  by (simp add: clk_reset_def clk_start_def on_bits_def on_hsi_def)

section \<open>Properties\<close>

text \<open>C8: The start-up code reaches the clock it announces. From the reset state of the clock
  controller, with an external oscillator that is ready within the 0x500 status reads of the
  time-out, SystemInit ends for every configured system clock, and the clock tree then runs
  at the frequency that the variable SystemCoreClock holds.\<close>

theorem SystemInit_reaches_clock:
  assumes "rcc_unit hw clk t_on t_switch" and "clk_reset (clk h)" and "\<forall>h. fst (t_on h) \<le> 0x500"
  shows "\<exists>h' h''. SystemInit f hw h = Some h' \<and> SystemCoreClockUpdate hw h' = (SystemCoreClock f, h'')"
proof -
  obtain h' c' c2' sws where h': "SystemInit f hw h = Some h'"
    and c: "sys_config f (rc_cfgr (clk h) AND 0xF0800000) = (c', c2', sws)" and s: "settled c' c2' sws (clk h')"
    using rcc_unit.SystemInit_settled [OF assms(1) clk_reset_stage [OF assms(2)] assms(3)] .
  show ?thesis
    using rcc_unit.SystemCoreClockUpdate_settled [OF assms(1) s sys_config_freq(2) [OF c]] h' sys_config_freq(1) [OF c]
    by simp
qed

theorem SystemInit_reaches_clock_witness:
  "\<exists>h' h''. SystemInit SYSCLK_FREQ_72MHz (clk_hw 100) clk_start = Some h' \<and>
    SystemCoreClockUpdate (clk_hw 100) h' = (72000000, h'')"
  using SystemInit_reaches_clock [OF clk_sim.rcc_unit_axioms [of 100], of clk_start SYSCLK_FREQ_72MHz] clk_start_reset
  by simp



text \<open>C40: When the external oscillator does not start in time, SystemInit still ends, for every
  configured clock: the device keeps running from the internal oscillator at 8 MHz, while
  SystemCoreClock keeps the configured value.\<close>

theorem SystemInit_without_oscillator:
  assumes "rcc_unit hw clk t_on t_switch" and "clk_reset (clk h)" and "\<forall>h. 0x500 < fst (t_on h)"
  shows "\<exists>h' h''. SystemInit f hw h = Some h' \<and> SystemCoreClockUpdate hw h' = (HSI_VALUE, h'') \<and>
    (f \<noteq> SYSCLK_FREQ_HSI \<longrightarrow> SystemCoreClock f \<noteq> HSI_VALUE)"
proof -
  let ?c = "rc_cfgr (clk h) AND 0xF0800000"
  obtain h' where h': "SystemInit f hw h = Some h'" and s: "settled ?c 0 0 (clk h')"
    using rcc_unit.SystemInit_stalled [OF assms(1) clk_reset_stage [OF assms(2)] assms(3)] .
  have "(?c OR 0) AND 0xF0 = 0" "freq_of (?c OR 0) 0 = HSI_VALUE"
    by (simp_all add: freq_of_def and.assoc Let_def)
  moreover have "f \<noteq> SYSCLK_FREQ_HSI \<longrightarrow> SystemCoreClock f \<noteq> HSI_VALUE"
    by (cases f) (simp_all add: HSI_VALUE_def HSE_VALUE_def)
  ultimately show ?thesis using rcc_unit.SystemCoreClockUpdate_settled [OF assms(1) s] h' by simp
qed

theorem SystemInit_without_oscillator_witness:
  "\<exists>h' h''. SystemInit SYSCLK_FREQ_72MHz (clk_hw 2000) clk_start = Some h' \<and>
    SystemCoreClockUpdate (clk_hw 2000) h' = (8000000, h'') \<and> SystemCoreClock SYSCLK_FREQ_72MHz = 72000000"
  using SystemInit_without_oscillator [OF clk_sim.rcc_unit_axioms [of 2000], of clk_start SYSCLK_FREQ_72MHz] clk_start_reset
  by (simp add: HSI_VALUE_def)

end
