(* ===== verification/LwipMem.thy ===== *)
theory LwipMem
  imports Prelude
begin

text \<open>
  The memory of lwIP: the heap of \<open>mem.c\<close> and the pools of \<open>memp.c\<close>, as the updater configures
  them in \<open>lwipopts.h\<close>. The heap is a list of blocks that lie behind each other in the array
  \<open>ram\<close>, each headed by a \<open>struct mem\<close> with the offsets of its neighbours and a used flag; the
  model keeps the headers by their offset. The operations on the links are those of the
  source; the two scanning loops are partial functions, which end on a well-formed heap.

  An assertion that fails does not stop the program: \<open>LWIP_PLATFORM_ASSERT\<close> of \<open>cc.h\<close> tests the
  text of its message, which is never null. Assertions are therefore no part of the model.
\<close>

unbundle bit_operations_syntax

section \<open>The heap\<close>

definition MEM_SIZE_ALIGNED :: nat where [simp]: "MEM_SIZE_ALIGNED = 20480"
definition SIZEOF_STRUCT_MEM :: nat where [simp]: "SIZEOF_STRUCT_MEM = 8"
definition MIN_SIZE_ALIGNED :: nat where [simp]: "MIN_SIZE_ALIGNED = 12"

record mem_hdr =
  mem_next :: nat
  mem_prev :: nat
  mem_used :: bool

text \<open>The headers by their offset in \<open>ram\<close>, the lowest free block, and the bytes of the array.\<close>

record heap =
  ram :: "nat \<Rightarrow> mem_hdr"
  lfree :: nat
  ram_data :: "nat \<Rightarrow> u8"

text \<open>\<open>LWIP_MEM_ALIGN_SIZE\<close>, in the 16 bits of \<open>mem_size_t\<close>.\<close>

definition mem_align_size :: "u16 \<Rightarrow> u16" where
  "mem_align_size sz = (sz + 3) AND NOT 3"

text \<open>The size of a block for a request: aligned, and at least the minimum.\<close>

definition mem_request :: "u16 \<Rightarrow> nat" where
  "mem_request sz =
     (let sz = unat (mem_align_size sz)
      in if sz < MIN_SIZE_ALIGNED then MIN_SIZE_ALIGNED else sz)"

definition mem_init :: "heap \<Rightarrow> heap" where
  "mem_init s =
     s\<lparr>ram := (ram s)(0 := \<lparr>mem_next = MEM_SIZE_ALIGNED, mem_prev = 0, mem_used = False\<rparr>,
                      MEM_SIZE_ALIGNED := \<lparr>mem_next = MEM_SIZE_ALIGNED, mem_prev = MEM_SIZE_ALIGNED, mem_used = True\<rparr>),
       lfree := 0\<rparr>"

text \<open>\<open>plug_holes\<close>: join a block that has just been freed with a free successor, and then with a
  free predecessor.\<close>

definition plug_forward :: "nat \<Rightarrow> heap \<Rightarrow> heap" where
  "plug_forward p s =
     (let n = mem_next (ram s p) in
      if p \<noteq> n \<and> \<not> mem_used (ram s n) \<and> n \<noteq> MEM_SIZE_ALIGNED then
        let s = (if lfree s = n then s\<lparr>lfree := p\<rparr> else s);
            nn = mem_next (ram s n);
            r = (ram s)(p := (ram s p)\<lparr>mem_next := nn\<rparr>)
        in s\<lparr>ram := r(nn := (r nn)\<lparr>mem_prev := p\<rparr>)\<rparr>
      else s)"

definition plug_backward :: "nat \<Rightarrow> heap \<Rightarrow> heap" where
  "plug_backward p s =
     (let b = mem_prev (ram s p) in
      if b \<noteq> p \<and> \<not> mem_used (ram s b) then
        let s = (if lfree s = p then s\<lparr>lfree := b\<rparr> else s);
            n = mem_next (ram s p);
            r = (ram s)(b := (ram s b)\<lparr>mem_next := n\<rparr>)
        in s\<lparr>ram := r(n := (r n)\<lparr>mem_prev := b\<rparr>)\<rparr>
      else s)"

definition plug_holes :: "nat \<Rightarrow> heap \<Rightarrow> heap" where
  "plug_holes p s = plug_backward p (plug_forward p s)"

text \<open>\<open>rmem\<close> is an offset from \<open>ram\<close>; \<open>None\<close> is the null pointer. A pointer into the first header
  has no header before it.\<close>

definition mem_free :: "int option \<Rightarrow> heap \<Rightarrow> heap option" where
  "mem_free rmem s =
     (case rmem of
        None \<Rightarrow> Some s
      | Some d \<Rightarrow>
          if d < 0 \<or> d \<ge> int MEM_SIZE_ALIGNED then Some s
          else if d < int SIZEOF_STRUCT_MEM then None
          else
            let p = nat d - SIZEOF_STRUCT_MEM;
                s = s\<lparr>ram := (ram s)(p := (ram s p)\<lparr>mem_used := False\<rparr>)\<rparr>;
                s = (if p < lfree s then s\<lparr>lfree := p\<rparr> else s)
            in Some (plug_holes p s))"

text \<open>The room behind a header, in the unsigned arithmetic of the source.\<close>

definition mem_room :: "heap \<Rightarrow> nat \<Rightarrow> nat" where
  "mem_room s p =
     (let n = mem_next (ram s p); d = p + SIZEOF_STRUCT_MEM
      in if d \<le> n then n - d else n + 2 ^ 32 - d)"

text \<open>Use the block at \<open>p\<close> for \<open>sz\<close> bytes; the rest becomes a block of its own when it has room for
  a header and the minimum.\<close>

definition mem_take :: "nat \<Rightarrow> nat \<Rightarrow> heap \<Rightarrow> heap" where
  "mem_take sz p s =
     (let m = ram s p; n = mem_next m in
      if mem_room s p \<ge> sz + SIZEOF_STRUCT_MEM + MIN_SIZE_ALIGNED then
        let p2 = p + SIZEOF_STRUCT_MEM + sz;
            r = (ram s)(p2 := \<lparr>mem_next = n, mem_prev = p, mem_used = False\<rparr>);
            r = r(p := (r p)\<lparr>mem_next := p2, mem_used := True\<rparr>);
            r = (if n \<noteq> MEM_SIZE_ALIGNED then r(n := (r n)\<lparr>mem_prev := p2\<rparr>) else r)
        in s\<lparr>ram := r\<rparr>
      else s\<lparr>ram := (ram s)(p := m\<lparr>mem_used := True\<rparr>)\<rparr>)"

partial_function (option) next_free :: "(nat \<Rightarrow> mem_hdr) \<Rightarrow> nat \<Rightarrow> nat option" where
  "next_free r p =
     (if mem_used (r p) \<and> p \<noteq> MEM_SIZE_ALIGNED then next_free r (mem_next (r p)) else Some p)"

partial_function (option) malloc_loop :: "nat \<Rightarrow> nat \<Rightarrow> heap \<Rightarrow> (nat option \<times> heap) option" where
  "malloc_loop sz p s =
     (if p < MEM_SIZE_ALIGNED - sz then
        if \<not> mem_used (ram s p) \<and> mem_room s p \<ge> sz then
          let s = mem_take sz p s in
          if p = lfree s then
            (case next_free (ram s) (lfree s) of
               None \<Rightarrow> None
             | Some l \<Rightarrow> Some (Some (p + SIZEOF_STRUCT_MEM), s\<lparr>lfree := l\<rparr>))
          else Some (Some (p + SIZEOF_STRUCT_MEM), s)
        else malloc_loop sz (mem_next (ram s p)) s
      else Some (None, s))"

definition mem_malloc :: "u16 \<Rightarrow> heap \<Rightarrow> (nat option \<times> heap) option" where
  "mem_malloc sz s =
     (if sz = 0 then Some (None, s)
      else let sz = mem_request sz
           in if sz > MEM_SIZE_ALIGNED then Some (None, s) else malloc_loop sz (lfree s) s)"

text \<open>Shrinking a block: a free successor moves down, otherwise the rest becomes a new block when
  it is large enough. The result is the pointer, or null when the block would have to grow.\<close>

definition mem_realloc :: "nat \<Rightarrow> u16 \<Rightarrow> heap \<Rightarrow> (nat option \<times> heap) option" where
  "mem_realloc rmem new_sz s =
     (let new_sz = mem_request new_sz in
      if new_sz > MEM_SIZE_ALIGNED then Some (None, s)
      else if rmem \<ge> MEM_SIZE_ALIGNED then Some (Some rmem, s)
      else if rmem < SIZEOF_STRUCT_MEM then None
      else
        let p = rmem - SIZEOF_STRUCT_MEM;
            sz = mem_room s p mod 2 ^ 16
        in if new_sz > sz then Some (None, s)
           else if new_sz = sz then Some (Some rmem, s)
           else
             let m2 = mem_next (ram s p);
                 p2 = p + SIZEOF_STRUCT_MEM + new_sz
             in if \<not> mem_used (ram s m2) then
                  let n = mem_next (ram s m2);
                      s = (if lfree s = m2 then s\<lparr>lfree := p2\<rparr> else s);
                      r = (ram s)(p2 := \<lparr>mem_next = n, mem_prev = p, mem_used = False\<rparr>);
                      r = r(p := (r p)\<lparr>mem_next := p2\<rparr>);
                      r = (if n \<noteq> MEM_SIZE_ALIGNED then r(n := (r n)\<lparr>mem_prev := p2\<rparr>) else r)
                  in Some (Some rmem, s\<lparr>ram := r\<rparr>)
                else if new_sz + SIZEOF_STRUCT_MEM + MIN_SIZE_ALIGNED \<le> sz then
                  let s = (if p2 < lfree s then s\<lparr>lfree := p2\<rparr> else s);
                      r = (ram s)(p2 := \<lparr>mem_next = m2, mem_prev = p, mem_used = False\<rparr>);
                      r = r(p := (r p)\<lparr>mem_next := p2\<rparr>);
                      r = (if m2 \<noteq> MEM_SIZE_ALIGNED then r(m2 := (r m2)\<lparr>mem_prev := p2\<rparr>) else r)
                  in Some (Some rmem, s\<lparr>ram := r\<rparr>)
                else Some (Some rmem, s))"

text \<open>\<open>mem_calloc\<close>: the product is computed in 32 bits; the allocation sees its lower 16 bits, the
  zeroing all of it.\<close>

definition mem_calloc :: "u16 \<Rightarrow> u16 \<Rightarrow> heap \<Rightarrow> (nat option \<times> heap) option" where
  "mem_calloc count sz s =
     (let n = unat count * unat sz in
      case mem_malloc (of_nat n) s of
        None \<Rightarrow> None
      | Some (None, s) \<Rightarrow> Some (None, s)
      | Some (Some d, s) \<Rightarrow>
          Some (Some d, s\<lparr>ram_data := (\<lambda>a. if d \<le> a \<and> a < d + n then 0 else ram_data s a)\<rparr>))"

section \<open>Well-formed heaps\<close>

text \<open>Two neighbours: each knows the other, the first has at least the minimal room, and they
  are not both free. The block behind the heap is always in use and its back link is not kept.\<close>

definition link :: "(nat \<Rightarrow> mem_hdr) \<Rightarrow> nat \<Rightarrow> nat \<Rightarrow> bool" where
  "link r p q \<longleftrightarrow> mem_next (r p) = q \<and> p + SIZEOF_STRUCT_MEM + MIN_SIZE_ALIGNED \<le> q \<and> 4 dvd q \<and>
     (q \<noteq> MEM_SIZE_ALIGNED \<longrightarrow> mem_prev (r q) = p) \<and> (mem_used (r p) \<or> mem_used (r q))"

definition blocks_ok :: "(nat \<Rightarrow> mem_hdr) \<Rightarrow> nat list \<Rightarrow> bool" where
  "blocks_ok r ps \<longleftrightarrow> ps \<noteq> [] \<and> hd ps = 0 \<and> last ps = MEM_SIZE_ALIGNED \<and> successively (link r) ps \<and>
     mem_used (r MEM_SIZE_ALIGNED) \<and> mem_prev (r 0) = 0"

definition lfree_ok :: "heap \<Rightarrow> nat list \<Rightarrow> bool" where
  "lfree_ok s ps \<longleftrightarrow> lfree s \<in> set ps \<and> (lfree s = MEM_SIZE_ALIGNED \<or> \<not> mem_used (ram s (lfree s))) \<and>
     (\<forall>p \<in> set ps. p < lfree s \<longrightarrow> mem_used (ram s p))"

text \<open>The blocks, from their links.\<close>

function blocks_from :: "(nat \<Rightarrow> mem_hdr) \<Rightarrow> nat \<Rightarrow> nat list" where
  "blocks_from r p =
     (if p < MEM_SIZE_ALIGNED \<and> p < mem_next (r p) then p # blocks_from r (mem_next (r p)) else [p])"
  by auto
termination by (relation "measure (\<lambda>(r, p). MEM_SIZE_ALIGNED - p)") auto

declare blocks_from.simps [simp del]

definition blocks :: "heap \<Rightarrow> nat list" where
  "blocks s = blocks_from (ram s) 0"

definition heap_ok :: "heap \<Rightarrow> bool" where
  "heap_ok s \<longleftrightarrow> blocks_ok (ram s) (blocks s) \<and> lfree_ok s (blocks s)"

text \<open>The areas in use: where the data of the block starts and where it ends.\<close>

definition used_areas :: "heap \<Rightarrow> (nat \<times> nat) set" where
  "used_areas s =
     (\<lambda>p. (p + SIZEOF_STRUCT_MEM, mem_next (ram s p))) ` {p \<in> set (blocks s). p \<noteq> MEM_SIZE_ALIGNED \<and> mem_used (ram s p)}"

lemma link_less: "link r p q \<Longrightarrow> p < q"
  by (simp add: link_def)

lemma blocks_sorted: "successively (link r) ps \<Longrightarrow> sorted_wrt (<) ps"
proof -
  assume "successively (link r) ps"
  then have "successively (<) ps" by (rule successively_mono) (simp_all add: link_less)
  then show ?thesis by (simp add: successively_conv_sorted_wrt)
qed

lemma blocks_from_unique:
  "successively (link r) ps \<Longrightarrow> ps \<noteq> [] \<Longrightarrow> last ps = MEM_SIZE_ALIGNED \<Longrightarrow> blocks_from r (hd ps) = ps"
proof (induction ps)
  case (Cons p ps)
  show ?case
  proof (cases ps)
    case Nil
    then show ?thesis using Cons.prems by (simp add: blocks_from.simps)
  next
    case (Cons q qs)
    then have l: "link r p q" "successively (link r) ps" using Cons.prems(1) by simp_all
    have "blocks_from r (hd ps) = ps" using Cons.IH l(2) Cons.prems(3) Cons by simp
    moreover have "q \<le> MEM_SIZE_ALIGNED"
    proof -
      have "sorted_wrt (<) ps" using blocks_sorted [OF l(2)] .
      then have "\<forall>x \<in> set qs. q < x" using Cons by simp
      moreover have "last ps \<in> set ps" using Cons by simp
      ultimately show ?thesis using Cons.prems(3) Cons by auto
    qed
    then have "p < MEM_SIZE_ALIGNED" using link_less [OF l(1)] by simp
    ultimately show ?thesis using l(1) Cons by (subst blocks_from.simps) (auto simp: link_def)
  qed
qed simp

lemma blocks_unique: "blocks_ok (ram s) ps \<Longrightarrow> blocks s = ps"
  using blocks_from_unique [of "ram s" ps] by (simp add: blocks_ok_def blocks_def)

lemma heap_okI: "blocks_ok (ram s) ps \<Longrightarrow> lfree_ok s ps \<Longrightarrow> heap_ok s"
  using blocks_unique by (simp add: heap_ok_def)

text \<open>A link survives changes that keep the forward link, the back link and the used flags.\<close>

lemma successively_link_cong:
  assumes "successively (link r) ps"
    and "\<And>a. a \<in> set (butlast ps) \<Longrightarrow> mem_next (r' a) = mem_next (r a)"
    and "\<And>a. a \<in> set ps \<Longrightarrow> mem_used (r a) \<Longrightarrow> mem_used (r' a)"
    and "\<And>a. a \<in> set (tl ps) \<Longrightarrow> a \<noteq> MEM_SIZE_ALIGNED \<Longrightarrow> mem_prev (r' a) = mem_prev (r a)"
  shows "successively (link r') ps"
  using assms
proof (induction ps)
  case (Cons p ps)
  show ?case
  proof (cases ps)
    case (Cons q qs)
    have "link r p q" "successively (link r) ps" using Cons.prems(1) Cons by simp_all
    moreover have "link r' p q"
      using \<open>link r p q\<close> Cons.prems(2) [of p] Cons.prems(3) [of p] Cons.prems(3) [of q] Cons.prems(4) [of q] Cons
      by (auto simp: link_def)
    moreover have "successively (link r') ps"
      using \<open>successively (link r) ps\<close> Cons.prems(2-4) Cons by (intro Cons.IH) auto
    ultimately show ?thesis using Cons by simp
  qed simp
qed simp

lemma successively_split:
  "successively P (xs @ p # q # ys) \<longleftrightarrow> successively P (xs @ [p]) \<and> P p q \<and> successively P (q # ys)"
  by (induction xs rule: induct_list012) auto

lemma sorted_split:
  assumes "successively (link r) (xs @ p # q # ys)"
  shows "\<forall>x \<in> set xs. x < p" "p < q" "\<forall>y \<in> set ys. q < y"
  using blocks_sorted [OF assms] by (auto simp: sorted_wrt_append)

lemma mem_init_ok: "heap_ok (mem_init s)" "used_areas (mem_init s) = {}"
proof -
  have b: "blocks_ok (ram (mem_init s)) [0, MEM_SIZE_ALIGNED]"
    by (simp add: blocks_ok_def link_def mem_init_def)
  then show "heap_ok (mem_init s)"
    by (rule heap_okI) (simp add: lfree_ok_def mem_init_def)
  show "used_areas (mem_init s) = {}"
    using blocks_unique [OF b] by (auto simp: used_areas_def mem_init_def)
qed

lemma mem_room_block:
  assumes "link (ram s) p q"
  shows "mem_room s p = q - (p + SIZEOF_STRUCT_MEM)"
  using assms by (auto simp: mem_room_def link_def Let_def)

lemma blocks_mem:
  assumes "blocks_ok r (xs @ p # q # ys)"
  shows "p \<noteq> MEM_SIZE_ALIGNED" "q \<noteq> 0" "p < q" "p \<notin> set xs" "q \<notin> set xs" "p \<notin> set ys" "q \<notin> set ys"
    "link r p q" "\<forall>x \<in> set xs. x < p" "\<forall>y \<in> set ys. q < y" "mem_next (r p) = q"
    "p + SIZEOF_STRUCT_MEM + MIN_SIZE_ALIGNED \<le> q" "q \<le> MEM_SIZE_ALIGNED"
proof -
  have l: "successively (link r) (xs @ p # q # ys)" "last (q # ys) = MEM_SIZE_ALIGNED"
    using assms by (simp_all add: blocks_ok_def)
  note o = sorted_split [OF l(1)]
  show q: "q \<le> MEM_SIZE_ALIGNED"
    using l(2) o(3) by (cases ys rule: rev_cases) auto
  show "p < q" "\<forall>x \<in> set xs. x < p" "\<forall>y \<in> set ys. q < y" using o by simp_all
  then show "p \<noteq> MEM_SIZE_ALIGNED" "q \<noteq> 0" "p \<notin> set xs" "q \<notin> set xs" "p \<notin> set ys" "q \<notin> set ys"
    using q by (auto dest: bspec)
  show "link r p q" using l(1) by (simp add: successively_split)
  then show "mem_next (r p) = q" "p + SIZEOF_STRUCT_MEM + MIN_SIZE_ALIGNED \<le> q" by (simp_all add: link_def)
qed

text \<open>Replacing a pair of neighbours by a pair with a new block between them.\<close>

lemma blocks_ok_split:
  assumes "blocks_ok r (xs @ p # q # ys)" and "link r' p m" and "link r' m q" and "p < m" "m < q"
    and "\<And>a. a \<noteq> p \<Longrightarrow> a \<noteq> m \<Longrightarrow> mem_next (r' a) = mem_next (r a)"
    and "\<And>a. a \<noteq> m \<Longrightarrow> a \<noteq> q \<Longrightarrow> mem_prev (r' a) = mem_prev (r a)"
    and "\<And>a. a \<noteq> m \<Longrightarrow> mem_used (r a) \<Longrightarrow> mem_used (r' a)"
  shows "blocks_ok r' (xs @ p # m # q # ys)"
proof -
  note b = blocks_mem [OF assms(1)]
  have s: "successively (link r) (xs @ [p])" "successively (link r) (q # ys)"
    using assms(1) by (simp_all add: blocks_ok_def successively_split)
  have mx: "m \<notin> set xs" using b(9) assms(4) by (auto dest: bspec)
  have my: "m \<notin> set ys" using b(10) assms(5) by (auto dest: bspec)
  have "successively (link r') (xs @ [p])"
  proof (rule successively_link_cong [OF s(1)])
    show "mem_next (r' a) = mem_next (r a)" if "a \<in> set (butlast (xs @ [p]))" for a
      using that b(4) mx by (intro assms(6)) auto
    show "mem_used (r' a)" if "a \<in> set (xs @ [p])" "mem_used (r a)" for a
      using that assms(4) mx by (intro assms(8)) auto
    show "mem_prev (r' a) = mem_prev (r a)" if "a \<in> set (tl (xs @ [p]))" for a
      using that assms(4) b(3,5) mx by (intro assms(7)) (cases xs, auto)+
  qed
  moreover have "successively (link r') (q # ys)"
  proof (rule successively_link_cong [OF s(2)])
    show "mem_next (r' a) = mem_next (r a)" if "a \<in> set (butlast (q # ys))" for a
      using in_set_butlastD [OF that] assms(5) b(3,6) my by (intro assms(6)) auto
    show "mem_used (r' a)" if "a \<in> set (q # ys)" "mem_used (r a)" for a
      using that assms(5) my by (intro assms(8)) auto
    show "mem_prev (r' a) = mem_prev (r a)" if "a \<in> set (tl (q # ys))" for a
      using that b(7) my by (intro assms(7)) auto
  qed
  moreover have "m \<noteq> MEM_SIZE_ALIGNED" "m \<noteq> 0" using assms(4,5) b(13) by auto
  moreover have "hd (xs @ p # m # q # ys) = hd (xs @ p # q # ys)" by (cases xs) simp_all
  ultimately show ?thesis
    using assms(1-3,7,8) b(2) by (auto simp: blocks_ok_def successively_split)
qed

section \<open>Allocation\<close>

lemma block_room:
  assumes "successively (link (ram s)) ps" and "last ps = MEM_SIZE_ALIGNED" and "a \<in> set ps" "a \<noteq> MEM_SIZE_ALIGNED"
  shows "mem_room s a < MEM_SIZE_ALIGNED - a"
proof -
  obtain xs q ys where ps: "ps = xs @ a # q # ys"
    using assms(2-4) by (metis last_snoc list.exhaust split_list)
  then have l: "link (ram s) a q" using assms(1) by (simp add: successively_split)
  have "\<forall>y \<in> set ys. q < y" using sorted_split(3) [of "ram s" xs a q ys] assms(1) ps by simp
  then have "q \<le> MEM_SIZE_ALIGNED" using assms(2) ps by (cases ys rule: rev_cases) auto
  with l mem_room_block [OF l] show ?thesis by (auto simp: link_def)
qed

text \<open>What \<open>mem_take\<close> does to a free block with enough room: it ends up in use, with at least the
  requested room, and the heap stays well formed.\<close>

lemma mem_take_blocks:
  assumes "blocks_ok (ram s) (xs @ p # q # ys)" and "\<not> mem_used (ram s p)"
    and "4 dvd sz" "MIN_SIZE_ALIGNED \<le> sz" "p + SIZEOF_STRUCT_MEM + sz \<le> q" "4 dvd p"
  obtains zs e where "blocks_ok (ram (mem_take sz p s)) (xs @ p # zs @ q # ys)"
    and "mem_next (ram (mem_take sz p s) p) = e" and "p + SIZEOF_STRUCT_MEM + sz \<le> e"
    and "mem_used (ram (mem_take sz p s) p)" and "\<forall>a. a \<noteq> p \<longrightarrow> a \<notin> set zs \<longrightarrow>
      mem_next (ram (mem_take sz p s) a) = mem_next (ram s a) \<and> mem_used (ram (mem_take sz p s) a) = mem_used (ram s a)"
    and "set zs \<inter> set (xs @ p # q # ys) = {}" and "\<forall>z \<in> set zs. \<not> mem_used (ram (mem_take sz p s) z) \<and> p < z \<and> z < q"
proof -
  note b = blocks_mem [OF assms(1)]
  note room = mem_room_block [OF b(8)]
  let ?r = "ram (mem_take sz p s)"
  show thesis
  proof (cases "sz + SIZEOF_STRUCT_MEM + MIN_SIZE_ALIGNED \<le> mem_room s p")
    case True
    define m where "m = p + SIZEOF_STRUCT_MEM + sz"
    have m: "p < m" "m < q" "m + SIZEOF_STRUCT_MEM + MIN_SIZE_ALIGNED \<le> q" "4 dvd m"
      using True assms(3,5,6) by (auto simp: m_def room)
    let ?r1 = "(ram s)(m := \<lparr>mem_next = q, mem_prev = p, mem_used = False\<rparr>)"
    let ?r2 = "?r1(p := (?r1 p)\<lparr>mem_next := m, mem_used := True\<rparr>)"
    have r: "?r = (if q \<noteq> MEM_SIZE_ALIGNED then ?r2(q := (?r2 q)\<lparr>mem_prev := m\<rparr>) else ?r2)"
      using True b(11) by (simp add: mem_take_def m_def Let_def ac_simps)
    have q: "mem_used (ram s q)" "4 dvd q" using b(8) assms(2) by (auto simp: link_def)
    have "blocks_ok ?r (xs @ p # m # q # ys)"
    proof (rule blocks_ok_split [OF assms(1)])
      show "link ?r p m" "link ?r m q"
        using m q assms(4) by (auto simp: r link_def m_def)
    qed (use m b(3) in \<open>auto simp: r\<close>)
    moreover have "m \<notin> set (xs @ p # q # ys)" using m b(9,10) by (auto dest: bspec)
    ultimately show thesis using that [of "[m]" m] m by (simp add: r m_def)
  next
    case False
    then have r: "?r = (ram s)(p := (ram s p)\<lparr>mem_used := True\<rparr>)" by (simp add: mem_take_def Let_def)
    have "successively (link ?r) (xs @ p # q # ys)"
      by (rule successively_link_cong [of "ram s"]) (use assms(1) in \<open>auto simp: r blocks_ok_def\<close>)
    then have "blocks_ok ?r (xs @ p # q # ys)" using assms(1) by (auto simp: blocks_ok_def r)
    then show thesis using that [of "[]" q] b(11) assms(5) by (simp add: r)
  qed
qed

lemma next_free_ok:
  "successively (link r) (p # ys) \<Longrightarrow> last (p # ys) = MEM_SIZE_ALIGNED \<Longrightarrow>
   \<exists>l \<in> set (p # ys). next_free r p = Some l \<and> (l = MEM_SIZE_ALIGNED \<or> \<not> mem_used (r l)) \<and>
     (\<forall>a \<in> set (p # ys). a < l \<longrightarrow> mem_used (r a))"
proof (induction ys arbitrary: p)
  case Nil
  then show ?case by (subst next_free.simps) auto
next
  case (Cons q ys)
  have lt: "\<forall>y \<in> set (q # ys). p < y" using blocks_sorted [OF Cons.prems(1)] by simp
  show ?case
  proof (cases "mem_used (r p) \<and> p \<noteq> MEM_SIZE_ALIGNED")
    case True
    have "mem_next (r p) = q" "successively (link r) (q # ys)" "last (q # ys) = MEM_SIZE_ALIGNED"
      using Cons.prems by (simp_all add: link_def)
    then obtain l where "l \<in> set (q # ys)" "next_free r q = Some l" "l = MEM_SIZE_ALIGNED \<or> \<not> mem_used (r l)"
      "\<forall>a \<in> set (q # ys). a < l \<longrightarrow> mem_used (r a)" using Cons.IH by metis
    moreover have "next_free r p = next_free r q"
      using True \<open>mem_next (r p) = q\<close> by (subst next_free.simps) simp
    ultimately show ?thesis using True by auto
  next
    case False
    then have "next_free r p = Some p" by (subst next_free.simps) auto
    with False lt show ?thesis by (auto dest: bspec)
  qed
qed

text \<open>The search: it stops at a free block with enough room, or there is none.\<close>

lemma malloc_search:
  "successively (link (ram s)) (p # ys) \<Longrightarrow> last (p # ys) = MEM_SIZE_ALIGNED \<Longrightarrow>
   (\<exists>q \<in> set (p # ys). q < MEM_SIZE_ALIGNED - sz \<and> \<not> mem_used (ram s q) \<and> sz \<le> mem_room s q \<and>
      malloc_loop sz p s = malloc_loop sz q s) \<or>
   malloc_loop sz p s = Some (None, s) \<and>
     (\<forall>q \<in> set (p # ys). q \<noteq> MEM_SIZE_ALIGNED \<longrightarrow> \<not> mem_used (ram s q) \<longrightarrow> mem_room s q < sz)"
proof (induction ys arbitrary: p)
  case Nil
  moreover have "\<not> (20480::nat) < 20480 - sz" by simp
  ultimately have "malloc_loop sz p s = Some (None, s)" by (subst malloc_loop.simps) auto
  with Nil show ?case by simp
next
  case (Cons q ys)
  have l: "link (ram s) p q" "successively (link (ram s)) (q # ys)" "last (q # ys) = MEM_SIZE_ALIGNED"
    using Cons.prems by simp_all
  have room: "mem_room s a < MEM_SIZE_ALIGNED - a" if "a \<in> set (p # q # ys)" "a \<noteq> MEM_SIZE_ALIGNED" for a
    using block_room [OF Cons.prems that] .
  consider (found) "p < MEM_SIZE_ALIGNED - sz" "\<not> mem_used (ram s p)" "sz \<le> mem_room s p"
    | (skip) "p < MEM_SIZE_ALIGNED - sz" "mem_used (ram s p) \<or> mem_room s p < sz"
    | (stop) "\<not> p < MEM_SIZE_ALIGNED - sz"
    by linarith
  then show ?case
  proof cases
    case found
    then show ?thesis by auto
  next
    case skip
    then have "malloc_loop sz p s = malloc_loop sz q s"
      using l(1) by (subst malloc_loop.simps) (auto simp: link_def)
    with Cons.IH [OF l(2,3)] skip show ?thesis by auto
  next
    case stop
    then have "malloc_loop sz p s = Some (None, s)" by (subst malloc_loop.simps) simp
    moreover have "mem_room s a < sz" if "a \<in> set (p # q # ys)" "a \<noteq> MEM_SIZE_ALIGNED" for a
    proof -
      have "p \<le> a" using that(1) blocks_sorted [OF Cons.prems(1)] by auto
      then show ?thesis using room [OF that] stop by linarith
    qed
    ultimately show ?thesis by blast
  qed
qed

lemma successively_dvd:
  "successively (link r) (p # ps) \<Longrightarrow> 4 dvd p \<Longrightarrow> q \<in> set (p # ps) \<Longrightarrow> 4 dvd q"
  by (induction ps arbitrary: p) (auto simp: link_def)

lemma blocks_dvd: "blocks_ok r ps \<Longrightarrow> q \<in> set ps \<Longrightarrow> 4 dvd q"
  using successively_dvd [of r 0 "tl ps" q] by (cases ps) (auto simp: blocks_ok_def)

lemma block_split:
  assumes "blocks_ok r ps" and "p \<in> set ps" "p \<noteq> MEM_SIZE_ALIGNED"
  obtains xs q ys where "ps = xs @ p # q # ys" "mem_next (r p) = q"
proof -
  obtain xs q ys where ps: "ps = xs @ p # q # ys"
    using assms by (metis blocks_ok_def last_snoc list.exhaust split_list)
  then show thesis using that blocks_mem(11) [of r xs p q ys] assms(1) by blast
qed

text \<open>A free block with enough room is used by the loop, and the lowest free block is found again.\<close>

lemma malloc_found:
  assumes "blocks_ok (ram s) ps" and "lfree_ok s ps" and "p \<in> set ps" "lfree s \<le> p"
    and "p < MEM_SIZE_ALIGNED - sz" "\<not> mem_used (ram s p)" "sz \<le> mem_room s p" and "4 dvd sz" "MIN_SIZE_ALIGNED \<le> sz"
  obtains s' e where "malloc_loop sz p s = Some (Some (p + SIZEOF_STRUCT_MEM), s')" and "heap_ok s'"
    and "used_areas s' = insert (p + SIZEOF_STRUCT_MEM, e) (used_areas s)" and "p + SIZEOF_STRUCT_MEM + sz \<le> e"
proof -
  obtain xs q ys where ps: "ps = xs @ p # q # ys" using block_split assms(1,3,5) by (metis less_imp_diff_less less_irrefl)
  note b = blocks_mem [OF assms(1) [unfolded ps]]
  have fits: "p + SIZEOF_STRUCT_MEM + sz \<le> q" using assms(7) b(12) by (simp add: mem_room_block [OF b(8)])
  obtain zs e where t: "blocks_ok (ram (mem_take sz p s)) (xs @ p # zs @ q # ys)" "mem_next (ram (mem_take sz p s) p) = e"
    "p + SIZEOF_STRUCT_MEM + sz \<le> e" "mem_used (ram (mem_take sz p s) p)"
    "\<forall>a. a \<noteq> p \<longrightarrow> a \<notin> set zs \<longrightarrow> mem_next (ram (mem_take sz p s) a) = mem_next (ram s a) \<and>
      mem_used (ram (mem_take sz p s) a) = mem_used (ram s a)"
    "set zs \<inter> set (xs @ p # q # ys) = {}" "\<forall>z \<in> set zs. \<not> mem_used (ram (mem_take sz p s) z) \<and> p < z \<and> z < q"
    by (rule mem_take_blocks [OF assms(1) [unfolded ps] assms(6,8,9) fits blocks_dvd [OF assms(1,3)]])
  let ?s = "mem_take sz p s"
  let ?qs = "xs @ p # zs @ q # ys"
  have lf: "lfree ?s = lfree s" by (simp add: mem_take_def Let_def)
  have below: "\<forall>a \<in> set ?qs. a < lfree s \<longrightarrow> mem_used (ram ?s a)"
  proof (intro ballI impI)
    fix a assume a: "a \<in> set ?qs" "a < lfree s"
    have "a < p" using a(2) assms(4) by simp
    then have "a \<in> set xs" "a \<notin> set zs" "a \<noteq> p" using a(1) t(7) b(3,10) by (auto dest: bspec)
    then show "mem_used (ram ?s a)" using assms(2) a(2) t(5) by (auto simp: lfree_ok_def ps)
  qed
  have "\<exists>l. malloc_loop sz p s = Some (Some (p + SIZEOF_STRUCT_MEM), ?s\<lparr>lfree := l\<rparr>) \<and> lfree_ok (?s\<lparr>lfree := l\<rparr>) ?qs"
  proof (cases "p = lfree s")
    case True
    have "successively (link (ram ?s)) (p # zs @ q # ys)" "last (p # zs @ q # ys) = MEM_SIZE_ALIGNED"
      using t(1) by (auto simp: blocks_ok_def successively_append_iff)
    from next_free_ok [OF this] obtain l where l: "l \<in> set (p # zs @ q # ys)" "next_free (ram ?s) p = Some l"
      "l = MEM_SIZE_ALIGNED \<or> \<not> mem_used (ram ?s l)" "\<forall>a \<in> set (p # zs @ q # ys). a < l \<longrightarrow> mem_used (ram ?s a)"
      by blast
    then have "malloc_loop sz p s = Some (Some (p + SIZEOF_STRUCT_MEM), ?s\<lparr>lfree := l\<rparr>)"
      using assms(5-7) True lf by (subst malloc_loop.simps) (simp add: Let_def)
    moreover have "lfree_ok (?s\<lparr>lfree := l\<rparr>) ?qs"
      using l below b(9) True by (auto simp: lfree_ok_def)
    ultimately show ?thesis by blast
  next
    case False
    then have "lfree s < p" using assms(4) by simp
    then have "lfree s \<in> set xs" "lfree s \<notin> set zs"
      using assms(2) b(3,10) t(7) by (auto simp: lfree_ok_def ps dest: bspec)
    then have "lfree_ok ?s ?qs" using assms(2) lf below t(5) False by (auto simp: lfree_ok_def)
    moreover have "malloc_loop sz p s = Some (Some (p + SIZEOF_STRUCT_MEM), ?s)"
      using assms(5-7) False lf by (subst malloc_loop.simps) (simp add: Let_def)
    moreover have "?s = ?s\<lparr>lfree := lfree s\<rparr>" using lf by (metis heap.surjective heap.update_convs(2) heap.select_convs(2))
    ultimately show ?thesis by metis
  qed
  then obtain l where l: "malloc_loop sz p s = Some (Some (p + SIZEOF_STRUCT_MEM), ?s\<lparr>lfree := l\<rparr>)"
    "lfree_ok (?s\<lparr>lfree := l\<rparr>) ?qs" by blast
  have bl: "blocks (?s\<lparr>lfree := l\<rparr>) = ?qs" "blocks s = ps"
    using blocks_unique t(1) assms(1) by simp_all
  let ?U = "{a \<in> set ps. a \<noteq> MEM_SIZE_ALIGNED \<and> mem_used (ram s a)}"
  have "{a \<in> set ?qs. a \<noteq> MEM_SIZE_ALIGNED \<and> mem_used (ram ?s a)} = insert p ?U"
    using t(4-7) b(1) assms(6) by (auto simp: ps)
  moreover have "(\<lambda>a. (a + SIZEOF_STRUCT_MEM, mem_next (ram ?s a))) ` ?U = used_areas s"
    unfolding used_areas_def bl(2) by (rule image_cong) (use t(5,6) assms(6) in \<open>auto simp: ps\<close>)
  ultimately have "used_areas (?s\<lparr>lfree := l\<rparr>) = insert (p + SIZEOF_STRUCT_MEM, e) (used_areas s)"
    using t(2) bl(1) by (simp add: used_areas_def)
  with l t(1,3) show thesis using that heap_okI [of "?s\<lparr>lfree := l\<rparr>" ?qs] by auto
qed

lemma and_not_3: "x AND - 4 = push_bit 2 (drop_bit 2 (x :: u16))"
proof -
  have "x AND NOT (mask 2) = push_bit 2 (drop_bit 2 x)"
    by (rule bit_word_eqI) (auto simp: bit_simps simp del: add_2_eq_Suc)
  then show ?thesis by (simp add: mask_eq_exp_minus_1)
qed

lemma unat_align: "unat (x AND - 4 :: u16) = unat x div 4 * 4"
proof -
  have "unat x < 2 ^ LENGTH(16)" by (rule unsigned_less)
  then have "unat x div 4 * 4 < 65536" by (simp add: less_mult_imp_div_less)
  then show ?thesis
    unfolding and_not_3 by (simp add: push_bit_eq_mult drop_bit_eq_div unat_word_ariths unat_div)
qed

lemma mem_request_ok:
  "4 dvd mem_request sz" "MIN_SIZE_ALIGNED \<le> mem_request sz"
  "unat sz \<le> 65532 \<Longrightarrow> unat sz \<le> mem_request sz"
  "unat sz \<le> 4 * k \<Longrightarrow> 3 \<le> k \<Longrightarrow> k \<le> 16383 \<Longrightarrow> mem_request sz \<le> 4 * k"
proof -
  show "4 dvd mem_request sz" "MIN_SIZE_ALIGNED \<le> mem_request sz"
    by (simp_all add: mem_request_def mem_align_size_def unat_align Let_def)
  have "unat (sz + 3) = unat sz + 3" if "unat sz \<le> 65532"
    using that by (simp add: unat_word_ariths)
  then have a: "unat (mem_align_size sz) = (unat sz + 3) div 4 * 4" if "unat sz \<le> 65532"
    using that by (simp add: mem_align_size_def unat_align)
  then show "unat sz \<le> 65532 \<Longrightarrow> unat sz \<le> mem_request sz" by (auto simp: mem_request_def Let_def)
  show "unat sz \<le> 4 * k \<Longrightarrow> 3 \<le> k \<Longrightarrow> k \<le> 16383 \<Longrightarrow> mem_request sz \<le> 4 * k"
    using a by (auto simp: mem_request_def Let_def)
qed

text \<open>Areas in use never overlap: a header lies between them.\<close>

lemma area_block:
  assumes "heap_ok s" and "(d, e) \<in> used_areas s"
  obtains p xs ys where "blocks s = xs @ p # e # ys" "d = p + SIZEOF_STRUCT_MEM" "mem_used (ram s p)"
    "blocks_ok (ram s) (xs @ p # e # ys)"
proof -
  obtain p where p: "p \<in> set (blocks s)" "p \<noteq> MEM_SIZE_ALIGNED" "mem_used (ram s p)" "d = p + SIZEOF_STRUCT_MEM"
    "e = mem_next (ram s p)" using assms(2) by (auto simp: used_areas_def)
  have b: "blocks_ok (ram s) (blocks s)" using assms(1) by (simp add: heap_ok_def)
  obtain xs q ys where "blocks s = xs @ p # q # ys" "mem_next (ram s p) = q"
    using block_split [OF b p(1,2)] .
  with that [of xs p ys] p b show thesis by simp
qed

lemma areas_bounds:
  assumes "heap_ok s" and "(d, e) \<in> used_areas s"
  shows "SIZEOF_STRUCT_MEM \<le> d \<and> d + MIN_SIZE_ALIGNED \<le> e \<and> e \<le> MEM_SIZE_ALIGNED \<and> 4 dvd d"
proof -
  obtain p xs ys where "d = p + SIZEOF_STRUCT_MEM" "blocks_ok (ram s) (xs @ p # e # ys)"
    using area_block [OF assms] by metis
  then show ?thesis using blocks_mem(12,13) [of "ram s" xs p e ys] blocks_dvd [of "ram s" "xs @ p # e # ys" p] by simp
qed

lemma areas_apart:
  assumes "heap_ok s" and "(a, b) \<in> used_areas s" "(a', b') \<in> used_areas s" "a < a'"
  shows "b + SIZEOF_STRUCT_MEM \<le> a'"
proof -
  obtain p xs ys where p: "blocks s = xs @ p # b # ys" "a = p + SIZEOF_STRUCT_MEM" "blocks_ok (ram s) (xs @ p # b # ys)"
    using area_block [OF assms(1,2)] by metis
  obtain p' where "p' \<in> set (blocks s)" "a' = p' + SIZEOF_STRUCT_MEM" using assms(3) by (auto simp: used_areas_def)
  then show ?thesis using p assms(4) blocks_mem(9,10) [OF p(3)] by (auto dest: bspec)
qed

lemma areas_inj: "inj_on fst (used_areas s)"
  by (auto simp: used_areas_def inj_on_def)

text \<open>What allocation promises.\<close>

lemma mem_malloc_ok:
  assumes "heap_ok s" and "sz \<noteq> 0"
  shows "(\<exists>d e s'. mem_malloc sz s = Some (Some d, s') \<and> heap_ok s' \<and> used_areas s' = insert (d, e) (used_areas s) \<and>
      d \<notin> fst ` used_areas s \<and> d + mem_request sz \<le> e) \<or>
    (mem_malloc sz s = Some (None, s) \<and>
      (MEM_SIZE_ALIGNED < mem_request sz \<or>
       (\<forall>p \<in> set (blocks s). p \<noteq> MEM_SIZE_ALIGNED \<longrightarrow> \<not> mem_used (ram s p) \<longrightarrow> mem_room s p < mem_request sz)))"
proof (cases "MEM_SIZE_ALIGNED < mem_request sz")
  case True
  then show ?thesis using assms(2) by (simp add: mem_malloc_def Let_def)
next
  case False
  let ?n = "mem_request sz"
  have m: "mem_malloc sz s = malloc_loop ?n (lfree s) s" using False assms(2) by (simp add: mem_malloc_def Let_def)
  have b: "blocks_ok (ram s) (blocks s)" "lfree_ok s (blocks s)" using assms(1) by (simp_all add: heap_ok_def)
  obtain xs ys where ps: "blocks s = xs @ lfree s # ys"
    using b(2) by (metis lfree_ok_def split_list)
  have suf: "successively (link (ram s)) (lfree s # ys)" "last (lfree s # ys) = MEM_SIZE_ALIGNED"
    using b(1) ps by (auto simp: blocks_ok_def successively_append_iff)
  have le: "\<forall>q \<in> set (lfree s # ys). lfree s \<le> q" "\<forall>x \<in> set xs. x < lfree s"
    using blocks_sorted [of "ram s" "blocks s"] b(1) ps by (auto simp: blocks_ok_def sorted_wrt_append)
  from malloc_search [OF suf, of ?n] show ?thesis
  proof (elim disjE bexE conjE)
    fix q assume q: "q \<in> set (lfree s # ys)" "q < MEM_SIZE_ALIGNED - ?n" "\<not> mem_used (ram s q)" "?n \<le> mem_room s q"
      "malloc_loop ?n (lfree s) s = malloc_loop ?n q s"
    have "q \<in> set (blocks s)" "lfree s \<le> q" using q(1) ps le(1) by auto
    from malloc_found [OF b this q(2-4) mem_request_ok(1,2)]
    obtain s' e where "malloc_loop ?n q s = Some (Some (q + SIZEOF_STRUCT_MEM), s')" "heap_ok s'"
      "used_areas s' = insert (q + SIZEOF_STRUCT_MEM, e) (used_areas s)" "q + SIZEOF_STRUCT_MEM + ?n \<le> e" .
    moreover have "q + SIZEOF_STRUCT_MEM \<notin> fst ` used_areas s" using q(3) by (auto simp: used_areas_def)
    ultimately show ?thesis using m q(5) by metis
  next
    assume none: "malloc_loop ?n (lfree s) s = Some (None, s)"
      "\<forall>q \<in> set (lfree s # ys). q \<noteq> MEM_SIZE_ALIGNED \<longrightarrow> \<not> mem_used (ram s q) \<longrightarrow> mem_room s q < ?n"
    have "\<forall>p \<in> set (blocks s). p \<noteq> MEM_SIZE_ALIGNED \<longrightarrow> \<not> mem_used (ram s p) \<longrightarrow> mem_room s p < ?n"
      using none(2) b(2) le(2) by (auto simp: ps lfree_ok_def)
    with none(1) m show ?thesis by simp
  qed
qed

section \<open>Freeing\<close>

text \<open>While a block is being freed, two neighbours may both be free: the links alone.\<close>

definition adj :: "(nat \<Rightarrow> mem_hdr) \<Rightarrow> nat \<Rightarrow> nat \<Rightarrow> bool" where
  "adj r p q \<longleftrightarrow> mem_next (r p) = q \<and> p + SIZEOF_STRUCT_MEM + MIN_SIZE_ALIGNED \<le> q \<and> 4 dvd q \<and>
     (q \<noteq> MEM_SIZE_ALIGNED \<longrightarrow> mem_prev (r q) = p)"

definition chain_ok :: "(nat \<Rightarrow> mem_hdr) \<Rightarrow> nat list \<Rightarrow> bool" where
  "chain_ok r ps \<longleftrightarrow> ps \<noteq> [] \<and> hd ps = 0 \<and> last ps = MEM_SIZE_ALIGNED \<and> successively (adj r) ps \<and>
     mem_used (r MEM_SIZE_ALIGNED) \<and> mem_prev (r 0) = 0"

abbreviation apart :: "(nat \<Rightarrow> mem_hdr) \<Rightarrow> nat list \<Rightarrow> bool" where
  "apart r \<equiv> successively (\<lambda>p q. mem_used (r p) \<or> mem_used (r q))"

lemma successively_conj:
  "successively (\<lambda>x y. P x y \<and> Q x y) xs \<longleftrightarrow> successively P xs \<and> successively Q xs"
  by (induction xs rule: induct_list012) auto

lemma apart_cong: "apart r ps \<Longrightarrow> (\<And>a. a \<in> set ps \<Longrightarrow> mem_used (r' a) = mem_used (r a)) \<Longrightarrow> apart r' ps"
  by (induction ps rule: induct_list012) auto

lemma blocks_ok_chain: "blocks_ok r ps \<longleftrightarrow> chain_ok r ps \<and> apart r ps"
proof -
  have "link r = (\<lambda>p q. adj r p q \<and> (mem_used (r p) \<or> mem_used (r q)))"
    by (intro ext) (simp add: link_def adj_def)
  then show ?thesis by (auto simp: blocks_ok_def chain_ok_def successively_conj)
qed

lemma chain_sorted: "chain_ok r ps \<Longrightarrow> sorted_wrt (<) ps"
proof -
  assume "chain_ok r ps"
  then have "successively (adj r) ps" by (simp add: chain_ok_def)
  then have "successively (<) ps" by (rule successively_mono) (simp_all add: adj_def)
  then show ?thesis by (simp add: successively_conv_sorted_wrt)
qed

lemma chain_cong:
  assumes "successively (adj r) ps"
    and "\<And>a. a \<in> set (butlast ps) \<Longrightarrow> mem_next (r' a) = mem_next (r a)"
    and "\<And>a. a \<in> set (tl ps) \<Longrightarrow> mem_prev (r' a) = mem_prev (r a)"
  shows "successively (adj r') ps"
  using assms
proof (induction ps)
  case (Cons p ps)
  show ?case
  proof (cases ps)
    case (Cons q qs)
    then have "adj r p q" "successively (adj r) ps" using Cons.prems(1) by simp_all
    moreover have "adj r' p q"
      using \<open>adj r p q\<close> Cons.prems(2) [of p] Cons.prems(3) [of q] Cons by (simp add: adj_def)
    moreover have "successively (adj r') ps"
      using \<open>successively (adj r) ps\<close> Cons.prems(2,3) Cons by (intro Cons.IH) auto
    ultimately show ?thesis using Cons by simp
  qed simp
qed simp

text \<open>Joining two neighbours.\<close>

lemma chain_join:
  assumes "chain_ok r (xs @ p # m # q # ys)"
    and "r' = (r(p := (r p)\<lparr>mem_next := q\<rparr>))(q := (r q)\<lparr>mem_prev := p\<rparr>)"
  shows "chain_ok r' (xs @ p # q # ys)" "mem_next (r m) = q" "p < m" "m < q"
proof -
  have o: "\<forall>x \<in> set xs. x < p" "p < m" "m < q" "\<forall>y \<in> set ys. q < y"
    using chain_sorted [OF assms(1)] by (auto simp: sorted_wrt_append)
  have s: "successively (adj r) (xs @ [p])" "adj r p m" "adj r m q" "successively (adj r) (q # ys)"
    using assms(1) by (simp_all add: chain_ok_def successively_split)
  show "p < m" "m < q" using o by simp_all
  show "mem_next (r m) = q" using s(3) by (simp add: adj_def)
  have "successively (adj r') (xs @ [p])"
  proof (rule chain_cong [OF s(1)])
    show "mem_next (r' a) = mem_next (r a)" if "a \<in> set (butlast (xs @ [p]))" for a
      using that o by (auto simp: assms(2))
    show "mem_prev (r' a) = mem_prev (r a)" if "a \<in> set (tl (xs @ [p]))" for a
      using that o by (cases xs) (auto simp: assms(2) dest: bspec)
  qed
  moreover have "successively (adj r') (q # ys)"
  proof (rule chain_cong [OF s(4)])
    show "mem_next (r' a) = mem_next (r a)" if "a \<in> set (butlast (q # ys))" for a
      using in_set_butlastD [OF that] o by (auto simp: assms(2) dest: bspec)
    show "mem_prev (r' a) = mem_prev (r a)" if "a \<in> set (tl (q # ys))" for a
      using that o by (auto simp: assms(2) dest: bspec)
  qed
  moreover have "adj r' p q" using s(2,3) o by (auto simp: adj_def assms(2))
  moreover have "hd (xs @ p # q # ys) = hd (xs @ p # m # q # ys)" by (cases xs) simp_all
  ultimately show "chain_ok r' (xs @ p # q # ys)"
    using assms(1) o by (auto simp: chain_ok_def successively_split assms(2))
qed

text \<open>Joining forward, when the successor is the first of the blocks behind.\<close>

lemma plug_forward_ok:
  assumes "chain_ok (ram s) (xs @ p # n # ys)" and "apart (ram s) (n # ys)" and "lfree s \<le> p"
  obtains n' ys' where "chain_ok (ram (plug_forward p s)) (xs @ p # n' # ys')" "mem_used (ram s n')"
    "apart (ram s) (n' # ys')" "lfree (plug_forward p s) = lfree s"
    "\<forall>a. mem_used (ram (plug_forward p s) a) = mem_used (ram s a)"
    "\<forall>a. a \<noteq> p \<longrightarrow> mem_next (ram (plug_forward p s) a) = mem_next (ram s a)"
    "set (n' # ys') \<subseteq> set (n # ys)" "\<forall>a \<in> set (n # ys). mem_used (ram s a) \<longrightarrow> a \<in> set (n' # ys')"
proof -
  have n: "mem_next (ram s p) = n" "p < n"
    using assms(1) by (auto simp: chain_ok_def successively_split adj_def)
  show thesis
  proof (cases "mem_used (ram s n)")
    case True
    then have "plug_forward p s = s" using n by (simp add: plug_forward_def Let_def)
    with True assms show thesis using that [of n ys] by simp
  next
    case False
    then have "n \<noteq> MEM_SIZE_ALIGNED" using assms(1) by (auto simp: chain_ok_def)
    then obtain q zs where ys: "ys = q # zs" using assms(1) by (cases ys) (auto simp: chain_ok_def)
    note j = chain_join [OF assms(1) [unfolded ys] refl]
    have f: "plug_forward p s = s\<lparr>ram := ((ram s)(p := (ram s p)\<lparr>mem_next := q\<rparr>))(q := (ram s q)\<lparr>mem_prev := p\<rparr>)\<rparr>"
      using n False \<open>n \<noteq> MEM_SIZE_ALIGNED\<close> assms(3) j(2-4) by (simp add: plug_forward_def Let_def)
    show thesis
      by (rule that [of q zs]) (use j(1) assms(2) False j(3,4) in \<open>auto simp: f ys\<close>)
  qed
qed

text \<open>Joining backward, when the successor is in use.\<close>

lemma plug_backward_ok:
  assumes "chain_ok (ram s) (xs @ p # n # ys)" and "\<not> mem_used (ram s p)" "mem_used (ram s n)"
    and "apart (ram s) xs" "apart (ram s) (n # ys)"
    and "xs \<noteq> [] \<Longrightarrow> \<not> mem_used (ram s (last xs)) \<Longrightarrow> lfree s \<noteq> p"
  obtains zs where "blocks_ok (ram (plug_backward p s)) (zs @ n # ys)" "lfree (plug_backward p s) = lfree s"
    "set xs \<subseteq> set zs" "set zs \<subseteq> insert p (set xs)" "p \<in> set zs \<or> (xs \<noteq> [] \<and> \<not> mem_used (ram s (last xs)))"
    "\<forall>a. mem_used (ram (plug_backward p s) a) = mem_used (ram s a)"
    "\<forall>a. mem_used (ram s a) \<longrightarrow> mem_next (ram (plug_backward p s) a) = mem_next (ram s a)"
proof (cases "xs \<noteq> [] \<and> \<not> mem_used (ram s (last xs))")
  case True
  then obtain ws b where xs: "xs = ws @ [b]" "\<not> mem_used (ram s b)" by (metis append_butlast_last_id)
  have c: "chain_ok (ram s) (ws @ b # p # n # ys)" using assms(1) xs(1) by simp
  then have p: "mem_prev (ram s p) = b" "b \<noteq> p" "mem_next (ram s p) = n"
    using chain_join(3,4) [OF c refl] assms(2) by (auto simp: chain_ok_def successively_split adj_def)
  note j = chain_join [OF c refl]
  have f: "plug_backward p s = s\<lparr>ram := ((ram s)(b := (ram s b)\<lparr>mem_next := n\<rparr>))(n := (ram s n)\<lparr>mem_prev := b\<rparr>)\<rparr>"
    using p xs(2) assms(6) True j(3,4) by (simp add: plug_backward_def Let_def)
  have u: "\<forall>a. mem_used (ram (plug_backward p s) a) = mem_used (ram s a)" by (simp add: f)
  have "chain_ok (ram (plug_backward p s)) (xs @ n # ys)" using j(1) by (simp add: f xs(1))
  moreover have "apart (ram s) (xs @ n # ys)" using assms(3-5) by (simp add: successively_append_iff)
  ultimately have "blocks_ok (ram (plug_backward p s)) (xs @ n # ys)" by (simp add: blocks_ok_chain u)
  then show thesis
    by (rule that) (use u True xs(2) assms(2) in \<open>auto simp: f\<close>)
next
  case False
  have "plug_backward p s = s"
  proof (cases "xs = []")
    case True
    then show ?thesis using assms(1) by (auto simp: plug_backward_def chain_ok_def Let_def)
  next
    case False
    then obtain ws b where xs: "xs = ws @ [b]" by (metis append_butlast_last_id)
    then have "mem_used (ram s b)" using \<open>\<not> (xs \<noteq> [] \<and> _)\<close> by simp
    moreover have "mem_prev (ram s p) = b" 
      using assms(1,2) xs by (auto simp: chain_ok_def successively_split adj_def)
    ultimately show ?thesis by (simp add: plug_backward_def Let_def)
  qed
  moreover have "blocks_ok (ram s) ((xs @ [p]) @ n # ys)"
    using assms(1,3-5) False by (auto simp: blocks_ok_chain successively_append_iff)
  ultimately show thesis by (intro that [of "xs @ [p]"]) auto
qed

lemma mem_free_ok:
  assumes "heap_ok s" and "(d, e) \<in> used_areas s"
  shows "\<exists>s'. mem_free (Some (int d)) s = Some s' \<and> heap_ok s' \<and> used_areas s' = used_areas s - {(d, e)}"
proof -
  obtain p xs ys where p: "blocks s = xs @ p # e # ys" "d = p + SIZEOF_STRUCT_MEM" "mem_used (ram s p)"
    "blocks_ok (ram s) (xs @ p # e # ys)" using area_block [OF assms] .
  note b = blocks_mem [OF p(4)]
  have lf: "lfree_ok s (xs @ p # e # ys)" using assms(1) p(1) by (simp add: heap_ok_def)
  define t where "t = s\<lparr>ram := (ram s)(p := (ram s p)\<lparr>mem_used := False\<rparr>), lfree := min p (lfree s)\<rparr>"
  have "nat (int p + 8) = p + 8" "lfree s \<noteq> p" using lf p(3) b(1) by (auto simp: lfree_ok_def)
  then have free: "mem_free (Some (int d)) s = Some (plug_holes p t)"
    using p(2) b(12,13) by (auto simp: mem_free_def t_def Let_def min_def)
  have "chain_ok (ram t) (xs @ p # e # ys)"
  proof -
    have "successively (adj (ram t)) (xs @ p # e # ys)"
      by (rule chain_cong [of "ram s"]) (use p(4) in \<open>auto simp: t_def blocks_ok_chain chain_ok_def\<close>)
    then show ?thesis using p(4) b(1) by (auto simp: blocks_ok_chain chain_ok_def t_def)
  qed
  moreover have ap: "apart (ram t) xs" "apart (ram t) (e # ys)"
  proof -
    have a: "apart (ram s) xs" "apart (ram s) (e # ys)"
      using p(4) by (simp_all add: blocks_ok_chain successively_append_iff)
    show "apart (ram t) xs" by (rule apart_cong [OF a(1)]) (use b(4) in \<open>auto simp: t_def\<close>)
    show "apart (ram t) (e # ys)" by (rule apart_cong [OF a(2)]) (use b(3,6) in \<open>auto simp: t_def\<close>)
  qed
  moreover have "lfree t \<le> p" by (simp add: t_def)
  ultimately obtain n zs where n: "chain_ok (ram (plug_forward p t)) (xs @ p # n # zs)" "mem_used (ram t n)"
    "apart (ram t) (n # zs)" "lfree (plug_forward p t) = lfree t"
    "\<forall>a. mem_used (ram (plug_forward p t) a) = mem_used (ram t a)"
    "\<forall>a. a \<noteq> p \<longrightarrow> mem_next (ram (plug_forward p t) a) = mem_next (ram t a)"
    "set (n # zs) \<subseteq> set (e # ys)" "\<forall>a \<in> set (e # ys). mem_used (ram t a) \<longrightarrow> a \<in> set (n # zs)"
    using plug_forward_ok by metis
  let ?t = "plug_forward p t"
  have "\<not> mem_used (ram ?t p)" "mem_used (ram ?t n)" "apart (ram ?t) xs" "apart (ram ?t) (n # zs)"
    using n(2,3,5) ap(1) by (simp_all add: t_def)
  moreover have "lfree ?t \<noteq> p" if "xs \<noteq> []" "\<not> mem_used (ram ?t (last xs))"
  proof -
    have "last xs \<in> set xs" "last xs < p" using that(1) b(9) by simp_all
    then have "\<not> p < lfree s" using that(2) n(5) lf by (auto simp: t_def lfree_ok_def)
    then show ?thesis using n(4) lf p(3) b(1) by (auto simp: t_def lfree_ok_def)
  qed
  ultimately obtain ws where w: "blocks_ok (ram (plug_holes p t)) (ws @ n # zs)" "lfree (plug_holes p t) = lfree ?t"
    "set xs \<subseteq> set ws" "set ws \<subseteq> insert p (set xs)" "p \<in> set ws \<or> (xs \<noteq> [] \<and> \<not> mem_used (ram ?t (last xs)))"
    "\<forall>a. mem_used (ram (plug_holes p t) a) = mem_used (ram ?t a)"
    "\<forall>a. mem_used (ram ?t a) \<longrightarrow> mem_next (ram (plug_holes p t) a) = mem_next (ram ?t a)"
    unfolding plug_holes_def using plug_backward_ok [OF n(1)] by metis
  have used: "mem_used (ram (plug_holes p t) a) \<longleftrightarrow> a \<noteq> p \<and> mem_used (ram s a)" for a
    using w(6) n(5) by (simp add: t_def)
  have sub: "set (ws @ n # zs) \<subseteq> set (xs @ p # e # ys)" using w(4) n(7) by auto
  have "lfree_ok (plug_holes p t) (ws @ n # zs)"
  proof (cases "p < lfree s")
    case True
    have "mem_used (ram ?t (last xs))" if "xs \<noteq> []"
    proof -
      have "last xs \<in> set xs" "last xs < p" using that b(9) by simp_all
      then have "mem_used (ram s (last xs))" using True lf by (auto simp: lfree_ok_def)
      then show ?thesis using \<open>last xs < p\<close> n(5) by (simp add: t_def)
    qed
    then have "p \<in> set ws" using w(5) by blast
    moreover have "\<forall>a \<in> set (ws @ n # zs). a < p \<longrightarrow> mem_used (ram s a)"
      using sub lf True by (auto simp: lfree_ok_def)
    ultimately show ?thesis using w(2) n(4) True used by (auto simp: lfree_ok_def t_def)
  next
    case False
    then have l: "lfree s < p" using \<open>lfree s \<noteq> p\<close> by simp
    then have "lfree s \<in> set xs" using lf b(3,10) by (auto simp: lfree_ok_def dest: bspec)
    moreover have "\<forall>a \<in> set (ws @ n # zs). a < lfree s \<longrightarrow> mem_used (ram s a)"
      using sub lf by (auto simp: lfree_ok_def)
    moreover have "lfree (plug_holes p t) = lfree s" using w(2) n(4) l by (simp add: t_def)
    moreover have "\<not> mem_used (ram s (lfree s))" using lf l b(3,13) by (auto simp: lfree_ok_def)
    ultimately show ?thesis using w(3) used l by (auto simp: lfree_ok_def)
  qed
  with w(1) have "heap_ok (plug_holes p t)" by (rule heap_okI)
  moreover have "used_areas (plug_holes p t) = used_areas s - {(d, e)}"
  proof -
    let ?U = "{a \<in> set (xs @ p # e # ys). a \<noteq> MEM_SIZE_ALIGNED \<and> mem_used (ram s a)}"
    have U: "{a \<in> set (ws @ n # zs). a \<noteq> MEM_SIZE_ALIGNED \<and> mem_used (ram (plug_holes p t) a)} = ?U - {p}"
      using used sub w(3) n(8) by (auto simp: t_def)
    have bl: "blocks (plug_holes p t) = ws @ n # zs" using w(1) by (rule blocks_unique)
    have nx: "mem_next (ram (plug_holes p t) a) = mem_next (ram s a)" if "a \<in> ?U - {p}" for a
      using that w(7) n(5,6) by (simp add: t_def)
    have "used_areas (plug_holes p t) = (\<lambda>a. (a + SIZEOF_STRUCT_MEM, mem_next (ram s a))) ` (?U - {p})"
      unfolding used_areas_def bl U by (rule image_cong [OF refl]) (simp only: nx)
    also have "\<dots> = used_areas s - {(d, e)}"
      using p(1,2) b(11) by (auto simp: used_areas_def image_iff)
    finally show ?thesis .
  qed
  ultimately show ?thesis using free by blast
qed

section \<open>Shrinking\<close>

text \<open>The block at \<open>p\<close> gets a free block at \<open>m\<close> behind it; \<open>q\<close> is the next block that stays.\<close>

lemma shrink_block:
  assumes "blocks_ok r (xs @ p # q # ys)" and "mem_used (r p)" "mem_used (r q)"
    and "p + SIZEOF_STRUCT_MEM + MIN_SIZE_ALIGNED \<le> m" "m + SIZEOF_STRUCT_MEM + MIN_SIZE_ALIGNED \<le> q" "4 dvd m"
    and "r1 = r(m := \<lparr>mem_next = q, mem_prev = p, mem_used = False\<rparr>)" "r2 = r1(p := (r1 p)\<lparr>mem_next := m\<rparr>)"
    and "r' = (if q \<noteq> MEM_SIZE_ALIGNED then r2(q := (r2 q)\<lparr>mem_prev := m\<rparr>) else r2)"
  shows "blocks_ok r' (xs @ p # m # q # ys)"
    "mem_used (r' a) \<longleftrightarrow> a \<noteq> m \<and> mem_used (r a)" "a \<noteq> m \<Longrightarrow> a \<noteq> p \<Longrightarrow> mem_next (r' a) = mem_next (r a)"
    "mem_next (r' p) = m"
proof -
  note b = blocks_mem [OF assms(1)]
  have m: "p < m" "m < q" "p \<noteq> m" "q \<noteq> m" "p \<noteq> q" using assms(4,5) by auto
  have dq: "4 dvd q" using b(8) by (simp add: link_def)
  show "blocks_ok r' (xs @ p # m # q # ys)"
  proof (rule blocks_ok_split [OF assms(1)])
    show "link r' p m" "link r' m q"
      using m assms(2-6) dq by (auto simp: link_def assms(7-9))
  qed (use m in \<open>auto simp: assms(7-9)\<close>)
qed (use assms(4,5) in \<open>auto simp: assms(7-9)\<close>)

lemma shrink_areas:
  assumes "blocks_ok (ram s') qs" and "blocks_ok (ram s) ps" and "p \<in> set ps" "p \<in> set qs" "mem_used (ram s p)" "p \<noteq> MEM_SIZE_ALIGNED"
    and "\<And>a. a \<noteq> MEM_SIZE_ALIGNED \<Longrightarrow> a \<in> set qs \<and> mem_used (ram s' a) \<longleftrightarrow> a \<in> set ps \<and> mem_used (ram s a)"
    and "\<And>a. a \<in> set qs \<Longrightarrow> mem_used (ram s' a) \<Longrightarrow> a \<noteq> p \<Longrightarrow> mem_next (ram s' a) = mem_next (ram s a)"
    and "mem_next (ram s' p) = m" "mem_next (ram s p) = e"
  shows "used_areas s' = insert (p + SIZEOF_STRUCT_MEM, m) (used_areas s - {(p + SIZEOF_STRUCT_MEM, e)})"
proof -
  let ?f = "\<lambda>s a. (a + SIZEOF_STRUCT_MEM, mem_next (ram s a))"
  let ?U = "{a \<in> set ps. a \<noteq> MEM_SIZE_ALIGNED \<and> mem_used (ram s a)}"
  have bl: "blocks s' = qs" "blocks s = ps" using blocks_unique assms(1,2) by simp_all
  have U: "{a \<in> set qs. a \<noteq> MEM_SIZE_ALIGNED \<and> mem_used (ram s' a)} = ?U" using assms(7) by blast
  have p: "?U = insert p (?U - {p})" using assms(3,5,6) by blast
  have "used_areas s' = ?f s' ` insert p (?U - {p})" unfolding used_areas_def bl U using p by simp
  also have "\<dots> = insert (p + SIZEOF_STRUCT_MEM, m) (?f s' ` (?U - {p}))" by (simp only: image_insert assms(9))
  also have "?f s' ` (?U - {p}) = ?f s ` (?U - {p})"
    by (rule image_cong) (use assms(7,8) in auto)
  also have "\<dots> = used_areas s - {(p + SIZEOF_STRUCT_MEM, e)}"
    using assms(10) by (auto simp: used_areas_def bl image_iff)
  finally show ?thesis .
qed

text \<open>The three ways to shrink: into a free successor, into a new block, or not at all.\<close>

lemma mem_realloc_free_next:
  assumes "blocks_ok (ram s) (xs @ p # e # ys)" and "lfree_ok s (xs @ p # e # ys)" and "mem_used (ram s p)" "\<not> mem_used (ram s e)"
    and "n = mem_request new_sz" "p + SIZEOF_STRUCT_MEM + n < e"
  obtains s' where "mem_realloc (p + SIZEOF_STRUCT_MEM) new_sz s = Some (Some (p + SIZEOF_STRUCT_MEM), s')" "heap_ok s'"
    "used_areas s' = insert (p + SIZEOF_STRUCT_MEM, p + SIZEOF_STRUCT_MEM + n) (used_areas s - {(p + SIZEOF_STRUCT_MEM, e)})"
proof -
  note b = blocks_mem [OF assms(1)]
  note nn = mem_request_ok(1,2) [of new_sz, folded assms(5)]
  have "e \<noteq> MEM_SIZE_ALIGNED" using assms(1,4) by (auto simp: blocks_ok_def)
  then obtain q zs where ys: "ys = q # zs" using assms(1) by (cases ys) (auto simp: blocks_ok_def)
  let ?r = "((ram s)(p := (ram s p)\<lparr>mem_next := q\<rparr>))(q := (ram s q)\<lparr>mem_prev := p\<rparr>)"
  have c: "chain_ok (ram s) (xs @ p # e # q # zs)" "apart (ram s) (xs @ p # e # q # zs)"
    using assms(1) ys by (simp_all add: blocks_ok_chain)
  note j = chain_join [OF c(1) refl]
  have uq: "mem_used (ram s q)" using c(2) assms(4) by (auto simp: successively_split)
  have "apart (ram s) (xs @ p # q # zs)" using c(2) assms(3) by (auto simp: successively_split)
  then have "apart ?r (xs @ p # q # zs)" by (rule apart_cong) auto
  then have r: "blocks_ok ?r (xs @ p # q # zs)" using j(1) by (simp add: blocks_ok_chain)
  let ?m = "p + SIZEOF_STRUCT_MEM + n"
  let ?s = "if lfree s = e then s\<lparr>lfree := ?m\<rparr> else s"
  define s' where "s' = ?s\<lparr>ram := (let r1 = (ram s)(?m := \<lparr>mem_next = q, mem_prev = p, mem_used = False\<rparr>);
       r2 = r1(p := (r1 p)\<lparr>mem_next := ?m\<rparr>) in if q \<noteq> MEM_SIZE_ALIGNED then r2(q := (r2 q)\<lparr>mem_prev := ?m\<rparr>) else r2)\<rparr>"
  have e: "mem_next (ram s e) = q" "p < e" "e < q" using j(2-4) by simp_all
  have re: "mem_realloc (p + SIZEOF_STRUCT_MEM) new_sz s = Some (Some (p + SIZEOF_STRUCT_MEM), s')"
  proof -
    have "\<not> e - (p + 8) < n" "n \<noteq> e - (p + 8)" using assms(6) by auto
    then show ?thesis
      using assms(3-6) e b(11-13) mem_room_block [OF b(8)] by (simp add: mem_realloc_def s'_def Let_def)
  qed
  have m: "p < ?m" "?m < q" "?m < e" "p \<noteq> ?m" "q \<noteq> ?m" "p \<noteq> q" "?m + SIZEOF_STRUCT_MEM + MIN_SIZE_ALIGNED \<le> q" "4 dvd ?m" "4 dvd q"
    using assms(6) e(2,3) nn blocks_dvd [OF assms(1)] blocks_mem(12) [of "ram s" "xs @ [p]" e q zs] assms(1) ys by auto
  have ok: "blocks_ok (ram s') (xs @ p # ?m # q # zs)"
  proof (rule blocks_ok_split [OF r])
    show "link (ram s') p ?m" "link (ram s') ?m q"
      using m assms(3) nn(2) uq by (auto simp: link_def s'_def Let_def)
  qed (use m in \<open>auto simp: s'_def Let_def\<close>)
  have used: "mem_used (ram s' a) \<longleftrightarrow> a \<noteq> ?m \<and> mem_used (ram s a)" for a
    using m by (auto simp: s'_def Let_def)
  have "lfree_ok s' (xs @ p # ?m # q # zs)"
  proof (cases "lfree s = e")
    case True
    then have "lfree s' = ?m" by (simp add: s'_def)
    moreover have "\<forall>a \<in> set (xs @ [p]). mem_used (ram s a)"
      using assms(2) True b(3,9) by (auto simp: lfree_ok_def)
    moreover have "\<forall>a \<in> set (q # zs). \<not> a < ?m"
      using b(10) m(2,3) ys by auto
    ultimately show ?thesis using used by (auto simp: lfree_ok_def)
  next
    case False
    then have l: "lfree s' = lfree s" by (simp add: s'_def)
    have "lfree s \<le> e" "lfree s \<noteq> p" using assms(2-4) b(1) by (auto simp: lfree_ok_def not_less [symmetric])
    then have "lfree s \<in> set xs" "lfree s < p" using False assms(2) b(9,10) by (auto simp: lfree_ok_def dest: bspec)
    then show ?thesis using l assms(2) used m b(13) e by (auto simp: lfree_ok_def ys)
  qed
  then have "heap_ok s'" by (rule heap_okI [OF ok])
  moreover have "used_areas s' = insert (p + SIZEOF_STRUCT_MEM, ?m) (used_areas s - {(p + SIZEOF_STRUCT_MEM, e)})"
  proof (rule shrink_areas [OF ok assms(1)])
    show "a \<in> set (xs @ p # ?m # q # zs) \<and> mem_used (ram s' a) \<longleftrightarrow> a \<in> set (xs @ p # e # ys) \<and> mem_used (ram s a)" for a
      using used assms(4) b(9,10) m(1-3) by (auto simp: ys dest: bspec)
  qed (use m b(1,11) assms(3) used in \<open>auto simp: s'_def Let_def\<close>)
  ultimately show thesis using that re by blast
qed

lemma mem_realloc_split:
  assumes "blocks_ok (ram s) (xs @ p # e # ys)" and "lfree_ok s (xs @ p # e # ys)" and "mem_used (ram s p)" "mem_used (ram s e)"
    and "n = mem_request new_sz" "p + 2 * SIZEOF_STRUCT_MEM + n + MIN_SIZE_ALIGNED \<le> e"
  obtains s' where "mem_realloc (p + SIZEOF_STRUCT_MEM) new_sz s = Some (Some (p + SIZEOF_STRUCT_MEM), s')" "heap_ok s'"
    "used_areas s' = insert (p + SIZEOF_STRUCT_MEM, p + SIZEOF_STRUCT_MEM + n) (used_areas s - {(p + SIZEOF_STRUCT_MEM, e)})"
proof -
  note b = blocks_mem [OF assms(1)]
  note nn = mem_request_ok(1,2) [of new_sz, folded assms(5)]
  let ?m = "p + SIZEOF_STRUCT_MEM + n"
  define r1 where "r1 = (ram s)(?m := \<lparr>mem_next = e, mem_prev = p, mem_used = False\<rparr>)"
  define r2 where "r2 = r1(p := (r1 p)\<lparr>mem_next := ?m\<rparr>)"
  define r' where "r' = (if e \<noteq> MEM_SIZE_ALIGNED then r2(e := (r2 e)\<lparr>mem_prev := ?m\<rparr>) else r2)"
  define s' where "s' = (if ?m < lfree s then s\<lparr>lfree := ?m\<rparr> else s)\<lparr>ram := r'\<rparr>"
  have re: "mem_realloc (p + SIZEOF_STRUCT_MEM) new_sz s = Some (Some (p + SIZEOF_STRUCT_MEM), s')"
  proof -
    have "\<not> e - (p + 8) < n" "n \<noteq> e - (p + 8)" "n + 20 \<le> e - (p + 8)" using assms(6) by auto
    then show ?thesis
      using assms(3-5) b(11-13) mem_room_block [OF b(8)]
      by (simp add: mem_realloc_def s'_def r'_def r2_def r1_def Let_def)
  qed
  have m: "p + SIZEOF_STRUCT_MEM + MIN_SIZE_ALIGNED \<le> ?m" "?m + SIZEOF_STRUCT_MEM + MIN_SIZE_ALIGNED \<le> e" "4 dvd ?m"
    using assms(6) nn blocks_dvd [OF assms(1), of p] by auto
  note k = shrink_block [OF assms(1,3,4) m r1_def r2_def r'_def]
  have rs: "ram s' = r'" by (simp add: s'_def)
  have lt: "p < ?m" "?m < e" using m by simp_all
  have "lfree_ok s' (xs @ p # ?m # e # ys)"
  proof (cases "?m < lfree s")
    case True
    then have "lfree s' = ?m" by (simp add: s'_def)
    then show ?thesis using assms(2) True k(2) by (auto simp: lfree_ok_def rs)
  next
    case False
    then have l: "lfree s' = lfree s" by (simp add: s'_def)
    have "lfree s \<in> set xs" "lfree s < p"
      using False assms(2,3) b(1,9,10) lt by (auto simp: lfree_ok_def dest: bspec)
    then show ?thesis using l assms(2) k(2) lt b(13) by (auto simp: lfree_ok_def rs)
  qed
  then have "heap_ok s'" using heap_okI k(1) rs by metis
  moreover have "used_areas s' = insert (p + SIZEOF_STRUCT_MEM, ?m) (used_areas s - {(p + SIZEOF_STRUCT_MEM, e)})"
  proof (rule shrink_areas [OF k(1) [folded rs] assms(1)])
    show "a \<in> set (xs @ p # ?m # e # ys) \<and> mem_used (ram s' a) \<longleftrightarrow> a \<in> set (xs @ p # e # ys) \<and> mem_used (ram s a)" for a
      using k(2) b(9,10) lt by (auto simp: rs dest: bspec)
  qed (use b(1,11) assms(3) k(2-4) lt in \<open>auto simp: rs\<close>)
  ultimately show thesis using that re by blast
qed

lemma mem_realloc_ok:
  assumes "heap_ok s" and "(d, e) \<in> used_areas s"
  shows "if d + mem_request new_sz \<le> e
    then \<exists>s' e'. mem_realloc d new_sz s = Some (Some d, s') \<and> heap_ok s' \<and>
      used_areas s' = insert (d, e') (used_areas s - {(d, e)}) \<and> d + mem_request new_sz \<le> e' \<and> e' \<le> e
    else mem_realloc d new_sz s = Some (None, s)"
proof -
  obtain p xs ys where p: "blocks s = xs @ p # e # ys" "d = p + SIZEOF_STRUCT_MEM" "mem_used (ram s p)"
    "blocks_ok (ram s) (xs @ p # e # ys)" using area_block [OF assms] .
  note b = blocks_mem [OF p(4)]
  have lf: "lfree_ok s (xs @ p # e # ys)" using assms(1) p(1) by (simp add: heap_ok_def)
  let ?n = "mem_request new_sz"
  note n = mem_request_ok(1,2) [of new_sz]
  have room: "mem_room s p mod 2 ^ 16 = e - d" "d < MEM_SIZE_ALIGNED" "d \<le> e" "e \<le> MEM_SIZE_ALIGNED"
    using mem_room_block [OF b(8)] b(12,13) p(2) by auto
  consider (grow) "e < d + ?n" | (same) "e = d + ?n" | (shrink) "d + ?n < e" by linarith
  then show ?thesis
  proof cases
    case grow
    then have "mem_realloc d new_sz s = Some (None, s)"
      using room p(2) by (auto simp: mem_realloc_def Let_def)
    with grow show ?thesis by simp
  next
    case same
    then have "mem_realloc d new_sz s = Some (Some d, s)"
      using room p(2) by (auto simp: mem_realloc_def Let_def)
    with same assms show ?thesis by (auto intro: exI [of _ s] exI [of _ e])
  next
    case shrink
    let ?goal = "\<exists>s' e'. mem_realloc d new_sz s = Some (Some d, s') \<and> heap_ok s' \<and>
      used_areas s' = insert (d, e') (used_areas s - {(d, e)}) \<and> d + ?n \<le> e' \<and> e' \<le> e"
    consider "\<not> mem_used (ram s e)" | "mem_used (ram s e)" "p + 2 * SIZEOF_STRUCT_MEM + ?n + MIN_SIZE_ALIGNED \<le> e"
      | (none) "mem_used (ram s e)" "e < p + 2 * SIZEOF_STRUCT_MEM + ?n + MIN_SIZE_ALIGNED" by linarith
    then have ?goal
    proof cases
      case 1
      then obtain s' where "mem_realloc d new_sz s = Some (Some d, s')" "heap_ok s'"
        "used_areas s' = insert (d, d + ?n) (used_areas s - {(d, e)})"
        using mem_realloc_free_next [OF p(4) lf p(3) _ refl] shrink p(2) by metis
      then show ?goal using shrink by (metis less_imp_le order_refl)
    next
      case 2
      then obtain s' where "mem_realloc d new_sz s = Some (Some d, s')" "heap_ok s'"
        "used_areas s' = insert (d, d + ?n) (used_areas s - {(d, e)})"
        using mem_realloc_split [OF p(4) lf p(3) _ refl] p(2) by metis
      then show ?goal using shrink by (metis less_imp_le order_refl)
    next
      case none
      then have "\<not> e - (p + 8) < ?n" "?n \<noteq> e - (p + 8)" "\<not> ?n + 20 \<le> e - (p + 8)" using shrink p(2) by auto
      then have "mem_realloc d new_sz s = Some (Some d, s)"
        using none(1) b(11) room shrink unfolding p(2) by (simp add: mem_realloc_def Let_def)
      then show ?goal using assms shrink by (auto intro!: exI [of _ s] exI [of _ e])
    qed
    with shrink show ?thesis by simp
  qed
qed

section \<open>The contract of an allocator\<close>

text \<open>What the clients of the heap and of the pools rely on: a call returns, and either hands out
  something that was not in use or leaves everything as it was; what is given back is no longer
  in use.\<close>

locale allocator =
  fixes ok :: "'s \<Rightarrow> bool"
    and live :: "'s \<Rightarrow> 'h set"
    and alloc :: "'s \<Rightarrow> ('h option \<times> 's) option"
    and release :: "'h \<Rightarrow> 's \<Rightarrow> 's option"
  assumes alloc_law: "ok s \<Longrightarrow> alloc s = Some (None, s) \<or>
      (\<exists>h s'. alloc s = Some (Some h, s') \<and> ok s' \<and> h \<notin> live s \<and> live s' = insert h (live s))"
    and release_law: "ok s \<Longrightarrow> h \<in> live s \<Longrightarrow> \<exists>s'. release h s = Some s' \<and> ok s' \<and> live s' = live s - {h}"
begin

lemma alloc_returns:
  assumes "ok s"
  obtains r s' where "alloc s = Some (r, s')" "ok s'"
  using alloc_law [OF assms] assms by blast

lemma alloc_live:
  assumes "ok s" and "alloc s = Some (Some h, s')"
  shows "ok s'" "h \<notin> live s" "live s' = insert h (live s)"
  using alloc_law [OF assms(1)] assms(2) by auto

text \<open>Giving back what was just handed out restores the set of what is in use.\<close>

lemma alloc_release:
  assumes "ok s" and "alloc s = Some (Some h, s')"
  shows "\<exists>s''. release h s' = Some s'' \<and> ok s'' \<and> live s'' = live s"
proof -
  note a = alloc_live [OF assms]
  obtain s'' where "release h s' = Some s''" "ok s''" "live s'' = live s' - {h}"
    using release_law [OF a(1), of h] a(3) by auto
  with a show ?thesis by auto
qed

text \<open>Two requests in a row never get the same.\<close>

lemma alloc_twice:
  assumes "ok s" and "alloc s = Some (Some h, s')" and "alloc s' = Some (Some h', s'')"
  shows "h \<noteq> h' \<and> {h, h'} \<subseteq> live s''"
proof -
  note a = alloc_live [OF assms(1,2)]
  note b = alloc_live [OF a(1) assms(3)]
  show ?thesis using a b by auto
qed

end

definition heap_live :: "heap \<Rightarrow> nat set" where
  "heap_live s = fst ` used_areas s"

interpretation mem: allocator heap_ok heap_live "mem_malloc sz" "\<lambda>d. mem_free (Some (int d))"
proof
  fix s assume ok: "heap_ok s"
  show "mem_malloc sz s = Some (None, s) \<or> (\<exists>d s'. mem_malloc sz s = Some (Some d, s') \<and> heap_ok s' \<and>
      d \<notin> heap_live s \<and> heap_live s' = insert d (heap_live s))"
  proof (cases "sz = 0")
    case False
    then show ?thesis using mem_malloc_ok [OF ok False] by (auto simp: heap_live_def)
  qed (simp add: mem_malloc_def)
  fix d assume "d \<in> heap_live s"
  then obtain e where e: "(d, e) \<in> used_areas s" by (auto simp: heap_live_def)
  obtain s' where "mem_free (Some (int d)) s = Some s'" "heap_ok s'" "used_areas s' = used_areas s - {(d, e)}"
    using mem_free_ok [OF ok e] by blast
  moreover have "fst ` (used_areas s - {(d, e)}) = heap_live s - {d}"
    using inj_on_image_set_diff [OF areas_inj [of s], of "used_areas s" "{(d, e)}"] e by (simp add: heap_live_def)
  ultimately show "\<exists>s'. mem_free (Some (int d)) s = Some s' \<and> heap_ok s' \<and> heap_live s' = heap_live s - {d}"
    by (auto simp: heap_live_def)
qed

section \<open>Every state of the heap\<close>

text \<open>The heap as its clients leave it: initialised once, then any sequence of allocations, of
  shrinking and freeing what is in use, and of pointers that the heap does not own.\<close>

inductive heap_reach :: "heap \<Rightarrow> bool" where
  init: "heap_reach (mem_init s)"
| malloc: "heap_reach s \<Longrightarrow> mem_malloc sz s = Some (r, s') \<Longrightarrow> heap_reach s'"
| calloc: "heap_reach s \<Longrightarrow> mem_calloc count sz s = Some (r, s') \<Longrightarrow> heap_reach s'"
| realloc: "heap_reach s \<Longrightarrow> d \<in> heap_live s \<Longrightarrow> mem_realloc d sz s = Some (r, s') \<Longrightarrow> heap_reach s'"
| free: "heap_reach s \<Longrightarrow> d \<in> heap_live s \<Longrightarrow> mem_free (Some (int d)) s = Some s' \<Longrightarrow> heap_reach s'"
| foreign: "heap_reach s \<Longrightarrow> \<forall>d. rmem = Some d \<longrightarrow> d < 0 \<or> int MEM_SIZE_ALIGNED \<le> d \<Longrightarrow>
    mem_free rmem s = Some s' \<Longrightarrow> heap_reach s'"

lemma heap_ok_data [simp]: "heap_ok (s\<lparr>ram_data := f\<rparr>) = heap_ok s"
  by (simp add: heap_ok_def blocks_def lfree_ok_def)

lemma mem_malloc_returns:
  assumes "heap_ok s"
  obtains r s' where "mem_malloc sz s = Some (r, s')" "heap_ok s'"
  using mem.alloc_returns [OF assms] .

lemma mem_calloc_ok:
  assumes "heap_ok s" and "mem_calloc count sz s = Some (r, s')"
  shows "heap_ok s'"
proof -
  obtain q t where "mem_malloc (of_nat (unat count * unat sz)) s = Some (q, t)" "heap_ok t"
    using mem_malloc_returns [OF assms(1)] .
  then show ?thesis using assms(2) by (cases q) (auto simp: mem_calloc_def)
qed

lemma mem_realloc_live:
  assumes "heap_ok s" and "d \<in> heap_live s" and "mem_realloc d sz s = Some (r, s')"
  shows "heap_ok s'"
proof -
  obtain e where "(d, e) \<in> used_areas s" using assms(2) by (auto simp: heap_live_def)
  from mem_realloc_ok [OF assms(1) this, of sz] show ?thesis
    using assms(1,3) by (auto split: if_splits)
qed

lemma heap_reach_ok: "heap_reach s \<Longrightarrow> heap_ok s"
proof (induction rule: heap_reach.induct)
  case (malloc s sz r s')
  then show ?case using mem_malloc_returns [of s sz] by auto
next
  case (free s d s')
  then show ?case using mem.release_law [of s d] by auto
next
  case (foreign s rmem s')
  then show ?case by (cases rmem) (auto simp: mem_free_def)
qed (auto intro: mem_init_ok mem_calloc_ok mem_realloc_live)

section \<open>Properties\<close>

lemmas heap_eval = mem_malloc_def mem_request_def mem_align_size_def mem_init_def malloc_loop.simps mem_room_def
  mem_take_def next_free.simps

text \<open>A heap in which nothing is in use is one block again: neighbours that are free are always
  joined.\<close>

lemma heap_empty_blocks:
  assumes "heap_ok s" and "used_areas s = {}"
  shows "blocks s = [0, MEM_SIZE_ALIGNED]"
proof -
  have ok: "blocks_ok (ram s) (blocks s)" using assms(1) by (simp add: heap_ok_def)
  have free: "\<not> mem_used (ram s p)" if "p \<in> set (blocks s)" "p \<noteq> MEM_SIZE_ALIGNED" for p
    using assms(2) that by (auto simp: used_areas_def)
  have "0 \<in> set (blocks s)" using ok by (cases "blocks s") (auto simp: blocks_ok_def)
  then obtain xs q ys where b: "blocks s = xs @ 0 # q # ys" using block_split [OF ok, of 0] by (metis MEM_SIZE_ALIGNED_def zero_neq_numeral)
  note m = blocks_mem [OF ok [unfolded b]]
  have "xs = []" using m(9) by (cases xs) auto
  moreover have q: "q = MEM_SIZE_ALIGNED"
  proof (rule ccontr)
    assume "q \<noteq> MEM_SIZE_ALIGNED"
    then show False using free [of q] free [of 0] m(8) b by (auto simp: link_def)
  qed
  moreover have "ys = []"
  proof (rule ccontr)
    assume "ys \<noteq> []"
    then have "last ys \<in> set ys" by simp
    moreover have "last ys = MEM_SIZE_ALIGNED" using ok b \<open>ys \<noteq> []\<close> by (simp add: blocks_ok_def)
    ultimately show False using m(10) q by auto
  qed
  ultimately show ?thesis using b by simp
qed




text \<open>What was just allocated can be freed, and then the areas in use are those from before the
  allocation.\<close>

theorem mem_malloc_free_roundtrip:
  assumes "heap_ok s" and "mem_malloc sz s = Some (Some d, s')"
  shows "\<exists>s''. mem_free (Some (int d)) s' = Some s'' \<and> heap_ok s'' \<and> used_areas s'' = used_areas s"
proof -
  have "sz \<noteq> 0" using assms(2) by (auto simp: mem_malloc_def)
  from mem_malloc_ok [OF assms(1) this] obtain e where m: "heap_ok s'" "used_areas s' = insert (d, e) (used_areas s)"
    "d \<notin> fst ` used_areas s" using assms(2) by auto
  then have "insert (d, e) (used_areas s) - {(d, e)} = used_areas s" by force
  with mem_free_ok [OF m(1), of d e] m(2) show ?thesis by simp
qed

text \<open>\<open>mem_realloc\<close> shrinks: when the rounded size fits into the area, the pointer stays and the
  area ends no later than before and has room for the size; otherwise it returns null and changes
  nothing.\<close>

theorem mem_realloc_contract:
  assumes "heap_ok s" and "(d, e) \<in> used_areas s"
  shows "if d + mem_request new_sz \<le> e
    then \<exists>s' e'. mem_realloc d new_sz s = Some (Some d, s') \<and> heap_ok s' \<and>
      used_areas s' = insert (d, e') (used_areas s - {(d, e)}) \<and> d + mem_request new_sz \<le> e' \<and> e' \<le> e
    else mem_realloc d new_sz s = Some (None, s)"
  using mem_realloc_ok [OF assms] .

text \<open>The size is kept in 16 bits: a request of 65533 to 65535 bytes is rounded to 0 and then up to
  the minimum, and on a fresh heap it is granted an area of 12 bytes. Likewise \<open>mem_calloc\<close> of
  4096 times 17 bytes gets the 4096 bytes that remain of the product, but clears all of it.\<close>

theorem mem_malloc_wraps:
  "(\<exists>s'. mem_malloc 0xFFFF (mem_init s) = Some (Some 8, s') \<and> used_areas s' = {(8, 20)}) \<and>
   (\<exists>s'. mem_calloc 4096 17 (mem_init s) = Some (Some 8, s') \<and> used_areas s' = {(8, 4104)} \<and>
     ram_data s' = (\<lambda>a. if 8 \<le> a \<and> a < 69640 then 0 else ram_data s a))"
proof
  show "\<exists>s'. mem_malloc 0xFFFF (mem_init s) = Some (Some 8, s') \<and> used_areas s' = {(8, 20)}"
    by (simp add: heap_eval)
       (auto simp: used_areas_def blocks_def blocks_from.simps)
  show "\<exists>s'. mem_calloc 4096 17 (mem_init s) = Some (Some 8, s') \<and> used_areas s' = {(8, 4104)} \<and>
     ram_data s' = (\<lambda>a. if 8 \<le> a \<and> a < 69640 then 0 else ram_data s a)"
    by (simp add: mem_calloc_def heap_eval)
       (auto simp: used_areas_def blocks_def blocks_from.simps)
qed

section \<open>Witnesses\<close>

text \<open>Two allocations on a fresh heap, and what they leave.\<close>

definition heap_a :: "heap \<Rightarrow> heap" where
  "heap_a s = snd (the (mem_malloc 100 (mem_init s)))"

definition heap_b :: "heap \<Rightarrow> heap" where
  "heap_b s = snd (the (mem_malloc 50 (heap_a s)))"

lemma heap_a_eval:
  "mem_malloc 100 (mem_init s) = Some (Some 8, heap_a s)" "used_areas (heap_a s) = {(8, 108)}"
  by (simp_all add: heap_a_def heap_eval) (auto simp: used_areas_def blocks_def blocks_from.simps)

lemma heap_b_eval:
  "mem_malloc 50 (heap_a s) = Some (Some 116, heap_b s)" "used_areas (heap_b s) = {(8, 108), (116, 168)}"
  by (simp_all add: heap_b_def heap_a_def heap_eval) (auto simp: used_areas_def blocks_def blocks_from.simps)

lemma heap_b_reach: "heap_reach (heap_b s)"
  using heap_a_eval(1) heap_b_eval(1) by (meson heap_reach.intros)

definition heap0 :: heap where
  "heap0 = \<lparr>ram = (\<lambda>_. \<lparr>mem_next = 0, mem_prev = 0, mem_used = False\<rparr>), lfree = 0, ram_data = (\<lambda>_. 0)\<rparr>"




theorem mem_malloc_free_roundtrip_witness:
  "\<exists>s''. mem_free (Some 116) (heap_b heap0) = Some s'' \<and> heap_ok s'' \<and> used_areas s'' = {(8, 108)}"
proof -
  have "heap_ok (heap_a heap0)" using heap_reach_ok heap_reach.intros(1,2) heap_a_eval(1) by meson
  from mem_malloc_free_roundtrip [OF this heap_b_eval(1)] show ?thesis by (simp add: heap_a_eval(2))
qed

theorem mem_realloc_contract_witness:
  "\<exists>s' e'. mem_realloc 8 40 (heap_b heap0) = Some (Some 8, s') \<and> heap_ok s' \<and>
     used_areas s' = insert (8, e') {(116, 168)} \<and> 8 + mem_request 40 \<le> e' \<and> e' \<le> 108"
proof -
  have "8 + mem_request 40 \<le> 108" by (simp add: mem_request_def mem_align_size_def)
  moreover have "{(8::nat, 108::nat), (116, 168)} - {(8, 108)} = {(116, 168)}" by auto
  ultimately show ?thesis
    using mem_realloc_contract [OF heap_reach_ok [OF heap_b_reach [of heap0]], of 8 108 40] by (simp add: heap_b_eval(2))
qed

end
