(* ===== verification/LwipMemp.thy ===== *)
theory LwipMemp
  imports LwipMem
begin

text \<open>
  The pools of \<open>memp.c\<close>: for each type of element a list of the free ones, linked through the
  elements themselves. The updater leaves \<open>MEMP_OVERFLOW_CHECK\<close> and \<open>MEMP_SANITY_CHECK\<close> off, so an
  element starts at its link and \<open>MEMP_SIZE\<close> is 0. The sizes of the elements are those the compiler
  gives the structures; they are a parameter here, of which only
  is used that they are not 0 and, as \<open>memp_sizes\<close> rounds them, multiples of 4.
\<close>

section \<open>The pools\<close>

text \<open>The types of \<open>memp_std.h\<close> that the configuration leaves, in their order, with their numbers.\<close>

datatype memp_t = MEMP_RAW_PCB | MEMP_UDP_PCB | MEMP_TCP_PCB | MEMP_TCP_PCB_LISTEN | MEMP_TCP_SEG
  | MEMP_REASSDATA | MEMP_ARP_QUEUE | MEMP_PBUF | MEMP_PBUF_POOL

definition memp_types :: "memp_t list" where
  "memp_types = [MEMP_RAW_PCB, MEMP_UDP_PCB, MEMP_TCP_PCB, MEMP_TCP_PCB_LISTEN, MEMP_TCP_SEG,
     MEMP_REASSDATA, MEMP_ARP_QUEUE, MEMP_PBUF, MEMP_PBUF_POOL]"

fun memp_num :: "memp_t \<Rightarrow> nat" where
  "memp_num MEMP_RAW_PCB = 4"
| "memp_num MEMP_UDP_PCB = 6"
| "memp_num MEMP_TCP_PCB = 10"
| "memp_num MEMP_TCP_PCB_LISTEN = 6"
| "memp_num MEMP_TCP_SEG = 12"
| "memp_num MEMP_REASSDATA = 5"
| "memp_num MEMP_ARP_QUEUE = 30"
| "memp_num MEMP_PBUF = 10"
| "memp_num MEMP_PBUF_POOL = 10"

text \<open>The heads of the lists, and the link in each element, by its offset in \<open>memp_memory\<close>.\<close>

record memp =
  memp_tab :: "memp_t \<Rightarrow> nat option"
  memp_next :: "nat \<Rightarrow> nat option"

text \<open>\<open>memp_init\<close>: each pool is carved out behind the previous one.\<close>

fun memp_carve :: "nat \<Rightarrow> nat \<Rightarrow> memp_t \<Rightarrow> nat \<times> memp \<Rightarrow> nat \<times> memp" where
  "memp_carve 0 sz t (a, s) = (a, s)"
| "memp_carve (Suc n) sz t (a, s) =
     memp_carve n sz t (a + sz, s\<lparr>memp_next := (memp_next s)(a := memp_tab s t), memp_tab := (memp_tab s)(t := Some a)\<rparr>)"

definition memp_pool :: "(memp_t \<Rightarrow> nat) \<Rightarrow> memp_t \<Rightarrow> nat \<times> memp \<Rightarrow> nat \<times> memp" where
  "memp_pool sizes t = (\<lambda>(a, s). memp_carve (memp_num t) (sizes t) t (a, s\<lparr>memp_tab := (memp_tab s)(t := None)\<rparr>))"

definition memp_init :: "(memp_t \<Rightarrow> nat) \<Rightarrow> memp \<Rightarrow> memp" where
  "memp_init sizes s = snd (fold (memp_pool sizes) memp_types (0, s))"

definition memp_malloc :: "memp_t \<Rightarrow> memp \<Rightarrow> nat option \<times> memp" where
  "memp_malloc t s =
     (case memp_tab s t of
        None \<Rightarrow> (None, s)
      | Some a \<Rightarrow> (Some a, s\<lparr>memp_tab := (memp_tab s)(t := memp_next s a)\<rparr>))"

definition memp_free :: "memp_t \<Rightarrow> nat option \<Rightarrow> memp \<Rightarrow> memp" where
  "memp_free t mem s =
     (case mem of
        None \<Rightarrow> s
      | Some a \<Rightarrow> s\<lparr>memp_next := (memp_next s)(a := memp_tab s t), memp_tab := (memp_tab s)(t := Some a)\<rparr>)"

section \<open>Well-formed pools\<close>

text \<open>Where the elements of a pool lie.\<close>

fun memp_start :: "(memp_t \<Rightarrow> nat) \<Rightarrow> memp_t list \<Rightarrow> memp_t \<Rightarrow> nat" where
  "memp_start sizes [] t = 0"
| "memp_start sizes (u # us) t = (if u = t then 0 else memp_num u * sizes u + memp_start sizes us t)"

definition memp_elems :: "(memp_t \<Rightarrow> nat) \<Rightarrow> memp_t \<Rightarrow> nat set" where
  "memp_elems sizes t = (\<lambda>i. memp_start sizes memp_types t + i * sizes t) ` {..<memp_num t}"

text \<open>The list of the free elements, and that the links really end there.\<close>

primrec free_list :: "(nat \<Rightarrow> nat option) \<Rightarrow> nat \<Rightarrow> nat option \<Rightarrow> nat list" where
  "free_list nx 0 p = []"
| "free_list nx (Suc n) p = (case p of None \<Rightarrow> [] | Some a \<Rightarrow> a # free_list nx n (nx a))"

primrec list_at :: "(nat \<Rightarrow> nat option) \<Rightarrow> nat option \<Rightarrow> nat list \<Rightarrow> bool" where
  "list_at nx p [] \<longleftrightarrow> p = None"
| "list_at nx p (a # as) \<longleftrightarrow> p = Some a \<and> list_at nx (nx a) as"

definition memp_avail :: "memp_t \<Rightarrow> memp \<Rightarrow> nat list" where
  "memp_avail t s = free_list (memp_next s) (memp_num t) (memp_tab s t)"

definition memp_ok :: "(memp_t \<Rightarrow> nat) \<Rightarrow> memp \<Rightarrow> bool" where
  "memp_ok sizes s \<longleftrightarrow> (\<forall>t \<in> set memp_types. list_at (memp_next s) (memp_tab s t) (memp_avail t s) \<and>
     distinct (memp_avail t s) \<and> set (memp_avail t s) \<subseteq> memp_elems sizes t)"

definition memp_taken :: "(memp_t \<Rightarrow> nat) \<Rightarrow> memp_t \<Rightarrow> memp \<Rightarrow> nat set" where
  "memp_taken sizes t s = memp_elems sizes t - set (memp_avail t s)"

lemma memp_types_all [simp]: "t \<in> set memp_types"
  by (cases t) (simp_all add: memp_types_def)

lemma free_list_at: "list_at nx p as \<Longrightarrow> length as \<le> n \<Longrightarrow> free_list nx n p = as"
proof (induction as arbitrary: n p)
  case Nil
  then show ?case by (cases n) auto
next
  case (Cons a as)
  then show ?case by (cases n) auto
qed

lemma list_at_cong: "(\<And>a. a \<in> set as \<Longrightarrow> nx' a = nx a) \<Longrightarrow> list_at nx p as \<Longrightarrow> list_at nx' p as"
  by (induction as arbitrary: p) auto

lemma memp_elems_bounds:
  assumes "a \<in> memp_elems sizes t"
  shows "memp_start sizes memp_types t \<le> a" "a + sizes t \<le> memp_start sizes memp_types t + memp_num t * sizes t"
proof -
  obtain i where "i < memp_num t" "a = memp_start sizes memp_types t + i * sizes t"
    using assms by (auto simp: memp_elems_def)
  moreover from this have "Suc i * sizes t \<le> memp_num t * sizes t" by (intro mult_le_mono1) simp
  ultimately show "memp_start sizes memp_types t \<le> a"
    "a + sizes t \<le> memp_start sizes memp_types t + memp_num t * sizes t" by auto
qed

text \<open>The elements of a pool do not overlap, and the pools do not either.\<close>

lemma memp_elems_apart:
  assumes "a \<in> memp_elems sizes t" "b \<in> memp_elems sizes t" "a \<noteq> b"
  shows "a + sizes t \<le> b \<or> b + sizes t \<le> a"
proof -
  obtain i j where ij: "a = memp_start sizes memp_types t + i * sizes t" "b = memp_start sizes memp_types t + j * sizes t"
    using assms(1,2) by (auto simp: memp_elems_def)
  then have "i \<noteq> j" using assms(3) by auto
  then have "Suc i * sizes t \<le> j * sizes t \<or> Suc j * sizes t \<le> i * sizes t"
    using mult_le_mono1 [of "Suc i" j "sizes t"] mult_le_mono1 [of "Suc j" i "sizes t"] by linarith
  then show ?thesis using ij by auto
qed

lemma memp_start_order:
  assumes "distinct (us @ t # vs)" "u \<in> set vs"
  shows "memp_start sizes (us @ t # vs) t + memp_num t * sizes t \<le> memp_start sizes (us @ t # vs) u"
  using assms by (induction us) auto

lemma memp_elems_disjoint:
  assumes "a \<in> memp_elems sizes t" "b \<in> memp_elems sizes u" "t \<noteq> u"
  shows "a + sizes t \<le> b \<or> b + sizes u \<le> a"
proof -
  have d: "distinct memp_types" by (simp add: memp_types_def)
  obtain us vs where s: "memp_types = us @ t # vs" using split_list [OF memp_types_all [of t]] by blast
  have "u \<in> set (us @ t # vs)" unfolding s [symmetric] by (rule memp_types_all)
  then have "u \<in> set us \<or> u \<in> set vs" using assms(3) by auto
  then show ?thesis
  proof
    assume "u \<in> set vs"
    then have "memp_start sizes memp_types t + memp_num t * sizes t \<le> memp_start sizes memp_types u"
      using memp_start_order [of us t vs u sizes] d s by simp
    then show ?thesis using memp_elems_bounds [OF assms(1)] memp_elems_bounds [OF assms(2)] by linarith
  next
    assume "u \<in> set us"
    then obtain xs ys where "us = xs @ u # ys" using split_list by fastforce
    then have "memp_types = xs @ u # (ys @ t # vs)" using s by simp
    then have "memp_start sizes memp_types u + memp_num u * sizes u \<le> memp_start sizes memp_types t"
      using memp_start_order [of xs u "ys @ t # vs" t sizes] d by (metis in_set_conv_decomp)
    then show ?thesis using memp_elems_bounds [OF assms(1)] memp_elems_bounds [OF assms(2)] by linarith
  qed
qed

lemma memp_elems_card: "0 < sizes t \<Longrightarrow> card (memp_elems sizes t) = memp_num t"
  unfolding memp_elems_def by (subst card_image) (auto simp: inj_on_def)

lemma finite_memp_elems [simp]: "finite (memp_elems sizes t)"
  by (simp add: memp_elems_def)

lemma memp_avail_length:
  assumes "memp_ok sizes s" and "0 < sizes t"
  shows "length (memp_avail t s) \<le> memp_num t"
proof -
  have "distinct (memp_avail t s)" "set (memp_avail t s) \<subseteq> memp_elems sizes t"
    using assms(1) by (simp_all add: memp_ok_def)
  then show ?thesis using card_mono [of "memp_elems sizes t" "set (memp_avail t s)"] memp_elems_card [of sizes t] assms(2)
    by (simp add: distinct_card)
qed

text \<open>The free list of a pool after a change of its head.\<close>

lemma memp_avail_eq: "list_at (memp_next s) (memp_tab s t) as \<Longrightarrow> length as \<le> memp_num t \<Longrightarrow> memp_avail t s = as"
  by (simp add: memp_avail_def free_list_at)

lemma memp_okI:
  assumes "\<And>t. \<exists>as. list_at (memp_next s) (memp_tab s t) as \<and> distinct as \<and> set as \<subseteq> memp_elems sizes t \<and> length as \<le> memp_num t"
  shows "memp_ok sizes s"
  unfolding memp_ok_def
proof
  fix t
  obtain as where "list_at (memp_next s) (memp_tab s t) as" "distinct as" "set as \<subseteq> memp_elems sizes t" "length as \<le> memp_num t"
    using assms by blast
  moreover from this have "memp_avail t s = as" by (simp add: memp_avail_eq)
  ultimately show "list_at (memp_next s) (memp_tab s t) (memp_avail t s) \<and>
     distinct (memp_avail t s) \<and> set (memp_avail t s) \<subseteq> memp_elems sizes t" by simp
qed

text \<open>A pool that changes leaves the free lists of the others alone.\<close>

lemma memp_ok_D:
  assumes "memp_ok sizes s"
  shows "list_at (memp_next s) (memp_tab s t) (memp_avail t s)" "distinct (memp_avail t s)"
    "set (memp_avail t s) \<subseteq> memp_elems sizes t"
  using assms by (simp_all add: memp_ok_def)

lemma memp_other:
  assumes "memp_ok sizes s" and "0 < sizes t" and "u \<noteq> t" and "0 < sizes u"
    and "\<And>a. a \<notin> memp_elems sizes t \<Longrightarrow> memp_next s' a = memp_next s a" and "memp_tab s' u = memp_tab s u"
  shows "list_at (memp_next s') (memp_tab s' u) (memp_avail u s)" "memp_avail u s' = memp_avail u s"
proof -
  note ok = memp_ok_D [OF assms(1), of u]
  have "a \<notin> memp_elems sizes t" if "a \<in> set (memp_avail u s)" for a
    using memp_elems_disjoint [of a sizes u a t] that ok(3) assms(2-4) by auto
  then show l: "list_at (memp_next s') (memp_tab s' u) (memp_avail u s)"
    using ok(1) assms(5,6) by (auto intro: list_at_cong)
  then show "memp_avail u s' = memp_avail u s"
    using memp_avail_eq memp_avail_length [OF assms(1,4)] by blast
qed

definition memp_sizes_ok :: "(memp_t \<Rightarrow> nat) \<Rightarrow> bool" where
  "memp_sizes_ok sizes \<longleftrightarrow> (\<forall>t \<in> set memp_types. 0 < sizes t \<and> 4 dvd sizes t)"

lemma memp_elems_dvd:
  assumes "memp_sizes_ok sizes" and "a \<in> memp_elems sizes t"
  shows "4 dvd a"
proof -
  have d: "4 dvd sizes u" for u using assms(1) by (simp add: memp_sizes_ok_def)
  then have "4 dvd memp_start sizes us t" for us by (induction us) auto
  with assms(2) d show ?thesis by (auto simp: memp_elems_def)
qed

lemma memp_malloc_ok:
  assumes "memp_sizes_ok sizes" "memp_ok sizes s"
  shows "case memp_malloc t s of
      (None, s') \<Rightarrow> s' = s \<and> memp_taken sizes t s = memp_elems sizes t
    | (Some a, s') \<Rightarrow> memp_ok sizes s' \<and> a \<in> memp_elems sizes t \<and> a \<notin> memp_taken sizes t s \<and>
        memp_taken sizes t s' = insert a (memp_taken sizes t s) \<and> (\<forall>u \<in> set memp_types. u \<noteq> t \<longrightarrow> memp_taken sizes u s' = memp_taken sizes u s)"
proof -
  have pos: "0 < sizes u" for u using assms(1) by (simp add: memp_sizes_ok_def)
  note ok = memp_ok_D [OF assms(2), of t]
  note len = memp_avail_length [OF assms(2) pos]
  show ?thesis
  proof (cases "memp_tab s t")
    case None
    then have "memp_avail t s = []" using ok(1) by (cases "memp_avail t s") auto
    with None show ?thesis by (simp add: memp_malloc_def memp_taken_def)
  next
    case (Some a)
    then obtain as where as: "memp_avail t s = a # as" using ok(1) by (cases "memp_avail t s") auto
    define s' where "s' = s\<lparr>memp_tab := (memp_tab s)(t := memp_next s a)\<rparr>"
    have l: "list_at (memp_next s') (memp_tab s' t) as" using ok(1) as by (simp add: s'_def)
    have av: "memp_avail t s' = as" using memp_avail_eq [OF l] len [of t] as by simp
    have other: "list_at (memp_next s') (memp_tab s' u) (memp_avail u s)" "memp_avail u s' = memp_avail u s" if "u \<noteq> t" for u
      using memp_other [OF assms(2) pos that pos, of s'] that by (simp_all add: s'_def)
    have "memp_ok sizes s'"
    proof (rule memp_okI)
      fix u
      show "\<exists>as. list_at (memp_next s') (memp_tab s' u) as \<and> distinct as \<and> set as \<subseteq> memp_elems sizes u \<and> length as \<le> memp_num u"
      proof (cases "u = t")
        case True
        then show ?thesis using l ok(2,3) as len [of t] by (intro exI [of _ as]) simp
      next
        case False
        then show ?thesis using other(1) memp_ok_D(2,3) [OF assms(2)] len by (intro exI [of _ "memp_avail u s"]) simp
      qed
    qed
    moreover have "memp_malloc t s = (Some a, s')" using Some by (simp add: memp_malloc_def s'_def)
    ultimately show ?thesis using ok(2,3) as av other(2) by (auto simp: memp_taken_def)
  qed
qed

lemma memp_free_ok:
  assumes "memp_sizes_ok sizes" "memp_ok sizes s" and "a \<in> memp_taken sizes t s"
  shows "memp_ok sizes (memp_free t (Some a) s)" "memp_taken sizes t (memp_free t (Some a) s) = memp_taken sizes t s - {a}"
    "u \<noteq> t \<Longrightarrow> memp_taken sizes u (memp_free t (Some a) s) = memp_taken sizes u s"
proof -
  have pos: "0 < sizes u" for u using assms(1) by (simp add: memp_sizes_ok_def)
  note ok = memp_ok_D [OF assms(2), of t]
  note len = memp_avail_length [OF assms(2) pos]
  let ?s = "memp_free t (Some a) s"
  have a: "a \<in> memp_elems sizes t" "a \<notin> set (memp_avail t s)" using assms(3) by (simp_all add: memp_taken_def)
  have "list_at (memp_next ?s) (memp_tab s t) (memp_avail t s)"
    by (rule list_at_cong [OF _ ok(1)]) (use a(2) in \<open>auto simp: memp_free_def\<close>)
  then have l: "list_at (memp_next ?s) (memp_tab ?s t) (a # memp_avail t s)" by (simp add: memp_free_def)
  have "length (a # memp_avail t s) \<le> memp_num t"
    using card_mono [of "memp_elems sizes t" "set (a # memp_avail t s)"] memp_elems_card [OF pos] a ok(2,3)
    by (simp add: distinct_card)
  note av = memp_avail_eq [OF l this] and this
  have other: "list_at (memp_next ?s) (memp_tab ?s u) (memp_avail u s)" "memp_avail u ?s = memp_avail u s" if "u \<noteq> t" for u
    by (rule memp_other [OF assms(2) pos that pos]; use a(1) that in \<open>auto simp: memp_free_def\<close>)+
  show "memp_ok sizes ?s"
  proof (rule memp_okI)
    fix u
    show "\<exists>as. list_at (memp_next ?s) (memp_tab ?s u) as \<and> distinct as \<and> set as \<subseteq> memp_elems sizes u \<and> length as \<le> memp_num u"
    proof (cases "u = t")
      case True
      then show ?thesis using l ok(2,3) a \<open>length (a # memp_avail t s) \<le> memp_num t\<close>
        by (intro exI [of _ "a # memp_avail t s"]) simp
    next
      case False
      then show ?thesis using other(1) memp_ok_D(2,3) [OF assms(2)] len by (intro exI [of _ "memp_avail u s"]) simp
    qed
  qed
  show "memp_taken sizes t ?s = memp_taken sizes t s - {a}" using av a by (auto simp: memp_taken_def)
  show "u \<noteq> t \<Longrightarrow> memp_taken sizes u ?s = memp_taken sizes u s" using other(2) by (simp add: memp_taken_def)
qed

interpretation pool: allocator "\<lambda>s. memp_sizes_ok sizes \<and> memp_ok sizes s" "memp_taken sizes t"
  "\<lambda>s. Some (memp_malloc t s)" "\<lambda>a s. Some (memp_free t (Some a) s)"
proof
  fix s assume ok: "memp_sizes_ok sizes \<and> memp_ok sizes s"
  show "Some (memp_malloc t s) = Some (None, s) \<or> (\<exists>h s'. Some (memp_malloc t s) = Some (Some h, s') \<and>
      (memp_sizes_ok sizes \<and> memp_ok sizes s') \<and> h \<notin> memp_taken sizes t s \<and>
      memp_taken sizes t s' = insert h (memp_taken sizes t s))"
    using memp_malloc_ok [of sizes s t] ok by (auto split: prod.splits option.splits)
  fix h assume "h \<in> memp_taken sizes t s"
  then show "\<exists>s'. Some (memp_free t (Some h) s) = Some s' \<and> (memp_sizes_ok sizes \<and> memp_ok sizes s') \<and>
      memp_taken sizes t s' = memp_taken sizes t s - {h}"
    using memp_free_ok(1,2) ok by simp
qed

section \<open>Initialisation\<close>

lemma memp_carve_ok:
  assumes "0 < sz" and "list_at (memp_next s) (memp_tab s t) as" and "\<forall>b \<in> set as. b < a"
  shows "\<exists>s'. memp_carve n sz t (a, s) = (a + n * sz, s') \<and>
    list_at (memp_next s') (memp_tab s' t) (rev (map (\<lambda>i. a + i * sz) [0..<n]) @ as) \<and>
    (\<forall>b < a. memp_next s' b = memp_next s b) \<and> (\<forall>u. u \<noteq> t \<longrightarrow> memp_tab s' u = memp_tab s u)"
  using assms(2,3)
proof (induction n arbitrary: a s as)
  case (Suc n)
  let ?s = "s\<lparr>memp_next := (memp_next s)(a := memp_tab s t), memp_tab := (memp_tab s)(t := Some a)\<rparr>"
  have "list_at (memp_next ?s) (memp_tab s t) as"
    by (rule list_at_cong [OF _ Suc.prems(1)]) (use Suc.prems(2) in auto)
  then have "list_at (memp_next ?s) (memp_tab ?s t) (a # as)" by simp
  moreover have "\<forall>b \<in> set (a # as). b < a + sz" using Suc.prems(2) assms(1) by auto
  ultimately obtain s' where s': "memp_carve n sz t (a + sz, ?s) = (a + sz + n * sz, s')"
    "list_at (memp_next s') (memp_tab s' t) (rev (map (\<lambda>i. a + sz + i * sz) [0..<n]) @ a # as)"
    "\<forall>b < a + sz. memp_next s' b = memp_next ?s b" "\<forall>u. u \<noteq> t \<longrightarrow> memp_tab s' u = memp_tab ?s u"
    using Suc.IH by blast
  have "map (\<lambda>i. a + i * sz) [0..<Suc n] = a # map (\<lambda>i. a + sz + i * sz) [0..<n]"
    by (simp add: map_upt_Suc ac_simps del: upt_Suc)
  with s' show ?case by (auto simp: ac_simps)
qed simp

lemma memp_pools_ok:
  assumes "memp_sizes_ok sizes"
  shows "distinct us \<Longrightarrow> \<exists>s'. fold (memp_pool sizes) us (a, s) = (a + sum_list (map (\<lambda>u. memp_num u * sizes u) us), s') \<and>
    (\<forall>b < a. memp_next s' b = memp_next s b) \<and> (\<forall>u. u \<notin> set us \<longrightarrow> memp_tab s' u = memp_tab s u) \<and>
    (\<forall>u \<in> set us. list_at (memp_next s') (memp_tab s' u)
       (rev (map (\<lambda>i. a + memp_start sizes us u + i * sizes u) [0..<memp_num u])))"
proof (induction us arbitrary: a s)
  case (Cons t us)
  have pos: "0 < sizes t" using assms by (simp add: memp_sizes_ok_def)
  let ?b = "a + memp_num t * sizes t"
  let ?as = "rev (map (\<lambda>i. a + i * sizes t) [0..<memp_num t])"
  obtain s1 where s1: "memp_pool sizes t (a, s) = (?b, s1)" "list_at (memp_next s1) (memp_tab s1 t) ?as"
    "\<forall>b < a. memp_next s1 b = memp_next s b" "\<forall>u. u \<noteq> t \<longrightarrow> memp_tab s1 u = memp_tab s u"
    using memp_carve_ok [OF pos, of "s\<lparr>memp_tab := (memp_tab s)(t := None)\<rparr>" t "[]" a "memp_num t"] by (auto simp: memp_pool_def)
  have "distinct us" using Cons.prems by simp
  from Cons.IH [OF this, of ?b s1]
  obtain s' where s': "fold (memp_pool sizes) us (?b, s1) = (?b + sum_list (map (\<lambda>u. memp_num u * sizes u) us), s')"
    "\<forall>b < ?b. memp_next s' b = memp_next s1 b" "\<forall>u. u \<notin> set us \<longrightarrow> memp_tab s' u = memp_tab s1 u"
    "\<forall>u \<in> set us. list_at (memp_next s') (memp_tab s' u)
       (rev (map (\<lambda>i. ?b + memp_start sizes us u + i * sizes u) [0..<memp_num u]))"
    by blast
  have "list_at (memp_next s') (memp_tab s1 t) ?as"
    by (rule list_at_cong [OF _ s1(2)]) (use s'(2) pos in auto)
  then have "list_at (memp_next s') (memp_tab s' t) ?as" using s'(3) Cons.prems by simp
  moreover have "\<forall>u \<in> set us. u \<noteq> t" using Cons.prems by auto
  ultimately show ?case using s1 s' by (auto simp: ac_simps)
qed simp

lemma memp_init_ok:
  assumes "memp_sizes_ok sizes"
  shows "memp_ok sizes (memp_init sizes s)" "memp_taken sizes t (memp_init sizes s) = {}"
proof -
  have "distinct memp_types" by (simp add: memp_types_def)
  from memp_pools_ok [OF assms this, of 0 s]
  have l: "list_at (memp_next (memp_init sizes s)) (memp_tab (memp_init sizes s) u)
     (rev (map (\<lambda>i. memp_start sizes memp_types u + i * sizes u) [0..<memp_num u]))" for u
    by (auto simp: memp_init_def)
  have pos: "0 < sizes u" for u using assms by (simp add: memp_sizes_ok_def)
  have set: "set (rev (map (\<lambda>i. memp_start sizes memp_types u + i * sizes u) [0..<memp_num u])) = memp_elems sizes u" for u
    by (auto simp: memp_elems_def)
  show "memp_ok sizes (memp_init sizes s)"
  proof (rule memp_okI)
    fix u
    show "\<exists>as. list_at (memp_next (memp_init sizes s)) (memp_tab (memp_init sizes s) u) as \<and> distinct as \<and>
      set as \<subseteq> memp_elems sizes u \<and> length as \<le> memp_num u"
      using l [of u] set [of u] pos [of u] by (intro exI) (auto simp: distinct_map inj_on_def)
  qed
  have "memp_avail t (memp_init sizes s) = rev (map (\<lambda>i. memp_start sizes memp_types t + i * sizes t) [0..<memp_num t])"
    using l by (intro memp_avail_eq) simp_all
  then show "memp_taken sizes t (memp_init sizes s) = {}" using set by (simp add: memp_taken_def)
qed

section \<open>Properties\<close>

text \<open>A pool hands out an element of its own that is not in use, and no other pool changes; it
  returns null only when all its elements are in use (6 for the UDP control blocks, 10 for the
  buffers). Giving the element back restores what is in use.\<close>

theorem memp_malloc_contract:
  assumes "memp_sizes_ok sizes" "memp_ok sizes s"
  shows "case memp_malloc t s of
      (None, s') \<Rightarrow> s' = s \<and> card (memp_taken sizes t s) = memp_num t
    | (Some a, s') \<Rightarrow> memp_ok sizes s' \<and> a \<in> memp_elems sizes t \<and> a \<notin> memp_taken sizes t s \<and>
        memp_taken sizes t s' = insert a (memp_taken sizes t s) \<and> memp_ok sizes (memp_free t (Some a) s') \<and>
        memp_taken sizes t (memp_free t (Some a) s') = memp_taken sizes t s"
proof (cases "memp_malloc t s")
  case (Pair r s')
  note m = memp_malloc_ok [OF assms, of t, unfolded Pair prod.case]
  show ?thesis
  proof (cases r)
    case None
    then show ?thesis using m Pair memp_elems_card [of sizes t] assms(1) by (simp add: memp_sizes_ok_def)
  next
    case (Some a)
    then show ?thesis using m Pair assms pool.alloc_release [of sizes s t a s'] by simp
  qed
qed

theorem memp_malloc_contract_witness:
  "\<exists>a s'. memp_malloc MEMP_UDP_PCB (memp_init (\<lambda>_. 32) \<lparr>memp_tab = Map.empty, memp_next = Map.empty\<rparr>) = (Some a, s') \<and>
     memp_taken (\<lambda>_. 32) MEMP_UDP_PCB s' = {a}"
proof -
  let ?s = "memp_init (\<lambda>_. 32) \<lparr>memp_tab = Map.empty, memp_next = Map.empty\<rparr>"
  have z: "memp_sizes_ok (\<lambda>_. 32)" by (simp add: memp_sizes_ok_def)
  have ok: "memp_ok (\<lambda>_. 32) ?s" and none: "memp_taken (\<lambda>_. 32) MEMP_UDP_PCB ?s = {}"
    using memp_init_ok [OF z] by blast+
  from memp_malloc_contract [OF z ok, where t = MEMP_UDP_PCB] show ?thesis
    by (cases "memp_malloc MEMP_UDP_PCB ?s") (auto simp: none split: option.splits)
qed

end
