(* ===== verification/Pbuf.thy ===== *)
theory Pbuf
  imports LwipMemp "HOL-Library.Monad_Syntax"
begin

text \<open>
  The packet buffers of lwIP (\<open>pbuf.c\<close>): chains of buffers that lie in the heap, in a pool, or only
  refer to data elsewhere. A pointer is a place in one of these memories; the model keeps the
  structures by their place, and the bytes of the memories. A computation that follows a null pointer,
  or that does not end, has no result (\<open>None\<close>).

  The updater compiles with \<open>TCP_QUEUE_OOSEQ\<close> 0, so \<open>ALLOC_POOL_PBUF\<close> is \<open>memp_malloc\<close>.
\<close>

section \<open>Memory\<close>

datatype loc = Ram int | Memp int | Ext int

fun loc_add :: "loc \<Rightarrow> int \<Rightarrow> loc" where
  "loc_add (Ram a) n = Ram (a + n)"
| "loc_add (Memp a) n = Memp (a + n)"
| "loc_add (Ext a) n = Ext (a + n)"

fun loc_off :: "loc \<Rightarrow> int" where
  "loc_off (Ram a) = a"
| "loc_off (Memp a) = a"
| "loc_off (Ext a) = a"

text \<open>\<open>LWIP_MEM_ALIGN\<close>: the memories themselves are aligned.\<close>

fun loc_align :: "loc \<Rightarrow> loc" where
  "loc_align (Ram a) = Ram ((a + 3) div 4 * 4)"
| "loc_align (Memp a) = Memp ((a + 3) div 4 * 4)"
| "loc_align (Ext a) = Ext ((a + 3) div 4 * 4)"

datatype pbuf_layer = PBUF_TRANSPORT | PBUF_IP | PBUF_LINK | PBUF_RAW

datatype pbuf_type = PBUF_RAM | PBUF_ROM | PBUF_REF | PBUF_POOL

record pbuf =
  p_next :: "loc option"
  p_payload :: "loc option"
  p_tot_len :: u16
  p_len :: u16
  p_type :: pbuf_type
  p_flags :: u8
  p_ref :: u16

record lwip =
  l_heap :: heap
  l_memp :: memp
  l_pbufs :: "loc \<Rightarrow> pbuf"
  l_bytes :: "loc \<Rightarrow> u8"

abbreviation pb :: "lwip \<Rightarrow> loc \<Rightarrow> pbuf" where
  "pb s p \<equiv> l_pbufs s p"

definition pb_upd :: "loc \<Rightarrow> (pbuf \<Rightarrow> pbuf) \<Rightarrow> lwip \<Rightarrow> lwip" where
  "pb_upd p f s = s\<lparr>l_pbufs := (l_pbufs s)(p := f (l_pbufs s p))\<rparr>"

text \<open>The standard \<open>memcpy\<close>, one byte after the other; from or to null only if nothing is copied.\<close>

primrec copy_bytes :: "nat \<Rightarrow> loc \<Rightarrow> loc \<Rightarrow> (loc \<Rightarrow> u8) \<Rightarrow> loc \<Rightarrow> u8" where
  "copy_bytes 0 d p m = m"
| "copy_bytes (Suc n) d p m = copy_bytes n (loc_add d 1) (loc_add p 1) (m(d := m p))"

definition MEMCPY :: "loc option \<Rightarrow> loc option \<Rightarrow> nat \<Rightarrow> lwip \<Rightarrow> lwip option" where
  "MEMCPY d p n s =
     (if n = 0 then Some s
      else do { d \<leftarrow> d; p \<leftarrow> p; Some (s\<lparr>l_bytes := copy_bytes n d p (l_bytes s)\<rparr>) })"

definition SIZEOF_STRUCT_PBUF :: nat where [simp]: "SIZEOF_STRUCT_PBUF = 16"
definition PBUF_POOL_BUFSIZE_ALIGNED :: nat where [simp]: "PBUF_POOL_BUFSIZE_ALIGNED = 1500"

text \<open>\<open>LWIP_MEM_ALIGN_SIZE\<close> before it is cut to the type it is assigned to.\<close>

definition align_size :: "nat \<Rightarrow> nat" where
  "align_size n = (n + 3) div 4 * 4"

section \<open>Freeing\<close>

text \<open>Give one buffer back to where its type says it came from.\<close>

definition pbuf_dealloc :: "loc \<Rightarrow> lwip \<Rightarrow> lwip option" where
  "pbuf_dealloc p s =
     (case p_type (pb s p) of
        PBUF_POOL \<Rightarrow> (case p of Memp a \<Rightarrow> Some (s\<lparr>l_memp := memp_free MEMP_PBUF_POOL (Some (nat a)) (l_memp s)\<rparr>) | _ \<Rightarrow> None)
      | PBUF_ROM \<Rightarrow> (case p of Memp a \<Rightarrow> Some (s\<lparr>l_memp := memp_free MEMP_PBUF (Some (nat a)) (l_memp s)\<rparr>) | _ \<Rightarrow> None)
      | PBUF_REF \<Rightarrow> (case p of Memp a \<Rightarrow> Some (s\<lparr>l_memp := memp_free MEMP_PBUF (Some (nat a)) (l_memp s)\<rparr>) | _ \<Rightarrow> None)
      | PBUF_RAM \<Rightarrow> (case p of Ram d \<Rightarrow> do { h \<leftarrow> mem_free (Some d) (l_heap s); Some (s\<lparr>l_heap := h\<rparr>) } | _ \<Rightarrow> None))"

text \<open>The loop: the reference count is decremented (in its 16 bits); a buffer that is no longer
  referenced is given back and its successor follows. The number of buffers freed is kept in 8 bits.\<close>

partial_function (option) pbuf_free_loop :: "loc option \<Rightarrow> u8 \<Rightarrow> lwip \<Rightarrow> (u8 \<times> lwip) option" where
  "pbuf_free_loop p count s =
     (case p of
        None \<Rightarrow> Some (count, s)
      | Some p \<Rightarrow>
          let s = pb_upd p (\<lambda>b. b\<lparr>p_ref := p_ref b - 1\<rparr>) s in
          if p_ref (pb s p) = 0 then
            (case pbuf_dealloc p s of
               None \<Rightarrow> None
             | Some s' \<Rightarrow> pbuf_free_loop (p_next (pb s p)) (count + 1) s')
          else Some (count, s))"

definition pbuf_free :: "loc option \<Rightarrow> lwip \<Rightarrow> (u8 \<times> lwip) option" where
  "pbuf_free p s = (case p of None \<Rightarrow> Some (0, s) | Some p \<Rightarrow> pbuf_free_loop (Some p) 0 s)"

section \<open>Allocation\<close>

fun pbuf_offset :: "pbuf_layer \<Rightarrow> nat" where
  "pbuf_offset PBUF_TRANSPORT = 20 + 20 + 14"
| "pbuf_offset PBUF_IP = 20 + 14"
| "pbuf_offset PBUF_LINK = 14"
| "pbuf_offset PBUF_RAW = 0"

definition memp_pbuf :: "memp_t \<Rightarrow> lwip \<Rightarrow> loc option \<times> lwip" where
  "memp_pbuf t s = (let (a, m) = memp_malloc t (l_memp s) in (map_option (\<lambda>a. Memp (int a)) a, s\<lparr>l_memp := m\<rparr>))"

text \<open>The rest of a chain from the pool, behind the buffer \<open>r\<close>. The remaining length is at most the
  requested one, so it fits the 16 bits it is stored in.\<close>

function pool_tail :: "loc \<Rightarrow> nat \<Rightarrow> lwip \<Rightarrow> bool \<times> lwip" where
  "pool_tail r rem s =
     (if rem = 0 then (True, s)
      else case memp_pbuf MEMP_PBUF_POOL s of
        (None, s) \<Rightarrow> (False, s)
      | (Some q, s) \<Rightarrow>
          let n = min rem PBUF_POOL_BUFSIZE_ALIGNED;
              s = pb_upd q (\<lambda>b. b\<lparr>p_type := PBUF_POOL, p_flags := 0, p_next := None\<rparr>) s;
              s = pb_upd r (\<lambda>b. b\<lparr>p_next := Some q\<rparr>) s;
              s = pb_upd q (\<lambda>b. b\<lparr>p_tot_len := of_nat rem, p_len := of_nat n,
                    p_payload := Some (loc_add q (int SIZEOF_STRUCT_PBUF)), p_ref := 1\<rparr>) s
          in pool_tail q (rem - n) s)"
  by auto
termination by (relation "measure (\<lambda>(r, rem, s). rem)") auto

declare pool_tail.simps [simp del]

definition pbuf_alloc :: "pbuf_layer \<Rightarrow> u16 \<Rightarrow> pbuf_type \<Rightarrow> lwip \<Rightarrow> (loc option \<times> lwip) option" where
  "pbuf_alloc layer len type s =
     (let offset = pbuf_offset layer;
          done = (\<lambda>p s. Some (Some p, pb_upd p (\<lambda>b. b\<lparr>p_ref := 1, p_flags := 0\<rparr>) s))
      in case type of
        PBUF_POOL \<Rightarrow>
          (case memp_pbuf MEMP_PBUF_POOL s of
             (None, s) \<Rightarrow> Some (None, s)
           | (Some p, s) \<Rightarrow>
               let n = min (unat len) (PBUF_POOL_BUFSIZE_ALIGNED - align_size offset);
                   s = pb_upd p (\<lambda>b. b\<lparr>p_type := PBUF_POOL, p_next := None,
                         p_payload := Some (loc_align (loc_add p (int (SIZEOF_STRUCT_PBUF + offset)))),
                         p_tot_len := len, p_len := of_nat n, p_ref := 1\<rparr>) s
               in (case pool_tail p (unat len - n) s of
                     (True, s) \<Rightarrow> done p s
                   | (False, s) \<Rightarrow> do { (count, s) \<leftarrow> pbuf_free (Some p) s; Some (None, s) }))
      | PBUF_RAM \<Rightarrow>
          (case mem_malloc (of_nat (align_size (SIZEOF_STRUCT_PBUF + offset) + align_size (unat len))) (l_heap s) of
             None \<Rightarrow> None
           | Some (None, h) \<Rightarrow> Some (None, s\<lparr>l_heap := h\<rparr>)
           | Some (Some d, h) \<Rightarrow>
               let p = Ram (int d)
               in done p (pb_upd p (\<lambda>b. b\<lparr>p_payload := Some (loc_align (loc_add p (int (SIZEOF_STRUCT_PBUF + offset)))),
                         p_len := len, p_tot_len := len, p_next := None, p_type := PBUF_RAM\<rparr>) (s\<lparr>l_heap := h\<rparr>)))
      | _ \<Rightarrow>
          (case memp_pbuf MEMP_PBUF s of
             (None, s) \<Rightarrow> Some (None, s)
           | (Some p, s) \<Rightarrow>
               done p (pb_upd p (\<lambda>b. b\<lparr>p_payload := None, p_len := len, p_tot_len := len, p_next := None, p_type := type\<rparr>) s)))"

section \<open>Changing lengths\<close>

text \<open>Step over the buffers that stay; their total length changes by \<open>grow\<close>.\<close>

partial_function (option) realloc_skip :: "loc \<Rightarrow> u16 \<Rightarrow> u16 \<Rightarrow> lwip \<Rightarrow> (loc \<times> u16 \<times> lwip) option" where
  "realloc_skip q rem_len grow s =
     (if rem_len > p_len (pb s q) then
        let rem_len = rem_len - p_len (pb s q);
            s = pb_upd q (\<lambda>b. b\<lparr>p_tot_len := p_tot_len b + grow\<rparr>) s
        in (case p_next (pb s q) of None \<Rightarrow> None | Some q \<Rightarrow> realloc_skip q rem_len grow s)
      else Some (q, rem_len, s))"

text \<open>\<open>mem_realloc\<close> of the block of a buffer, which keeps its place or fails.\<close>

definition pbuf_shrink :: "loc \<Rightarrow> u16 \<Rightarrow> lwip \<Rightarrow> lwip option" where
  "pbuf_shrink q rem_len s =
     (if p_type (pb s q) = PBUF_RAM \<and> rem_len \<noteq> p_len (pb s q) then
        (case (q, p_payload (pb s q)) of
           (Ram d, Some (Ram pl)) \<Rightarrow>
             (case mem_realloc (nat d) (of_int (pl - d + uint rem_len)) (l_heap s) of
                Some (Some d', h) \<Rightarrow> Some (s\<lparr>l_heap := h\<rparr>)
              | _ \<Rightarrow> None)
         | _ \<Rightarrow> None)
      else Some s)"

definition pbuf_realloc :: "loc \<Rightarrow> u16 \<Rightarrow> lwip \<Rightarrow> lwip option" where
  "pbuf_realloc p new_len s =
     (if new_len \<ge> p_tot_len (pb s p) then Some s
      else do {
        (q, rem_len, s) \<leftarrow> realloc_skip p new_len (new_len - p_tot_len (pb s p)) s;
        s \<leftarrow> pbuf_shrink q rem_len s;
        let s = pb_upd q (\<lambda>b. b\<lparr>p_len := rem_len, p_tot_len := rem_len\<rparr>) s;
        s \<leftarrow> (case p_next (pb s q) of
               None \<Rightarrow> Some s
             | Some t \<Rightarrow> map_option snd (pbuf_free (Some t) s));
        Some (pb_upd q (\<lambda>b. b\<lparr>p_next := None\<rparr>) s)
      })"

text \<open>\<open>pbuf_header\<close>: the increment is a signed 16-bit value; the result is 0 for success.\<close>

definition pbuf_header :: "loc option \<Rightarrow> int \<Rightarrow> lwip \<Rightarrow> (u8 \<times> lwip) option" where
  "pbuf_header p inc s =
     (case p of
        None \<Rightarrow> Some (0, s)
      | Some p \<Rightarrow>
          if inc = 0 then Some (0, s)
          else if inc < 0 \<and> - inc > uint (p_len (pb s p)) then Some (1, s)
          else
            let adjust = (\<lambda>pl. Some (0, pb_upd p (\<lambda>b. b\<lparr>p_payload := Some pl, p_len := p_len b + of_int inc,
                   p_tot_len := p_tot_len b + of_int inc\<rparr>) s))
            in (case p_type (pb s p) of
                 PBUF_REF \<Rightarrow> (if inc < 0 then do { pl \<leftarrow> p_payload (pb s p); adjust (loc_add pl (- inc)) } else Some (1, s))
               | PBUF_ROM \<Rightarrow> (if inc < 0 then do { pl \<leftarrow> p_payload (pb s p); adjust (loc_add pl (- inc)) } else Some (1, s))
               | _ \<Rightarrow> do { pl \<leftarrow> p_payload (pb s p);
                      if loc_off pl - inc < loc_off p + int SIZEOF_STRUCT_PBUF then Some (1, s)
                      else adjust (loc_add pl (- inc)) }))"

section \<open>Chains\<close>

partial_function (option) clen_loop :: "loc option \<Rightarrow> u8 \<Rightarrow> lwip \<Rightarrow> u8 option" where
  "clen_loop p len s = (case p of None \<Rightarrow> Some len | Some p \<Rightarrow> clen_loop (p_next (pb s p)) (len + 1) s)"

definition pbuf_clen :: "loc option \<Rightarrow> lwip \<Rightarrow> u8 option" where
  "pbuf_clen p s = clen_loop p 0 s"

definition pbuf_ref :: "loc option \<Rightarrow> lwip \<Rightarrow> lwip" where
  "pbuf_ref p s = (case p of None \<Rightarrow> s | Some p \<Rightarrow> pb_upd p (\<lambda>b. b\<lparr>p_ref := p_ref b + 1\<rparr>) s)"

text \<open>The total length of the tail is read anew for every buffer of the head.\<close>

partial_function (option) cat_loop :: "loc \<Rightarrow> loc \<Rightarrow> lwip \<Rightarrow> lwip option" where
  "cat_loop p t s =
     (case p_next (pb s p) of
        Some q \<Rightarrow> cat_loop q t (pb_upd p (\<lambda>b. b\<lparr>p_tot_len := p_tot_len b + p_tot_len (pb s t)\<rparr>) s)
      | None \<Rightarrow>
          Some (pb_upd p (\<lambda>b. b\<lparr>p_tot_len := p_tot_len b + p_tot_len (pb s t), p_next := Some t\<rparr>) s))"

definition pbuf_cat :: "loc option \<Rightarrow> loc option \<Rightarrow> lwip \<Rightarrow> lwip option" where
  "pbuf_cat h t s = (case (h, t) of (Some h, Some t) \<Rightarrow> cat_loop h t s | _ \<Rightarrow> Some s)"

definition pbuf_chain :: "loc option \<Rightarrow> loc option \<Rightarrow> lwip \<Rightarrow> lwip option" where
  "pbuf_chain h t s = do { s \<leftarrow> pbuf_cat h t s; Some (pbuf_ref t s) }"

definition pbuf_dechain :: "loc \<Rightarrow> lwip \<Rightarrow> (loc option \<times> lwip) option" where
  "pbuf_dechain p s =
     (case p_next (pb s p) of
        None \<Rightarrow> Some (None, s)
      | Some q \<Rightarrow> do {
          let s = pb_upd q (\<lambda>b. b\<lparr>p_tot_len := p_tot_len (pb s p) - p_len (pb s p)\<rparr>) s;
          let s = pb_upd p (\<lambda>b. b\<lparr>p_next := None, p_tot_len := p_len b\<rparr>) s;
          (tail_gone, s) \<leftarrow> pbuf_free (Some q) s;
          Some (if tail_gone > 0 then None else Some q, s)
        })"

section \<open>Copying\<close>

definition ERR_OK :: int where [simp]: "ERR_OK = 0"
definition ERR_MEM :: int where [simp]: "ERR_MEM = - 1"
definition ERR_BUF :: int where [simp]: "ERR_BUF = - 2"
definition ERR_RTE :: int where [simp]: "ERR_RTE = - 4"
definition ERR_VAL :: int where [simp]: "ERR_VAL = - 9"
definition ERR_ARG :: int where [simp]: "ERR_ARG = - 10"
definition ERR_USE :: int where [simp]: "ERR_USE = - 11"

text \<open>A place in a buffer, when there is one.\<close>

definition payload_at :: "lwip \<Rightarrow> loc \<Rightarrow> nat \<Rightarrow> loc option" where
  "payload_at s p n = map_option (\<lambda>l. loc_add l (int n)) (p_payload (pb s p))"

text \<open>A buffer that ends a packet but has a successor is a queue of packets.\<close>

definition pbuf_queue :: "lwip \<Rightarrow> loc option \<Rightarrow> bool" where
  "pbuf_queue s p \<longleftrightarrow> (case p of None \<Rightarrow> False
     | Some p \<Rightarrow> p_len (pb s p) = p_tot_len (pb s p) \<and> p_next (pb s p) \<noteq> None)"

partial_function (option) copy_loop :: "loc option \<Rightarrow> nat \<Rightarrow> loc \<Rightarrow> nat \<Rightarrow> lwip \<Rightarrow> (int \<times> lwip) option" where
  "copy_loop p_to offset_to p_from offset_from s =
     (case p_to of
        None \<Rightarrow> None
      | Some to \<Rightarrow>
          let len = (if int (unat (p_len (pb s to))) - int offset_to \<ge> int (unat (p_len (pb s p_from))) - int offset_from
                     then unat (p_len (pb s p_from)) - offset_from else unat (p_len (pb s to)) - offset_to)
          in (case MEMCPY (payload_at s to offset_to) (payload_at s p_from offset_from) len s of
               None \<Rightarrow> None
             | Some s \<Rightarrow>
                 let offset_to = offset_to + len; offset_from = offset_from + len;
                     (p_to, offset_to) = (if offset_to = unat (p_len (pb s to)) then (p_next (pb s to), 0) else (Some to, offset_to));
                     (next, offset_from) = (if offset_from \<ge> unat (p_len (pb s p_from)) then (p_next (pb s p_from), 0) else (Some p_from, offset_from))
                 in if pbuf_queue s next then Some (ERR_VAL, s)
                    else if pbuf_queue s p_to then Some (ERR_VAL, s)
                    else (case next of None \<Rightarrow> Some (ERR_OK, s) | Some p_from \<Rightarrow> copy_loop p_to offset_to p_from offset_from s)))"

definition pbuf_copy :: "loc option \<Rightarrow> loc option \<Rightarrow> lwip \<Rightarrow> (int \<times> lwip) option" where
  "pbuf_copy p_to p_from s =
     (case (p_to, p_from) of
        (Some to, Some from) \<Rightarrow>
          if p_tot_len (pb s to) \<ge> p_tot_len (pb s from) then copy_loop (Some to) 0 from 0 s else Some (ERR_ARG, s)
      | _ \<Rightarrow> Some (ERR_ARG, s))"

partial_function (option) copy_partial_loop ::
  "loc option \<Rightarrow> loc \<Rightarrow> nat \<Rightarrow> nat \<Rightarrow> nat \<Rightarrow> lwip \<Rightarrow> (nat \<times> lwip) option" where
  "copy_partial_loop p dataptr len offset left s =
     (if len = 0 then Some (left, s)
      else case p of
        None \<Rightarrow> Some (left, s)
      | Some p \<Rightarrow>
          let pl = unat (p_len (pb s p)) in
          if offset \<noteq> 0 \<and> offset \<ge> pl then copy_partial_loop (p_next (pb s p)) dataptr len (offset - pl) left s
          else
            let n = min (pl - offset) len
            in (case MEMCPY (Some (loc_add dataptr (int left))) (payload_at s p offset) n s of
                 None \<Rightarrow> None
               | Some s \<Rightarrow> copy_partial_loop (p_next (pb s p)) dataptr (len - n) 0 (left + n) s))"

text \<open>\<open>copied_total\<close> and \<open>left\<close> of the source always have the same value.\<close>

definition pbuf_copy_partial :: "loc option \<Rightarrow> loc option \<Rightarrow> u16 \<Rightarrow> u16 \<Rightarrow> lwip \<Rightarrow> (u16 \<times> lwip) option" where
  "pbuf_copy_partial buf dataptr len offset s =
     (case (buf, dataptr) of
        (Some buf, Some d) \<Rightarrow>
          do { (n, s) \<leftarrow> copy_partial_loop (Some buf) d (unat len) (unat offset) 0 s; Some (of_nat n, s) }
      | _ \<Rightarrow> Some (0, s))"

partial_function (option) take_loop :: "loc option \<Rightarrow> loc \<Rightarrow> nat \<Rightarrow> nat \<Rightarrow> lwip \<Rightarrow> lwip option" where
  "take_loop p dataptr todo copied s =
     (if todo = 0 then Some s
      else case p of
        None \<Rightarrow> None
      | Some p \<Rightarrow>
          let n = min todo (unat (p_len (pb s p)))
          in (case MEMCPY (p_payload (pb s p)) (Some (loc_add dataptr (int copied))) n s of
               None \<Rightarrow> None
             | Some s \<Rightarrow> take_loop (p_next (pb s p)) dataptr (todo - n) (copied + n) s))"

definition pbuf_take :: "loc option \<Rightarrow> loc option \<Rightarrow> u16 \<Rightarrow> lwip \<Rightarrow> (int \<times> lwip) option" where
  "pbuf_take buf dataptr len s =
     (case (buf, dataptr) of
        (Some b, Some d) \<Rightarrow>
          if p_tot_len (pb s b) < len then Some (ERR_ARG, s)
          else do { s \<leftarrow> take_loop (Some b) d (unat len) 0 s; Some (ERR_OK, s) }
      | _ \<Rightarrow> Some (ERR_OK, s))"

definition pbuf_coalesce :: "loc \<Rightarrow> pbuf_layer \<Rightarrow> lwip \<Rightarrow> (loc \<times> lwip) option" where
  "pbuf_coalesce p layer s =
     (if p_next (pb s p) = None then Some (p, s)
      else do {
        (q, s) \<leftarrow> pbuf_alloc layer (p_tot_len (pb s p)) PBUF_RAM s;
        case q of
          None \<Rightarrow> Some (p, s)
        | Some q \<Rightarrow> do {
            (err, s) \<leftarrow> pbuf_copy (Some q) (Some p) s;
            (count, s) \<leftarrow> pbuf_free (Some p) s;
            Some (q, s)
          }
      })"

section \<open>The data of a chain\<close>

primrec chain_at :: "lwip \<Rightarrow> loc option \<Rightarrow> loc list \<Rightarrow> bool" where
  "chain_at s p [] \<longleftrightarrow> p = None"
| "chain_at s p (x # xs) \<longleftrightarrow> p = Some x \<and> chain_at s (p_next (pb s x)) xs"

definition area :: "loc \<Rightarrow> nat \<Rightarrow> loc set" where
  "area l n = (\<lambda>i. loc_add l (int i)) ` {..<n}"

definition read_at :: "(loc \<Rightarrow> u8) \<Rightarrow> loc \<Rightarrow> nat \<Rightarrow> u8 list" where
  "read_at m l n = map (\<lambda>i. m (loc_add l (int i))) [0..<n]"

primrec put_at :: "loc \<Rightarrow> u8 list \<Rightarrow> (loc \<Rightarrow> u8) \<Rightarrow> loc \<Rightarrow> u8" where
  "put_at l [] m = m"
| "put_at l (x # xs) m = put_at (loc_add l 1) xs (m(l := x))"

definition pdata :: "lwip \<Rightarrow> loc \<Rightarrow> u8 list" where
  "pdata s p = (case p_payload (pb s p) of None \<Rightarrow> [] | Some l \<Rightarrow> read_at (l_bytes s) l (unat (p_len (pb s p))))"

definition chain_data :: "lwip \<Rightarrow> loc list \<Rightarrow> u8 list" where
  "chain_data s ps = concat (map (pdata s) ps)"

definition payload_area :: "lwip \<Rightarrow> loc \<Rightarrow> loc set" where
  "payload_area s p = (case p_payload (pb s p) of None \<Rightarrow> {} | Some l \<Rightarrow> area l (unat (p_len (pb s p))))"

definition payloads :: "lwip \<Rightarrow> loc list \<Rightarrow> bool" where
  "payloads s ps \<longleftrightarrow> (\<forall>p \<in> set ps. p_payload (pb s p) = None \<longrightarrow> p_len (pb s p) = 0)"

lemma loc_add_add [simp]: "loc_add (loc_add l a) b = loc_add l (a + b)"
  by (cases l) simp_all

lemma loc_add_0 [simp]: "loc_add l 0 = l"
  by (cases l) simp_all

lemma loc_add_inj [simp]: "loc_add l a = loc_add l b \<longleftrightarrow> a = b"
  by (cases l) simp_all

lemma area_Suc: "area l (Suc n) = insert l (area (loc_add l 1) n)"
proof -
  have "{..<Suc n} = insert 0 (Suc ` {..<n})" by (rule lessThan_Suc_eq_insert_0)
  then show ?thesis by (simp add: area_def image_image ac_simps)
qed

lemma area_list: "area l n = set (map (\<lambda>i. loc_add l (int i)) [0..<n])"
  by (simp add: area_def atLeast0LessThan)

lemma area_mono: "n \<le> k \<Longrightarrow> area l n \<subseteq> area l k"
  by (auto simp: area_def)

lemma area_shift: "i + n \<le> k \<Longrightarrow> area (loc_add l (int i)) n \<subseteq> area l k"
proof
  fix x assume "i + n \<le> k" "x \<in> area (loc_add l (int i)) n"
  then obtain j where "j < n" "x = loc_add l (int (i + j))" by (auto simp: area_def)
  then show "x \<in> area l k" using \<open>i + n \<le> k\<close> unfolding area_def by (intro image_eqI [of _ _ "i + j"]) auto
qed

lemma read_Suc: "read_at m l (Suc n) = m l # read_at m (loc_add l 1) n"
  by (simp add: read_at_def map_upt_Suc ac_simps del: upt_Suc)

lemma length_read [simp]: "length (read_at m l n) = n"
  by (simp add: read_at_def)

lemma read_append: "read_at m l (a + b) = read_at m l a @ read_at m (loc_add l (int a)) b"
  by (induction a arbitrary: l) (simp_all add: read_Suc ac_simps, simp add: read_at_def)

lemma read_cong: "(\<And>a. a \<in> area l n \<Longrightarrow> m a = m' a) \<Longrightarrow> read_at m l n = read_at m' l n"
  by (auto simp: read_at_def area_def)

lemma read_take_drop: "i + n \<le> k \<Longrightarrow> take n (drop i (read_at m l k)) = read_at m (loc_add l (int i)) n"
  by (simp add: read_at_def take_map drop_map list_eq_iff_nth_eq)

lemma put_out: "a \<notin> area l (length xs) \<Longrightarrow> put_at l xs m a = m a"
proof (induction xs arbitrary: l m)
  case (Cons x xs)
  then show ?case by (simp add: area_Suc)
qed simp

lemma put_append: "put_at l (xs @ ys) m = put_at (loc_add l (int (length xs))) ys (put_at l xs m)"
  by (induction xs arbitrary: l m) (simp_all add: ac_simps)

lemma area_front: "l \<notin> area (loc_add l 1) n"
proof
  assume "l \<in> area (loc_add l 1) n"
  then obtain i where "loc_add l 0 = loc_add l (1 + int i)" by (auto simp: area_def)
  then show False unfolding loc_add_inj by simp
qed

lemma read_put: "length xs \<le> n \<Longrightarrow> read_at (put_at l xs m) l n = xs @ drop (length xs) (read_at m l n)"
proof (induction xs arbitrary: l m n)
  case (Cons x xs)
  then obtain k where n: "n = Suc k" by (cases n) auto
  have "read_at (m(l := x)) (loc_add l 1) k = read_at m (loc_add l 1) k"
    using area_front by (intro read_cong) auto
  then show ?case using Cons area_front by (simp add: n read_Suc put_out del: fun_upd_apply) (simp add: put_out area_front)
qed simp

text \<open>\<open>memcpy\<close> between areas that do not overlap writes what it read.\<close>

lemma copy_bytes_put:
  "area d n \<inter> area p n = {} \<Longrightarrow> copy_bytes n d p m = put_at d (read_at m p n) m"
proof (induction n arbitrary: d p m)
  case (Suc n)
  then have dis: "area (loc_add d 1) n \<inter> area (loc_add p 1) n = {}" "d \<notin> area (loc_add p 1) n"
    by (auto simp: area_Suc)
  have "read_at (m(d := m p)) (loc_add p 1) n = read_at m (loc_add p 1) n"
    using dis(2) by (intro read_cong) auto
  then show ?case using Suc.IH [OF dis(1)] by (simp only: copy_bytes.simps read_Suc put_at.simps)
qed (simp add: read_at_def)

lemma chain_at_cong:
  "chain_at s p ps \<Longrightarrow> (\<And>x. x \<in> set ps \<Longrightarrow> p_next (pb s' x) = p_next (pb s x)) \<Longrightarrow> chain_at s' p ps"
  by (induction ps arbitrary: p) auto

lemma length_pdata: "payloads s [p] \<Longrightarrow> length (pdata s p) = unat (p_len (pb s p))"
  by (auto simp: pdata_def payloads_def split: option.splits)

lemma chain_data_cong:
  assumes "\<And>a. a \<in> (\<Union>p \<in> set ps. payload_area s p) \<Longrightarrow> m a = l_bytes s a"
  shows "chain_data (s\<lparr>l_bytes := m\<rparr>) ps = chain_data s ps"
proof -
  have "pdata (s\<lparr>l_bytes := m\<rparr>) p = pdata s p" if "p \<in> set ps" for p
  proof (cases "p_payload (pb s p)")
    case (Some l)
    have "read_at m l (unat (p_len (pb s p))) = read_at (l_bytes s) l (unat (p_len (pb s p)))"
      using that Some by (intro read_cong assms) (auto simp: payload_area_def intro!: bexI [of _ p])
    with Some show ?thesis by (simp add: pdata_def)
  qed (simp add: pdata_def)
  then show ?thesis by (simp add: chain_data_def cong: map_cong)
qed

lemma chain_at_bytes [simp]: "chain_at (s\<lparr>l_bytes := m\<rparr>) p ps = chain_at s p ps"
  by (induction ps arbitrary: p) auto

lemma payloads_bytes [simp]: "payloads (s\<lparr>l_bytes := m\<rparr>) ps = payloads s ps"
  by (simp add: payloads_def)

lemma payload_area_bytes [simp]: "payload_area (s\<lparr>l_bytes := m\<rparr>) p = payload_area s p"
  by (simp add: payload_area_def split: option.splits)

lemma bytes_id [simp]: "s\<lparr>l_bytes := l_bytes s\<rparr> = s"
  by (cases s) simp

lemma chain_data_Cons: "chain_data s (x # xs) = pdata s x @ chain_data s xs"
  by (simp add: chain_data_def)

text \<open>One \<open>memcpy\<close> out of a buffer.\<close>

lemma memcpy_out:
  assumes "payloads s [x]" and "off + n \<le> unat (p_len (pb s x))" and "area d n \<inter> payload_area s x = {}"
  shows "MEMCPY (Some d) (payload_at s x off) n s = Some (s\<lparr>l_bytes := put_at d (take n (drop off (pdata s x))) (l_bytes s)\<rparr>)"
proof (cases "n = 0")
  case False
  then obtain l where l: "p_payload (pb s x) = Some l" using assms(1,2) by (auto simp: payloads_def)
  have "area (loc_add l (int off)) n \<subseteq> payload_area s x" using area_shift [OF assms(2)] l by (simp add: payload_area_def)
  then have "copy_bytes n d (loc_add l (int off)) (l_bytes s) = put_at d (read_at (l_bytes s) (loc_add l (int off)) n) (l_bytes s)"
    using assms(3) by (intro copy_bytes_put) auto
  then show ?thesis using False l read_take_drop [OF assms(2)] by (simp add: MEMCPY_def payload_at_def pdata_def)
qed (simp add: MEMCPY_def)

lemma copy_partial_loop_ok:
  assumes "chain_at s p ps" and "payloads s ps" and "(\<Union>x \<in> set ps. payload_area s x) \<inter> area d (left + len) = {}"
  shows "copy_partial_loop p d len off left s = Some (left + length (take len (drop off (chain_data s ps))),
    s\<lparr>l_bytes := put_at (loc_add d (int left)) (take len (drop off (chain_data s ps))) (l_bytes s)\<rparr>)"
  using assms
proof (induction ps arbitrary: p len off left s)
  case Nil
  then show ?case by (subst copy_partial_loop.simps) (auto simp: chain_data_def)
next
  case (Cons x ps)
  let ?pl = "unat (p_len (pb s x))"
  have p: "p = Some x" "chain_at s (p_next (pb s x)) ps" using Cons.prems(1) by simp_all
  have pl: "payloads s [x]" "payloads s ps" using Cons.prems(2) by (simp_all add: payloads_def)
  note len = length_pdata [OF pl(1)]
  consider (none) "len = 0" | (skip) "len \<noteq> 0" "off \<noteq> 0" "?pl \<le> off" | (copy) "len \<noteq> 0" "off = 0 \<or> off < ?pl" by linarith
  then show ?case
  proof cases
    case none
    then show ?thesis by (subst copy_partial_loop.simps) simp
  next
    case skip
    then have "copy_partial_loop p d len off left s = copy_partial_loop (p_next (pb s x)) d len (off - ?pl) left s"
      using p(1) by (subst copy_partial_loop.simps) (simp add: Let_def)
    moreover have "drop off (chain_data s (x # ps)) = drop (off - ?pl) (chain_data s ps)"
      using skip len by (simp add: chain_data_Cons)
    ultimately show ?thesis using Cons.IH [OF p(2) pl(2), of left len "off - ?pl"] Cons.prems(3) by auto
  next
    case copy
    define n where "n = min (?pl - off) len"
    let ?xs = "take n (drop off (pdata s x))"
    let ?s = "s\<lparr>l_bytes := put_at (loc_add d (int left)) ?xs (l_bytes s)\<rparr>"
    have n: "off + n \<le> ?pl" "n \<le> len" "length ?xs = n" using copy len by (auto simp: n_def)
    have "area (loc_add d (int left)) n \<subseteq> area d (left + len)" by (rule area_shift) (use n in simp)
    then have dis: "area (loc_add d (int left)) n \<inter> (\<Union>x \<in> set (x # ps). payload_area s x) = {}"
      using Cons.prems(3) by blast
    have "MEMCPY (Some (loc_add d (int left))) (payload_at s x off) n s = Some ?s"
      by (rule memcpy_out [OF pl(1) n(1)]) (use dis in auto)
    then have step: "copy_partial_loop p d len off left s = copy_partial_loop (p_next (pb s x)) d (len - n) 0 (left + n) ?s"
      using copy p(1) by (subst copy_partial_loop.simps) (auto simp: Let_def n_def [symmetric])
    have data: "chain_data ?s ps = chain_data s ps"
    proof (rule chain_data_cong)
      fix a assume "a \<in> (\<Union>x \<in> set ps. payload_area s x)"
      then have "a \<notin> area (loc_add d (int left)) (length ?xs)" unfolding n(3) using dis by auto
      then show "put_at (loc_add d (int left)) ?xs (l_bytes s) a = l_bytes s a" by (rule put_out)
    qed
    have xs: "take len (drop off (chain_data s (x # ps))) = ?xs @ take (len - n) (chain_data s ps)"
      using len n(1,2) copy by (auto simp: chain_data_Cons n_def min_def)
    have "copy_partial_loop (p_next (pb s x)) d (len - n) 0 (left + n) ?s =
       Some (left + n + length (take (len - n) (drop 0 (chain_data ?s ps))),
         ?s\<lparr>l_bytes := put_at (loc_add d (int (left + n))) (take (len - n) (drop 0 (chain_data ?s ps))) (l_bytes ?s)\<rparr>)"
      by (rule Cons.IH) (use p(2) pl(2) Cons.prems(3) n(2) in auto)
    then show ?thesis using n(3) by (simp add: step data xs put_append ac_simps)
  qed
qed

primrec payloads_apart :: "lwip \<Rightarrow> loc list \<Rightarrow> bool" where
  "payloads_apart s [] \<longleftrightarrow> True"
| "payloads_apart s (x # xs) \<longleftrightarrow> (\<forall>y \<in> set xs. payload_area s x \<inter> payload_area s y = {}) \<and> payloads_apart s xs"

lemma payloads_apart_bytes [simp]: "payloads_apart (s\<lparr>l_bytes := m\<rparr>) ps = payloads_apart s ps"
  by (induction ps) auto

text \<open>One \<open>memcpy\<close> into a buffer.\<close>

lemma memcpy_in:
  assumes "payloads s [x]" and "n \<le> unat (p_len (pb s x))" and "area d n \<inter> payload_area s x = {}"
  shows "\<exists>m. MEMCPY (p_payload (pb s x)) (Some d) n s = Some (s\<lparr>l_bytes := m\<rparr>) \<and>
    pdata (s\<lparr>l_bytes := m\<rparr>) x = read_at (l_bytes s) d n @ drop n (pdata s x) \<and> (\<forall>a. a \<notin> payload_area s x \<longrightarrow> m a = l_bytes s a)"
proof (cases "n = 0")
  case True
  then show ?thesis by (intro exI [of _ "l_bytes s"]) (simp add: MEMCPY_def read_at_def)
next
  case False
  then obtain l where l: "p_payload (pb s x) = Some l" using assms(1,2) by (auto simp: payloads_def)
  let ?m = "put_at l (read_at (l_bytes s) d n) (l_bytes s)"
  have sub: "area l n \<subseteq> payload_area s x" using area_mono [OF assms(2)] l by (simp add: payload_area_def)
  then have "copy_bytes n l d (l_bytes s) = ?m" using assms(3) by (intro copy_bytes_put) auto
  moreover have "?m a = l_bytes s a" if "a \<notin> payload_area s x" for a
    using that sub by (intro put_out) auto
  moreover have "pdata (s\<lparr>l_bytes := ?m\<rparr>) x = read_at (l_bytes s) d n @ drop n (pdata s x)"
    using l read_put [of "read_at (l_bytes s) d n" "unat (p_len (pb s x))" l "l_bytes s"] assms(2) by (simp add: pdata_def)
  ultimately show ?thesis using False l by (intro exI [of _ ?m]) (simp add: MEMCPY_def)
qed

lemma take_loop_ok:
  assumes "chain_at s p ps" "payloads s ps" "payloads_apart s ps"
    and "(\<Union>x \<in> set ps. payload_area s x) \<inter> area d (copied + todo) = {}" and "todo \<le> length (chain_data s ps)"
  shows "\<exists>m. take_loop p d todo copied s = Some (s\<lparr>l_bytes := m\<rparr>) \<and>
    chain_data (s\<lparr>l_bytes := m\<rparr>) ps = read_at (l_bytes s) (loc_add d (int copied)) todo @ drop todo (chain_data s ps) \<and>
    (\<forall>a. a \<notin> (\<Union>x \<in> set ps. payload_area s x) \<longrightarrow> m a = l_bytes s a)"
  using assms
proof (induction ps arbitrary: p todo copied s)
  case Nil
  then show ?case by (subst take_loop.simps) (auto simp: chain_data_def read_at_def intro!: exI [of _ "l_bytes s"])
next
  case (Cons x ps)
  let ?pl = "unat (p_len (pb s x))"
  have p: "p = Some x" "chain_at s (p_next (pb s x)) ps" using Cons.prems(1) by simp_all
  have pl: "payloads s [x]" "payloads s ps" using Cons.prems(2) by (simp_all add: payloads_def)
  note len = length_pdata [OF pl(1)]
  show ?case
  proof (cases "todo = 0")
    case True
    then show ?thesis by (subst take_loop.simps) (auto simp: read_at_def intro!: exI [of _ "l_bytes s"])
  next
    case False
    define n where "n = min todo ?pl"
    have n: "n \<le> ?pl" "n \<le> todo" by (simp_all add: n_def)
    have "area (loc_add d (int copied)) n \<subseteq> area d (copied + todo)" by (rule area_shift) (use n in simp)
    then have "area (loc_add d (int copied)) n \<inter> payload_area s x = {}" using Cons.prems(4) by auto
    from memcpy_in [OF pl(1) n(1) this] obtain m where m: "MEMCPY (p_payload (pb s x)) (Some (loc_add d (int copied))) n s = Some (s\<lparr>l_bytes := m\<rparr>)"
      "pdata (s\<lparr>l_bytes := m\<rparr>) x = read_at (l_bytes s) (loc_add d (int copied)) n @ drop n (pdata s x)"
      "\<forall>a. a \<notin> payload_area s x \<longrightarrow> m a = l_bytes s a" by blast
    let ?s = "s\<lparr>l_bytes := m\<rparr>"
    have step: "take_loop p d todo copied s = take_loop (p_next (pb s x)) d (todo - n) (copied + n) ?s"
      using False p(1) m(1) by (subst take_loop.simps) (auto simp: Let_def n_def [symmetric])
    have data: "chain_data ?s ps = chain_data s ps"
      by (rule chain_data_cong) (use m(3) Cons.prems(3) in auto)
    have "todo - n \<le> length (chain_data ?s ps)"
      using Cons.prems(5) len by (simp add: chain_data_Cons data n_def)
    with Cons.IH [of ?s "p_next (pb s x)" "copied + n" "todo - n"] obtain k where
      k: "take_loop (p_next (pb s x)) d (todo - n) (copied + n) ?s = Some (s\<lparr>l_bytes := k\<rparr>)"
      "chain_data (s\<lparr>l_bytes := k\<rparr>) ps = read_at m (loc_add d (int (copied + n))) (todo - n) @ drop (todo - n) (chain_data s ps)"
      "\<forall>a. a \<notin> (\<Union>x \<in> set ps. payload_area s x) \<longrightarrow> k a = m a"
      using p(2) pl(2) Cons.prems(3,4) n(2) data by auto
    have "area (loc_add d (int (copied + n))) (todo - n) \<subseteq> area d (copied + todo)" by (rule area_shift) (use n in simp)
    then have src: "read_at m (loc_add d (int (copied + n))) (todo - n) = read_at (l_bytes s) (loc_add d (int (copied + n))) (todo - n)"
      using m(3) Cons.prems(4) by (intro read_cong) auto
    have front: "pdata (s\<lparr>l_bytes := k\<rparr>) x = pdata ?s x"
    proof -
      have "chain_data (?s\<lparr>l_bytes := k\<rparr>) [x] = chain_data ?s [x]"
        by (rule chain_data_cong) (use k(3) Cons.prems(3) in auto)
      then show ?thesis by (simp add: chain_data_def)
    qed
    have out: "\<forall>a. a \<notin> (\<Union>x \<in> set (x # ps). payload_area s x) \<longrightarrow> k a = l_bytes s a" using k(3) m(3) by auto
    have "read_at (l_bytes s) (loc_add d (int copied)) todo =
        read_at (l_bytes s) (loc_add d (int copied)) n @ read_at (l_bytes s) (loc_add d (int (copied + n))) (todo - n)"
      using read_append [of "l_bytes s" "loc_add d (int copied)" n "todo - n"] n(2) by simp
    moreover have "read_at (l_bytes s) l 0 = []" for l by (simp add: read_at_def)
    ultimately have "chain_data (s\<lparr>l_bytes := k\<rparr>) (x # ps) =
        read_at (l_bytes s) (loc_add d (int copied)) todo @ drop todo (chain_data s (x # ps))"
      using front m(2) k(2) src len by (cases "todo \<le> ?pl") (simp_all add: chain_data_Cons n_def)
    with step k(1) out show ?thesis by auto
  qed
qed

section \<open>Ownership and reference counts\<close>

definition lwip_ok :: "(memp_t \<Rightarrow> nat) \<Rightarrow> lwip \<Rightarrow> bool" where
  "lwip_ok sizes s \<longleftrightarrow> memp_sizes_ok sizes \<and> memp_ok sizes (l_memp s) \<and> heap_ok (l_heap s)"

definition in_pool :: "(memp_t \<Rightarrow> nat) \<Rightarrow> memp_t \<Rightarrow> lwip \<Rightarrow> loc set" where
  "in_pool sizes t s = (\<lambda>a. Memp (int a)) ` memp_taken sizes t (l_memp s)"

definition in_heap :: "lwip \<Rightarrow> loc set" where
  "in_heap s = (\<lambda>d. Ram (int d)) ` heap_live (l_heap s)"

text \<open>The structures that are allocated, and where a buffer has to be for its type.\<close>

definition pbuf_live :: "(memp_t \<Rightarrow> nat) \<Rightarrow> lwip \<Rightarrow> loc set" where
  "pbuf_live sizes s = in_pool sizes MEMP_PBUF_POOL s \<union> in_pool sizes MEMP_PBUF s \<union> in_heap s"

definition pbuf_home :: "(memp_t \<Rightarrow> nat) \<Rightarrow> pbuf_type \<Rightarrow> lwip \<Rightarrow> loc set" where
  "pbuf_home sizes t s =
     (case t of PBUF_RAM \<Rightarrow> in_heap s | PBUF_POOL \<Rightarrow> in_pool sizes MEMP_PBUF_POOL s | _ \<Rightarrow> in_pool sizes MEMP_PBUF s)"

definition owned :: "(memp_t \<Rightarrow> nat) \<Rightarrow> lwip \<Rightarrow> loc \<Rightarrow> bool" where
  "owned sizes s p \<longleftrightarrow> p \<in> pbuf_home sizes (p_type (pb s p)) s"

lemma owned_live: "owned sizes s p \<Longrightarrow> p \<in> pbuf_live sizes s"
  by (auto simp: owned_def pbuf_home_def pbuf_live_def split: pbuf_type.splits)

lemma sizes_pos: "lwip_ok sizes s \<Longrightarrow> 0 < sizes t"
  by (simp add: lwip_ok_def memp_sizes_ok_def)

lemma inj_Memp: "inj (\<lambda>a. Memp (int a))" and inj_Ram: "inj (\<lambda>d. Ram (int d))"
  by (simp_all add: inj_def)

lemma pools_apart:
  assumes "lwip_ok sizes s" and "t \<noteq> u"
  shows "in_pool sizes t s \<inter> in_pool sizes u s = {}"
proof -
  have "\<not> (a \<in> memp_elems sizes t \<and> a \<in> memp_elems sizes u)" for a
    using memp_elems_disjoint [of a sizes t a u] assms(2) sizes_pos [OF assms(1), of t] sizes_pos [OF assms(1), of u] by auto
  then show ?thesis by (auto simp: in_pool_def memp_taken_def)
qed

lemma pool_free:
  assumes "lwip_ok sizes s" and "Memp a \<in> in_pool sizes t s" and "u \<noteq> t"
    and "s' = s\<lparr>l_memp := memp_free t (Some (nat a)) (l_memp s)\<rparr>"
  shows "lwip_ok sizes s'" "in_pool sizes t s' = in_pool sizes t s - {Memp a}" "in_pool sizes u s' = in_pool sizes u s"
    "in_heap s' = in_heap s" "Memp a \<notin> in_pool sizes u s" "Memp a \<notin> in_heap s"
proof -
  obtain b where b: "a = int b" "b \<in> memp_taken sizes t (l_memp s)" using assms(2) by (auto simp: in_pool_def)
  have ok: "memp_sizes_ok sizes" "memp_ok sizes (l_memp s)" using assms(1) by (simp_all add: lwip_ok_def)
  note f = memp_free_ok [OF ok b(2)]
  show "lwip_ok sizes s'" using assms(1) f(1) b(1) by (simp add: lwip_ok_def assms(4))
  show "in_pool sizes t s' = in_pool sizes t s - {Memp a}" using f(2) b(1) image_set_diff [OF inj_Memp, of "memp_taken sizes t (l_memp s)" "{b}"]
    by (simp add: in_pool_def assms(4))
  show "in_pool sizes u s' = in_pool sizes u s" using f(3) [OF assms(3)] b(1) by (simp add: in_pool_def assms(4))
  show "Memp a \<notin> in_heap s" by (auto simp: in_heap_def)
  show "in_heap s' = in_heap s" by (simp add: in_heap_def assms(4))
  show "Memp a \<notin> in_pool sizes u s" using pools_apart [OF assms(1,3)] assms(2) by auto
qed

lemma pbuf_dealloc_ok:
  assumes "lwip_ok sizes s" and "owned sizes s p"
  obtains s' where "pbuf_dealloc p s = Some s'" "lwip_ok sizes s'" "l_pbufs s' = l_pbufs s" "l_bytes s' = l_bytes s"
    "pbuf_live sizes s' = pbuf_live sizes s - {p}"
    "\<And>q. q \<noteq> p \<Longrightarrow> owned sizes s q \<Longrightarrow> owned sizes s' q"
proof -
  consider (ram) "p_type (pb s p) = PBUF_RAM" "p \<in> in_heap s"
    | (pool) "p_type (pb s p) = PBUF_POOL" "p \<in> in_pool sizes MEMP_PBUF_POOL s"
    | (ref) "p_type (pb s p) = PBUF_ROM \<or> p_type (pb s p) = PBUF_REF" "p \<in> in_pool sizes MEMP_PBUF s"
    using assms(2) by (cases "p_type (pb s p)") (auto simp: owned_def pbuf_home_def)
  then show thesis
  proof cases
    case ram
    then obtain d where d: "p = Ram (int d)" "d \<in> heap_live (l_heap s)" by (auto simp: in_heap_def)
    have "heap_ok (l_heap s)" using assms(1) by (simp add: lwip_ok_def)
    from mem.release_law [OF this d(2)] obtain h where h: "mem_free (Some (int d)) (l_heap s) = Some h" "heap_ok h"
      "heap_live h = heap_live (l_heap s) - {d}" by blast
    let ?s = "s\<lparr>l_heap := h\<rparr>"
    have "in_heap ?s = in_heap s - {p}"
      using h(3) d(1) image_set_diff [OF inj_Ram, of "heap_live (l_heap s)" "{d}"] by (simp add: in_heap_def)
    moreover have "in_pool sizes t ?s = in_pool sizes t s" "p \<notin> in_pool sizes t s" for t
      using d(1) by (auto simp: in_pool_def)
    ultimately show thesis
      by (intro that [of ?s]; use h(1,2) assms(1) ram(1) d(1) in
        \<open>auto simp: pbuf_dealloc_def lwip_ok_def pbuf_live_def owned_def pbuf_home_def split: pbuf_type.splits\<close>)
  next
    case pool
    then obtain a where a: "p = Memp a" by (auto simp: in_pool_def)
    let ?s = "s\<lparr>l_memp := memp_free MEMP_PBUF_POOL (Some (nat a)) (l_memp s)\<rparr>"
    have "MEMP_PBUF \<noteq> MEMP_PBUF_POOL" by simp
    note f = pool_free [OF assms(1) pool(2) [unfolded a] this refl]
    show thesis
      by (rule that [of ?s]; use f pool(1) a in
        \<open>auto simp: pbuf_dealloc_def pbuf_live_def owned_def pbuf_home_def split: pbuf_type.splits\<close>)
  next
    case ref
    then obtain a where a: "p = Memp a" by (auto simp: in_pool_def)
    let ?s = "s\<lparr>l_memp := memp_free MEMP_PBUF (Some (nat a)) (l_memp s)\<rparr>"
    have "MEMP_PBUF_POOL \<noteq> MEMP_PBUF" by simp
    note f = pool_free [OF assms(1) ref(2) [unfolded a] this refl]
    show thesis
      by (rule that [of ?s]; use f ref(1) a in
        \<open>auto simp: pbuf_dealloc_def pbuf_live_def owned_def pbuf_home_def split: pbuf_type.splits\<close>)
  qed
qed

text \<open>Changes of the reference count of one buffer.\<close>

abbreviation set_ref :: "loc \<Rightarrow> u16 \<Rightarrow> lwip \<Rightarrow> lwip" where
  "set_ref p r s \<equiv> pb_upd p (\<lambda>b. b\<lparr>p_ref := r\<rparr>) s"

lemma pb_upd_sel [simp]:
  "l_heap (pb_upd p f s) = l_heap s" "l_memp (pb_upd p f s) = l_memp s" "l_bytes (pb_upd p f s) = l_bytes s"
  "pb (pb_upd p f s) q = (if q = p then f (pb s p) else pb s q)"
  by (simp_all add: pb_upd_def)

lemma pb_upd_ok [simp]:
  "lwip_ok sizes (pb_upd p f s) = lwip_ok sizes s" "in_pool sizes t (pb_upd p f s) = in_pool sizes t s"
  "in_heap (pb_upd p f s) = in_heap s" "pbuf_live sizes (pb_upd p f s) = pbuf_live sizes s"
  "pbuf_home sizes ty (pb_upd p f s) = pbuf_home sizes ty s"
  by (simp_all add: lwip_ok_def in_pool_def in_heap_def pbuf_live_def pbuf_home_def split: pbuf_type.splits)

lemma owned_upd: "p_type (f (pb s p)) = p_type (pb s p) \<Longrightarrow> owned sizes (pb_upd p f s) q = owned sizes s q"
  by (simp add: owned_def)

text \<open>How far the loop gets: over the buffers with a single reference.\<close>

definition ones :: "lwip \<Rightarrow> loc list \<Rightarrow> nat" where
  "ones s ps = length (takeWhile (\<lambda>x. p_ref (pb s x) = 1) ps)"

text \<open>The counts after the call: those buffers have none left, the next one has one less.\<close>

definition refs_after :: "lwip \<Rightarrow> loc list \<Rightarrow> loc \<Rightarrow> u16" where
  "refs_after s ps q =
     (if q \<in> set (take (ones s ps) ps) then 0
      else if ones s ps < length ps \<and> q = ps ! ones s ps then p_ref (pb s q) - 1
      else p_ref (pb s q))"

lemma pbuf_free_loop_ok:
  assumes "lwip_ok sizes s" and "chain_at s p ps" "distinct ps" and "\<forall>x \<in> set ps. owned sizes s x"
  shows "\<exists>s'. pbuf_free_loop p c s = Some (c + of_nat (ones s ps), s') \<and> lwip_ok sizes s' \<and> l_bytes s' = l_bytes s \<and>
    pbuf_live sizes s' = pbuf_live sizes s - set (take (ones s ps) ps) \<and>
    (\<forall>q. pb s' q = (pb s q)\<lparr>p_ref := refs_after s ps q\<rparr>) \<and>
    (\<forall>q. q \<notin> set (take (ones s ps) ps) \<longrightarrow> owned sizes s q \<longrightarrow> owned sizes s' q)"
  using assms
proof (induction ps arbitrary: p c s)
  case Nil
  then show ?case by (subst pbuf_free_loop.simps) (simp add: ones_def refs_after_def)
next
  case (Cons x ps)
  have p: "p = Some x" "chain_at s (p_next (pb s x)) ps" using Cons.prems(2) by simp_all
  let ?t = "set_ref x (p_ref (pb s x) - 1) s"
  have upd: "pb_upd x (\<lambda>b. b\<lparr>p_ref := p_ref b - 1\<rparr>) s = ?t" by (simp add: pb_upd_def)
  show ?case
  proof (cases "p_ref (pb s x) = 1")
    case False
    then have "pbuf_free_loop p c s = Some (c, ?t)"
      using p(1) by (subst pbuf_free_loop.simps) (simp add: Let_def upd)
    with False show ?thesis using Cons.prems(1) by (simp add: ones_def refs_after_def owned_upd)
  next
    case True
    have "owned sizes ?t x" using Cons.prems(4) by (simp add: owned_upd)
    from pbuf_dealloc_ok [OF _ this] Cons.prems(1) obtain u where
      u: "pbuf_dealloc x ?t = Some u" "lwip_ok sizes u" "l_pbufs u = l_pbufs ?t" "l_bytes u = l_bytes ?t"
      "pbuf_live sizes u = pbuf_live sizes ?t - {x}" "\<And>q. q \<noteq> x \<Longrightarrow> owned sizes ?t q \<Longrightarrow> owned sizes u q" by auto
    have step: "pbuf_free_loop p c s = pbuf_free_loop (p_next (pb s x)) (c + 1) u"
      using p(1) True u(1) by (subst pbuf_free_loop.simps) (simp add: Let_def upd)
    have x: "x \<notin> set ps" using Cons.prems(3) by simp
    then have "takeWhile (\<lambda>y. p_ref (pb u y) = 1) ps = takeWhile (\<lambda>y. p_ref (pb s y) = 1) ps"
      by (intro takeWhile_cong) (auto simp: u(3))
    then have o: "ones u ps = ones s ps" "ones s (x # ps) = Suc (ones s ps)" using True by (simp_all add: ones_def)
    have ch: "chain_at u (p_next (pb s x)) ps" by (rule chain_at_cong [OF p(2)]) (simp add: u(3))
    have ow: "\<forall>y \<in> set ps. owned sizes u y"
    proof
      fix y assume "y \<in> set ps"
      then show "owned sizes u y" using x Cons.prems(4) by (intro u(6)) (auto simp: owned_upd)
    qed
    have "distinct ps" using Cons.prems(3) by simp
    from Cons.IH [OF u(2) ch this ow, of "c + 1", unfolded o(1)]
    obtain s' where s': "pbuf_free_loop (p_next (pb s x)) (c + 1) u = Some (c + 1 + of_nat (ones s ps), s')"
      "lwip_ok sizes s'" "l_bytes s' = l_bytes u" "pbuf_live sizes s' = pbuf_live sizes u - set (take (ones s ps) ps)"
      "\<forall>q. pb s' q = (pb u q)\<lparr>p_ref := refs_after u ps q\<rparr>"
      "\<forall>q. q \<notin> set (take (ones s ps) ps) \<longrightarrow> owned sizes u q \<longrightarrow> owned sizes s' q"
      by blast
    have "pb s' q = (pb s q)\<lparr>p_ref := refs_after s (x # ps) q\<rparr>" for q
    proof (cases "q = x")
      case True
      have "x \<notin> set (take (ones s ps) ps)" using x in_set_takeD by metis
      moreover have "ones s ps < length ps \<Longrightarrow> x \<noteq> ps ! ones s ps" using x nth_mem by metis
      ultimately show ?thesis using s'(5) True \<open>p_ref (pb s x) = 1\<close> by (auto simp: refs_after_def o u(3))
    qed (use s'(5) in \<open>simp add: refs_after_def o u(3)\<close>)
    moreover have "owned sizes s' q" if "q \<notin> set (take (ones s (x # ps)) (x # ps))" "owned sizes s q" for q
      using that s'(6) u(6) by (simp add: o owned_upd)
    ultimately show ?thesis using s'(1-4) u(4,5) by (auto simp: step o ac_simps)
  qed
qed

section \<open>Allocation from the pool\<close>

text \<open>The total length of every buffer is the sum of the lengths from it on.\<close>

primrec tot_ok :: "lwip \<Rightarrow> loc list \<Rightarrow> bool" where
  "tot_ok s [] \<longleftrightarrow> True"
| "tot_ok s (x # xs) \<longleftrightarrow> unat (p_tot_len (pb s x)) = (\<Sum>y\<leftarrow>x # xs. unat (p_len (pb s y))) \<and> tot_ok s xs"

abbreviation len_sum :: "lwip \<Rightarrow> loc list \<Rightarrow> nat" where
  "len_sum s ps \<equiv> (\<Sum>y\<leftarrow>ps. unat (p_len (pb s y)))"

lemma length_chain_data: "payloads s ps \<Longrightarrow> length (chain_data s ps) = len_sum s ps"
proof (induction ps)
  case (Cons x ps)
  then have "payloads s [x]" "payloads s ps" by (simp_all add: payloads_def)
  with Cons.IH show ?case by (simp add: chain_data_Cons length_pdata)
qed (simp add: chain_data_def)

lemma memp_pbuf_ok:
  assumes "lwip_ok sizes s"
  shows "case memp_pbuf t s of
      (None, s') \<Rightarrow> s' = s \<and> memp_taken sizes t (l_memp s) = memp_elems sizes t
    | (Some q, s') \<Rightarrow> lwip_ok sizes s' \<and> q \<notin> in_pool sizes t s \<and> in_pool sizes t s' = insert q (in_pool sizes t s) \<and>
        (\<forall>u. u \<noteq> t \<longrightarrow> in_pool sizes u s' = in_pool sizes u s) \<and> l_pbufs s' = l_pbufs s \<and> l_bytes s' = l_bytes s \<and> l_heap s' = l_heap s"
proof -
  have ok: "memp_sizes_ok sizes" "memp_ok sizes (l_memp s)" using assms by (simp_all add: lwip_ok_def)
  obtain r m where rm: "memp_malloc t (l_memp s) = (r, m)" by fastforce
  note k = memp_malloc_ok [OF ok, of t, unfolded rm prod.case]
  show ?thesis
  proof (cases r)
    case None
    moreover have "s\<lparr>l_memp := l_memp s\<rparr> = s" by (cases s) simp
    ultimately show ?thesis using k by (simp add: memp_pbuf_def rm)
  next
    case (Some a)
    then have "Memp (int a) \<notin> in_pool sizes t s" using k by (auto simp: in_pool_def)
    then show ?thesis using k Some assms by (simp add: memp_pbuf_def rm in_pool_def lwip_ok_def)
  qed
qed

text \<open>A buffer of the pool as \<open>pbuf_alloc\<close> sets it up.\<close>

definition fresh_pool :: "lwip \<Rightarrow> loc \<Rightarrow> bool" where
  "fresh_pool s q \<longleftrightarrow> p_type (pb s q) = PBUF_POOL \<and> p_ref (pb s q) = 1 \<and> p_flags (pb s q) = 0 \<and>
     p_payload (pb s q) = Some (loc_add q (int SIZEOF_STRUCT_PBUF)) \<and> unat (p_len (pb s q)) \<le> PBUF_POOL_BUFSIZE_ALIGNED"

lemma sum_cong_list: "(\<And>x. x \<in> set xs \<Longrightarrow> f x = g x) \<Longrightarrow> (\<Sum>x\<leftarrow>xs. f x) = (\<Sum>x\<leftarrow>xs. g x)" for f g :: "'a \<Rightarrow> nat"
  by (induction xs) auto

lemma tot_ok_cong:
  "tot_ok s ps \<Longrightarrow> (\<And>x. x \<in> set ps \<Longrightarrow> p_len (pb s' x) = p_len (pb s x) \<and> p_tot_len (pb s' x) = p_tot_len (pb s x)) \<Longrightarrow> tot_ok s' ps"
proof (induction ps)
  case (Cons x ps)
  then show ?case using sum_cong_list [of ps "\<lambda>y. unat (p_len (pb s' y))" "\<lambda>y. unat (p_len (pb s y))"] by auto
qed simp

lemma next_id [simp]: "\<exists>nx. (b :: pbuf) = b\<lparr>p_next := nx\<rparr>"
  by (rule exI [of _ "p_next b"]) (cases b, simp)

lemma pool_tail_ok:
  assumes "lwip_ok sizes s" and "r \<in> in_pool sizes MEMP_PBUF_POOL s" and "p_next (pb s r) = None" and "rem < 2 ^ 16"
    and "pool_tail r rem s = (b, s')"
  shows "\<exists>qs. chain_at s' (p_next (pb s' r)) qs \<and> distinct (r # qs) \<and> set qs \<inter> in_pool sizes MEMP_PBUF_POOL s = {} \<and>
    in_pool sizes MEMP_PBUF_POOL s' = in_pool sizes MEMP_PBUF_POOL s \<union> set qs \<and> (\<forall>q \<in> set qs. fresh_pool s' q) \<and>
    (\<forall>x. x \<notin> set qs \<longrightarrow> x \<noteq> r \<longrightarrow> pb s' x = pb s x) \<and> (\<exists>nx. pb s' r = (pb s r)\<lparr>p_next := nx\<rparr>) \<and>
    lwip_ok sizes s' \<and> l_heap s' = l_heap s \<and> l_bytes s' = l_bytes s \<and> in_pool sizes MEMP_PBUF s' = in_pool sizes MEMP_PBUF s \<and>
    (if b then tot_ok s' qs \<and> len_sum s' qs = rem
     else memp_taken sizes MEMP_PBUF_POOL (l_memp s') = memp_elems sizes MEMP_PBUF_POOL)"
  using assms
proof (induction rem arbitrary: r s rule: less_induct)
  case (less rem)
  show ?case
  proof (cases "rem = 0")
    case True
    then have "b" "s' = s" using less.prems(5) by (auto simp: pool_tail.simps)
    then show ?thesis using less.prems True by (intro exI [of _ "[]"]) auto
  next
    case False
    obtain q t where qt: "memp_pbuf MEMP_PBUF_POOL s = (q, t)" by fastforce
    note m = memp_pbuf_ok [OF less.prems(1), of MEMP_PBUF_POOL, unfolded qt prod.case]
    show ?thesis
    proof (cases q)
      case None
      then have "\<not> b" "s' = s" using less.prems(5) False qt m by (auto simp: pool_tail.simps)
      then show ?thesis using less.prems None m by (intro exI [of _ "[]"]) auto
    next
      case (Some x)
      let ?P = "in_pool sizes MEMP_PBUF_POOL"
      define n where "n = min rem PBUF_POOL_BUFSIZE_ALIGNED"
      define u where "u = pb_upd x (\<lambda>b. b\<lparr>p_tot_len := of_nat rem, p_len := of_nat n,
          p_payload := Some (loc_add x (int SIZEOF_STRUCT_PBUF)), p_ref := 1\<rparr>) (pb_upd r (\<lambda>b. b\<lparr>p_next := Some x\<rparr>)
          (pb_upd x (\<lambda>b. b\<lparr>p_type := PBUF_POOL, p_flags := 0, p_next := None\<rparr>) t))"
      have t: "lwip_ok sizes t" "x \<notin> ?P s" "?P t = insert x (?P s)" "in_pool sizes MEMP_PBUF t = in_pool sizes MEMP_PBUF s"
        "l_pbufs t = l_pbufs s" "l_bytes t = l_bytes s" "l_heap t = l_heap s" using m Some by simp_all
      then have xr: "x \<noteq> r" using less.prems(2) by auto
      have u: "lwip_ok sizes u" "?P u = insert x (?P s)" "p_next (pb u x) = None"
        "in_pool sizes MEMP_PBUF u = in_pool sizes MEMP_PBUF s" "l_bytes u = l_bytes s" "l_heap u = l_heap s"
        using t xr by (simp_all add: u_def)
      have "pool_tail x (rem - n) u = (b, s')"
        using less.prems(5) False qt Some by (subst (asm) pool_tail.simps) (simp add: Let_def n_def u_def)
      moreover have "rem - n < rem" using False by (simp add: n_def)
      ultimately obtain qs where qs: "chain_at s' (p_next (pb s' x)) qs" "distinct (x # qs)" "set qs \<inter> ?P u = {}" "?P s' = ?P u \<union> set qs"
        "\<forall>q \<in> set qs. fresh_pool s' q" "\<forall>y. y \<notin> set qs \<longrightarrow> y \<noteq> x \<longrightarrow> pb s' y = pb u y"
        "\<exists>nx. pb s' x = (pb u x)\<lparr>p_next := nx\<rparr>" "lwip_ok sizes s'" "l_heap s' = l_heap u" "l_bytes s' = l_bytes u"
        "in_pool sizes MEMP_PBUF s' = in_pool sizes MEMP_PBUF u"
        "if b then tot_ok s' qs \<and> len_sum s' qs = rem - n
         else memp_taken sizes MEMP_PBUF_POOL (l_memp s') = memp_elems sizes MEMP_PBUF_POOL"
        using less.IH [of "rem - n" u x] u(1-3) less.prems(4) by auto
      have r: "r \<notin> set qs" using qs(3) u(2) less.prems(2) by auto
      have pr: "pb s' r = (pb s r)\<lparr>p_next := Some x\<rparr>" using qs(6) r xr t(5) by (simp add: u_def)
      have px: "p_tot_len (pb s' x) = of_nat rem" "p_len (pb s' x) = of_nat n" "fresh_pool s' x"
        using qs(7) xr t(5) by (auto simp: u_def fresh_pool_def n_def unat_of_nat)
      have n: "n < 2 ^ 16" "n \<le> rem" by (simp_all add: n_def)
      have "tot_ok s' (x # qs) \<and> len_sum s' (x # qs) = rem" if b
        using that qs(12) px n less.prems(4) by (simp add: unat_of_nat)
      moreover have "\<forall>y. y \<notin> set (x # qs) \<longrightarrow> y \<noteq> r \<longrightarrow> pb s' y = pb s y" using qs(6) t(5) by (simp add: u_def)
      ultimately show ?thesis using qs r xr pr px(3) u t(2)
        by (intro exI [of _ "x # qs"]) auto
    qed
  qed
qed

lemma in_pool_dvd:
  assumes "lwip_ok sizes s" and "q \<in> in_pool sizes t s"
  shows "\<exists>a. q = Memp a \<and> 4 dvd a"
proof -
  obtain a where a: "q = Memp (int a)" "a \<in> memp_elems sizes t" using assms(2) by (auto simp: in_pool_def memp_taken_def)
  have "4 dvd a" using memp_elems_dvd [OF _ a(2)] assms(1) by (simp add: lwip_ok_def)
  then have "int 4 dvd int a" unfolding of_nat_dvd_iff .
  with a(1) show ?thesis by simp
qed

text \<open>The payload of the first buffer stays inside the buffer of the pool.\<close>

lemma pool_head_fits:
  assumes "4 dvd a" "p_payload (pb s (Memp a)) = Some (loc_align (loc_add (Memp a) (int (SIZEOF_STRUCT_PBUF + pbuf_offset layer))))"
    "unat (p_len (pb s (Memp a))) \<le> PBUF_POOL_BUFSIZE_ALIGNED - align_size (pbuf_offset layer)"
  shows "payload_area s (Memp a) \<subseteq> area (loc_add (Memp a) (int SIZEOF_STRUCT_PBUF)) PBUF_POOL_BUFSIZE_ALIGNED"
proof -
  have "(a + (16 + int (pbuf_offset layer)) + 3) div 4 * 4 = a + 16 + int (align_size (pbuf_offset layer))"
    using assms(1) by (cases layer) (auto simp: align_size_def)
  then have "p_payload (pb s (Memp a)) = Some (loc_add (loc_add (Memp a) 16) (int (align_size (pbuf_offset layer))))"
    using assms(2) by simp
  moreover have "align_size (pbuf_offset layer) \<le> 56" by (cases layer) (simp_all add: align_size_def)
  ultimately show ?thesis
    using area_shift [of "align_size (pbuf_offset layer)" "unat (p_len (pb s (Memp a)))" 1500 "loc_add (Memp a) 16"] assms(3)
    by (simp add: payload_area_def)
qed

lemma fresh_pool_fits: "fresh_pool s q \<Longrightarrow> payload_area s q \<subseteq> area (loc_add q (int SIZEOF_STRUCT_PBUF)) PBUF_POOL_BUFSIZE_ALIGNED"
  using area_mono by (auto simp: fresh_pool_def payload_area_def)

text \<open>What \<open>pbuf_alloc\<close> promises for a chain of the pool.\<close>

definition pool_chain :: "(memp_t \<Rightarrow> nat) \<Rightarrow> lwip \<Rightarrow> lwip \<Rightarrow> nat \<Rightarrow> loc list \<Rightarrow> bool" where
  "pool_chain sizes s s' n ps \<longleftrightarrow> ps \<noteq> [] \<and> chain_at s' (Some (hd ps)) ps \<and> distinct ps \<and> tot_ok s' ps \<and>
     payloads s' ps \<and> len_sum s' ps = n \<and> pbuf_live sizes s' = pbuf_live sizes s \<union> set ps \<and> pbuf_live sizes s \<inter> set ps = {} \<and>
     (\<forall>q \<in> set ps. owned sizes s' q \<and> p_type (pb s' q) = PBUF_POOL \<and> p_ref (pb s' q) = 1 \<and>
       payload_area s' q \<subseteq> area (loc_add q (int SIZEOF_STRUCT_PBUF)) PBUF_POOL_BUFSIZE_ALIGNED)"

lemma pool_live_fresh:
  assumes "lwip_ok sizes s'" and "set ps \<subseteq> in_pool sizes MEMP_PBUF_POOL s'" "set ps \<inter> in_pool sizes MEMP_PBUF_POOL s = {}"
    and "in_pool sizes MEMP_PBUF s' = in_pool sizes MEMP_PBUF s" "in_heap s' = in_heap s"
  shows "pbuf_live sizes s \<inter> set ps = {}"
proof -
  have "in_pool sizes MEMP_PBUF_POOL s' \<inter> in_pool sizes MEMP_PBUF s' = {}" by (rule pools_apart [OF assms(1)]) simp
  moreover have "in_pool sizes MEMP_PBUF_POOL s' \<inter> in_heap s' = {}" by (auto simp: in_pool_def in_heap_def)
  ultimately show ?thesis using assms(2-5) by (auto simp: pbuf_live_def)
qed

lemma u16_less: "unat (w :: u16) < 65536"
proof -
  have "unat w < 2 ^ LENGTH(16)" by (rule unsigned_less)
  then show ?thesis by simp
qed

lemma pool_chain_flags:
  assumes "pool_chain sizes s v n ps"
  shows "pool_chain sizes s (pb_upd p (\<lambda>b. b\<lparr>p_ref := 1, p_flags := 0\<rparr>) v) n ps"
proof -
  let ?v = "pb_upd p (\<lambda>b. b\<lparr>p_ref := 1, p_flags := 0\<rparr>) v"
  note c = assms [unfolded pool_chain_def]
  have "chain_at ?v (Some (hd ps)) ps" using c by (auto intro: chain_at_cong)
  moreover have "tot_ok ?v ps" using c by (auto intro: tot_ok_cong)
  moreover have "len_sum ?v ps = n" using c sum_cong_list [of ps "\<lambda>y. unat (p_len (pb ?v y))" "\<lambda>y. unat (p_len (pb v y))"] by simp
  moreover have "payloads ?v ps" using c by (simp add: payloads_def)
  moreover have "payload_area ?v q = payload_area v q" for q by (simp add: payload_area_def split: option.splits)
  moreover have "owned sizes ?v q = owned sizes v q" for q by (rule owned_upd) simp
  ultimately show ?thesis using c by (simp add: pool_chain_def)
qed

text \<open>The payloads of a chain of the pool do not overlap when the elements of the pool have their size.\<close>

lemma payloads_apart_distinct:
  assumes "distinct ps" "\<And>x y. x \<in> set ps \<Longrightarrow> y \<in> set ps \<Longrightarrow> x \<noteq> y \<Longrightarrow> payload_area s x \<inter> payload_area s y = {}"
  shows "payloads_apart s ps"
  using assms
proof (induction ps)
  case (Cons x ps)
  then have "payloads_apart s ps" by simp
  moreover have "\<forall>y \<in> set ps. payload_area s x \<inter> payload_area s y = {}" using Cons.prems by fastforce
  ultimately show ?case by simp
qed simp

lemma pool_chain_apart:
  assumes "pool_chain sizes s s' n ps" and "SIZEOF_STRUCT_PBUF + PBUF_POOL_BUFSIZE_ALIGNED \<le> sizes MEMP_PBUF_POOL"
  shows "payloads_apart s' ps"
proof (rule payloads_apart_distinct)
  show "distinct ps" using assms(1) by (simp add: pool_chain_def)
  fix x y assume xy: "x \<in> set ps" "y \<in> set ps" "x \<noteq> y"
  have home: "\<exists>a. q = Memp (int a) \<and> a \<in> memp_elems sizes MEMP_PBUF_POOL \<and> payload_area s' q \<subseteq> area (Memp (int a + 16)) 1500" if "q \<in> set ps" for q
    using assms(1) that by (fastforce simp: pool_chain_def owned_def pbuf_home_def in_pool_def memp_taken_def)
  obtain a b where ab: "x = Memp (int a)" "y = Memp (int b)" "a \<in> memp_elems sizes MEMP_PBUF_POOL" "b \<in> memp_elems sizes MEMP_PBUF_POOL"
    "payload_area s' x \<subseteq> area (Memp (int a + 16)) 1500" "payload_area s' y \<subseteq> area (Memp (int b + 16)) 1500"
    using home [OF xy(1)] home [OF xy(2)] by blast
  have "a + sizes MEMP_PBUF_POOL \<le> b \<or> b + sizes MEMP_PBUF_POOL \<le> a" by (rule memp_elems_apart) (use ab xy(3) in auto)
  then have "a + 1516 \<le> b \<or> b + 1516 \<le> a" using assms(2) by auto
  then have "area (Memp (int a + 16)) 1500 \<inter> area (Memp (int b + 16)) 1500 = {}" by (auto simp: area_def)
  then show "payload_area s' x \<inter> payload_area s' y = {}" using ab(5,6) by blast
qed

lemma ones_all: "\<forall>x \<in> set ps. p_ref (pb s x) = 1 \<Longrightarrow> ones s ps = length ps"
  by (simp add: ones_def takeWhile_eq_all_conv [THEN iffD2])

lemma pbuf_alloc_pool_ok:
  assumes "lwip_ok sizes s"
  shows "\<exists>r s'. pbuf_alloc layer len PBUF_POOL s = Some (r, s') \<and> lwip_ok sizes s' \<and> l_bytes s' = l_bytes s \<and>
    (case r of Some p \<Rightarrow> \<exists>qs. pool_chain sizes s s' (unat len) (p # qs)
     | None \<Rightarrow> pbuf_live sizes s' = pbuf_live sizes s)"
proof -
  obtain q t where qt: "memp_pbuf MEMP_PBUF_POOL s = (q, t)" by fastforce
  note m = memp_pbuf_ok [OF assms, of MEMP_PBUF_POOL, unfolded qt prod.case]
  show ?thesis
  proof (cases q)
    case None
    then show ?thesis using qt m assms by (simp add: pbuf_alloc_def)
  next
    case (Some p)
    let ?P = "in_pool sizes MEMP_PBUF_POOL"
    define n where "n = min (unat len) (PBUF_POOL_BUFSIZE_ALIGNED - align_size (pbuf_offset layer))"
    define u where "u = pb_upd p (\<lambda>b. b\<lparr>p_type := PBUF_POOL, p_next := None,
        p_payload := Some (loc_align (loc_add p (int (SIZEOF_STRUCT_PBUF + pbuf_offset layer)))),
        p_tot_len := len, p_len := of_nat n, p_ref := 1\<rparr>) t"
    have t: "lwip_ok sizes t" "p \<notin> ?P s" "?P t = insert p (?P s)" "in_pool sizes MEMP_PBUF t = in_pool sizes MEMP_PBUF s"
      "l_bytes t = l_bytes s" "l_heap t = l_heap s" using m Some by simp_all
    obtain b v where bv: "pool_tail p (unat len - n) u = (b, v)" by fastforce
    have "lwip_ok sizes u" "p \<in> ?P u" "p_next (pb u p) = None" "unat len - n < 2 ^ 16"
      using t u16_less [of len] by (simp_all add: u_def)
    from pool_tail_ok [OF this bv] obtain qs where qs: "chain_at v (p_next (pb v p)) qs" "distinct (p # qs)" "set qs \<inter> ?P u = {}"
      "?P v = ?P u \<union> set qs" "\<forall>q \<in> set qs. fresh_pool v q" "\<exists>nx. pb v p = (pb u p)\<lparr>p_next := nx\<rparr>"
      "lwip_ok sizes v" "l_heap v = l_heap u" "l_bytes v = l_bytes u" "in_pool sizes MEMP_PBUF v = in_pool sizes MEMP_PBUF u"
      "if b then tot_ok v qs \<and> len_sum v qs = unat len - n
       else memp_taken sizes MEMP_PBUF_POOL (l_memp v) = memp_elems sizes MEMP_PBUF_POOL"
      by blast
    have vp: "p_type (pb v p) = PBUF_POOL" "p_ref (pb v p) = 1" "p_tot_len (pb v p) = len" "p_len (pb v p) = of_nat n"
      "p_payload (pb v p) = Some (loc_align (loc_add p (int (SIZEOF_STRUCT_PBUF + pbuf_offset layer))))"
      using qs(6) by (auto simp: u_def)
    have n: "n \<le> unat len" "n \<le> PBUF_POOL_BUFSIZE_ALIGNED - align_size (pbuf_offset layer)" "unat (of_nat n :: u16) = n"
      using u16_less [of len] by (auto simp: n_def unat_of_nat)
    have sub: "set (p # qs) \<subseteq> ?P v" and new: "set (p # qs) \<inter> ?P s = {}" using qs(3,4) t(2,3) by (auto simp: u_def)
    have ty: "\<forall>x \<in> set (p # qs). p_type (pb v x) = PBUF_POOL \<and> p_ref (pb v x) = 1" using vp qs(5) by (auto simp: fresh_pool_def)
    then have own: "\<forall>x \<in> set (p # qs). owned sizes v x" using sub by (auto simp: owned_def pbuf_home_def)
    have heap: "in_pool sizes MEMP_PBUF v = in_pool sizes MEMP_PBUF s" "in_heap v = in_heap s" "l_heap v = l_heap s" "l_bytes v = l_bytes s"
      using qs(8-10) t(4-6) by (simp_all add: u_def in_heap_def)
    have live: "pbuf_live sizes v = pbuf_live sizes s \<union> set (p # qs)" using qs(4) t(3) heap by (auto simp: pbuf_live_def u_def)
    have fresh: "pbuf_live sizes s \<inter> set (p # qs) = {}"
      by (rule pool_live_fresh [OF qs(7) sub new heap(1,2)])
    have ch: "chain_at v (Some p) (p # qs)" using qs(1) by simp
    show ?thesis
    proof (cases b)
      case True
      obtain a where a: "p = Memp a" "4 dvd a" using in_pool_dvd [OF qs(7), of p] sub by auto
      have "payload_area v p \<subseteq> area (loc_add p (int SIZEOF_STRUCT_PBUF)) PBUF_POOL_BUFSIZE_ALIGNED"
        unfolding a(1) by (rule pool_head_fits [OF a(2)]) (use vp n a(1) in simp_all)
      moreover have "\<forall>q \<in> set qs. payload_area v q \<subseteq> area (loc_add q (int SIZEOF_STRUCT_PBUF)) PBUF_POOL_BUFSIZE_ALIGNED"
        using qs(5) fresh_pool_fits by blast
      moreover have "payloads v (p # qs)" using vp qs(5) by (auto simp: payloads_def fresh_pool_def)
      moreover have "tot_ok v (p # qs)" "len_sum v (p # qs) = unat len" using True qs(11) vp n by simp_all
      ultimately have "pool_chain sizes s v (unat len) (p # qs)"
        using ch qs(2) live fresh own ty by (simp add: pool_chain_def)
      note pool_chain_flags [OF this, of p]
      moreover have "pbuf_alloc layer len PBUF_POOL s = Some (Some p, pb_upd p (\<lambda>b. b\<lparr>p_ref := 1, p_flags := 0\<rparr>) v)"
        using qt Some bv True by (simp add: pbuf_alloc_def Let_def n_def u_def)
      ultimately show ?thesis using qs(7) heap by auto
    next
      case False
      from pbuf_free_loop_ok [OF qs(7) ch qs(2) own, of 0] ones_all [of "p # qs" v] ty
      obtain w c where w: "pbuf_free_loop (Some p) 0 v = Some (c, w)" "lwip_ok sizes w" "l_bytes w = l_bytes v"
        "pbuf_live sizes w = pbuf_live sizes v - set (p # qs)" by auto
      moreover have "pbuf_alloc layer len PBUF_POOL s = Some (None, w)"
        using qt Some bv False w(1) by (simp add: pbuf_alloc_def Let_def n_def u_def pbuf_free_def)
      moreover have "pbuf_live sizes v - set (p # qs) = pbuf_live sizes s" using live fresh by auto
      ultimately show ?thesis using heap by auto
    qed
  qed
qed

section \<open>Allocation in the heap\<close>

lemma align_size_le: "n \<le> align_size n" "align_size n \<le> n + 3"
  by (simp_all add: align_size_def)

lemma pbuf_alloc_ram_ok:
  assumes "lwip_ok sizes s" and "unat len \<le> 65460" and "pbuf_alloc layer len PBUF_RAM s = Some (Some p, s')"
  shows "\<exists>d e. p = Ram (int d) \<and> used_areas (l_heap s') = insert (d, e) (used_areas (l_heap s)) \<and> d \<notin> heap_live (l_heap s) \<and>
    lwip_ok sizes s' \<and> p_len (pb s' p) = len \<and> p_tot_len (pb s' p) = len \<and> p_next (pb s' p) = None \<and> p_ref (pb s' p) = 1 \<and>
    payload_area s' p \<subseteq> area (Ram (int d + 16)) (e - d - 16)"
proof -
  let ?off = "pbuf_offset layer"
  let ?n = "align_size (SIZEOF_STRUCT_PBUF + ?off) + align_size (unat len)"
  have off: "align_size (16 + ?off) \<le> 72" "16 \<le> align_size (16 + ?off)" "align_size (16 + ?off) = 16 + align_size ?off"
    by (cases layer; simp add: align_size_def)+
  have len: "align_size (unat len) \<le> 65460" using assms(2) by (simp add: align_size_def)
  have n: "unat (of_nat ?n :: u16) = ?n" "(of_nat ?n :: u16) \<noteq> 0" "?n \<le> 65532"
  proof -
    show "?n \<le> 65532" using off(1) len by simp
    then show "unat (of_nat ?n :: u16) = ?n" by (simp add: unat_of_nat del: of_nat_add)
    then show "(of_nat ?n :: u16) \<noteq> 0" using off(2) by (metis SIZEOF_STRUCT_PBUF_def add_is_0 not_numeral_le_zero unsigned_0)
  qed
  obtain d h where d: "mem_malloc (of_nat ?n) (l_heap s) = Some (Some d, h)" "p = Ram (int d)"
    "s' = pb_upd p (\<lambda>b. b\<lparr>p_ref := 1, p_flags := 0\<rparr>) (pb_upd p (\<lambda>b. b\<lparr>p_payload := Some (loc_align (loc_add p (int (SIZEOF_STRUCT_PBUF + ?off)))),
       p_len := len, p_tot_len := len, p_next := None, p_type := PBUF_RAM\<rparr>) (s\<lparr>l_heap := h\<rparr>))"
    using assms(3) by (auto simp: pbuf_alloc_def Let_def split: option.splits)
  have h: "l_heap s' = h" by (simp add: d(3))
  have ok: "heap_ok (l_heap s)" using assms(1) by (simp add: lwip_ok_def)
  from mem_malloc_ok [OF ok n(2)] d(1) h obtain e where e: "heap_ok (l_heap s')" "used_areas (l_heap s') = insert (d, e) (used_areas (l_heap s))"
    "d \<notin> heap_live (l_heap s)" "d + mem_request (of_nat ?n) \<le> e" by (auto simp: heap_live_def)
  have "?n \<le> mem_request (of_nat ?n)" using mem_request_ok(3) [of "of_nat ?n"] n by simp
  then have room: "d + ?n \<le> e" using e(4) by simp
  have "4 dvd d" using areas_bounds [OF e(1), of d e] e(2) by simp
  then obtain k where k: "d = 4 * k" by (rule dvdE)
  have align: "(int d + (16 + int ?off) + 3) div 4 * 4 = int (d + align_size (16 + ?off))"
    by (cases layer) (simp_all add: k align_size_def)
  have pay: "p_payload (pb s' p) = Some (Ram (int (d + align_size (16 + ?off))))" "p_len (pb s' p) = len" "p_tot_len (pb s' p) = len"
    "p_next (pb s' p) = None" "p_ref (pb s' p) = 1"
    using d(2) align by (simp_all add: d(3))
  have "payload_area s' p \<subseteq> area (Ram (int d + 16)) (e - d - 16)"
    using area_shift [of "align_size ?off" "unat len" "e - d - 16" "Ram (int d + 16)"] room off(3) align_size_le(1) [of "unat len"] pay
    by (simp add: payload_area_def ac_simps)
  moreover have "lwip_ok sizes s'"
    using assms(1) e(1) h by (simp add: d(3) lwip_ok_def)
  ultimately show ?thesis using d(2) e(2,3) pay by blast
qed

section \<open>Properties\<close>

text \<open>C13: \<open>pbuf_copy_partial\<close> is the same as slicing the concatenated data of the chain: it copies the bytes
  from the offset on, at most as many as asked for, however they are distributed over the buffers,
  returns their number, and writes nothing else.\<close>

theorem pbuf_copy_partial_data:
  assumes "chain_at s (Some buf) ps" and "payloads s ps" and "(\<Union>x \<in> set ps. payload_area s x) \<inter> area d (unat len) = {}"
  shows "pbuf_copy_partial (Some buf) (Some d) len offset s =
    (let xs = take (unat len) (drop (unat offset) (chain_data s ps))
     in Some (of_nat (length xs), s\<lparr>l_bytes := put_at d xs (l_bytes s)\<rparr>))"
  using copy_partial_loop_ok [OF assms(1,2), of d 0 "unat len" "unat offset"] assms(3)
  by (simp add: pbuf_copy_partial_def Let_def)

text \<open>C14: \<open>pbuf_take\<close> fills a chain with the data it is given, and \<open>pbuf_copy_partial\<close> gets them back: into
  a chain that is long enough the call succeeds, the chain starts with the data and keeps the rest, and
  copying as many bytes out of it elsewhere yields the data again.\<close>

theorem pbuf_take_roundtrip:
  assumes "chain_at s (Some buf) (buf # qs)" "payloads s (buf # qs)" "payloads_apart s (buf # qs)" "tot_ok s (buf # qs)"
    and "len \<le> p_tot_len (pb s buf)"
    and "(\<Union>x \<in> set (buf # qs). payload_area s x) \<inter> area d (unat len) = {}"
    and "(\<Union>x \<in> set (buf # qs). payload_area s x) \<inter> area d' (unat len) = {}"
  shows "\<exists>s1 s2. pbuf_take (Some buf) (Some d) len s = Some (ERR_OK, s1) \<and>
    chain_data s1 (buf # qs) = read_at (l_bytes s) d (unat len) @ drop (unat len) (chain_data s (buf # qs)) \<and>
    pbuf_copy_partial (Some buf) (Some d') len 0 s1 = Some (len, s2) \<and>
    read_at (l_bytes s2) d' (unat len) = read_at (l_bytes s) d (unat len)"
proof -
  have len: "unat len \<le> length (chain_data s (buf # qs))"
    using assms(4,5) length_chain_data [OF assms(2)] by (simp add: word_le_nat_alt)
  from take_loop_ok [OF assms(1-3), of d 0 "unat len"] assms(6) len obtain m where
    m: "take_loop (Some buf) d (unat len) 0 s = Some (s\<lparr>l_bytes := m\<rparr>)"
    "chain_data (s\<lparr>l_bytes := m\<rparr>) (buf # qs) = read_at (l_bytes s) d (unat len) @ drop (unat len) (chain_data s (buf # qs))"
    by auto
  let ?s = "s\<lparr>l_bytes := m\<rparr>"
  have xs: "take (unat len) (drop 0 (chain_data ?s (buf # qs))) = read_at (l_bytes s) d (unat len)" by (simp add: m(2))
  have "copy_partial_loop (Some buf) d' (unat len) 0 0 ?s =
      Some (unat len, ?s\<lparr>l_bytes := put_at d' (read_at (l_bytes s) d (unat len)) m\<rparr>)"
    using copy_partial_loop_ok [of ?s "Some buf" "buf # qs" d' 0 "unat len" 0] assms(1,2,7) unfolding xs by simp
  then have "pbuf_copy_partial (Some buf) (Some d') len 0 ?s =
      Some (len, ?s\<lparr>l_bytes := put_at d' (read_at (l_bytes s) d (unat len)) m\<rparr>)"
    by (simp add: pbuf_copy_partial_def)
  moreover have "pbuf_take (Some buf) (Some d) len s = Some (ERR_OK, ?s)"
    using assms(5) m(1) by (simp add: pbuf_take_def)
  moreover have "read_at (put_at d' (read_at (l_bytes s) d (unat len)) m) d' (unat len) = read_at (l_bytes s) d (unat len)"
    using read_put [of "read_at (l_bytes s) d (unat len)" "unat len" d' m] by simp
  ultimately show ?thesis using m(2) by auto
qed

text \<open>C15: \<open>pbuf_free\<close> of a chain always returns. It gives back exactly the buffers at its front that have
  a single reference, takes one reference off the next one, changes nothing else, and returns how many
  it gave back.\<close>

theorem pbuf_free_counts:
  assumes "lwip_ok sizes s" and "chain_at s (Some p) ps" "distinct ps" and "\<forall>x \<in> set ps. owned sizes s x"
  shows "\<exists>s'. pbuf_free (Some p) s = Some (of_nat (ones s ps), s') \<and> lwip_ok sizes s' \<and> l_bytes s' = l_bytes s \<and>
    pbuf_live sizes s' = pbuf_live sizes s - set (take (ones s ps) ps) \<and>
    (\<forall>q. pb s' q = (pb s q)\<lparr>p_ref := refs_after s ps q\<rparr>)"
  using pbuf_free_loop_ok [OF assms, of 0] by (auto simp: pbuf_free_def)

text \<open>C16: \<open>pbuf_alloc\<close> from the pool gives either a chain of fresh buffers of exactly the requested total
  length, every payload inside its buffer and every total length the sum of the lengths from there on,
  or null, and then everything that was taken for the chain has been given back.\<close>

theorem pbuf_alloc_pool_contract:
  assumes "lwip_ok sizes s"
  shows "\<exists>r s'. pbuf_alloc layer len PBUF_POOL s = Some (r, s') \<and> lwip_ok sizes s' \<and> l_bytes s' = l_bytes s \<and>
    (case r of Some p \<Rightarrow> \<exists>qs. pool_chain sizes s s' (unat len) (p # qs)
     | None \<Rightarrow> pbuf_live sizes s' = pbuf_live sizes s)"
  using pbuf_alloc_pool_ok [OF assms] .

lemma malloc_72: "\<exists>g. mem_malloc 72 (mem_init h) = Some (Some 8, g) \<and> used_areas g = {(8, 80)}"
  by (simp add: heap_eval) (auto simp: used_areas_def blocks_def blocks_from.simps)

text \<open>C17: A buffer that \<open>pbuf_alloc\<close> puts into the heap has its payload inside a block of its own, for lengths
  up to 65460. Beyond, the size of the block is computed modulo 65536: on a fresh heap a buffer of 65535
  bytes gets a block of 72 bytes, the room for its headers.\<close>

theorem pbuf_alloc_ram_bounds:
  assumes "lwip_ok sizes s" and "unat len \<le> 65460" and "pbuf_alloc layer len PBUF_RAM s = Some (Some p, s')"
  shows "(\<exists>d e. p = Ram (int d) \<and> used_areas (l_heap s') = insert (d, e) (used_areas (l_heap s)) \<and> d \<notin> heap_live (l_heap s) \<and>
      lwip_ok sizes s' \<and> p_len (pb s' p) = len \<and> payload_area s' p \<subseteq> area (Ram (int d + 16)) (e - d - 16)) \<and>
    (\<exists>t. pbuf_alloc PBUF_TRANSPORT 0xFFFF PBUF_RAM (s\<lparr>l_heap := mem_init h\<rparr>) = Some (Some (Ram 8), t) \<and>
      p_len (pb t (Ram 8)) = 0xFFFF \<and> used_areas (l_heap t) = {(8, 80)})"
proof
  show "\<exists>d e. p = Ram (int d) \<and> used_areas (l_heap s') = insert (d, e) (used_areas (l_heap s)) \<and> d \<notin> heap_live (l_heap s) \<and>
      lwip_ok sizes s' \<and> p_len (pb s' p) = len \<and> payload_area s' p \<subseteq> area (Ram (int d + 16)) (e - d - 16)"
    using pbuf_alloc_ram_ok [OF assms] by blast
  show "\<exists>t. pbuf_alloc PBUF_TRANSPORT 0xFFFF PBUF_RAM (s\<lparr>l_heap := mem_init h\<rparr>) = Some (Some (Ram 8), t) \<and>
      p_len (pb t (Ram 8)) = 0xFFFF \<and> used_areas (l_heap t) = {(8, 80)}"
  proof -
    obtain g where "mem_malloc 72 (mem_init h) = Some (Some 8, g)" "used_areas g = {(8, 80)}" using malloc_72 by blast
    moreover have "(65608 :: u16) = 72" by simp
    ultimately have "mem_malloc 65608 (mem_init h) = Some (Some 8, g)" "used_areas g = {(8, 80)}" by (simp_all only:)
    then show ?thesis by (simp add: pbuf_alloc_def align_size_def Let_def)
  qed
qed

section \<open>Witnesses\<close>

text \<open>Two buffers of the heap, the second with a second reference; their data lie outside.\<close>

definition pbuf_a :: pbuf where
  "pbuf_a = \<lparr>p_next = Some (Ram 116), p_payload = Some (Ext 0), p_tot_len = 5, p_len = 3, p_type = PBUF_RAM, p_flags = 0, p_ref = 1\<rparr>"

definition pbuf_b :: pbuf where
  "pbuf_b = \<lparr>p_next = None, p_payload = Some (Ext 10), p_tot_len = 2, p_len = 2, p_type = PBUF_RAM, p_flags = 0, p_ref = 2\<rparr>"

definition lwip_a :: lwip where
  "lwip_a = \<lparr>l_heap = heap_b heap0, l_memp = memp_init (\<lambda>_. 1516) \<lparr>memp_tab = Map.empty, memp_next = Map.empty\<rparr>,
     l_pbufs = (\<lambda>p. if p = Ram 8 then pbuf_a else pbuf_b), l_bytes = (\<lambda>l. of_int (loc_off l))\<rparr>"

lemma lwip_a_ok: "lwip_ok (\<lambda>_. 1516) lwip_a"
  using heap_reach_ok [OF heap_b_reach] memp_init_ok(1) [of "\<lambda>_. 1516"] by (simp add: lwip_ok_def lwip_a_def memp_sizes_ok_def)

lemma lwip_a_chain:
  "chain_at lwip_a (Some (Ram 8)) [Ram 8, Ram 116]" "payloads lwip_a [Ram 8, Ram 116]" "payloads_apart lwip_a [Ram 8, Ram 116]"
  "tot_ok lwip_a [Ram 8, Ram 116]" "ones lwip_a [Ram 8, Ram 116] = 1" "\<forall>x \<in> set [Ram 8, Ram 116]. owned (\<lambda>_. 1516) lwip_a x"
  "chain_data lwip_a [Ram 8, Ram 116] = [0, 1, 2, 10, 11]"
  "(\<Union>x \<in> set [Ram 8, Ram 116]. payload_area lwip_a x) \<inter> area (Ext 100) 4 = {}"
  "(\<Union>x \<in> set [Ram 8, Ram 116]. payload_area lwip_a x) \<inter> area (Ext 200) 4 = {}"
proof -
  have live: "heap_live (l_heap lwip_a) = {8, 116}" using heap_b_eval(2) by (simp add: heap_live_def lwip_a_def)
  then show "\<forall>x \<in> set [Ram 8, Ram 116]. owned (\<lambda>_. 1516) lwip_a x"
    by (auto simp: owned_def pbuf_home_def in_heap_def lwip_a_def pbuf_a_def pbuf_b_def)
  show "chain_data lwip_a [Ram 8, Ram 116] = [0, 1, 2, 10, 11]"
    by (simp add: chain_data_def pdata_def read_at_def lwip_a_def pbuf_a_def pbuf_b_def upt_rec)
qed (simp_all add: lwip_a_def pbuf_a_def pbuf_b_def payloads_def payload_area_def ones_def area_list upt_rec)

theorem pbuf_copy_partial_data_witness:
  "pbuf_copy_partial (Some (Ram 8)) (Some (Ext 100)) 4 2 lwip_a =
     Some (3, lwip_a\<lparr>l_bytes := put_at (Ext 100) [2, 10, 11] (l_bytes lwip_a)\<rparr>)"
  using pbuf_copy_partial_data [OF lwip_a_chain(1,2), of "Ext 100" 4 2] lwip_a_chain(7,8) by simp

theorem pbuf_take_roundtrip_witness:
  "\<exists>s1 s2. pbuf_take (Some (Ram 8)) (Some (Ext 100)) 4 lwip_a = Some (ERR_OK, s1) \<and>
     chain_data s1 [Ram 8, Ram 116] = [100, 101, 102, 103, 11] \<and>
     pbuf_copy_partial (Some (Ram 8)) (Some (Ext 200)) 4 0 s1 = Some (4, s2) \<and>
     read_at (l_bytes s2) (Ext 200) 4 = [100, 101, 102, 103]"
proof -
  have "read_at (l_bytes lwip_a) (Ext 100) 4 = [100, 101, 102, 103]" "4 \<le> p_tot_len (pb lwip_a (Ram 8))"
    by (simp_all add: read_at_def lwip_a_def pbuf_a_def upt_rec)
  then show ?thesis
    using pbuf_take_roundtrip [OF lwip_a_chain(1-4), of 4 "Ext 100" "Ext 200"] lwip_a_chain(7-9) by simp
qed

theorem pbuf_free_counts_witness:
  "\<exists>s'. pbuf_free (Some (Ram 8)) lwip_a = Some (1, s') \<and> p_ref (pb s' (Ram 116)) = 1 \<and>
     pbuf_live (\<lambda>_. 1516) s' = pbuf_live (\<lambda>_. 1516) lwip_a - {Ram 8}"
proof -
  have "p_ref (pb lwip_a (Ram 116)) = 2" by (simp add: lwip_a_def pbuf_b_def)
  then have "refs_after lwip_a [Ram 8, Ram 116] (Ram 116) = 1"
    by (simp add: refs_after_def lwip_a_chain(5))
  then show ?thesis
    using pbuf_free_counts [OF lwip_a_ok lwip_a_chain(1) _ lwip_a_chain(6)] lwip_a_chain(5) by auto
qed

theorem pbuf_alloc_pool_contract_witness:
  "\<exists>r s'. pbuf_alloc PBUF_RAW 3000 PBUF_POOL lwip_a = Some (r, s') \<and> lwip_ok (\<lambda>_. 1516) s' \<and>
     (case r of Some p \<Rightarrow> \<exists>qs. pool_chain (\<lambda>_. 1516) lwip_a s' 3000 (p # qs)
      | None \<Rightarrow> pbuf_live (\<lambda>_. 1516) s' = pbuf_live (\<lambda>_. 1516) lwip_a)"
  using pbuf_alloc_pool_contract [OF lwip_a_ok, of PBUF_RAW 3000] by (simp cong: option.case_cong) blast

theorem pbuf_alloc_ram_bounds_witness:
  "\<exists>p s' d e. pbuf_alloc PBUF_RAW 84 PBUF_RAM (lwip_a\<lparr>l_heap := mem_init heap0\<rparr>) = Some (Some p, s') \<and>
     p_len (pb s' p) = 84 \<and> payload_area s' p \<subseteq> area (Ram (int d + 16)) (e - d - 16)"
proof -
  let ?s = "lwip_a\<lparr>l_heap := mem_init heap0\<rparr>"
  have ok: "lwip_ok (\<lambda>_. 1516) ?s" using lwip_a_ok mem_init_ok(1) by (simp add: lwip_ok_def)
  have "\<exists>s'. pbuf_alloc PBUF_RAW 84 PBUF_RAM ?s = Some (Some (Ram 8), s')"
    using heap_a_eval(1) [of heap0] by (simp add: pbuf_alloc_def align_size_def Let_def)
  then obtain s' where s': "pbuf_alloc PBUF_RAW 84 PBUF_RAM ?s = Some (Some (Ram 8), s')" by blast
  have "unat (84 :: u16) \<le> 65460" by simp
  from pbuf_alloc_ram_bounds [OF ok this s', of heap0, THEN conjunct1] s' show ?thesis by blast
qed

end
