(* ===== verification/Net.thy ===== *)
theory Net
  imports Pbuf
begin

text \<open>
  The state that the layers of lwIP above the packet buffers share, as the updater configures the stack: the UDP
  control blocks, the network interfaces, the ARP table, the raw control blocks, the datagrams that are being
  reassembled, and the state of what lies below, a type parameter.
  The addresses of \<open>ip_addr.h\<close> and \<open>ip_addr.c\<close>, the choice of a route in \<open>ip.c\<close>, the interface functions of
  \<open>netif.c\<close> that do not send, and the access to header fields. The firmware opens no TCP connection, so the
  lists of TCP control blocks that \<open>netif_set_ipaddr\<close> walks through are empty and no part of the state.
\<close>

unbundle bit_operations_syntax

section \<open>Control blocks, interfaces and the ARP table\<close>

text \<open>The last argument of a control block names the receive callback.\<close>

record 'c udp_pcb =
  local_ip :: u32
  remote_ip :: u32
  u_tos :: u8
  u_ttl :: u8
  u_next :: "nat option"
  u_flags :: u8
  local_port :: u16
  remote_port :: u16
  recv :: "'c option"
  recv_arg :: "loc option"

text \<open>An interface; its function pointers are set once, by \<open>netif_add\<close> and \<open>ethernetif_init\<close>, and are
  no part of it.\<close>

record netif =
  if_next :: "nat option"
  if_ip :: u32
  if_netmask :: u32
  if_gw :: u32
  if_dhcp_pcb :: "nat option"
  if_state :: "nat option"
  if_hwaddr_len :: u8
  if_hwaddr :: "u8 list"
  if_mtu :: u16
  if_flags :: u8
  if_name :: "char \<times> char"
  if_num :: u8

datatype etharp_state = ETHARP_STATE_EMPTY | ETHARP_STATE_PENDING | ETHARP_STATE_STABLE

record etharp_entry =
  arp_q :: "nat option"
  arp_ip :: u32
  arp_eth :: "u8 list"
  arp_state :: etharp_state
  arp_ctime :: u8
  arp_netif :: "nat option"

record etharp_q_entry =
  q_next :: "nat option"
  q_p :: loc

record 'c raw_pcb =
  r_local_ip :: u32
  r_remote_ip :: u32
  r_tos :: u8
  r_ttl :: u8
  r_next :: "nat option"
  r_protocol :: u8
  r_recv :: "'c option"
  r_recv_arg :: "loc option"

text \<open>A datagram that is being put together from fragments, with the header of its first fragment.\<close>

record ip_reassdata =
  ir_next :: "nat option"
  ir_p :: "loc option"
  ir_iphdr :: "u8 list"
  ir_datagram_len :: u16
  ir_flags :: u8
  ir_timer :: u8

text \<open>The whole state. A pointer that the code stores inside a packet (\<open>next_pbuf\<close> of a fragment) is kept in
  \<open>n_ptr\<close>, under the place it is stored at, since the bytes of a packet hold no pointers.\<close>

record ('c, 'h) net =
  n_lwip :: lwip
  udp_pcbs :: "nat option"
  n_pcb :: "nat \<Rightarrow> 'c udp_pcb"
  netif_list :: "nat option"
  netif_default :: "nat option"
  netifnum :: u8
  n_netif :: "nat \<Rightarrow> netif"
  arp_table :: "nat \<Rightarrow> etharp_entry"
  etharp_cached_entry :: nat
  n_q :: "nat \<Rightarrow> etharp_q_entry"
  ip_id :: u16
  current_netif :: "nat option"
  current_header :: "loc option"
  raw_pcbs :: "nat option"
  n_raw :: "nat \<Rightarrow> 'c raw_pcb"
  reassdatagrams :: "nat option"
  n_reass :: "nat \<Rightarrow> ip_reassdata"
  ip_reass_pbufcount :: u16
  n_ptr :: "loc \<Rightarrow> loc option"
  n_dev :: 'h

definition pcb_upd :: "nat \<Rightarrow> ('c udp_pcb \<Rightarrow> 'c udp_pcb) \<Rightarrow> ('c, 'h) net \<Rightarrow> ('c, 'h) net" where
  "pcb_upd p f s = s\<lparr>n_pcb := (n_pcb s)(p := f (n_pcb s p))\<rparr>"

definition if_upd :: "nat \<Rightarrow> (netif \<Rightarrow> netif) \<Rightarrow> ('c, 'h) net \<Rightarrow> ('c, 'h) net" where
  "if_upd i f s = s\<lparr>n_netif := (n_netif s)(i := f (n_netif s i))\<rparr>"

text \<open>Operations of the buffers on the whole state.\<close>

definition on_lwip :: "(lwip \<Rightarrow> ('a \<times> lwip) option) \<Rightarrow> ('c, 'h) net \<Rightarrow> ('a \<times> ('c, 'h) net) option" where
  "on_lwip f s = map_option (\<lambda>(x, l). (x, s\<lparr>n_lwip := l\<rparr>)) (f (n_lwip s))"

definition net_free :: "loc \<Rightarrow> ('c, 'h) net \<Rightarrow> ('c, 'h) net option" where
  "net_free p s = map_option snd (on_lwip (pbuf_free (Some p)) s)"

definition put_bytes :: "((loc \<Rightarrow> u8) \<Rightarrow> loc \<Rightarrow> u8) \<Rightarrow> ('c, 'h) net \<Rightarrow> ('c, 'h) net" where
  "put_bytes f s = (let l = n_lwip s in s\<lparr>n_lwip := l\<lparr>l_bytes := f (l_bytes l)\<rparr>\<rparr>)"

definition no_raw :: "'c raw_pcb" where
  "no_raw = \<lparr>r_local_ip = 0, r_remote_ip = 0, r_tos = 0, r_ttl = 0, r_next = None, r_protocol = 0, r_recv = None, r_recv_arg = None\<rparr>"

definition no_reass :: ip_reassdata where
  "no_reass = \<lparr>ir_next = None, ir_p = None, ir_iphdr = replicate 20 0, ir_datagram_len = 0, ir_flags = 0, ir_timer = 0\<rparr>"

definition NETIF_FLAG_UP :: u8 where [simp]: "NETIF_FLAG_UP = 1"
definition NETIF_FLAG_BROADCAST :: u8 where [simp]: "NETIF_FLAG_BROADCAST = 2"
definition NETIF_FLAG_LINK_UP :: u8 where [simp]: "NETIF_FLAG_LINK_UP = 0x10"
definition NETIF_FLAG_ETHARP :: u8 where [simp]: "NETIF_FLAG_ETHARP = 0x20"

section \<open>Addresses\<close>

text \<open>An address is kept in network byte order, that is, its first octet is the lowest byte.\<close>

definition IP4_ADDR :: "u8 \<Rightarrow> u8 \<Rightarrow> u8 \<Rightarrow> u8 \<Rightarrow> u32" where
  "IP4_ADDR a b c d = ucast a OR push_bit 8 (ucast b) OR push_bit 16 (ucast c) OR push_bit 24 (ucast d)"

definition ip_addr_set :: "u32 option \<Rightarrow> u32" where
  "ip_addr_set a = (case a of None \<Rightarrow> 0 | Some a \<Rightarrow> a)"

definition ip_addr_isany :: "u32 \<Rightarrow> bool" where
  "ip_addr_isany a \<longleftrightarrow> a = 0"

definition ip_addr_netcmp :: "u32 \<Rightarrow> u32 \<Rightarrow> u32 \<Rightarrow> bool" where
  "ip_addr_netcmp a b netmask \<longleftrightarrow> (a AND netmask) = (b AND netmask)"

definition ip_addr_ismulticast :: "u32 \<Rightarrow> bool" where
  "ip_addr_ismulticast a \<longleftrightarrow> (a AND 0xf0) = 0xe0"

definition ip_addr_isbroadcast :: "u32 \<Rightarrow> netif \<Rightarrow> bool" where
  "ip_addr_isbroadcast a i =
     (if NOT a = 0 \<or> a = 0 then True
      else if (if_flags i AND NETIF_FLAG_BROADCAST) = 0 then False
      else if a = if_ip i then False
      else ip_addr_netcmp a (if_ip i) (if_netmask i) \<and> (a AND NOT (if_netmask i)) = (0xffffffff AND NOT (if_netmask i)))"

definition netif_is_up :: "netif \<Rightarrow> bool" where
  "netif_is_up i \<longleftrightarrow> (if_flags i AND NETIF_FLAG_UP) \<noteq> 0"

text \<open>A search along the list of interfaces.\<close>

partial_function (option) netif_search :: "(nat \<Rightarrow> netif) \<Rightarrow> (nat \<Rightarrow> bool) \<Rightarrow> nat option \<Rightarrow> nat option option" where
  "netif_search n P netif =
     (case netif of
        None \<Rightarrow> Some None
      | Some i \<Rightarrow> if P i then Some (Some i) else netif_search n P (if_next (n i)))"

definition ip_route :: "u32 \<Rightarrow> ('c, 'h) net \<Rightarrow> nat option option" where
  "ip_route dest s = do {
     r \<leftarrow> netif_search (n_netif s)
            (\<lambda>i. netif_is_up (n_netif s i) \<and> ip_addr_netcmp dest (if_ip (n_netif s i)) (if_netmask (n_netif s i))) (netif_list s);
     case r of
       Some i \<Rightarrow> Some (Some i)
     | None \<Rightarrow>
         (case netif_default s of
            None \<Rightarrow> Some None
          | Some i \<Rightarrow> Some (if netif_is_up (n_netif s i) then Some i else None))
   }"

text \<open>Fields of a header: ports in network byte order, addresses as they are kept.\<close>

definition get_be16 :: "(loc \<Rightarrow> u8) \<Rightarrow> loc \<Rightarrow> u16" where
  "get_be16 m l = push_bit 8 (ucast (m l)) OR ucast (m (loc_add l 1))"

definition put_be16 :: "loc \<Rightarrow> u16 \<Rightarrow> (loc \<Rightarrow> u8) \<Rightarrow> loc \<Rightarrow> u8" where
  "put_be16 l w m = m(l := ucast (drop_bit 8 w), loc_add l 1 := ucast w)"

definition get_addr :: "(loc \<Rightarrow> u8) \<Rightarrow> loc \<Rightarrow> u32" where
  "get_addr m l = IP4_ADDR (m l) (m (loc_add l 1)) (m (loc_add l 2)) (m (loc_add l 3))"

text \<open>Six bytes of a hardware address.\<close>

definition get_hw :: "(loc \<Rightarrow> u8) \<Rightarrow> loc \<Rightarrow> u8 list" where
  "get_hw m l = map (\<lambda>k. m (loc_add l (int k))) [0..<6]"

definition put_hw :: "loc \<Rightarrow> u8 list \<Rightarrow> (loc \<Rightarrow> u8) \<Rightarrow> loc \<Rightarrow> u8" where
  "put_hw l a m = fold (\<lambda>k m. m(loc_add l (int k) := a ! k)) [0..<6] m"

definition put_addr :: "loc \<Rightarrow> u32 \<Rightarrow> (loc \<Rightarrow> u8) \<Rightarrow> loc \<Rightarrow> u8" where
  "put_addr l a m = fold (\<lambda>k m. m(loc_add l (int k) := byte_of a k)) [0..<4] m"

section \<open>Interfaces\<close>

definition netif_set_ipaddr :: "nat \<Rightarrow> u32 option \<Rightarrow> ('c, 'h) net \<Rightarrow> ('c, 'h) net" where
  "netif_set_ipaddr i a = if_upd i (\<lambda>n. n\<lparr>if_ip := ip_addr_set a\<rparr>)"

definition netif_set_netmask :: "nat \<Rightarrow> u32 option \<Rightarrow> ('c, 'h) net \<Rightarrow> ('c, 'h) net" where
  "netif_set_netmask i a = if_upd i (\<lambda>n. n\<lparr>if_netmask := ip_addr_set a\<rparr>)"

definition netif_set_gw :: "nat \<Rightarrow> u32 option \<Rightarrow> ('c, 'h) net \<Rightarrow> ('c, 'h) net" where
  "netif_set_gw i a = if_upd i (\<lambda>n. n\<lparr>if_gw := ip_addr_set a\<rparr>)"

definition netif_set_addr :: "nat \<Rightarrow> u32 option \<Rightarrow> u32 option \<Rightarrow> u32 option \<Rightarrow> ('c, 'h) net \<Rightarrow> ('c, 'h) net" where
  "netif_set_addr i ipaddr netmask gw s = netif_set_gw i gw (netif_set_netmask i netmask (netif_set_ipaddr i ipaddr s))"

definition netif_set_default :: "nat option \<Rightarrow> ('c, 'h) net \<Rightarrow> ('c, 'h) net" where
  "netif_set_default i s = s\<lparr>netif_default := i\<rparr>"

definition netif_set_down :: "nat \<Rightarrow> ('c, 'h) net \<Rightarrow> ('c, 'h) net" where
  "netif_set_down i s =
     (if (if_flags (n_netif s i) AND NETIF_FLAG_UP) \<noteq> 0 then if_upd i (\<lambda>n. n\<lparr>if_flags := if_flags n AND NOT NETIF_FLAG_UP\<rparr>) s
      else s)"

text \<open>Removing: the interface before \<open>i\<close> on the list, if any, gets a new link.\<close>

definition netif_remove :: "nat option \<Rightarrow> ('c, 'h) net \<Rightarrow> ('c, 'h) net option" where
  "netif_remove netif s =
     (case netif of
        None \<Rightarrow> Some s
      | Some i \<Rightarrow> do {
          (found, s) \<leftarrow>
            (if netif_list s = Some i then Some (True, s\<lparr>netif_list := if_next (n_netif s i)\<rparr>)
             else do {
               tmp \<leftarrow> netif_search (n_netif s) (\<lambda>j. if_next (n_netif s j) = Some i) (netif_list s);
               case tmp of
                 None \<Rightarrow> Some (False, s)
               | Some j \<Rightarrow> Some (True, if_upd j (\<lambda>n. n\<lparr>if_next := if_next (n_netif s i)\<rparr>) s)
             });
          if found \<and> netif_default s = Some i then Some (netif_set_default None s) else Some s
        })"

definition netif_find :: "(char \<times> char \<times> u8) option \<Rightarrow> ('c, 'h) net \<Rightarrow> nat option option" where
  "netif_find name s =
     (case name of
        None \<Rightarrow> Some None
      | Some (a, b, c) \<Rightarrow>
          netif_search (n_netif s) (\<lambda>i. c - 48 = if_num (n_netif s i) \<and> (a, b) = if_name (n_netif s i)) (netif_list s))"

text \<open>\<open>netif_add\<close> with the initialisation function of the driver as an argument.\<close>

definition netif_add :: "(nat \<Rightarrow> ('c, 'h) net \<Rightarrow> (int \<times> ('c, 'h) net) option) \<Rightarrow> nat \<Rightarrow> u32 option \<Rightarrow> u32 option \<Rightarrow> u32 option \<Rightarrow>
    nat option \<Rightarrow> ('c, 'h) net \<Rightarrow> (nat option \<times> ('c, 'h) net) option" where
  "netif_add init i ipaddr netmask gw state s = do {
     let s = if_upd i (\<lambda>n. n\<lparr>if_ip := 0, if_netmask := 0, if_gw := 0, if_flags := 0, if_dhcp_pcb := None,
                if_state := state, if_num := netifnum s\<rparr>) s;
     let s = netif_set_addr i ipaddr netmask gw (s\<lparr>netifnum := netifnum s + 1\<rparr>);
     (err, s) \<leftarrow> init i s;
     if err \<noteq> ERR_OK then Some (None, s)
     else
       let s = if_upd i (\<lambda>n. n\<lparr>if_next := netif_list s\<rparr>) s
       in Some (Some i, s\<lparr>netif_list := Some i\<rparr>)
   }"

end
