(* ===== verification/Udp.thy ===== *)
theory Udp
  imports Net
begin

text \<open>
  UDP (\<open>udp.c\<close>): the control blocks, which come from a pool and are linked through themselves, binding,
  connecting and removing them, demultiplexing of incoming datagrams, and sending. The updater compiles
  with \<open>LWIP_DHCP\<close> and \<open>LWIP_ICMP\<close> on, with \<open>LWIP_IGMP\<close>, \<open>LWIP_UDPLITE\<close>, \<open>IP_SOF_BROADCAST\<close> and
  \<open>LWIP_UDP_TODO\<close> off, and with checksums in hardware.

  What lies below and above (\<open>ip_output_if\<close>, \<open>icmp_dest_unreach\<close>, and the receive callbacks of the
  application, named by a type of its own) are arguments of the definitions; the theory \<open>Ip\<close> provides the
  first two and the theory \<open>Ethernet\<close> the callbacks.
\<close>

unbundle bit_operations_syntax

section \<open>The layers around UDP\<close>

text \<open>Sending is a function argument; what \<open>udp_input\<close> calls is a record.\<close>

record ('c, 'h) layers =
  icmp_dest_unreach :: "loc \<Rightarrow> ('c, 'h) net \<Rightarrow> ('c, 'h) net option"
  call_recv :: "'c \<Rightarrow> loc option \<Rightarrow> nat \<Rightarrow> loc \<Rightarrow> loc \<Rightarrow> u16 \<Rightarrow> ('c, 'h) net \<Rightarrow> ('c, 'h) net option"

type_synonym ('c, 'h) ip_out = "loc \<Rightarrow> u32 \<Rightarrow> u32 \<Rightarrow> u8 \<Rightarrow> u8 \<Rightarrow> u8 \<Rightarrow> nat \<Rightarrow> ('c, 'h) net \<Rightarrow> (int \<times> ('c, 'h) net) option"

definition UDP_HLEN :: nat where [simp]: "UDP_HLEN = 8"
definition UDP_TTL :: u8 where [simp]: "UDP_TTL = 255"
definition UDP_FLAGS_CONNECTED :: u8 where [simp]: "UDP_FLAGS_CONNECTED = 4"
definition DHCP_CLIENT_PORT :: u16 where [simp]: "DHCP_CLIENT_PORT = 68"
definition DHCP_SERVER_PORT :: u16 where [simp]: "DHCP_SERVER_PORT = 67"
definition UDP_LOCAL_PORT_RANGE_START :: u16 where [simp]: "UDP_LOCAL_PORT_RANGE_START = 4096"
definition UDP_LOCAL_PORT_RANGE_END :: u16 where [simp]: "UDP_LOCAL_PORT_RANGE_END = 0x7fff"
definition IP_PROTO_UDP :: u8 where [simp]: "IP_PROTO_UDP = 17"

section \<open>Binding and connecting\<close>

text \<open>Whether a control block is on the list.\<close>

partial_function (option) udp_listed :: "('c, 'h) net \<Rightarrow> nat \<Rightarrow> nat option \<Rightarrow> bool \<Rightarrow> bool option" where
  "udp_listed s pcb ipcb rebind =
     (case ipcb of None \<Rightarrow> Some rebind | Some i \<Rightarrow> udp_listed s pcb (u_next (n_pcb s i)) (rebind \<or> pcb = i))"

text \<open>The search for a free local port: after every port in use it starts again.\<close>

partial_function (option) port_search :: "('c, 'h) net \<Rightarrow> u16 \<Rightarrow> nat option \<Rightarrow> (u16 \<times> nat option) option" where
  "port_search s port ipcb =
     (case ipcb of
        None \<Rightarrow> Some (port, None)
      | Some i \<Rightarrow>
          if port = UDP_LOCAL_PORT_RANGE_END then Some (port, Some i)
          else if local_port (n_pcb s i) = port then port_search s (port + 1) (udp_pcbs s)
          else port_search s port (u_next (n_pcb s i)))"

definition udp_bind :: "nat \<Rightarrow> u32 option \<Rightarrow> u16 \<Rightarrow> ('c, 'h) net \<Rightarrow> (int \<times> ('c, 'h) net) option" where
  "udp_bind pcb ipaddr port s = do {
     rebind \<leftarrow> udp_listed s pcb (udp_pcbs s) False;
     let s = pcb_upd pcb (\<lambda>u. u\<lparr>local_ip := ip_addr_set ipaddr\<rparr>) s;
     (port, ipcb) \<leftarrow> (if port = 0 then port_search s UDP_LOCAL_PORT_RANGE_START (udp_pcbs s) else Some (port, None));
     if ipcb \<noteq> None then Some (ERR_USE, s)
     else
       let s = pcb_upd pcb (\<lambda>u. u\<lparr>local_port := port\<rparr>) s
       in Some (ERR_OK,
            if rebind then s
            else (pcb_upd pcb (\<lambda>u. u\<lparr>u_next := udp_pcbs s\<rparr>) s)\<lparr>udp_pcbs := Some pcb\<rparr>)
   }"

definition udp_connect :: "nat \<Rightarrow> u32 option \<Rightarrow> u16 \<Rightarrow> ('c, 'h) net \<Rightarrow> (int \<times> ('c, 'h) net) option" where
  "udp_connect pcb ipaddr port s = do {
     (err, s) \<leftarrow> (if local_port (n_pcb s pcb) = 0 then udp_bind pcb (Some (local_ip (n_pcb s pcb))) (local_port (n_pcb s pcb)) s
                  else Some (ERR_OK, s));
     if err \<noteq> ERR_OK then Some (err, s)
     else do {
       let s = pcb_upd pcb (\<lambda>u. u\<lparr>remote_ip := ip_addr_set ipaddr, remote_port := port, u_flags := u_flags u OR UDP_FLAGS_CONNECTED\<rparr>) s;
       listed \<leftarrow> udp_listed s pcb (udp_pcbs s) False;
       Some (ERR_OK,
         if listed then s
         else (pcb_upd pcb (\<lambda>u. u\<lparr>u_next := udp_pcbs s\<rparr>) s)\<lparr>udp_pcbs := Some pcb\<rparr>)
     }
   }"

definition udp_disconnect :: "nat \<Rightarrow> ('c, 'h) net \<Rightarrow> ('c, 'h) net" where
  "udp_disconnect pcb s =
     pcb_upd pcb (\<lambda>u. u\<lparr>remote_ip := 0, remote_port := 0, u_flags := u_flags u AND NOT UDP_FLAGS_CONNECTED\<rparr>) s"

definition udp_recv :: "nat \<Rightarrow> 'c option \<Rightarrow> loc option \<Rightarrow> ('c, 'h) net \<Rightarrow> ('c, 'h) net" where
  "udp_recv pcb f arg s = pcb_upd pcb (\<lambda>u. u\<lparr>recv := f, recv_arg := arg\<rparr>) s"

text \<open>Unlink a control block behind the first one; the loop goes on to the end of the list.\<close>

partial_function (option) remove_loop :: "nat \<Rightarrow> nat option \<Rightarrow> ('c, 'h) net \<Rightarrow> ('c, 'h) net option" where
  "remove_loop pcb pcb2 s =
     (case pcb2 of
        None \<Rightarrow> Some s
      | Some i \<Rightarrow>
          let s = (if u_next (n_pcb s i) = Some pcb then pcb_upd i (\<lambda>u. u\<lparr>u_next := u_next (n_pcb s pcb)\<rparr>) s else s)
          in remove_loop pcb (u_next (n_pcb s i)) s)"

definition udp_remove :: "nat \<Rightarrow> ('c, 'h) net \<Rightarrow> ('c, 'h) net option" where
  "udp_remove pcb s = do {
     s \<leftarrow> (if udp_pcbs s = Some pcb then Some (s\<lparr>udp_pcbs := u_next (n_pcb s pcb)\<rparr>) else remove_loop pcb (udp_pcbs s) s);
     let l = n_lwip s;
     Some (s\<lparr>n_lwip := l\<lparr>l_memp := memp_free MEMP_UDP_PCB (Some pcb) (l_memp l)\<rparr>\<rparr>)
   }"

definition udp_new :: "('c, 'h) net \<Rightarrow> nat option \<times> ('c, 'h) net" where
  "udp_new s =
     (let l = n_lwip s in
      case memp_malloc MEMP_UDP_PCB (l_memp l) of
        (None, m) \<Rightarrow> (None, s\<lparr>n_lwip := l\<lparr>l_memp := m\<rparr>\<rparr>)
      | (Some a, m) \<Rightarrow>
          (Some a, pcb_upd a (\<lambda>_. \<lparr>local_ip = 0, remote_ip = 0, u_tos = 0, u_ttl = UDP_TTL, u_next = None, u_flags = 0,
             local_port = 0, remote_port = 0, recv = None, recv_arg = None\<rparr>) (s\<lparr>n_lwip := l\<lparr>l_memp := m\<rparr>\<rparr>)))"

section \<open>Receiving\<close>

text \<open>What is compared with a control block: the addresses and ports of the datagram.\<close>

record dgram =
  d_src_ip :: u32
  d_dest_ip :: u32
  d_src :: u16
  d_dest :: u16
  d_bcast :: bool

definition local_match :: "dgram \<Rightarrow> 'c udp_pcb \<Rightarrow> bool" where
  "local_match d u \<longleftrightarrow> local_port u = d_dest d \<and>
     ((\<not> d_bcast d \<and> ip_addr_isany (local_ip u)) \<or> local_ip u = d_dest_ip d \<or> d_bcast d)"

definition full_match :: "dgram \<Rightarrow> 'c udp_pcb \<Rightarrow> bool" where
  "full_match d u \<longleftrightarrow> local_match d u \<and> remote_port u = d_src d \<and>
     (ip_addr_isany (remote_ip u) \<or> remote_ip u = d_src_ip d)"

definition unconnected :: "'c udp_pcb \<Rightarrow> bool" where
  "unconnected u \<longleftrightarrow> (u_flags u AND UDP_FLAGS_CONNECTED) = 0"

text \<open>The search, which ends at the first full match and remembers the first unconnected local match; the
  result is the match with its predecessor, and the unconnected one.\<close>

partial_function (option) demux_loop ::
  "('c, 'h) net \<Rightarrow> dgram \<Rightarrow> nat option \<Rightarrow> nat option \<Rightarrow> nat option \<Rightarrow> (nat option \<times> nat option \<times> nat option) option" where
  "demux_loop s d prev uncon pcb =
     (case pcb of
        None \<Rightarrow> Some (None, prev, uncon)
      | Some i \<Rightarrow>
          let u = n_pcb s i;
              uncon = (if local_match d u \<and> uncon = None \<and> unconnected u then Some i else uncon)
          in if full_match d u then Some (Some i, prev, uncon)
             else demux_loop s d (Some i) uncon (u_next u))"

text \<open>The match moves to the front of the list.\<close>

definition udp_demux :: "dgram \<Rightarrow> ('c, 'h) net \<Rightarrow> (nat option \<times> ('c, 'h) net) option" where
  "udp_demux d s = do {
     (pcb, prev, uncon) \<leftarrow> demux_loop s d None None (udp_pcbs s);
     case pcb of
       None \<Rightarrow> Some (uncon, s)
     | Some i \<Rightarrow>
         (case prev of
            None \<Rightarrow> Some (Some i, s)
          | Some j \<Rightarrow>
              let s = pcb_upd j (\<lambda>u. u\<lparr>u_next := u_next (n_pcb s i)\<rparr>) s;
                  s = pcb_upd i (\<lambda>u. u\<lparr>u_next := udp_pcbs s\<rparr>) s
              in Some (Some i, s\<lparr>udp_pcbs := Some i\<rparr>))
   }"

definition dhcp_demux :: "dgram \<Rightarrow> nat \<Rightarrow> ('c, 'h) net \<Rightarrow> nat option" where
  "dhcp_demux d inp s =
     (if d_src d = DHCP_SERVER_PORT then
        (case if_dhcp_pcb (n_netif s inp) of
           None \<Rightarrow> None
         | Some i \<Rightarrow> if ip_addr_isany (remote_ip (n_pcb s i)) \<or> remote_ip (n_pcb s i) = d_src_ip d then Some i else None)
      else None)"

definition udp_input :: "('c, 'h) layers \<Rightarrow> loc \<Rightarrow> nat \<Rightarrow> ('c, 'h) net \<Rightarrow> ('c, 'h) net option" where
  "udp_input L p inp s = do {
     let b = pb (n_lwip s) p;
     iphdr \<leftarrow> p_payload b;
     let hl = 4 * unat (l_bytes (n_lwip s) iphdr AND 0xf);
     (short, s) \<leftarrow> (if unat (p_tot_len b) < hl + UDP_HLEN then Some (1, s)
                    else on_lwip (pbuf_header (Some p) (- int hl)) s);
     if short \<noteq> 0 then net_free p s
     else do {
       udphdr \<leftarrow> p_payload (pb (n_lwip s) p);
       let m = l_bytes (n_lwip s);
       let dest_ip = get_addr m (loc_add iphdr 16);
       let d = \<lparr>d_src_ip = get_addr m (loc_add iphdr 12), d_dest_ip = dest_ip, d_src = get_be16 m udphdr,
                d_dest = get_be16 m (loc_add udphdr 2), d_bcast = ip_addr_isbroadcast dest_ip (n_netif s inp)\<rparr>;
       (pcb, s) \<leftarrow> (if d_dest d = DHCP_CLIENT_PORT then Some (dhcp_demux d inp s, s) else udp_demux d s);
       if pcb \<noteq> None \<or> if_ip (n_netif s inp) = dest_ip then do {
         (err, s) \<leftarrow> on_lwip (pbuf_header (Some p) (- int UDP_HLEN)) s;
         if err \<noteq> 0 then net_free p s
         else (case pcb of
           Some i \<Rightarrow>
             (case recv (n_pcb s i) of
                Some f \<Rightarrow> call_recv L f (recv_arg (n_pcb s i)) i p (loc_add iphdr 12) (d_src d) s
              | None \<Rightarrow> net_free p s)
         | None \<Rightarrow> do {
             s \<leftarrow> (if \<not> d_bcast d \<and> \<not> ip_addr_ismulticast dest_ip then do {
                     (e, s) \<leftarrow> on_lwip (pbuf_header (Some p) (int hl + int UDP_HLEN)) s;
                     icmp_dest_unreach L p s
                   } else Some s);
             net_free p s
           })
       } else net_free p s
     }
   }"

section \<open>Sending\<close>

text \<open>The header in front of the packet \<open>q\<close>.\<close>

definition udp_header :: "nat \<Rightarrow> loc \<Rightarrow> u16 \<Rightarrow> ('c, 'h) net \<Rightarrow> ('c, 'h) net option" where
  "udp_header pcb q dst_port s = do {
     h \<leftarrow> p_payload (pb (n_lwip s) q);
     let l = n_lwip s;
     Some (s\<lparr>n_lwip := l\<lparr>l_bytes := put_be16 (loc_add h 6) 0 (put_be16 (loc_add h 2) dst_port
       (put_be16 h (local_port (n_pcb s pcb)) (l_bytes l)))\<rparr>\<rparr>)
   }"

definition udp_sendto_if :: "('c, 'h) ip_out \<Rightarrow> nat \<Rightarrow> loc \<Rightarrow> u32 \<Rightarrow> u16 \<Rightarrow> nat \<Rightarrow> ('c, 'h) net \<Rightarrow> (int \<times> ('c, 'h) net) option" where
  "udp_sendto_if out pcb p dst_ip dst_port i s = do {
     (err, s) \<leftarrow> (if local_port (n_pcb s pcb) = 0 then udp_bind pcb (Some (local_ip (n_pcb s pcb))) (local_port (n_pcb s pcb)) s
                  else Some (ERR_OK, s));
     if err \<noteq> ERR_OK then Some (err, s)
     else do {
       (full, s) \<leftarrow> on_lwip (pbuf_header (Some p) (int UDP_HLEN)) s;
       (q, s) \<leftarrow> (if full \<noteq> 0 then do {
                   (q, s) \<leftarrow> on_lwip (pbuf_alloc PBUF_IP (of_nat UDP_HLEN) PBUF_RAM) s;
                   case q of
                     None \<Rightarrow> Some (None, s)
                   | Some q \<Rightarrow> do { l \<leftarrow> pbuf_chain (Some q) (Some p) (n_lwip s); Some (Some q, s\<lparr>n_lwip := l\<rparr>) }
                 } else Some (Some p, s));
       case q of
         None \<Rightarrow> Some (ERR_MEM, s)
       | Some q \<Rightarrow> do {
           s \<leftarrow> udp_header pcb q dst_port s;
           let u = n_pcb s pcb;
           let src_ip = (if ip_addr_isany (local_ip u) then if_ip (n_netif s i) else local_ip u);
           if \<not> ip_addr_isany (local_ip u) \<and> local_ip u \<noteq> if_ip (n_netif s i) then do {
             s \<leftarrow> (if q \<noteq> p then net_free q s else Some s);
             Some (ERR_VAL, s)
           } else do {
             h \<leftarrow> p_payload (pb (n_lwip s) q);
             let l = n_lwip s;
             let s = s\<lparr>n_lwip := l\<lparr>l_bytes := put_be16 (loc_add h 4) (p_tot_len (pb l q)) (l_bytes l)\<rparr>\<rparr>;
             (err, s) \<leftarrow> out q src_ip dst_ip (u_ttl u) (u_tos u) IP_PROTO_UDP i s;
             s \<leftarrow> (if q \<noteq> p then net_free q s else Some s);
             Some (err, s)
           }
         }
     }
   }"

definition udp_sendto :: "('c, 'h) ip_out \<Rightarrow> nat \<Rightarrow> loc \<Rightarrow> u32 \<Rightarrow> u16 \<Rightarrow> ('c, 'h) net \<Rightarrow> (int \<times> ('c, 'h) net) option" where
  "udp_sendto out pcb p dst_ip dst_port s = do {
     netif \<leftarrow> ip_route dst_ip s;
     case netif of
       None \<Rightarrow> Some (ERR_RTE, s)
     | Some i \<Rightarrow> udp_sendto_if out pcb p dst_ip dst_port i s
   }"

definition udp_send :: "('c, 'h) ip_out \<Rightarrow> nat \<Rightarrow> loc \<Rightarrow> ('c, 'h) net \<Rightarrow> (int \<times> ('c, 'h) net) option" where
  "udp_send out pcb p s = udp_sendto out pcb p (remote_ip (n_pcb s pcb)) (remote_port (n_pcb s pcb)) s"

section \<open>The list of control blocks\<close>

abbreviation pcb_list :: "('c, 'h) net \<Rightarrow> nat option \<Rightarrow> nat list \<Rightarrow> bool" where
  "pcb_list s p ps \<equiv> list_at (\<lambda>i. u_next (n_pcb s i)) p ps"

lemma pcb_upd_sel [simp]:
  "n_lwip (pcb_upd p f s) = n_lwip s" "udp_pcbs (pcb_upd p f s) = udp_pcbs s" "netif_list (pcb_upd p f s) = netif_list s"
  "netif_default (pcb_upd p f s) = netif_default s" "n_netif (pcb_upd p f s) = n_netif s"
  "n_pcb (pcb_upd p f s) q = (if q = p then f (n_pcb s p) else n_pcb s q)"
  by (simp_all add: pcb_upd_def)

text \<open>Taking an element out of a list, and putting one in front.\<close>

lemma list_at_upd: "list_at nx p xs \<Longrightarrow> i \<notin> set xs \<Longrightarrow> list_at (nx(i := q)) p xs"
  by (rule list_at_cong [of xs _ nx]) auto

lemma list_unlink:
  "list_at nx p (as @ j # i # bs) \<Longrightarrow> distinct (as @ j # i # bs) \<Longrightarrow> list_at (nx(j := nx i)) p (as @ j # bs)"
proof (induction as arbitrary: p)
  case Nil
  then have "list_at nx (nx i) bs" "j \<notin> set bs" by auto
  then have "list_at (nx(j := nx i)) (nx i) bs" by (rule list_at_upd)
  with Nil show ?case by (simp add: fun_upd_def)
qed auto

lemma list_push: "list_at nx p xs \<Longrightarrow> i \<notin> set xs \<Longrightarrow> list_at (nx(i := p)) (Some i) (i # xs)"
  by (simp add: list_at_upd)

lemma list_at_unique: "list_at nx p xs \<Longrightarrow> list_at nx p ys \<Longrightarrow> xs = ys"
proof (induction xs arbitrary: p ys)
  case Nil
  then show ?case by (cases ys) auto
next
  case (Cons x xs)
  then show ?case by (cases ys) auto
qed

lemma udp_listed_ok: "pcb_list s ipcb ps \<Longrightarrow> udp_listed s pcb ipcb r = Some (r \<or> pcb \<in> set ps)"
proof (induction ps arbitrary: ipcb r)
  case Nil
  then show ?case by (subst udp_listed.simps) simp
next
  case (Cons i ps)
  then show ?case by (subst udp_listed.simps) auto
qed

section \<open>Ports\<close>

lemma port_scan:
  assumes "pcb_list s ipcb qs" and "port \<noteq> UDP_LOCAL_PORT_RANGE_END"
  shows "port_search s port ipcb =
    (if port \<in> (\<lambda>i. local_port (n_pcb s i)) ` set qs then port_search s (port + 1) (udp_pcbs s) else Some (port, None))"
  using assms
proof (induction qs arbitrary: ipcb)
  case Nil
  then show ?case by (subst port_search.simps) simp
next
  case (Cons i qs)
  then show ?case by (subst port_search.simps) auto
qed

lemma port_search_ok:
  assumes "pcb_list s (udp_pcbs s) ps" and "m \<notin> (\<lambda>i. local_port (n_pcb s i)) ` set ps" and "m < UDP_LOCAL_PORT_RANGE_END"
    and "port \<le> m" and "\<forall>k. port \<le> k \<and> k < m \<longrightarrow> k \<in> (\<lambda>i. local_port (n_pcb s i)) ` set ps"
  shows "port_search s port (udp_pcbs s) = Some (m, None)"
  using assms(4,5)
proof (induction "unat m - unat port" arbitrary: port)
  case 0
  then have "port = m" by (simp add: word_le_nat_alt word_unat_eq_iff)
  then show ?case using port_scan [OF assms(1), of m] assms(2,3) by auto
next
  case (Suc n)
  then have lt: "port < m" by (simp add: word_less_nat_alt word_le_nat_alt)
  have "unat (port + 1) = unat port + 1"
    using lt unat_mono [of port m] u16_less [of m] by (simp add: unat_word_ariths)
  then have s: "n = unat m - unat (port + 1)" "port + 1 \<le> m" using Suc.hyps(2) lt by (simp_all add: word_le_nat_alt word_less_nat_alt)
  have k: "\<forall>k. port + 1 \<le> k \<and> k < m \<longrightarrow> k \<in> (\<lambda>i. local_port (n_pcb s i)) ` set ps"
    using Suc.prems(2) \<open>unat (port + 1) = _\<close> by (auto simp: word_le_nat_alt)
  have "port \<noteq> UDP_LOCAL_PORT_RANGE_END" using lt assms(3) by auto
  then show ?case using port_scan [OF assms(1), of port] Suc.prems(2) lt Suc.hyps(1) [OF s k] by auto
qed

text \<open>As long as there are fewer control blocks than ports, one is free.\<close>

lemma free_port:
  assumes "length ps < 28671"
  obtains m :: u16 where "4096 \<le> m" "m < UDP_LOCAL_PORT_RANGE_END" "m \<notin> f ` set ps"
    "\<forall>k. 4096 \<le> k \<and> k < m \<longrightarrow> k \<in> f ` set ps"
proof -
  let ?A = "{4096..<32767} - unat ` f ` set ps"
  have "card (unat ` f ` set ps) < 28671"
    using assms card_image_le [of "f ` set ps" unat] card_image_le [of "set ps" f] card_length [of ps] by simp
  moreover have "card {4096..<32767::nat} - card (unat ` f ` set ps) \<le> card ?A" by (rule diff_card_le_card_Diff) simp
  ultimately have "0 < card ?A" by simp
  then have ne: "?A \<noteq> {}" unfolding card_gt_0_iff by (rule conjunct1)
  define m where "m = Min ?A"
  have m: "m \<in> ?A" unfolding m_def by (rule Min_in) (use ne in auto)
  have least: "k \<in> unat ` f ` set ps" if "4096 \<le> k" "k < m" for k
  proof (rule ccontr)
    assume "k \<notin> unat ` f ` set ps"
    then have "k \<in> ?A" using that m by auto
    then have "m \<le> k" unfolding m_def by (intro Min_le) auto
    with that show False by simp
  qed
  have u: "unat (of_nat m :: u16) = m" using m by (simp add: unat_of_nat)
  show thesis
  proof (rule that [of "of_nat m"])
    show "4096 \<le> (of_nat m :: u16)" "of_nat m < UDP_LOCAL_PORT_RANGE_END" using m u by (simp_all add: word_le_nat_alt word_less_nat_alt)
    show "of_nat m \<notin> f ` set ps" using m u by (auto simp: image_iff)
    show "\<forall>k. 4096 \<le> k \<and> k < of_nat m \<longrightarrow> k \<in> f ` set ps"
    proof (intro allI impI)
      fix k :: u16 assume "4096 \<le> k \<and> k < of_nat m"
      then have "unat k \<in> unat ` f ` set ps" using u by (intro least) (simp_all add: word_le_nat_alt word_less_nat_alt)
      then show "k \<in> f ` set ps" by (auto simp: word_unat_eq_iff)
    qed
  qed
qed

section \<open>Operations on a well-formed list\<close>

lemma nx_set: "(\<lambda>i. u_next (n_pcb (pcb_upd p (\<lambda>u. u\<lparr>u_next := x\<rparr>) s) i)) = (\<lambda>i. u_next (n_pcb s i))(p := x)"
  by auto

lemma pcb_list_upd: "u_next (f (n_pcb s p)) = u_next (n_pcb s p) \<Longrightarrow> pcb_list (pcb_upd p f s) q ps = pcb_list s q ps"
proof -
  assume "u_next (f (n_pcb s p)) = u_next (n_pcb s p)"
  then have "(\<lambda>i. u_next (n_pcb (pcb_upd p f s) i)) = (\<lambda>i. u_next (n_pcb s i))" by auto
  then show ?thesis by (simp only:)
qed

lemma pcb_list_cong: "n_pcb s' = n_pcb s \<Longrightarrow> pcb_list s' q ps = pcb_list s q ps"
  by simp

text \<open>A control block gets onto the list if it is not there yet.\<close>

definition enlist :: "nat \<Rightarrow> bool \<Rightarrow> ('c, 'h) net \<Rightarrow> ('c, 'h) net" where
  "enlist p listed s = (if listed then s else (pcb_upd p (\<lambda>u. u\<lparr>u_next := udp_pcbs s\<rparr>) s)\<lparr>udp_pcbs := Some p\<rparr>)"

definition add_front :: "nat \<Rightarrow> nat list \<Rightarrow> nat list" where
  "add_front p ps = (if p \<in> set ps then ps else p # ps)"

lemma enlist_ok:
  assumes "pcb_list s (udp_pcbs s) ps"
  shows "pcb_list (enlist p (p \<in> set ps) s) (udp_pcbs (enlist p (p \<in> set ps) s)) (add_front p ps)"
    "n_lwip (enlist p b s) = n_lwip s" "n_netif (enlist p b s) = n_netif s"
    "\<exists>nx. n_pcb (enlist p b s) p = (n_pcb s p)\<lparr>u_next := nx\<rparr>" "q \<noteq> p \<Longrightarrow> n_pcb (enlist p b s) q = n_pcb s q"
proof -
  have l: "list_at ((\<lambda>i. u_next (n_pcb s i))(p := udp_pcbs s)) (Some p) (p # ps)" if "p \<notin> set ps"
    using list_push [OF assms that] .
  have "(\<lambda>i. u_next (n_pcb (enlist p False s) i)) = (\<lambda>i. u_next (n_pcb s i))(p := udp_pcbs s)"
    by (auto simp: enlist_def)
  moreover have "udp_pcbs (enlist p False s) = Some p" by (simp add: enlist_def)
  ultimately show "pcb_list (enlist p (p \<in> set ps) s) (udp_pcbs (enlist p (p \<in> set ps) s)) (add_front p ps)"
    using l assms by (cases "p \<in> set ps") (simp_all only: add_front_def enlist_def if_True if_False simp_thms)
  show "\<exists>nx. n_pcb (enlist p b s) p = (n_pcb s p)\<lparr>u_next := nx\<rparr>"
    by (cases b) (auto simp: enlist_def, rule exI [of _ "u_next (n_pcb s p)"], simp)
qed (simp_all add: enlist_def)

text \<open>The control block after \<open>udp_bind\<close>, up to the link.\<close>

lemma udp_bind_ok:
  assumes "pcb_list s (udp_pcbs s) ps" and "length ps < 28671"
  obtains s' k where "udp_bind p ip port s = Some (ERR_OK, s')" "pcb_list s' (udp_pcbs s') (add_front p ps)"
    "n_lwip s' = n_lwip s" "\<exists>nx. n_pcb s' p = (n_pcb s p)\<lparr>local_ip := ip_addr_set ip, local_port := k, u_next := nx\<rparr>"
    "\<And>q. q \<noteq> p \<Longrightarrow> n_pcb s' q = n_pcb s q"
    "if port = 0 then 4096 \<le> k \<and> k < UDP_LOCAL_PORT_RANGE_END \<and> k \<notin> (\<lambda>i. local_port (n_pcb s i)) ` set ps else k = port"
proof -
  let ?t = "pcb_upd p (\<lambda>u. u\<lparr>local_ip := ip_addr_set ip\<rparr>) s"
  have t: "pcb_list ?t (udp_pcbs ?t) ps" using assms(1) pcb_list_upd [of "\<lambda>u. u\<lparr>local_ip := ip_addr_set ip\<rparr>" s p] by simp
  have ports: "(\<lambda>i. local_port (n_pcb ?t i)) = (\<lambda>i. local_port (n_pcb s i))" by auto
  obtain m where m: "4096 \<le> m" "m < UDP_LOCAL_PORT_RANGE_END" "m \<notin> (\<lambda>i. local_port (n_pcb s i)) ` set ps"
    "\<forall>k. 4096 \<le> k \<and> k < m \<longrightarrow> k \<in> (\<lambda>i. local_port (n_pcb s i)) ` set ps"
    using free_port [OF assms(2)] by metis
  have srch: "port_search ?t 4096 (udp_pcbs ?t) = Some (m, None)"
    by (rule port_search_ok [OF t, unfolded ports, OF m(3,2,1,4)])
  define k where "k = (if port = 0 then m else port)"
  define u where "u = pcb_upd p (\<lambda>u. u\<lparr>local_port := k\<rparr>) ?t"
  have u: "pcb_list u (udp_pcbs u) ps"
    unfolding u_def using t pcb_list_upd [of "\<lambda>u. u\<lparr>local_port := k\<rparr>" ?t p] by simp
  note e = enlist_ok [OF u, where p = p]
  have "udp_bind p ip port s = Some (ERR_OK, enlist p (p \<in> set ps) u)"
    using udp_listed_ok [OF assms(1), of p False] srch
    by (auto simp: udp_bind_def k_def u_def enlist_def Let_def)
  then show thesis
  proof (rule that)
    show "pcb_list (enlist p (p \<in> set ps) u) (udp_pcbs (enlist p (p \<in> set ps) u)) (add_front p ps)" by (rule e(1))
    show "\<exists>nx. n_pcb (enlist p (p \<in> set ps) u) p = (n_pcb s p)\<lparr>local_ip := ip_addr_set ip, local_port := k, u_next := nx\<rparr>"
      using e(4) [of "p \<in> set ps"] by (simp add: u_def)
    show "if port = 0 then 4096 \<le> k \<and> k < UDP_LOCAL_PORT_RANGE_END \<and> k \<notin> (\<lambda>i. local_port (n_pcb s i)) ` set ps else k = port"
      using m by (simp add: k_def)
  qed (use e(2,5) in \<open>simp_all add: u_def\<close>)
qed

lemma udp_connect_ok:
  assumes "pcb_list s (udp_pcbs s) ps" and "length ps < 28671"
  obtains s' where "udp_connect p ip port s = Some (ERR_OK, s')" "pcb_list s' (udp_pcbs s') (add_front p ps)"
    "n_lwip s' = n_lwip s" "\<And>q. q \<noteq> p \<Longrightarrow> n_pcb s' q = n_pcb s q"
    "remote_ip (n_pcb s' p) = ip_addr_set ip" "remote_port (n_pcb s' p) = port" "\<not> unconnected (n_pcb s' p)"
    "recv (n_pcb s' p) = recv (n_pcb s p)" "local_ip (n_pcb s' p) = local_ip (n_pcb s p)"
    "local_port (n_pcb s p) \<noteq> 0 \<Longrightarrow> local_port (n_pcb s' p) = local_port (n_pcb s p)"
proof -
  let ?f = "\<lambda>u. u\<lparr>remote_ip := ip_addr_set ip, remote_port := port, u_flags := u_flags u OR UDP_FLAGS_CONNECTED\<rparr>"
  have con: "(w OR 4) AND 4 \<noteq> 0" for w :: u8
  proof
    assume "(w OR 4) AND 4 = 0"
    then have "bit ((w OR 4) AND 4) 2 = bit (0 :: u8) 2" by simp
    then show False by (simp add: bit_simps)
  qed
  have rest: "\<exists>s'. (do { let s = pcb_upd p ?f t; listed \<leftarrow> udp_listed s p (udp_pcbs s) False; Some (ERR_OK, enlist p listed s) }) = Some (ERR_OK, s') \<and>
      pcb_list s' (udp_pcbs s') (add_front p qs) \<and> n_lwip s' = n_lwip t \<and> (\<forall>q. q \<noteq> p \<longrightarrow> n_pcb s' q = n_pcb t q) \<and>
      (\<exists>nx. n_pcb s' p = (?f (n_pcb t p))\<lparr>u_next := nx\<rparr>)" if "pcb_list t (udp_pcbs t) qs" for t qs
  proof -
    have l: "pcb_list (pcb_upd p ?f t) (udp_pcbs (pcb_upd p ?f t)) qs" using that pcb_list_upd [of ?f t p] by simp
    note e = enlist_ok [OF l, where p = p]
    have n: "udp_listed (pcb_upd p ?f t) p (udp_pcbs (pcb_upd p ?f t)) False = Some (p \<in> set qs)" using udp_listed_ok [OF l] by simp
    then show ?thesis using e(1,2,5) e(4) [of "p \<in> set qs"] by (simp add: Let_def)
  qed
  obtain t qs where t: "(if local_port (n_pcb s p) = 0 then udp_bind p (Some (local_ip (n_pcb s p))) (local_port (n_pcb s p)) s
      else Some (ERR_OK, s)) = Some (ERR_OK, t)" "pcb_list t (udp_pcbs t) qs" "add_front p qs = add_front p ps" "n_lwip t = n_lwip s"
    "\<And>q. q \<noteq> p \<Longrightarrow> n_pcb t q = n_pcb s q" "recv (n_pcb t p) = recv (n_pcb s p)" "local_ip (n_pcb t p) = local_ip (n_pcb s p)"
    "local_port (n_pcb s p) \<noteq> 0 \<Longrightarrow> local_port (n_pcb t p) = local_port (n_pcb s p)"
  proof (cases "local_port (n_pcb s p) = 0")
    case True
    from udp_bind_ok [OF assms, of p "Some (local_ip (n_pcb s p))" 0] obtain t k where
      b: "udp_bind p (Some (local_ip (n_pcb s p))) 0 s = Some (ERR_OK, t)" "pcb_list t (udp_pcbs t) (add_front p ps)"
      "n_lwip t = n_lwip s" "\<exists>nx. n_pcb t p = (n_pcb s p)\<lparr>local_ip := ip_addr_set (Some (local_ip (n_pcb s p))), local_port := k, u_next := nx\<rparr>"
      "\<And>q. q \<noteq> p \<Longrightarrow> n_pcb t q = n_pcb s q" by metis
    moreover have "add_front p (add_front p ps) = add_front p ps" by (simp add: add_front_def)
    ultimately show thesis using that [of t "add_front p ps"] True by (auto simp: ip_addr_set_def)
  qed (use assms(1) in \<open>auto intro: that [of s ps]\<close>)
  from rest [OF t(2)] obtain s' where s': "(do { let s = pcb_upd p ?f t; listed \<leftarrow> udp_listed s p (udp_pcbs s) False; Some (ERR_OK, enlist p listed s) }) = Some (ERR_OK, s')"
    "pcb_list s' (udp_pcbs s') (add_front p qs)" "n_lwip s' = n_lwip t" "\<forall>q. q \<noteq> p \<longrightarrow> n_pcb s' q = n_pcb t q"
    "\<exists>nx. n_pcb s' p = (?f (n_pcb t p))\<lparr>u_next := nx\<rparr>" by blast
  have "udp_connect p ip port s = Some (ERR_OK, s')"
    using s'(1) by (simp add: udp_connect_def t(1) enlist_def Let_def)
  moreover obtain nx where "n_pcb s' p = (?f (n_pcb t p))\<lparr>u_next := nx\<rparr>" using s'(5) by blast
  ultimately show thesis
    by (intro that [of s']) (use s'(2-4) t(3-8) con in \<open>simp_all add: unconnected_def\<close>)
qed

section \<open>Demultiplexing\<close>

definition first_match :: "dgram \<Rightarrow> ('c, 'h) net \<Rightarrow> nat list \<Rightarrow> nat option" where
  "first_match d s ps = find (\<lambda>i. full_match d (n_pcb s i)) ps"

definition first_uncon :: "dgram \<Rightarrow> ('c, 'h) net \<Rightarrow> nat list \<Rightarrow> nat option" where
  "first_uncon d s ps = find (\<lambda>i. local_match d (n_pcb s i) \<and> unconnected (n_pcb s i)) ps"

lemma demux_loop_none:
  assumes "pcb_list s pcb qs" and "first_match d s qs = None"
  shows "demux_loop s d prev uncon pcb =
    Some (None, if qs = [] then prev else Some (last qs), case uncon of None \<Rightarrow> first_uncon d s qs | Some u \<Rightarrow> Some u)"
  using assms
proof (induction qs arbitrary: pcb prev uncon)
  case Nil
  then show ?case by (subst demux_loop.simps) (auto simp: first_uncon_def split: option.splits)
next
  case (Cons i qs)
  then have "\<not> full_match d (n_pcb s i)" "first_match d s qs = None" "pcb = Some i" "pcb_list s (u_next (n_pcb s i)) qs"
    by (auto simp: first_match_def split: if_splits)
  then show ?case using Cons.IH by (subst demux_loop.simps) (auto simp: first_uncon_def Let_def split: option.splits)
qed

lemma demux_loop_some:
  assumes "pcb_list s pcb (as @ i # bs)" and "first_match d s as = None" and "full_match d (n_pcb s i)"
  shows "\<exists>u. demux_loop s d prev uncon pcb = Some (Some i, if as = [] then prev else Some (last as), u)"
  using assms
proof (induction as arbitrary: pcb prev uncon)
  case Nil
  then show ?case by (subst demux_loop.simps) (auto simp: Let_def)
next
  case (Cons a as)
  then have "\<not> full_match d (n_pcb s a)" "first_match d s as = None" "pcb = Some a" "pcb_list s (u_next (n_pcb s a)) (as @ i # bs)"
    by (auto simp: first_match_def split: if_splits)
  then show ?case using Cons.IH Cons.prems(3) by (subst demux_loop.simps) (auto simp: Let_def)
qed

lemma find_split:
  assumes "find P xs = Some x"
  obtains as bs where "xs = as @ x # bs" "find P as = None" "P x"
proof -
  obtain i where i: "i < length xs" "P (xs ! i)" "x = xs ! i" "\<forall>j < i. \<not> P (xs ! j)"
    using assms by (auto simp: find_Some_iff)
  then have "xs = take i xs @ x # drop (Suc i) xs" by (simp add: id_take_nth_drop)
  moreover have "find P (take i xs) = None" using i by (auto simp: find_None_iff in_set_conv_nth)
  ultimately show thesis using that i by blast
qed

text \<open>The control block that gets a datagram, and the list afterwards.\<close>

definition to_front :: "nat option \<Rightarrow> nat list \<Rightarrow> nat list" where
  "to_front r ps = (case r of None \<Rightarrow> ps | Some i \<Rightarrow> i # remove1 i ps)"

lemma udp_demux_ok:
  assumes "pcb_list s (udp_pcbs s) ps" and "distinct ps"
  obtains s' where "udp_demux d s = Some (case first_match d s ps of Some i \<Rightarrow> Some i | None \<Rightarrow> first_uncon d s ps, s')"
    "pcb_list s' (udp_pcbs s') (to_front (first_match d s ps) ps)" "n_lwip s' = n_lwip s" "n_netif s' = n_netif s"
    "\<And>q. \<exists>nx. n_pcb s' q = (n_pcb s q)\<lparr>u_next := nx\<rparr>"
proof (cases "first_match d s ps")
  case None
  have "\<exists>nx. n_pcb s q = (n_pcb s q)\<lparr>u_next := nx\<rparr>" for q by (rule exI [of _ "u_next (n_pcb s q)"]) simp
  with None show thesis
    using that [of s] demux_loop_none [OF assms(1) None, of None None] assms(1) by (simp add: udp_demux_def to_front_def)
next
  case (Some i)
  then obtain as bs where ps: "ps = as @ i # bs" "first_match d s as = None" "full_match d (n_pcb s i)"
    using find_split [of "\<lambda>i. full_match d (n_pcb s i)" ps i] by (auto simp: first_match_def)
  obtain u where l: "demux_loop s d None None (udp_pcbs s) = Some (Some i, if as = [] then None else Some (last as), u)"
    using demux_loop_some [OF assms(1) [unfolded ps(1)] ps(2,3)] by blast
  have same: "\<exists>nx. n_pcb s q = (n_pcb s q)\<lparr>u_next := nx\<rparr>" for q by (rule exI [of _ "u_next (n_pcb s q)"]) simp
  show thesis
  proof (cases "as = []")
    case True
    then show thesis using that [of s] l Some assms(1) ps(1) same by (simp add: udp_demux_def to_front_def)
  next
    case False
    define cs where "cs = butlast as"
    define j where "j = last as"
    have as: "as = cs @ [j]" using False by (simp add: cs_def j_def)
    let ?nx = "\<lambda>i. u_next (n_pcb s i)"
    define t where "t = pcb_upd i (\<lambda>u. u\<lparr>u_next := udp_pcbs s\<rparr>) (pcb_upd j (\<lambda>u. u\<lparr>u_next := u_next (n_pcb s i)\<rparr>) s)"
    have ij: "i \<noteq> j" "i \<notin> set (cs @ j # bs)" using assms(2) ps(1) as by auto
    have "list_at (?nx(j := ?nx i)) (udp_pcbs s) (cs @ j # bs)"
      by (rule list_unlink) (use assms ps(1) as in auto)
    then have "list_at ((?nx(j := ?nx i))(i := udp_pcbs s)) (Some i) (i # cs @ j # bs)" using list_push ij(2) by blast
    moreover have "(\<lambda>k. u_next (n_pcb t k)) = (?nx(j := ?nx i))(i := udp_pcbs s)" using ij(1) by (auto simp: t_def)
    ultimately have t: "pcb_list t (Some i) (i # cs @ j # bs)" by (simp only:)
    have "udp_demux d s = Some (Some i, t\<lparr>udp_pcbs := Some i\<rparr>)"
      using l False ij(1) by (simp add: udp_demux_def Let_def t_def j_def)
    moreover have "to_front (Some i) ps = i # cs @ j # bs" using ps(1) as ij(2) by (auto simp: to_front_def remove1_append)
    moreover have "\<exists>nx. n_pcb t q = (n_pcb s q)\<lparr>u_next := nx\<rparr>" for q using same by (auto simp: t_def)
    ultimately show thesis using that [of "t\<lparr>udp_pcbs := Some i\<rparr>"] Some t by (simp add: t_def)
  qed
qed

section \<open>Removing\<close>

lemma remove_loop_skip: "pcb_list s q qs \<Longrightarrow> p \<notin> set qs \<Longrightarrow> remove_loop p q s = Some s"
proof (induction qs arbitrary: q)
  case Nil
  then show ?case by (subst remove_loop.simps) simp
next
  case (Cons i qs)
  have "u_next (n_pcb s i) \<noteq> Some p" using Cons.prems by (cases qs) auto
  then show ?case using Cons by (subst remove_loop.simps) auto
qed

lemma remove_loop_found:
  "pcb_list s q (as @ j # p # bs) \<Longrightarrow> distinct (as @ j # p # bs) \<Longrightarrow>
   remove_loop p q s = Some (pcb_upd j (\<lambda>u. u\<lparr>u_next := u_next (n_pcb s p)\<rparr>) s)"
proof (induction as arbitrary: q)
  case Nil
  let ?s = "pcb_upd j (\<lambda>u. u\<lparr>u_next := u_next (n_pcb s p)\<rparr>) s"
  have "list_at ((\<lambda>i. u_next (n_pcb s i))(j := u_next (n_pcb s p))) (u_next (n_pcb s p)) bs"
    using Nil by (intro list_at_upd) auto
  then have "pcb_list ?s (u_next (n_pcb s p)) bs" by (simp only: nx_set)
  then have "remove_loop p (u_next (n_pcb s p)) ?s = Some ?s" using Nil by (intro remove_loop_skip) auto
  with Nil show ?case by (subst remove_loop.simps) (simp add: Let_def)
next
  case (Cons a as)
  have "u_next (n_pcb s a) \<noteq> Some p" using Cons.prems by (cases as) auto
  then show ?case using Cons by (subst remove_loop.simps) auto
qed

lemma udp_remove_ok:
  assumes "pcb_list s (udp_pcbs s) ps" and "distinct ps"
  obtains s' where "udp_remove p s = Some s'" "pcb_list s' (udp_pcbs s') (remove1 p ps)"
    "n_lwip s' = (n_lwip s)\<lparr>l_memp := memp_free MEMP_UDP_PCB (Some p) (l_memp (n_lwip s))\<rparr>"
    "\<And>q. \<exists>nx. n_pcb s' q = (n_pcb s q)\<lparr>u_next := nx\<rparr>"
proof -
  let ?l = "\<lambda>t. t\<lparr>n_lwip := (n_lwip t)\<lparr>l_memp := memp_free MEMP_UDP_PCB (Some p) (l_memp (n_lwip t))\<rparr>\<rparr>"
  have same: "\<exists>nx. n_pcb s q = (n_pcb s q)\<lparr>u_next := nx\<rparr>" for q by (rule exI [of _ "u_next (n_pcb s q)"]) simp
  consider (out) "p \<notin> set ps" | (front) bs where "ps = p # bs" | (mid) as j bs where "ps = as @ j # p # bs"
    by (metis append_Nil append_butlast_last_id append_Cons append_assoc split_list)
  then show thesis
  proof cases
    case out
    have "udp_pcbs s \<noteq> Some p" using assms(1) out by (cases ps) auto
    then have "udp_remove p s = Some (?l s)" using remove_loop_skip [OF assms(1) out] by (simp add: udp_remove_def Let_def)
    then show thesis by (rule that) (use assms(1) out same in \<open>simp_all add: remove1_idem\<close>)
  next
    case front
    then have "udp_remove p s = Some (?l (s\<lparr>udp_pcbs := u_next (n_pcb s p)\<rparr>))"
      using assms(1) by (simp add: udp_remove_def Let_def)
    then show thesis by (rule that) (use assms(1) front same in simp_all)
  next
    case mid
    let ?s = "pcb_upd j (\<lambda>u. u\<lparr>u_next := u_next (n_pcb s p)\<rparr>) s"
    have d: "p \<notin> set (as @ [j])" "distinct (as @ j # p # bs)" using assms(2) mid by auto
    have "udp_pcbs s \<noteq> Some p" using assms(1) mid d(1) by (cases as) auto
    then have r: "udp_remove p s = Some (?l ?s)"
      using remove_loop_found [OF assms(1) [unfolded mid] d(2)] by (simp add: udp_remove_def Let_def)
    have "list_at ((\<lambda>i. u_next (n_pcb s i))(j := u_next (n_pcb s p))) (udp_pcbs s) (as @ j # bs)"
      by (rule list_unlink [OF assms(1) [unfolded mid] d(2)])
    then have "pcb_list ?s (udp_pcbs s) (as @ j # bs)" by (simp only: nx_set)
    moreover have "remove1 p ps = as @ j # bs" using mid d(1) by (simp add: remove1_append)
    ultimately show thesis using r same by (intro that [OF r]) auto
  qed
qed

section \<open>Every state of the control blocks\<close>

definition udp_ok :: "(memp_t \<Rightarrow> nat) \<Rightarrow> ('c, 'h) net \<Rightarrow> nat list \<Rightarrow> bool" where
  "udp_ok sizes s ps \<longleftrightarrow> memp_sizes_ok sizes \<and> memp_ok sizes (l_memp (n_lwip s)) \<and> pcb_list s (udp_pcbs s) ps \<and> distinct ps \<and>
     set ps \<subseteq> memp_taken sizes MEMP_UDP_PCB (l_memp (n_lwip s))"

text \<open>The control blocks as the application uses them: any sequence of calls with blocks it has obtained and
  not removed, and of datagrams that arrive.\<close>

inductive udp_reach :: "(memp_t \<Rightarrow> nat) \<Rightarrow> ('c, 'h) net \<Rightarrow> bool" for sizes where
  init: "l_memp (n_lwip s) = memp_init sizes m \<Longrightarrow> udp_pcbs s = None \<Longrightarrow> udp_reach sizes s"
| new: "udp_reach sizes s \<Longrightarrow> udp_new s = (r, s') \<Longrightarrow> udp_reach sizes s'"
| bind: "udp_reach sizes s \<Longrightarrow> p \<in> memp_taken sizes MEMP_UDP_PCB (l_memp (n_lwip s)) \<Longrightarrow>
    udp_bind p ip port s = Some (err, s') \<Longrightarrow> udp_reach sizes s'"
| connect: "udp_reach sizes s \<Longrightarrow> p \<in> memp_taken sizes MEMP_UDP_PCB (l_memp (n_lwip s)) \<Longrightarrow>
    udp_connect p ip port s = Some (err, s') \<Longrightarrow> udp_reach sizes s'"
| recv: "udp_reach sizes s \<Longrightarrow> udp_reach sizes (udp_recv p f arg s)"
| disconnect: "udp_reach sizes s \<Longrightarrow> udp_reach sizes (udp_disconnect p s)"
| remove: "udp_reach sizes s \<Longrightarrow> p \<in> memp_taken sizes MEMP_UDP_PCB (l_memp (n_lwip s)) \<Longrightarrow>
    udp_remove p s = Some s' \<Longrightarrow> udp_reach sizes s'"
| demux: "udp_reach sizes s \<Longrightarrow> udp_demux d s = Some (r, s') \<Longrightarrow> udp_reach sizes s'"

lemma udp_ok_length:
  assumes "udp_ok sizes s ps"
  shows "length ps \<le> 6"
proof -
  have "set ps \<subseteq> memp_elems sizes MEMP_UDP_PCB" using assms by (auto simp: udp_ok_def memp_taken_def)
  then have "card (set ps) \<le> 6" using card_mono [of "memp_elems sizes MEMP_UDP_PCB" "set ps"] memp_elems_card [of sizes MEMP_UDP_PCB] assms
    by (simp add: udp_ok_def memp_sizes_ok_def)
  then show ?thesis using assms by (simp add: udp_ok_def distinct_card)
qed

lemma add_front_set [simp]: "set (add_front p ps) = insert p (set ps)" "distinct (add_front p ps) = distinct ps"
  by (auto simp: add_front_def)

lemma to_front_set: "r = first_match d s ps \<Longrightarrow> set (to_front r ps) = set ps" "distinct ps \<Longrightarrow> distinct (to_front r ps)"
proof -
  show "distinct ps \<Longrightarrow> distinct (to_front r ps)" by (cases r) (auto simp: to_front_def)
  assume r: "r = first_match d s ps"
  show "set (to_front r ps) = set ps"
  proof (cases r)
    case (Some i)
    then have "i \<in> set ps" using r by (auto simp: first_match_def find_Some_iff dest: sym)
    moreover have "x = i \<or> x \<in> set (remove1 i ps)" if "x \<in> set ps" for x using that by (cases "x = i") simp_all
    ultimately show ?thesis using Some set_remove1_subset [of i ps] by (auto simp: to_front_def)
  qed (simp add: to_front_def)
qed

lemma udp_reach_ok:
  assumes "udp_reach sizes s" and "memp_sizes_ok sizes"
  shows "\<exists>ps. udp_ok sizes s ps"
  using assms(1)
proof (induction rule: udp_reach.induct)
  case (init s m)
  then show ?case using memp_init_ok [OF assms(2)] assms(2) by (intro exI [of _ "[]"]) (simp add: udp_ok_def)
next
  case (new s r s')
  then obtain ps where ps: "udp_ok sizes s ps" by blast
  obtain q m where qm: "memp_malloc MEMP_UDP_PCB (l_memp (n_lwip s)) = (q, m)" by fastforce
  have ok: "memp_ok sizes (l_memp (n_lwip s))" using ps by (simp add: udp_ok_def)
  note k = memp_malloc_ok [OF assms(2) ok, of MEMP_UDP_PCB, unfolded qm prod.case]
  show ?case
  proof (cases q)
    case None
    then show ?thesis using new.hyps(2) qm k ps by (intro exI [of _ ps]) (auto simp: udp_new_def udp_ok_def Let_def)
  next
    case (Some a)
    then have a: "a \<notin> set ps" using k ps by (auto simp: udp_ok_def)
    have "list_at ((\<lambda>i. u_next (n_pcb s i))(a := None)) (udp_pcbs s) ps" using ps a by (intro list_at_upd) (simp_all add: udp_ok_def)
    moreover have "(\<lambda>i. u_next (n_pcb s' i)) = (\<lambda>i. u_next (n_pcb s i))(a := None)"
      using new.hyps(2) qm Some by (auto simp: udp_new_def Let_def)
    ultimately have "pcb_list s' (udp_pcbs s) ps" by (simp only:)
    then show ?thesis using new.hyps(2) qm Some k ps by (intro exI [of _ ps]) (auto simp: udp_new_def udp_ok_def Let_def)
  qed
next
  case (bind s p ip port err s')
  then obtain ps where ps: "udp_ok sizes s ps" by blast
  have l: "pcb_list s (udp_pcbs s) ps" "length ps < 28671" using ps udp_ok_length [OF ps] by (simp_all add: udp_ok_def)
  obtain t where "udp_bind p ip port s = Some (ERR_OK, t)" "pcb_list t (udp_pcbs t) (add_front p ps)" "n_lwip t = n_lwip s"
    using udp_bind_ok [OF l, of p ip port] by metis
  then show ?case using bind.hyps(2,3) ps by (intro exI [of _ "add_front p ps"]) (auto simp: udp_ok_def)
next
  case (connect s p ip port err s')
  then obtain ps where ps: "udp_ok sizes s ps" by blast
  have l: "pcb_list s (udp_pcbs s) ps" "length ps < 28671" using ps udp_ok_length [OF ps] by (simp_all add: udp_ok_def)
  obtain t where "udp_connect p ip port s = Some (ERR_OK, t)" "pcb_list t (udp_pcbs t) (add_front p ps)" "n_lwip t = n_lwip s"
    using udp_connect_ok [OF l, of p ip port] by metis
  then show ?case using connect.hyps(2,3) ps by (intro exI [of _ "add_front p ps"]) (auto simp: udp_ok_def)
next
  case (recv s p f arg)
  then obtain ps where "udp_ok sizes s ps" by blast
  then have "udp_ok sizes (udp_recv p f arg s) ps"
    unfolding udp_recv_def udp_ok_def by (subst pcb_list_upd) simp_all
  then show ?case by blast
next
  case (disconnect s p)
  then obtain ps where "udp_ok sizes s ps" by blast
  then have "udp_ok sizes (udp_disconnect p s) ps"
    unfolding udp_disconnect_def udp_ok_def by (subst pcb_list_upd) simp_all
  then show ?case by blast
next
  case (remove s p s')
  then obtain ps where ps: "udp_ok sizes s ps" by blast
  have l: "pcb_list s (udp_pcbs s) ps" "distinct ps" "memp_ok sizes (l_memp (n_lwip s))" using ps by (simp_all add: udp_ok_def)
  note f = memp_free_ok(1,2) [OF assms(2) l(3) remove.hyps(2)]
  obtain t where "udp_remove p s = Some t" "pcb_list t (udp_pcbs t) (remove1 p ps)"
    "n_lwip t = (n_lwip s)\<lparr>l_memp := memp_free MEMP_UDP_PCB (Some p) (l_memp (n_lwip s))\<rparr>"
    using udp_remove_ok [OF l(1,2), of p] by metis
  then show ?case using remove.hyps(3) ps f by (intro exI [of _ "remove1 p ps"]) (auto simp: udp_ok_def)
next
  case (demux s d r s')
  then obtain ps where ps: "udp_ok sizes s ps" by blast
  have l: "pcb_list s (udp_pcbs s) ps" "distinct ps" using ps by (simp_all add: udp_ok_def)
  obtain t q where "udp_demux d s = Some (q, t)" "pcb_list t (udp_pcbs t) (to_front (first_match d s ps) ps)" "n_lwip t = n_lwip s"
    using udp_demux_ok [OF l, of d] by metis
  then show ?case using demux.hyps(2) ps to_front_set(1) [OF refl, of d s ps] to_front_set(2) [of ps "first_match d s ps"]
    by (intro exI [of _ "to_front (first_match d s ps) ps"]) (auto simp: udp_ok_def)
qed

section \<open>Properties\<close>

text \<open>C18: Whatever the application does with the control blocks it owns, and whatever arrives, the list of
  control blocks stays a list: it ends, has no block twice, and all its blocks are allocated ones of their
  pool, so there are at most 6.\<close>

theorem udp_pcbs_wellformed:
  assumes "memp_sizes_ok sizes" and "udp_reach sizes s"
  shows "\<exists>ps. pcb_list s (udp_pcbs s) ps \<and> distinct ps \<and> length ps \<le> 6 \<and>
    set ps \<subseteq> memp_taken sizes MEMP_UDP_PCB (l_memp (n_lwip s))"
proof -
  obtain ps where "udp_ok sizes s ps" using udp_reach_ok [OF assms(2,1)] by blast
  with udp_ok_length show ?thesis by (auto simp: udp_ok_def)
qed

text \<open>In every such state \<open>udp_bind\<close> returns, and always successfully: with port 0 it finds a port from
  4096 to 32766 that no block on the list has; any other port is taken as it is, even if another block has
  it already. The block is on the list afterwards, in front if it was not there, and no other block
  changes.\<close>

theorem udp_bind_contract:
  assumes "memp_sizes_ok sizes" and "udp_reach sizes s" and "pcb_list s (udp_pcbs s) ps"
  shows "\<exists>s'. udp_bind p ip port s = Some (ERR_OK, s') \<and> pcb_list s' (udp_pcbs s') (if p \<in> set ps then ps else p # ps) \<and>
    local_ip (n_pcb s' p) = ip_addr_set ip \<and> (\<forall>q. q \<noteq> p \<longrightarrow> n_pcb s' q = n_pcb s q) \<and>
    (if port = 0 then 4096 \<le> local_port (n_pcb s' p) \<and> local_port (n_pcb s' p) < UDP_LOCAL_PORT_RANGE_END \<and>
       (\<forall>i \<in> set ps. local_port (n_pcb s i) \<noteq> local_port (n_pcb s' p))
     else local_port (n_pcb s' p) = port)"
proof -
  obtain qs where qs: "udp_ok sizes s qs" using udp_reach_ok [OF assms(2,1)] by blast
  then have "qs = ps" using assms(3) list_at_unique by (auto simp: udp_ok_def)
  then have len: "length ps < 28671" using udp_ok_length [OF qs] by simp
  obtain s' k where b: "udp_bind p ip port s = Some (ERR_OK, s')"
    "pcb_list s' (udp_pcbs s') (add_front p ps)" "n_lwip s' = n_lwip s" "\<exists>nx. n_pcb s' p = (n_pcb s p)\<lparr>local_ip := ip_addr_set ip, local_port := k, u_next := nx\<rparr>"
    "\<And>q. q \<noteq> p \<Longrightarrow> n_pcb s' q = n_pcb s q"
    "if port = 0 then 4096 \<le> k \<and> k < UDP_LOCAL_PORT_RANGE_END \<and> k \<notin> (\<lambda>i. local_port (n_pcb s i)) ` set ps else k = port"
    by (rule udp_bind_ok [OF assms(3) len, where p = p and ip = ip and port = port]; rule that; assumption)
  then have "local_port (n_pcb s' p) = k" "local_ip (n_pcb s' p) = ip_addr_set ip" by auto
  moreover have "(\<forall>i \<in> set ps. local_port (n_pcb s i) \<noteq> k) \<or> port \<noteq> 0" using b(6) by (auto split: if_splits)
  ultimately show ?thesis using b by (intro exI [of _ s']) (simp add: add_front_def split: if_splits)
qed

text \<open>C19: Demultiplexing: a datagram goes to the first block on the list that matches it fully, and if there is
  none, to the first unconnected block that matches its destination. The full match moves to the front;
  the other blocks keep their order, and only links change.\<close>

theorem udp_demux_contract:
  assumes "pcb_list s (udp_pcbs s) ps" and "distinct ps"
  shows "\<exists>s'. udp_demux d s =
      Some (case find (\<lambda>i. full_match d (n_pcb s i)) ps of
              Some i \<Rightarrow> Some i
            | None \<Rightarrow> find (\<lambda>i. local_match d (n_pcb s i) \<and> unconnected (n_pcb s i)) ps, s') \<and>
    pcb_list s' (udp_pcbs s') (case find (\<lambda>i. full_match d (n_pcb s i)) ps of None \<Rightarrow> ps | Some i \<Rightarrow> i # remove1 i ps) \<and>
    n_lwip s' = n_lwip s \<and> (\<forall>q. \<exists>nx. n_pcb s' q = (n_pcb s q)\<lparr>u_next := nx\<rparr>)"
proof -
  obtain s' where "udp_demux d s = Some (case first_match d s ps of Some i \<Rightarrow> Some i | None \<Rightarrow> first_uncon d s ps, s')"
    "pcb_list s' (udp_pcbs s') (to_front (first_match d s ps) ps)" "n_lwip s' = n_lwip s" "n_netif s' = n_netif s"
    "\<And>q. \<exists>nx. n_pcb s' q = (n_pcb s q)\<lparr>u_next := nx\<rparr>"
    by (rule udp_demux_ok [OF assms, where d = d]; rule that; assumption)
  then show ?thesis unfolding first_match_def first_uncon_def to_front_def by (intro exI [of _ s']) simp
qed

section \<open>Witnesses\<close>

text \<open>Two control blocks on one port, the second one connected.\<close>

definition pcb_w :: "u16 \<Rightarrow> u32 \<Rightarrow> u8 \<Rightarrow> nat option \<Rightarrow> unit udp_pcb" where
  "pcb_w port ip fl nx = \<lparr>local_ip = 0, remote_ip = ip, u_tos = 0, u_ttl = 255, u_next = nx, u_flags = fl, local_port = 7,
     remote_port = port, recv = None, recv_arg = None\<rparr>"

definition net_w :: "(unit, unit) net" where
  "net_w = \<lparr>n_lwip = lwip_a, udp_pcbs = Some 0, n_pcb = (\<lambda>i. if i = 0 then pcb_w 0 0 0 (Some 1) else pcb_w 9 5 4 None),
     netif_list = None, netif_default = None, netifnum = 0,
     n_netif = (\<lambda>_. \<lparr>if_next = None, if_ip = 0, if_netmask = 0, if_gw = 0, if_dhcp_pcb = None, if_state = None, if_hwaddr_len = 0, if_hwaddr = [],
       if_mtu = 0, if_flags = 0, if_name = (CHR 0x00, CHR 0x00), if_num = 0\<rparr>),
     arp_table = (\<lambda>_. \<lparr>arp_q = None, arp_ip = 0, arp_eth = [], arp_state = ETHARP_STATE_EMPTY, arp_ctime = 0, arp_netif = None\<rparr>),
     etharp_cached_entry = 0, n_q = (\<lambda>_. \<lparr>q_next = None, q_p = Ram 0\<rparr>), ip_id = 0, current_netif = None, current_header = None, raw_pcbs = None, n_raw = (\<lambda>_. no_raw),
     reassdatagrams = None, n_reass = (\<lambda>_. no_reass), ip_reass_pbufcount = 0, n_ptr = (\<lambda>_. None), n_dev = ()\<rparr>"

theorem udp_pcbs_wellformed_witness:
  "\<exists>ps. pcb_list (net_w\<lparr>udp_pcbs := None\<rparr>) None ps \<and> distinct ps \<and> length ps \<le> 6"
proof -
  have "udp_reach (\<lambda>_. 1516) (net_w\<lparr>udp_pcbs := None\<rparr>)" by (rule udp_reach.init) (simp_all add: net_w_def lwip_a_def)
  moreover have "memp_sizes_ok (\<lambda>_. 1516)" by (simp add: memp_sizes_ok_def)
  ultimately show ?thesis using udp_pcbs_wellformed [of "\<lambda>_. 1516" "net_w\<lparr>udp_pcbs := None\<rparr>"] by auto
qed

theorem udp_bind_contract_witness:
  "\<exists>s'. udp_bind 64 None 0 (net_w\<lparr>udp_pcbs := None\<rparr>) = Some (ERR_OK, s') \<and> pcb_list s' (udp_pcbs s') [64] \<and>
     4096 \<le> local_port (n_pcb s' 64)"
proof -
  have r: "udp_reach (\<lambda>_. 1516) (net_w\<lparr>udp_pcbs := None\<rparr>)" by (rule udp_reach.init) (simp_all add: net_w_def lwip_a_def)
  have z: "memp_sizes_ok (\<lambda>_. 1516)" by (simp add: memp_sizes_ok_def)
  have "pcb_list (net_w\<lparr>udp_pcbs := None\<rparr>) (udp_pcbs (net_w\<lparr>udp_pcbs := None\<rparr>)) []" by simp
  from udp_bind_contract [OF z r this, of 64 None 0] show ?thesis by auto
qed

theorem udp_demux_contract_witness:
  "\<exists>s'. udp_demux \<lparr>d_src_ip = 5, d_dest_ip = 8, d_src = 9, d_dest = 7, d_bcast = False\<rparr> net_w = Some (Some 1, s') \<and>
     pcb_list s' (udp_pcbs s') [1, 0]"
proof -
  have "pcb_list net_w (udp_pcbs net_w) [0, 1]" by (simp add: net_w_def pcb_w_def)
  moreover have "find (\<lambda>i. full_match \<lparr>d_src_ip = 5, d_dest_ip = 8, d_src = 9, d_dest = 7, d_bcast = False\<rparr> (n_pcb net_w i)) [0, 1] = Some 1"
    by (simp add: full_match_def local_match_def ip_addr_isany_def net_w_def pcb_w_def)
  ultimately show ?thesis
    using udp_demux_contract [of net_w "[0, 1]" "\<lparr>d_src_ip = 5, d_dest_ip = 8, d_src = 9, d_dest = 7, d_bcast = False\<rparr>"] by auto
qed

end
