(* ===== verification/Chksum.thy ===== *)
theory Chksum
  imports Net
begin

text \<open>
  The Internet checksum, \<open>inet_chksum.c\<close> with the first of its three algorithms, over a piece of memory and over
  a chain of packet buffers, and its equality with the sum of big-endian words in one's complement.
\<close>

unbundle bit_operations_syntax

section \<open>The code\<close>

definition htons :: "u16 \<Rightarrow> u16" where
  "htons w = push_bit 8 w OR drop_bit 8 w"

definition FOLD_U32T :: "u32 \<Rightarrow> u32" where
  "FOLD_U32T u = drop_bit 16 u + (u AND 0x0000ffff)"

definition SWAP_BYTES_IN_WORD :: "u32 \<Rightarrow> u32" where
  "SWAP_BYTES_IN_WORD w = push_bit 8 (w AND 0xff) OR drop_bit 8 (w AND 0xff00)"

fun chksum_loop :: "(loc \<Rightarrow> u8) \<Rightarrow> loc \<Rightarrow> nat \<Rightarrow> u32 \<Rightarrow> u32" where
  "chksum_loop m p 0 acc = acc"
| "chksum_loop m p (Suc 0) acc = acc + ucast (push_bit 8 (ucast (m p)) :: u16)"
| "chksum_loop m p (Suc (Suc n)) acc = chksum_loop m (loc_add p 2) n (acc + ucast (get_be16 m p))"

definition chksum_carry :: "u32 \<Rightarrow> u32" where
  "chksum_carry acc =
     (let acc = drop_bit 16 acc + (acc AND 0x0000ffff)
      in if acc AND 0xffff0000 \<noteq> 0 then drop_bit 16 acc + (acc AND 0x0000ffff) else acc)"

definition lwip_standard_chksum :: "(loc \<Rightarrow> u8) \<Rightarrow> loc option \<Rightarrow> u16 \<Rightarrow> u16 option" where
  "lwip_standard_chksum m dataptr len =
     (if len = 0 then Some 0
      else do { p \<leftarrow> dataptr; Some (htons (ucast (chksum_carry (chksum_loop m p (unat len) 0)))) })"

definition inet_chksum :: "(loc \<Rightarrow> u8) \<Rightarrow> loc option \<Rightarrow> u16 \<Rightarrow> u16 option" where
  "inet_chksum m dataptr len = map_option (\<lambda>c. NOT c) (lwip_standard_chksum m dataptr len)"

partial_function (option) chksum_chain :: "lwip \<Rightarrow> loc option \<Rightarrow> u32 \<Rightarrow> bool \<Rightarrow> (u32 \<times> bool) option" where
  "chksum_chain l q acc swapped =
     (case q of
        None \<Rightarrow> Some (acc, swapped)
      | Some q \<Rightarrow> do {
          c \<leftarrow> lwip_standard_chksum (l_bytes l) (p_payload (pb l q)) (p_len (pb l q));
          let acc = FOLD_U32T (acc + ucast c);
          let (acc, swapped) = (if p_len (pb l q) mod 2 \<noteq> 0 then (SWAP_BYTES_IN_WORD acc, \<not> swapped) else (acc, swapped));
          chksum_chain l (p_next (pb l q)) acc swapped
        })"

definition inet_chksum_pbuf :: "loc option \<Rightarrow> lwip \<Rightarrow> u16 option" where
  "inet_chksum_pbuf p l = do {
     (acc, swapped) \<leftarrow> chksum_chain l p 0 False;
     let acc = (if swapped then SWAP_BYTES_IN_WORD acc else acc);
     Some (ucast (NOT (acc AND 0xffff)))
   }"

definition inet_chksum_pseudo :: "loc option \<Rightarrow> u32 \<Rightarrow> u32 \<Rightarrow> u8 \<Rightarrow> u16 \<Rightarrow> lwip \<Rightarrow> u16 option" where
  "inet_chksum_pseudo p src dest proto proto_len l = do {
     (acc, swapped) \<leftarrow> chksum_chain l p 0 False;
     let acc = (if swapped then SWAP_BYTES_IN_WORD acc else acc);
     let acc = acc + (src AND 0xffff) + (drop_bit 16 src AND 0xffff) + (dest AND 0xffff) + (drop_bit 16 dest AND 0xffff)
                   + ucast (htons (ucast proto)) + ucast (htons proto_len);
     Some (ucast (NOT (FOLD_U32T (FOLD_U32T acc) AND 0xffff)))
   }"

section \<open>Sums in one's complement\<close>

text \<open>The reference: the sum of the big-endian words of the data, a missing last byte counted as 0, and its value
  with the carries added back in, which is 0 only for a sum of 0.\<close>

fun be_sum :: "u8 list \<Rightarrow> nat" where
  "be_sum [] = 0"
| "be_sum [a] = 256 * unat a"
| "be_sum (a # b # xs) = 256 * unat a + unat b + be_sum xs"

definition ones_sum :: "nat \<Rightarrow> nat" where
  "ones_sum n = (if n = 0 then 0 else Suc ((n - 1) mod 65535))"

definition internet_sum :: "u8 list \<Rightarrow> u16" where
  "internet_sum xs = htons (of_nat (ones_sum (be_sum xs)))"

lemma ones_sum_eq: "ones_sum a = ones_sum b \<longleftrightarrow> (a = 0 \<longleftrightarrow> b = 0) \<and> a mod 65535 = b mod 65535"
proof (cases "a = 0 \<or> b = 0")
  case True
  then show ?thesis by (auto simp: ones_sum_def)
next
  case False
  then obtain c d where cd: "a = Suc c" "b = Suc d" by (metis not0_implies_Suc)
  have "(Suc c + 65534) mod 65535 = c mod 65535" "(Suc d + 65534) mod 65535 = d mod 65535" using mod_add_self2 [of c 65535] mod_add_self2 [of d 65535] by simp_all
  then have "c mod 65535 = d mod 65535" if "Suc c mod 65535 = Suc d mod 65535" using mod_add_cong [OF that, of 65534 65534] by simp
  moreover have "Suc c mod 65535 = Suc d mod 65535" if "c mod 65535 = d mod 65535" using mod_add_cong [OF that, of 1 1] by simp
  ultimately have "c mod 65535 = d mod 65535 \<longleftrightarrow> Suc c mod 65535 = Suc d mod 65535" by blast
  then show ?thesis using cd by (simp add: ones_sum_def)
qed

lemma ones_sum_le: "ones_sum n \<le> 65535"
  by (simp add: ones_sum_def Suc_le_eq)

lemma ones_sum_id: "n \<le> 65535 \<Longrightarrow> ones_sum n = n"
  by (simp add: ones_sum_def)

lemma ones_sum_idem [simp]: "ones_sum (ones_sum n) = ones_sum n"
  by (simp add: ones_sum_id ones_sum_le)

lemma ones_sum_mod: "ones_sum n mod 65535 = n mod 65535" "ones_sum n = 0 \<longleftrightarrow> n = 0"
  using ones_sum_idem [of n] unfolding ones_sum_eq by simp_all

lemma ones_sum_add: "ones_sum (a + ones_sum b) = ones_sum (a + b)"
  unfolding ones_sum_eq using ones_sum_mod [of b] by (auto intro: mod_add_cong)

lemma ones_sum_times: "ones_sum (a * ones_sum b) = ones_sum (a * b)"
  unfolding ones_sum_eq using ones_sum_mod [of b] by (auto intro: mod_mult_cong)

lemma mod_65536: "65536 * n mod 65535 = n mod (65535 :: nat)"
  using mod_mult_left_eq [of 65536 65535 n] by simp

lemma ones_sum_65536: "ones_sum (65536 * n) = ones_sum n"
  unfolding ones_sum_eq using mod_65536 by simp

lemma ones_sum_fold: "ones_sum (n div 65536 + n mod 65536) = ones_sum n"
proof -
  have n: "n = 65536 * (n div 65536) + n mod 65536" by simp
  have "(65536 * (n div 65536) + n mod 65536) mod 65535 = (n div 65536 + n mod 65536) mod 65535" by (rule mod_add_cong [OF mod_65536 refl])
  then have "n mod 65535 = (n div 65536 + n mod 65536) mod 65535" using n by argo
  moreover have "n = 0" if "n div 65536 + n mod 65536 = 0" using n that by auto
  ultimately show ?thesis unfolding ones_sum_eq by auto
qed

text \<open>The same sum with the parity of the first byte as an argument.\<close>

primrec par_sum :: "bool \<Rightarrow> u8 list \<Rightarrow> nat" where
  "par_sum e [] = 0"
| "par_sum e (x # xs) = (if e then 256 else 1) * unat x + par_sum (\<not> e) xs"

lemma be_par: "be_sum xs = par_sum True xs"
  by (induction xs rule: be_sum.induct) simp_all

lemma par_sum_append: "par_sum e (xs @ ys) = par_sum e xs + par_sum (e = even (length xs)) ys"
proof (induction xs arbitrary: e)
  case (Cons x xs)
  have "((\<not> e) = even (length xs)) = (e = even (length (x # xs)))" by auto
  then show ?case using Cons.IH [of "\<not> e"] by simp
qed simp

lemma par_sum_zero: "par_sum e xs = 0 \<longleftrightarrow> (\<forall>x \<in> set xs. x = 0)"
  by (induction xs arbitrary: e) (auto simp: unat_eq_0)

lemma par_sum_mod: "par_sum (\<not> e) xs mod 65535 = 256 * par_sum e xs mod 65535"
proof (induction xs arbitrary: e)
  case (Cons x xs)
  have "(if \<not> e then 256 else 1) * unat x mod 65535 = 256 * ((if e then 256 else 1) * unat x) mod 65535"
    using mod_65536 [of "unat x"] by simp
  from mod_add_cong [OF this Cons.IH [of "\<not> e"]] show ?case by (simp add: algebra_simps)
qed simp

lemma par_sum_flip: "ones_sum (par_sum (\<not> e) xs) = ones_sum (256 * par_sum e xs)"
  unfolding ones_sum_eq using par_sum_mod by (auto simp: par_sum_zero)

lemma par_sum_bound: "par_sum e xs \<le> 65280 * length xs"
proof (induction xs arbitrary: e)
  case (Cons x xs)
  have "unat x < 2 ^ LENGTH(8)" by (rule unsigned_less)
  then have "(if e then 256 else 1) * unat x \<le> 65280" by simp
  then show ?case using Cons.IH [of "\<not> e"] by simp
qed simp

section \<open>The words of the code\<close>

lemma unat_low16: "unat (u AND 0xffff :: u32) = unat u mod 65536"
proof -
  have "u AND 0xffff = take_bit 16 u" using take_bit_eq_mask [of 16 u] by (simp add: mask_eq_exp_minus_1)
  then have "unat (u AND 0xffff) = take_bit 16 (unat u)" by (simp only: unsigned_take_bit_eq)
  then show ?thesis by (simp add: take_bit_eq_mod)
qed

lemma unat_high16: "unat (drop_bit 16 u :: u32) = unat u div 65536"
  unfolding unat_drop_bit_eq using drop_bit_eq_div [of 16 "unat u"] by simp

lemma unat_fold: "unat (FOLD_U32T u) = unat u div 65536 + unat u mod 65536"
proof -
  have "unat u < 2 ^ LENGTH(32)" by (rule unsigned_less)
  then have "unat u div 65536 + unat u mod 65536 < 2 ^ 32" by simp
  then show ?thesis unfolding FOLD_U32T_def unat_add_lem unat_low16 unat_high16
    by (subst unat_plus_if_size) (simp add: unat_low16 unat_high16 word_size)
qed

lemma unat_add_u32: "unat a + unat b < 2 ^ 32 \<Longrightarrow> unat (a + b :: u32) = unat a + unat b"
  by (simp add: unat_plus_if_size word_size)

lemma swap_nat: "n < 65536 \<Longrightarrow> 256 * (n mod 256) + n div 256 = ones_sum (256 * n)"
proof -
  assume n: "n < 65536"
  have "256 * n = 65536 * (n div 256) + 256 * (n mod 256)" using mult_div_mod_eq [of 256 n] by linarith
  moreover have "(65536 * (n div 256) + 256 * (n mod 256)) mod 65535 = (n div 256 + 256 * (n mod 256)) mod 65535"
    by (rule mod_add_cong [OF mod_65536 refl])
  ultimately have "256 * n mod 65535 = (256 * (n mod 256) + n div 256) mod 65535" by (simp add: add.commute)
  moreover have "256 * (n mod 256) + n div 256 = 0 \<longleftrightarrow> 256 * n = 0" using div_mult_mod_eq [of n 256] by auto
  ultimately have "ones_sum (256 * (n mod 256) + n div 256) = ones_sum (256 * n)" unfolding ones_sum_eq by simp
  moreover have "256 * (n mod 256) + n div 256 \<le> 65535"
  proof -
    have "n mod 256 \<le> 255" "n div 256 \<le> 255" using n by simp_all
    then show ?thesis by linarith
  qed
  ultimately show ?thesis by (simp add: ones_sum_id)
qed

lemma unat_swap:
  assumes "unat w < 65536"
  shows "unat (SWAP_BYTES_IN_WORD w) = ones_sum (256 * unat w)"
proof -
  let ?lo = "take_bit 8 w" and ?hi = "take_bit 8 (drop_bit 8 w)"
  have 1: "w AND 0xff = ?lo" using take_bit_eq_mask [of 8 w] by (simp add: mask_eq_exp_minus_1)
  have "drop_bit 8 w AND 0xff = ?hi" using take_bit_eq_mask [of 8 "drop_bit 8 w"] by (simp add: mask_eq_exp_minus_1)
  then have 2: "drop_bit 8 (w AND 0xff00) = ?hi" unfolding drop_bit_and by simp
  have "push_bit 8 ?lo AND ?hi = 0" by (rule bit_word_eqI) (auto simp: bit_simps)
  then have "SWAP_BYTES_IN_WORD w = push_bit 8 ?lo + ?hi" unfolding SWAP_BYTES_IN_WORD_def 1 2 by (rule disjunctive_add_eq_or [symmetric])
  moreover have lo: "unat ?lo = unat w mod 256" unfolding unsigned_take_bit_eq using take_bit_eq_mod [of 8 "unat w"] by simp
  moreover have "unat ?hi = unat w div 256"
    unfolding unsigned_take_bit_eq unat_drop_bit_eq using assms drop_bit_eq_div [of 8 "unat w"] by (simp add: take_bit_eq_mod)
  moreover have "unat (push_bit 8 ?lo) = 256 * unat ?lo"
  proof -
    have "push_bit 8 ?lo = 256 * ?lo" by (simp add: push_bit_eq_mult mult.commute)
    moreover have "256 * unat ?lo < 2 ^ 32" using lo by simp
    ultimately show ?thesis using unat_mult_lem [of "256 :: u32" ?lo] by simp
  qed
  moreover have "ones_sum (256 * unat w) < 2 ^ 32" using ones_sum_le [of "256 * unat w"] by simp
  ultimately show ?thesis using swap_nat [OF assms] by (simp add: unat_plus_if_size word_size)
qed

lemma unat_htons: "unat (htons w) = ones_sum (256 * unat w)"
proof -
  have w: "unat w < 65536" using unsigned_less [of w] by simp
  have "htons w = push_bit 8 w + drop_bit 8 w"
    unfolding htons_def by (rule disjunctive_add_eq_or [symmetric], rule bit_word_eqI) (auto simp: bit_simps dest: bit_imp_le_length)
  moreover have "unat (push_bit 8 w) = 256 * (unat w mod 256)"
  proof -
    have lo: "unat (take_bit 8 w) = unat w mod 256" unfolding unsigned_take_bit_eq using take_bit_eq_mod [of 8 "unat w"] by simp
    have "push_bit 8 w = push_bit 8 (take_bit 8 w)" by (rule bit_word_eqI) (auto simp: bit_simps)
    also have "\<dots> = 256 * take_bit 8 w" by (simp add: push_bit_eq_mult mult.commute)
    also have "unat (256 * take_bit 8 w) = 256 * unat (take_bit 8 w)" using unat_mult_lem [of "256 :: u16" "take_bit 8 w"] lo by simp
    finally show ?thesis using lo by simp
  qed
  moreover have "unat (drop_bit 8 w) = unat w div 256" unfolding unat_drop_bit_eq using drop_bit_eq_div [of 8 "unat w"] by simp
  moreover have "256 * (unat w mod 256) + unat w div 256 < 65536" using swap_nat [OF w] ones_sum_le [of "256 * unat w"] by linarith
  ultimately show ?thesis using swap_nat [OF w] by (simp add: unat_plus_if_size word_size)
qed

lemma unat_be16: "unat (get_be16 m p) = 256 * unat (m p) + unat (m (loc_add p 1))"
proof -
  let ?a = "ucast (m p) :: u16" and ?b = "ucast (m (loc_add p 1)) :: u16"
  have lt: "unat (m q) < 256" for q using unsigned_less [of "m q"] by simp
  have ab: "unat ?a = unat (m p)" "unat ?b = unat (m (loc_add p 1))"
    using lt [of p] lt [of "loc_add p 1"] by (simp_all add: unsigned_ucast_eq take_bit_nat_eq_self)
  have "get_be16 m p = push_bit 8 ?a + ?b"
    unfolding get_be16_def by (rule disjunctive_add_eq_or [symmetric], rule bit_word_eqI) (auto simp: bit_simps dest: bit_imp_le_length)
  moreover have "unat (push_bit 8 ?a) = 256 * unat ?a"
    using unat_mult_lem [of "256 :: u16" ?a] ab lt [of p] by (simp add: push_bit_eq_mult mult.commute)
  ultimately show ?thesis using ab lt [of p] lt [of "loc_add p 1"] by (simp add: unat_plus_if_size word_size)
qed

lemma unat_high_byte: "unat (push_bit 8 (ucast (b :: u8)) :: u16) = 256 * unat b"
proof -
  have "unat b < 256" using unsigned_less [of b] by simp
  moreover from this have "unat (ucast b :: u16) = unat b" by (simp add: unsigned_ucast_eq take_bit_nat_eq_self)
  ultimately show ?thesis using unat_mult_lem [of "256 :: u16" "ucast b"] by (simp add: push_bit_eq_mult mult.commute)
qed

section \<open>A piece of memory\<close>

lemma chksum_loop_eq: "chksum_loop m p n acc = acc + of_nat (be_sum (read_at m p n))"
proof (induction m p n acc rule: chksum_loop.induct)
  case (1 m p acc)
  then show ?case by (simp add: read_at_def)
next
  case (2 m p acc)
  have "ucast (push_bit 8 (ucast (m p)) :: u16) = (of_nat (256 * unat (m p)) :: u32)"
    unfolding unat_high_byte [symmetric] by simp
  moreover have "read_at m p (Suc 0) = [m p]" by (simp add: read_at_def)
  ultimately show ?case by simp
next
  case (3 m p n acc)
  have "ucast (get_be16 m p) = (of_nat (256 * unat (m p) + unat (m (loc_add p 1))) :: u32)" unfolding unat_be16 [symmetric] by simp
  then show ?case using 3 by (simp add: read_Suc add.assoc)
qed

lemma fold_small:
  assumes "n \<le> 131070"
  shows "n div 65536 + n mod 65536 \<le> (65535 :: nat)"
proof (cases "n < 65536")
  case False
  then have "n div 65536 = 1" "n mod 65536 = n - 65536" using assms by (simp_all add: mod_if div_if)
  then show ?thesis using assms by simp
qed simp

lemma carry_eq: "unat (chksum_carry acc) = ones_sum (unat acc)"
proof -
  have step: "drop_bit 16 a + (a AND 0xffff) = FOLD_U32T a" for a by (simp add: FOLD_U32T_def)
  have acc: "unat acc < 2 ^ 32" using unsigned_less [of acc] by simp
  have f: "ones_sum (unat (FOLD_U32T a)) = ones_sum (unat a)" for a by (simp add: unat_fold ones_sum_fold)
  have one: "unat (FOLD_U32T acc) \<le> 131070"
  proof -
    have "unat acc div 65536 \<le> 65535" "unat acc mod 65536 \<le> 65535" using acc by simp_all
    then show ?thesis unfolding unat_fold by linarith
  qed
  have hi: "(a AND 0xffff0000 = 0) \<longleftrightarrow> unat a < 65536" for a :: u32
  proof -
    have "take_bit 16 (drop_bit 16 a) = drop_bit 16 a" by (rule bit_word_eqI) (auto simp: bit_simps dest: bit_imp_le_length)
    then have "drop_bit 16 a AND 0xffff = drop_bit 16 a" using take_bit_eq_mask [of 16 "drop_bit 16 a"] by (simp add: mask_eq_exp_minus_1)
    then have dr: "drop_bit 16 (a AND 0xffff0000) = drop_bit 16 a" unfolding drop_bit_and by simp
    have tk: "take_bit 16 (a AND 0xffff0000) = 0" unfolding take_bit_and by simp
    have "push_bit 16 (drop_bit 16 a) = a AND 0xffff0000"
      using bits_ident [of 16 "a AND 0xffff0000"] unfolding dr tk by (simp only: add_0_right)
    then have "a AND 0xffff0000 = 0 \<longleftrightarrow> drop_bit 16 a = 0" using dr by (metis drop_bit_of_0 push_bit_of_0)
    moreover have "drop_bit 16 a = 0 \<longleftrightarrow> unat a div 65536 = 0" by (metis unat_high16 unat_eq_0)
    ultimately show ?thesis by (simp add: div_eq_0_iff)
  qed
  show ?thesis
  proof (cases "unat (FOLD_U32T acc) < 65536")
    case True
    then have "ones_sum (unat (FOLD_U32T acc)) = unat (FOLD_U32T acc)" by (intro ones_sum_id) simp
    then show ?thesis using True hi f by (simp add: chksum_carry_def step Let_def)
  next
    case False
    then have "unat (FOLD_U32T (FOLD_U32T acc)) \<le> 65535" unfolding unat_fold [of "FOLD_U32T acc"] by (intro fold_small one)
    then have "ones_sum (unat (FOLD_U32T (FOLD_U32T acc))) = unat (FOLD_U32T (FOLD_U32T acc))" by (rule ones_sum_id)
    then show ?thesis using False hi f by (simp add: chksum_carry_def step Let_def)
  qed
qed

lemma unat_internet_sum: "unat (internet_sum xs) = ones_sum (256 * be_sum xs)"
proof -
  have "unat (of_nat (ones_sum (be_sum xs)) :: u16) = ones_sum (be_sum xs)"
    using ones_sum_le [of "be_sum xs"] by (simp add: unsigned_of_nat take_bit_nat_eq_self)
  then show ?thesis by (simp add: internet_sum_def unat_htons ones_sum_times)
qed

lemma standard_chksum_eq:
  assumes "p \<noteq> None \<or> len = 0" "\<And>a. p = Some a \<Longrightarrow> xs = read_at m a (unat len)" "p = None \<Longrightarrow> xs = []"
  shows "lwip_standard_chksum m p len = Some (internet_sum xs)"
proof (cases "len = 0")
  case True
  then have "xs = []" using assms by (cases p) (auto simp: read_at_def)
  then show ?thesis using True by (simp add: lwip_standard_chksum_def internet_sum_def ones_sum_def htons_def)
next
  case False
  then obtain a where a: "p = Some a" using assms by auto
  then have xs: "xs = read_at m a (unat len)" using assms by simp
  have "be_sum xs \<le> 65280 * unat len" using par_sum_bound [of True xs] xs by (simp add: be_par)
  moreover have "unat len < 65536" using unsigned_less [of len] by simp
  ultimately have "be_sum xs < 2 ^ 32" by simp
  then have "unat (chksum_loop m a (unat len) 0) = be_sum xs"
    by (simp add: chksum_loop_eq xs unsigned_of_nat take_bit_nat_eq_self)
  then have c: "unat (chksum_carry (chksum_loop m a (unat len) 0)) = ones_sum (be_sum xs)" by (simp add: carry_eq)
  have "ucast (chksum_carry (chksum_loop m a (unat len) 0)) = (of_nat (ones_sum (be_sum xs)) :: u16)" unfolding c [symmetric] by simp
  then show ?thesis using False a by (simp add: lwip_standard_chksum_def internet_sum_def)
qed

section \<open>A chain of buffers\<close>

text \<open>While the chain is summed, the accumulator holds the sum so far, with the bytes swapped once for every byte.\<close>

lemma chksum_step:
  assumes a: "unat acc = ones_sum (256 * par_sum e xs)"
  shows "unat (FOLD_U32T (acc + ucast (internet_sum ys))) = ones_sum (256 * (par_sum e xs + par_sum True ys))"
proof -
  have lt: "ones_sum n < 65536" for n using ones_sum_le [of n] by simp
  have c: "unat (ucast (internet_sum ys) :: u32) = ones_sum (256 * par_sum True ys)" by (simp add: unat_internet_sum be_par)
  have sum: "unat (acc + ucast (internet_sum ys)) = ones_sum (256 * par_sum e xs) + ones_sum (256 * par_sum True ys)"
    using lt [of "256 * par_sum e xs"] lt [of "256 * par_sum True ys"] a c by (subst unat_add_u32) simp_all
  have ones: "ones_sum (unat (FOLD_U32T (acc + ucast (internet_sum ys)))) = ones_sum (256 * (par_sum e xs + par_sum True ys))"
    unfolding unat_fold ones_sum_fold sum ones_sum_add
    using ones_sum_add [of "256 * par_sum True ys" "256 * par_sum e xs"] by (simp add: add.commute algebra_simps)
  have "unat (FOLD_U32T (acc + ucast (internet_sum ys))) \<le> 65535"
  proof -
    let ?t = "ones_sum (256 * par_sum e xs) + ones_sum (256 * par_sum True ys)"
    have t: "?t \<le> 131070" using ones_sum_le [of "256 * par_sum e xs"] ones_sum_le [of "256 * par_sum True ys"] by linarith
    then show ?thesis unfolding unat_fold sum by (rule fold_small)
  qed
  then show ?thesis using ones by (simp add: ones_sum_id)
qed

lemma odd_u16: "(w :: u16) mod 2 \<noteq> 0 \<longleftrightarrow> odd (unat w)"
proof -
  have "w mod 2 = 0 \<longleftrightarrow> unat w mod 2 = 0" using unat_mod [of w 2] by (simp flip: unat_eq_0)
  then show ?thesis by (simp add: even_iff_mod_2_eq_zero)
qed

lemma chksum_chain_eq:
  assumes "chain_at l q ps" "payloads l ps" "unat acc = ones_sum (256 * par_sum (even (length xs)) xs)"
  shows "\<exists>acc'. chksum_chain l q acc (odd (length xs)) = Some (acc', odd (length (xs @ chain_data l ps))) \<and>
    unat acc' = ones_sum (256 * par_sum (even (length (xs @ chain_data l ps))) (xs @ chain_data l ps))"
  using assms
proof (induction ps arbitrary: q acc xs)
  case Nil
  then show ?case by (subst chksum_chain.simps) (simp add: chain_data_def)
next
  case (Cons x ps)
  let ?ys = "pdata l x" and ?e = "even (length xs)"
  have pl: "payloads l [x]" "payloads l ps" and ch: "chain_at l (p_next (pb l x)) ps" "q = Some x"
    using Cons.prems(1,2) by (simp_all add: payloads_def)
  have len: "length ?ys = unat (p_len (pb l x))" by (rule length_pdata [OF pl(1)])
  have std: "lwip_standard_chksum (l_bytes l) (p_payload (pb l x)) (p_len (pb l x)) = Some (internet_sum ?ys)"
    using pl(1) by (intro standard_chksum_eq) (auto simp: payloads_def pdata_def unat_eq_0)
  let ?a = "FOLD_U32T (acc + ucast (internet_sum ?ys))"
  have a: "unat ?a = ones_sum (256 * par_sum ?e (xs @ ?ys))" using chksum_step [OF Cons.prems(3)] by (simp add: par_sum_append)
  have alt: "unat ?a < 65536" using ones_sum_le [of "256 * par_sum ?e (xs @ ?ys)"] a by linarith
  let ?b = "if odd (length ?ys) then SWAP_BYTES_IN_WORD ?a else ?a"
  have "unat (SWAP_BYTES_IN_WORD ?a) = ones_sum (256 * par_sum (\<not> ?e) (xs @ ?ys))"
    unfolding unat_swap [OF alt] a ones_sum_times
    using ones_sum_times [of 256 "256 * par_sum ?e (xs @ ?ys)"] ones_sum_times [of 256 "par_sum (\<not> ?e) (xs @ ?ys)"]
      par_sum_flip [of ?e "xs @ ?ys"] by simp
  then have b: "unat ?b = ones_sum (256 * par_sum (even (length (xs @ ?ys))) (xs @ ?ys))" using a by auto
  have "chksum_chain l q acc (odd (length xs)) = chksum_chain l (p_next (pb l x)) ?b (odd (length (xs @ ?ys)))"
    using std len odd_u16 [of "p_len (pb l x)"] by (subst chksum_chain.simps) (auto simp: ch)
  then show ?case using Cons.IH [OF ch(1) pl(2) b] by (simp add: chain_data_Cons)
qed

lemma final_word: "unat acc = unat (w :: u16) \<Longrightarrow> ucast (NOT (acc AND 0xffff :: u32)) = NOT w"
proof -
  assume eq: "unat acc = unat w"
  have "unat w < 65536" using unsigned_less [of w] by simp
  then have "unat (acc AND 0xffff) = unat (ucast w :: u32)" using eq unat_low16 [of acc] by simp
  then have "acc AND 0xffff = ucast w" by (simp add: word_unat_eq_iff)
  moreover have "ucast (NOT (ucast w :: u32)) = NOT w" by (rule bit_word_eqI) (auto simp: bit_simps)
  ultimately show ?thesis by simp
qed

lemma chain_sum:
  assumes "chain_at l q ps" "payloads l ps"
  shows "\<exists>acc sw. chksum_chain l q 0 False = Some (acc, sw) \<and>
    unat (if sw then SWAP_BYTES_IN_WORD acc else acc) = unat (internet_sum (chain_data l ps))"
proof -
  have "unat (0 :: u32) = ones_sum (256 * par_sum (even (length ([] :: u8 list))) [])" by (simp add: ones_sum_def)
  from chksum_chain_eq [OF assms this] obtain acc where acc: "chksum_chain l q 0 False = Some (acc, odd (length (chain_data l ps)))"
    "unat acc = ones_sum (256 * par_sum (even (length (chain_data l ps))) (chain_data l ps))" by auto
  have "unat acc < 65536" using acc(2) ones_sum_le [of "256 * par_sum (even (length (chain_data l ps))) (chain_data l ps)"] by linarith
  note sw = unat_swap [OF this]
  show ?thesis
  proof (cases "even (length (chain_data l ps))")
    case True
    then show ?thesis using acc by (auto simp: unat_internet_sum be_par)
  next
    case False
    then have "unat (SWAP_BYTES_IN_WORD acc) = ones_sum (256 * par_sum True (chain_data l ps))"
      using sw acc(2) ones_sum_times [of 256 "256 * par_sum False (chain_data l ps)"] ones_sum_times [of 256 "par_sum True (chain_data l ps)"]
        par_sum_flip [of False "chain_data l ps"] by simp
    then show ?thesis using acc(1) False by (auto simp: unat_internet_sum be_par)
  qed
qed

section \<open>Properties\<close>

text \<open>C28: The checksum of a packet does not depend on how its bytes are spread over the buffers of the chain, with
  odd lengths anywhere: \<open>inet_chksum_pbuf\<close> returns, and its value is the complement of the one's complement sum of
  the big-endian words of all bytes, which is what \<open>inet_chksum\<close> computes for the same bytes in one piece.\<close>

theorem inet_chksum_pbuf_flat:
  assumes "chain_at l q ps" "payloads l ps"
    and "read_at m a (length (chain_data l ps)) = chain_data l ps" "length (chain_data l ps) < 2 ^ 16"
  shows "inet_chksum_pbuf q l = Some (NOT (internet_sum (chain_data l ps))) \<and>
    inet_chksum m (Some a) (of_nat (length (chain_data l ps))) = Some (NOT (internet_sum (chain_data l ps)))"
proof -
  have len: "unat (of_nat (length (chain_data l ps)) :: u16) = length (chain_data l ps)"
    using assms(4) by (simp add: unsigned_of_nat take_bit_nat_eq_self)
  have "lwip_standard_chksum m (Some a) (of_nat (length (chain_data l ps))) = Some (internet_sum (chain_data l ps))"
    using assms(3) len by (intro standard_chksum_eq) simp_all
  moreover obtain acc sw where "chksum_chain l q 0 False = Some (acc, sw)"
    "unat (if sw then SWAP_BYTES_IN_WORD acc else acc) = unat (internet_sum (chain_data l ps))" using chain_sum [OF assms(1,2)] by blast
  ultimately show ?thesis using final_word by (simp add: inet_chksum_pbuf_def inet_chksum_def Let_def)
qed

text \<open>A checksum that is stored in its field, at an even offset and in the byte order of the processor, makes the
  sum over the whole complete: the check of a receiver gives 0.\<close>

lemma be_sum_field:
  assumes "even k" "Suc k < length xs"
  shows "be_sum (xs[k := a, Suc k := b]) + (256 * unat (xs ! k) + unat (xs ! Suc k)) = be_sum xs + (256 * unat a + unat b)"
  using assms
proof (induction xs arbitrary: k rule: be_sum.induct)
  case (3 x y xs)
  show ?case
  proof (cases k)
    case (Suc j)
    then obtain i where "k = Suc (Suc i)" "even i" using 3 by (cases j) auto
    then show ?thesis using 3 by simp
  qed simp
qed simp_all

lemma unat_not16: "unat (NOT (w :: u16)) = 65535 - unat w"
proof -
  have "NOT w = - 1 - w" by (simp add: not_eq_complement)
  moreover have "w \<le> - 1" by (rule word_n1_ge)
  ultimately show ?thesis using unat_sub [of w "- 1"] by (simp add: unsigned_minus_1_eq_mask mask_eq_exp_minus_1)
qed

lemma unat_bytes16: "unat (w :: u16) = unat (ucast w :: u8) + 256 * unat (ucast (drop_bit 8 w) :: u8)"
proof -
  have "unat (ucast w :: u8) = unat w mod 256" by (simp add: unsigned_ucast_eq take_bit_eq_mod)
  moreover have "unat (ucast (drop_bit 8 w) :: u8) = unat w div 256"
  proof -
    have "unat w < 2 ^ LENGTH(16)" by (rule unsigned_less)
    then have "unat w div 256 < 256" by simp
    then show ?thesis unfolding unsigned_ucast_eq unat_drop_bit_eq using drop_bit_eq_div [of 8 "unat w"] by (simp add: take_bit_eq_mod)
  qed
  ultimately show ?thesis by simp
qed

lemma ones_sum_complement: "ones_sum (n + (65535 - ones_sum n)) = 65535"
proof -
  have le: "ones_sum n \<le> 65535" by (rule ones_sum_le)
  have "ones_sum (n + (65535 - ones_sum n)) = ones_sum ((65535 - ones_sum n) + ones_sum n)"
    unfolding ones_sum_add by (simp add: add.commute)
  then show ?thesis using le by (simp add: ones_sum_id)
qed

text \<open>A store of 16 bits by the little-endian processor.\<close>

definition put_le16 :: "loc \<Rightarrow> u16 \<Rightarrow> (loc \<Rightarrow> u8) \<Rightarrow> loc \<Rightarrow> u8" where
  "put_le16 p w m = m(p := ucast w, loc_add p 1 := ucast (drop_bit 8 w))"

lemma read_put_le16:
  assumes "Suc k < n"
  shows "read_at (put_le16 (loc_add p (int k)) w m) p n = (read_at m p n)[k := ucast w, Suc k := ucast (drop_bit 8 w)]"
proof (rule nth_equalityI)
  fix i
  assume "i < length (read_at (put_le16 (loc_add p (int k)) w m) p n)"
  then have i: "i < n" by (simp add: read_at_def)
  have eq: "loc_add p (int i) = loc_add p (int j) \<longleftrightarrow> i = j" for j by (metis loc_add_inj of_nat_eq_iff)
  show "read_at (put_le16 (loc_add p (int k)) w m) p n ! i = (read_at m p n)[k := ucast w, Suc k := ucast (drop_bit 8 w)] ! i"
    using i eq [of k] eq [of "Suc k"] by (auto simp: read_at_def put_le16_def nth_list_update)
qed (simp add: read_at_def)

text \<open>C29: A checksum that is stored in its field is accepted: for every piece of memory with a field of two zero
  bytes at an even offset, storing the value of \<open>inet_chksum\<close> there makes \<open>inet_chksum\<close> over the same memory 0.\<close>

theorem inet_chksum_accepted:
  assumes "even k" "Suc k < unat n" "m (loc_add p (int k)) = 0" "m (loc_add p (int (Suc k))) = 0"
    and "inet_chksum m (Some p) n = Some c"
  shows "inet_chksum (put_le16 (loc_add p (int k)) c m) (Some p) n = Some 0"
proof -
  let ?xs = "read_at m p (unat n)" and ?lo = "ucast c :: u8" and ?hi = "ucast (drop_bit 8 c) :: u8"
  let ?ys = "?xs[k := ?lo, Suc k := ?hi]"
  have xs: "length ?xs = unat n" "?xs ! k = 0" "?xs ! Suc k = 0" using assms(2-4) by (simp_all add: read_at_def)
  have std: "lwip_standard_chksum m' (Some p) n = Some (internet_sum (read_at m' p (unat n)))" for m' by (rule standard_chksum_eq) simp_all
  have c: "c = NOT (internet_sum ?xs)" using assms(5) std by (simp add: inet_chksum_def)
  have "be_sum ?ys = be_sum ?xs + (256 * unat ?lo + unat ?hi)" using be_sum_field [of k ?xs ?lo ?hi] assms(1,2) xs by simp
  then have "256 * be_sum ?ys = (256 * be_sum ?xs + 256 * unat ?hi) + 65536 * unat ?lo" by simp
  then have "ones_sum (256 * be_sum ?ys) = ones_sum (256 * be_sum ?xs + 256 * unat ?hi + unat ?lo)"
    using ones_sum_add [of "256 * be_sum ?xs + 256 * unat ?hi" "65536 * unat ?lo"]
      ones_sum_add [of "256 * be_sum ?xs + 256 * unat ?hi" "unat ?lo"] ones_sum_65536 [of "unat ?lo"] by simp
  also have "\<dots> = ones_sum (256 * be_sum ?xs + unat c)" using unat_bytes16 [of c] by (simp add: ac_simps)
  also have "\<dots> = 65535" unfolding c unat_not16 unat_internet_sum by (rule ones_sum_complement)
  finally have "unat (NOT (internet_sum ?ys)) = 0" by (simp add: unat_not16 unat_internet_sum)
  then have "NOT (internet_sum ?ys) = 0" by (simp add: unat_eq_0)
  then show ?thesis using std [of "put_le16 (loc_add p (int k)) c m"] read_put_le16 [OF assms(2)] by (simp add: inet_chksum_def)
qed

section \<open>Witnesses\<close>

theorem inet_chksum_pbuf_flat_witness: "inet_chksum_pbuf (Some (Ram 8)) lwip_a = Some 0xF4F2"
proof -
  let ?m = "put_at (Ext 0) [0, 1, 2, 10, 11] (\<lambda>_. 0)"
  have "read_at ?m (Ext 0) (length [0, 1, 2, 10, 11 :: u8]) = [0, 1, 2, 10, 11]" by (simp add: read_at_def upt_rec)
  then have "inet_chksum_pbuf (Some (Ram 8)) lwip_a = Some (NOT (internet_sum [0, 1, 2, 10, 11]))"
    using inet_chksum_pbuf_flat [OF lwip_a_chain(1,2), of ?m "Ext 0"] lwip_a_chain(7) by simp
  then show ?thesis by (simp add: internet_sum_def ones_sum_def htons_def)
qed

theorem inet_chksum_accepted_witness:
  "inet_chksum (put_le16 (Ext 2) 0xFFBA ((\<lambda>_. 0)(Ext 0 := 0x45))) (Some (Ext 0)) 4 = Some 0"
proof -
  let ?m = "(\<lambda>_. 0)(Ext 0 := 0x45) :: loc \<Rightarrow> u8"
  have "read_at ?m (Ext 0) (unat (4 :: u16)) = [0x45, 0, 0, 0]" by (simp add: read_at_def upt_rec)
  then have "lwip_standard_chksum ?m (Some (Ext 0)) 4 = Some (internet_sum [0x45, 0, 0, 0])" by (intro standard_chksum_eq) simp_all
  then have "inet_chksum ?m (Some (Ext 0)) 4 = Some 0xFFBA" by (simp add: inet_chksum_def internet_sum_def ones_sum_def htons_def)
  from inet_chksum_accepted [of 2 4 ?m "Ext 0", OF _ _ _ _ this] show ?thesis by simp
qed

end
