(* ===== verification/Ip.thy ===== *)
theory Ip
  imports Udp Chksum
begin

text \<open>
  Sending over IP and ICMP: fragmentation (\<open>ip_frag\<close> of \<open>ip_frag.c\<close>), the output functions of \<open>ip.c\<close>, and
  \<open>icmp.c\<close>. The updater compiles with checksums in hardware, without options, forwarding and a loop interface,
  with fragments in a static buffer, and answers neither broadcast nor multicast pings.

  The functions that the code reaches through pointers (the output function of the interface and the receive
  functions of the control blocks), TCP, and the place of the static buffer are the record \<open>ip_env\<close>.

  The header that is written reads back as what was asked for, and an echo request is answered.
\<close>

unbundle bit_operations_syntax

section \<open>Headers\<close>

definition IP_HLEN :: nat where [simp]: "IP_HLEN = 20"
definition PBUF_LINK_HLEN :: nat where [simp]: "PBUF_LINK_HLEN = 14"
definition IP_PROTO_ICMP :: u8 where [simp]: "IP_PROTO_ICMP = 1"
definition IP_PROTO_TCP :: u8 where [simp]: "IP_PROTO_TCP = 6"
definition IP_MF :: u16 where [simp]: "IP_MF = 0x2000"
definition IP_OFFMASK :: u16 where [simp]: "IP_OFFMASK = 0x1fff"
definition ICMP_ER :: u8 where [simp]: "ICMP_ER = 0"
definition ICMP_DUR :: u8 where [simp]: "ICMP_DUR = 3"
definition ICMP_ECHO :: u8 where [simp]: "ICMP_ECHO = 8"
definition ICMP_TE :: u8 where [simp]: "ICMP_TE = 11"
definition ICMP_DUR_PROTO :: u8 where [simp]: "ICMP_DUR_PROTO = 2"
definition ICMP_DUR_PORT :: u8 where [simp]: "ICMP_DUR_PORT = 3"
definition ICMP_TE_FRAG :: u8 where [simp]: "ICMP_TE_FRAG = 1"
definition ICMP_TTL :: u8 where [simp]: "ICMP_TTL = 255"
definition SIZEOF_ICMP_ECHO_HDR :: nat where [simp]: "SIZEOF_ICMP_ECHO_HDR = 8"
definition ICMP_DEST_UNREACH_DATASIZE :: nat where [simp]: "ICMP_DEST_UNREACH_DATASIZE = 8"

text \<open>The fields of an IP header in memory, in the byte order of the processor where the code converts them.\<close>

definition IPH_V :: "(loc \<Rightarrow> u8) \<Rightarrow> loc \<Rightarrow> u16" where
  "IPH_V m h = drop_bit 12 (get_be16 m h)"

definition IPH_HL :: "(loc \<Rightarrow> u8) \<Rightarrow> loc \<Rightarrow> nat" where
  "IPH_HL m h = unat (drop_bit 8 (get_be16 m h) AND 0x0f)"

definition IPH_LEN :: "(loc \<Rightarrow> u8) \<Rightarrow> loc \<Rightarrow> u16" where
  "IPH_LEN m h = get_be16 m (loc_add h 2)"

definition IPH_ID :: "(loc \<Rightarrow> u8) \<Rightarrow> loc \<Rightarrow> u16" where
  "IPH_ID m h = get_be16 m (loc_add h 4)"

definition IPH_OFFSET :: "(loc \<Rightarrow> u8) \<Rightarrow> loc \<Rightarrow> u16" where
  "IPH_OFFSET m h = get_be16 m (loc_add h 6)"

definition IPH_PROTO :: "(loc \<Rightarrow> u8) \<Rightarrow> loc \<Rightarrow> u8" where
  "IPH_PROTO m h = m (loc_add h 9)"

definition ip_src :: "(loc \<Rightarrow> u8) \<Rightarrow> loc \<Rightarrow> u32" where
  "ip_src m h = get_addr m (loc_add h 12)"

definition ip_dest :: "(loc \<Rightarrow> u8) \<Rightarrow> loc \<Rightarrow> u32" where
  "ip_dest m h = get_addr m (loc_add h 16)"

abbreviation bytes :: "('c, 'h) net \<Rightarrow> loc \<Rightarrow> u8" where
  "bytes s \<equiv> l_bytes (n_lwip s)"

section \<open>Around IP\<close>

record ('c, 'h) ip_env =
  netif_output :: "nat \<Rightarrow> loc \<Rightarrow> u32 \<Rightarrow> ('c, 'h) net \<Rightarrow> (int \<times> ('c, 'h) net) option"
  udp_recv_fn :: "'c \<Rightarrow> loc option \<Rightarrow> nat \<Rightarrow> loc \<Rightarrow> loc \<Rightarrow> u16 \<Rightarrow> ('c, 'h) net \<Rightarrow> ('c, 'h) net option"
  raw_recv_fn :: "'c \<Rightarrow> loc option \<Rightarrow> nat \<Rightarrow> loc \<Rightarrow> loc \<Rightarrow> ('c, 'h) net \<Rightarrow> (u8 \<times> ('c, 'h) net) option"
  tcp_input :: "loc \<Rightarrow> nat \<Rightarrow> ('c, 'h) net \<Rightarrow> ('c, 'h) net option"
  frag_buf :: loc

definition lwip_step :: "(lwip \<Rightarrow> lwip option) \<Rightarrow> ('c, 'h) net \<Rightarrow> ('c, 'h) net option" where
  "lwip_step f s = map_option (\<lambda>l. s\<lparr>n_lwip := l\<rparr>) (f (n_lwip s))"

section \<open>Fragments\<close>

text \<open>The header of a fragment: offset and flag, length, checksum.\<close>

definition frag_header :: "loc \<Rightarrow> u16 \<Rightarrow> u16 \<Rightarrow> ('c, 'h) net \<Rightarrow> ('c, 'h) net option" where
  "frag_header iphdr tmp cop s = do {
     let s = put_bytes (\<lambda>m. put_be16 (loc_add iphdr 10) 0 (put_be16 (loc_add iphdr 2) (cop + of_nat IP_HLEN)
               (put_be16 (loc_add iphdr 6) tmp m))) s;
     c \<leftarrow> inet_chksum (bytes s) (Some iphdr) (of_nat IP_HLEN);
     Some (put_bytes (put_le16 (loc_add iphdr 10) c) s)
   }"

partial_function (option) frag_loop :: "('c, 'h) ip_env \<Rightarrow> loc \<Rightarrow> nat \<Rightarrow> u32 \<Rightarrow> loc \<Rightarrow> loc \<Rightarrow> u16 \<Rightarrow> u16 \<Rightarrow> u16 \<Rightarrow> u16 \<Rightarrow> u16 \<Rightarrow> u16 \<Rightarrow>
    ('c, 'h) net \<Rightarrow> (int \<times> ('c, 'h) net) option" where
  "frag_loop E p netif dest rambuf iphdr mtu nfb omf left ofo poff s =
     (if left = 0 then do { s \<leftarrow> net_free rambuf s; Some (ERR_OK, s) }
      else do {
        let final = (uint left \<le> uint mtu - int IP_HLEN);
        let tmp = omf OR (IP_OFFMASK AND ofo);
        let tmp = (if final then tmp else tmp OR IP_MF);
        let cop = (if final then left else nfb * 8);
        (n, s) \<leftarrow> on_lwip (pbuf_copy_partial (Some p) (Some (loc_add iphdr (int IP_HLEN))) cop poff) s;
        s \<leftarrow> frag_header iphdr tmp cop s;
        s \<leftarrow> (if final then lwip_step (pbuf_realloc rambuf (left + of_nat IP_HLEN)) s else Some s);
        (header, s) \<leftarrow> on_lwip (pbuf_alloc PBUF_LINK 0 PBUF_RAM) s;
        case header of
          None \<Rightarrow> do { s \<leftarrow> net_free rambuf s; Some (ERR_MEM, s) }
        | Some h \<Rightarrow> do {
            s \<leftarrow> lwip_step (pbuf_chain (Some h) (Some rambuf)) s;
            (err, s) \<leftarrow> netif_output E netif h dest s;
            s \<leftarrow> net_free h s;
            frag_loop E p netif dest rambuf iphdr mtu nfb omf (left - cop) (ofo + nfb) (poff + n) s
          }
      })"

definition ip_frag :: "('c, 'h) ip_env \<Rightarrow> loc \<Rightarrow> nat \<Rightarrow> u32 \<Rightarrow> ('c, 'h) net \<Rightarrow> (int \<times> ('c, 'h) net) option" where
  "ip_frag E p netif dest s = do {
     let mtu = if_mtu (n_netif s netif);
     (rambuf, s) \<leftarrow> on_lwip (pbuf_alloc PBUF_LINK 0 PBUF_REF) s;
     case rambuf of
       None \<Rightarrow> Some (ERR_MEM, s)
     | Some r \<Rightarrow> do {
         let iphdr = loc_align (frag_buf E);
         s \<leftarrow> lwip_step (\<lambda>l. Some (pb_upd r (\<lambda>b. b\<lparr>p_tot_len := mtu, p_len := mtu, p_payload := Some iphdr\<rparr>) l)) s;
         s \<leftarrow> lwip_step (\<lambda>l. MEMCPY (Some iphdr) (p_payload (pb l p)) IP_HLEN l) s;
         let tmp = IPH_OFFSET (bytes s) iphdr;
         let nfb = (if mtu < of_nat IP_HLEN then of_int (- ((int IP_HLEN - uint mtu) div 8)) else (mtu - of_nat IP_HLEN) div 8);
         frag_loop E p netif dest r iphdr mtu nfb (tmp AND IP_MF) (p_tot_len (pb (n_lwip s) p) - of_nat IP_HLEN)
           (tmp AND IP_OFFMASK) (of_nat IP_HLEN) s
       }
   }"

section \<open>Output\<close>

text \<open>The header that \<open>ip_output_if\<close> writes.\<close>

definition ip_header :: "loc \<Rightarrow> u32 \<Rightarrow> u32 \<Rightarrow> u8 \<Rightarrow> u8 \<Rightarrow> u8 \<Rightarrow> u16 \<Rightarrow> u16 \<Rightarrow> (loc \<Rightarrow> u8) \<Rightarrow> loc \<Rightarrow> u8" where
  "ip_header iphdr src dest ttl tos proto len ident m =
     (let m = m(loc_add iphdr 8 := ttl, loc_add iphdr 9 := proto);
          m = put_addr (loc_add iphdr 16) dest m;
          m = put_be16 iphdr (push_bit 12 4 OR push_bit 8 5 OR ucast tos) m;
          m = put_be16 (loc_add iphdr 2) len m;
          m = put_be16 (loc_add iphdr 6) 0 m;
          m = put_be16 (loc_add iphdr 4) ident m;
          m = put_addr (loc_add iphdr 12) src m
      in put_be16 (loc_add iphdr 10) 0 m)"

text \<open>The destination \<open>IP_HDRINCL\<close> is None.\<close>

definition ip_output_if :: "('c, 'h) ip_env \<Rightarrow> loc \<Rightarrow> u32 \<Rightarrow> u32 option \<Rightarrow> u8 \<Rightarrow> u8 \<Rightarrow> u8 \<Rightarrow> nat \<Rightarrow> ('c, 'h) net \<Rightarrow> (int \<times> ('c, 'h) net) option" where
  "ip_output_if E p src dest ttl tos proto netif s = do {
     (d, s) \<leftarrow>
       (case dest of
          Some d \<Rightarrow> do {
            (full, s) \<leftarrow> on_lwip (pbuf_header (Some p) (int IP_HLEN)) s;
            if full \<noteq> 0 then Some (None, s)
            else do {
              iphdr \<leftarrow> p_payload (pb (n_lwip s) p);
              let src = (if ip_addr_isany src then if_ip (n_netif s netif) else src);
              let s = put_bytes (ip_header iphdr src d ttl tos proto (p_tot_len (pb (n_lwip s) p)) (ip_id s)) s;
              Some (Some d, s\<lparr>ip_id := ip_id s + 1\<rparr>)
            }
          }
        | None \<Rightarrow> do { iphdr \<leftarrow> p_payload (pb (n_lwip s) p); Some (Some (ip_dest (bytes s) iphdr), s) });
     case d of
       None \<Rightarrow> Some (ERR_BUF, s)
     | Some d \<Rightarrow>
         let mtu = if_mtu (n_netif s netif) in
         if mtu \<noteq> 0 \<and> p_tot_len (pb (n_lwip s) p) > mtu then ip_frag E p netif d s
         else netif_output E netif p d s
   }"

definition ip_output :: "('c, 'h) ip_env \<Rightarrow> loc \<Rightarrow> u32 \<Rightarrow> u32 \<Rightarrow> u8 \<Rightarrow> u8 \<Rightarrow> u8 \<Rightarrow> ('c, 'h) net \<Rightarrow> (int \<times> ('c, 'h) net) option" where
  "ip_output E p src dest ttl tos proto s = do {
     netif \<leftarrow> ip_route dest s;
     case netif of
       None \<Rightarrow> Some (ERR_RTE, s)
     | Some i \<Rightarrow> ip_output_if E p src (Some dest) ttl tos proto i s
   }"

section \<open>ICMP\<close>

definition icmp_send_response :: "('c, 'h) ip_env \<Rightarrow> loc \<Rightarrow> u8 \<Rightarrow> u8 \<Rightarrow> ('c, 'h) net \<Rightarrow> ('c, 'h) net option" where
  "icmp_send_response E p type code s = do {
     (q, s) \<leftarrow> on_lwip (pbuf_alloc PBUF_IP (of_nat (SIZEOF_ICMP_ECHO_HDR + IP_HLEN + ICMP_DEST_UNREACH_DATASIZE)) PBUF_RAM) s;
     case q of
       None \<Rightarrow> Some s
     | Some q \<Rightarrow> do {
         iphdr \<leftarrow> p_payload (pb (n_lwip s) p);
         icmphdr \<leftarrow> p_payload (pb (n_lwip s) q);
         let s = put_bytes (\<lambda>m. put_be16 (loc_add icmphdr 6) 0 (put_be16 (loc_add icmphdr 4) 0
                   (m(icmphdr := type, loc_add icmphdr 1 := code)))) s;
         s \<leftarrow> lwip_step (MEMCPY (Some (loc_add icmphdr (int SIZEOF_ICMP_ECHO_HDR))) (Some iphdr)
                (IP_HLEN + ICMP_DEST_UNREACH_DATASIZE)) s;
         let s = put_bytes (put_be16 (loc_add icmphdr 2) 0) s;
         c \<leftarrow> inet_chksum (bytes s) (Some icmphdr) (p_len (pb (n_lwip s) q));
         let s = put_bytes (put_le16 (loc_add icmphdr 2) c) s;
         (err, s) \<leftarrow> ip_output E q 0 (ip_src (bytes s) iphdr) ICMP_TTL 0 IP_PROTO_ICMP s;
         net_free q s
       }
   }"

definition icmp_unreach :: "('c, 'h) ip_env \<Rightarrow> loc \<Rightarrow> u8 \<Rightarrow> ('c, 'h) net \<Rightarrow> ('c, 'h) net option" where
  "icmp_unreach E p t = icmp_send_response E p ICMP_DUR t"

definition icmp_time_exceeded :: "('c, 'h) ip_env \<Rightarrow> loc \<Rightarrow> u8 \<Rightarrow> ('c, 'h) net \<Rightarrow> ('c, 'h) net option" where
  "icmp_time_exceeded E p t = icmp_send_response E p ICMP_TE t"

text \<open>A packet with room for the link header in front: the packet itself or a copy, with the place of its IP header;
  None where the code jumps to \<open>memerr\<close>.\<close>

definition echo_packet :: "loc \<Rightarrow> loc \<Rightarrow> nat \<Rightarrow> ('c, 'h) net \<Rightarrow> ((loc \<times> loc) option \<times> ('c, 'h) net) option" where
  "echo_packet p iphdr hlen s = do {
     (small, s) \<leftarrow> on_lwip (pbuf_header (Some p) (int (IP_HLEN + PBUF_LINK_HLEN))) s;
     if small \<noteq> 0 then do {
       (bad, s) \<leftarrow> on_lwip (pbuf_header (Some p) (int hlen)) s;
       if bad \<noteq> 0 then Some (None, s)
       else do {
         (r, s) \<leftarrow> on_lwip (pbuf_alloc PBUF_LINK (p_tot_len (pb (n_lwip s) p)) PBUF_RAM) s;
         case r of
           None \<Rightarrow> Some (None, s)
         | Some r \<Rightarrow> do {
             (err, s) \<leftarrow> on_lwip (pbuf_copy (Some r) (Some p)) s;
             if err \<noteq> ERR_OK then Some (None, s)
             else do {
               iphdr \<leftarrow> p_payload (pb (n_lwip s) r);
               (bad, s) \<leftarrow> on_lwip (pbuf_header (Some r) (- int hlen)) s;
               if bad \<noteq> 0 then Some (None, s)
               else do { s \<leftarrow> net_free p s; Some (Some (r, iphdr), s) }
             }
           }
       }
     } else do {
       (bad, s) \<leftarrow> on_lwip (pbuf_header (Some p) (- int (IP_HLEN + PBUF_LINK_HLEN))) s;
       Some (if bad \<noteq> 0 then None else Some (p, iphdr), s)
     }
   }"

text \<open>The answer: addresses exchanged, type, checksum field and time to live.\<close>

definition echo_reply :: "loc \<Rightarrow> loc \<Rightarrow> (loc \<Rightarrow> u8) \<Rightarrow> loc \<Rightarrow> u8" where
  "echo_reply iphdr iecho m =
     (let src = ip_src m iphdr; dest = ip_dest m iphdr;
          m = put_addr (loc_add iphdr 16) src (put_addr (loc_add iphdr 12) dest m);
          m = m(iecho := ICMP_ER);
          m = put_be16 (loc_add iecho 2) 0 m;
          m = m(loc_add iphdr 8 := ICMP_TTL)
      in put_be16 (loc_add iphdr 10) 0 m)"

definition icmp_echo :: "('c, 'h) ip_env \<Rightarrow> loc \<Rightarrow> loc \<Rightarrow> nat \<Rightarrow> nat \<Rightarrow> ('c, 'h) net \<Rightarrow> ('c, 'h) net option" where
  "icmp_echo E p iphdr hlen inp s = do {
     (r, s) \<leftarrow> echo_packet p iphdr hlen s;
     case r of
       None \<Rightarrow> net_free p s
     | Some (p, iphdr) \<Rightarrow> do {
         iecho \<leftarrow> p_payload (pb (n_lwip s) p);
         let s = put_bytes (echo_reply iphdr iecho) s;
         (bad, s) \<leftarrow> on_lwip (pbuf_header (Some p) (int hlen)) s;
         s \<leftarrow> (if bad \<noteq> 0 then Some s
               else map_option snd (ip_output_if E p (ip_src (bytes s) iphdr) None ICMP_TTL 0 IP_PROTO_ICMP inp s));
         net_free p s
       }
   }"

definition icmp_input :: "('c, 'h) ip_env \<Rightarrow> loc \<Rightarrow> nat \<Rightarrow> ('c, 'h) net \<Rightarrow> ('c, 'h) net option" where
  "icmp_input E p inp s = do {
     iphdr \<leftarrow> p_payload (pb (n_lwip s) p);
     let hlen = IPH_HL (bytes s) iphdr * 4;
     (bad, s) \<leftarrow> on_lwip (pbuf_header (Some p) (- int hlen)) s;
     if bad \<noteq> 0 \<or> p_tot_len (pb (n_lwip s) p) < 4 then net_free p s
     else do {
       icmphdr \<leftarrow> p_payload (pb (n_lwip s) p);
       if bytes s icmphdr \<noteq> ICMP_ECHO then net_free p s
       else if ip_addr_ismulticast (ip_dest (bytes s) iphdr) \<or> ip_addr_isbroadcast (ip_dest (bytes s) iphdr) (n_netif s inp)
         then net_free p s
       else if p_tot_len (pb (n_lwip s) p) < of_nat SIZEOF_ICMP_ECHO_HDR then net_free p s
       else do {
         c \<leftarrow> inet_chksum_pbuf (Some p) (n_lwip s);
         if c \<noteq> 0 then net_free p s else icmp_echo E p iphdr hlen inp s
       }
     }
   }"

section \<open>Fields of a header\<close>

lemma loc_off_add [simp]: "loc_off (loc_add l a) = loc_off l + a"
  by (cases l) simp_all

lemma loc_add_self [simp]: "loc_add l a = l \<longleftrightarrow> a = 0" "l = loc_add l a \<longleftrightarrow> a = 0"
  by (cases l; auto)+

lemma get_put_be16 [simp]: "get_be16 (put_be16 l w m) l = w"
  using unat_be16 [of "put_be16 l w m" l] unat_bytes16 [of w] by (simp add: put_be16_def word_unat_eq_iff)

lemma get_be16_cong: "m l = m' l \<Longrightarrow> m (loc_add l 1) = m' (loc_add l 1) \<Longrightarrow> get_be16 m l = get_be16 m' l"
  by (simp add: get_be16_def)

lemma put_addr_eq: "put_addr l a m = m(l := byte_of a 0, loc_add l 1 := byte_of a 1, loc_add l 2 := byte_of a 2, loc_add l 3 := byte_of a 3)"
  by (simp add: put_addr_def upt_rec numeral_2_eq_2 numeral_3_eq_3)

lemma IP4_ADDR_le32: "IP4_ADDR a b c d = le32 a b c d"
  by (simp add: IP4_ADDR_def le32_def)

lemma get_put_addr [simp]: "get_addr (put_addr l a m) l = a"
  by (simp add: get_addr_def put_addr_eq IP4_ADDR_le32)

lemma get_addr_cong:
  "m l = m' l \<Longrightarrow> m (loc_add l 1) = m' (loc_add l 1) \<Longrightarrow> m (loc_add l 2) = m' (loc_add l 2) \<Longrightarrow> m (loc_add l 3) = m' (loc_add l 3) \<Longrightarrow>
     get_addr m l = get_addr m' l"
  by (simp add: get_addr_def)

lemma put_be16_out: "a \<noteq> l \<Longrightarrow> a \<noteq> loc_add l 1 \<Longrightarrow> put_be16 l w m a = m a"
  by (simp add: put_be16_def)

lemma put_addr_out: "a \<noteq> l \<Longrightarrow> a \<noteq> loc_add l 1 \<Longrightarrow> a \<noteq> loc_add l 2 \<Longrightarrow> a \<noteq> loc_add l 3 \<Longrightarrow> put_addr l w m a = m a"
  by (simp add: put_addr_eq)

lemmas header_access = IPH_V_def IPH_HL_def IPH_LEN_def IPH_ID_def IPH_OFFSET_def IPH_PROTO_def ip_src_def ip_dest_def

lemma be16_bytes [simp]: "push_bit 8 (ucast (ucast (drop_bit 8 w) :: u8)) OR ucast (ucast w :: u8) = (w :: u16)"
  using get_put_be16 [of "Ext 0" w] by (simp add: get_be16_def put_be16_def)

lemma first_word: "drop_bit 12 (push_bit 12 4 OR push_bit 8 5 OR ucast (t :: u8) :: u16) = 4"
  "drop_bit 8 (push_bit 12 4 OR push_bit 8 5 OR ucast (t :: u8) :: u16) AND 0x0f = 5"
proof -
  have "drop_bit 8 (ucast t :: u16) = 0" "drop_bit 12 (ucast t :: u16) = 0"
    by (rule bit_word_eqI; auto simp: bit_simps dest: bit_imp_le_length)+
  then show "drop_bit 12 (push_bit 12 4 OR push_bit 8 5 OR ucast (t :: u8) :: u16) = 4"
    "drop_bit 8 (push_bit 12 4 OR push_bit 8 5 OR ucast (t :: u8) :: u16) AND 0x0f = 5" by simp_all
qed

lemma ip_header_fields:
  fixes m h src dest ttl tos proto len ident
  defines "m' \<equiv> ip_header h src dest ttl tos proto len ident m"
  shows "IPH_V m' h = 4" "IPH_HL m' h = 5" "IPH_LEN m' h = len" "IPH_ID m' h = ident" "IPH_OFFSET m' h = 0" "IPH_PROTO m' h = proto"
    "ip_src m' h = src" "ip_dest m' h = dest" "m' (loc_add h 8) = ttl"
proof -
  have "get_be16 m' h = push_bit 12 4 OR push_bit 8 5 OR ucast tos"
    by (simp add: m'_def ip_header_def Let_def put_addr_eq put_be16_def get_be16_def del: push_bit_numeral drop_bit_or)
  then show "IPH_V m' h = 4" "IPH_HL m' h = 5" using first_word by (simp_all only: IPH_V_def IPH_HL_def) simp
qed (simp_all add: m'_def ip_header_def Let_def put_addr_eq put_be16_def get_be16_def get_addr_def IP4_ADDR_le32 header_access)

lemma ip_header_out: "a \<notin> area h 20 \<Longrightarrow> ip_header h src dest ttl tos proto len ident m a = m a"
  by (auto simp: area_list upt_rec ip_header_def Let_def put_addr_eq put_be16_def)

section \<open>Sending\<close>

text \<open>Moving the payload of a buffer with its own memory forwards, and backwards over what is there.\<close>

definition moved :: "loc \<Rightarrow> int \<Rightarrow> lwip \<Rightarrow> lwip" where
  "moved p inc s = pb_upd p (\<lambda>b. b\<lparr>p_payload := map_option (\<lambda>l. loc_add l (- inc)) (p_payload b), p_len := p_len b + of_int inc,
     p_tot_len := p_tot_len b + of_int inc\<rparr>) s"

lemma pbuf_header_moves:
  assumes "p_type (pb s p) \<in> {PBUF_RAM, PBUF_POOL}" "p_payload (pb s p) = Some l" "inc \<noteq> 0"
    and "inc < 0 \<longrightarrow> - inc \<le> uint (p_len (pb s p))" "loc_off p + 16 \<le> loc_off l - inc"
  shows "pbuf_header (Some p) inc s = Some (0, moved p inc s)"
  using assms by (auto simp: pbuf_header_def moved_def pb_upd_def Let_def)

lemma pbuf_header_no_room:
  assumes "p_type (pb s p) \<in> {PBUF_RAM, PBUF_POOL}" "p_payload (pb s p) = Some l" "0 < inc" "loc_off l - inc < loc_off p + 16"
  shows "pbuf_header (Some p) inc s = Some (1, s)"
  using assms by (auto simp: pbuf_header_def Let_def)

lemma moved_sel [simp]:
  "p_payload (pb (moved p inc s) p) = map_option (\<lambda>l. loc_add l (- inc)) (p_payload (pb s p))" "p_len (pb (moved p inc s) p) = p_len (pb s p) + of_int inc"
  "p_tot_len (pb (moved p inc s) p) = p_tot_len (pb s p) + of_int inc" "p_type (pb (moved p inc s) p) = p_type (pb s p)"
  "l_bytes (moved p inc s) = l_bytes s"
  by (simp_all add: moved_def pb_upd_def)

lemma moved_moved: "moved p a (moved p b s) = moved p (a + b) s"
  by (cases "p_payload (pb s p)") (simp_all add: moved_def pb_upd_def algebra_simps)

lemma moved_0: "moved p 0 s = s"
  by (cases s) (auto simp: moved_def pb_upd_def option.map_ident)

text \<open>C27: Sending over IP. A packet without room in front of its payload is refused and left alone. Otherwise a packet that
  fits the interface is handed to it once, with twenty bytes more, and these are a header that reads back as what was asked
  for: version 4, no options, no fragment, the length of the packet, the next identification, and the addresses, the sender's own
  if none was given. The data behind the header and all other memory are as before.\<close>

theorem ip_output_if_header:
  assumes "p_type (pb (n_lwip s) p) \<in> {PBUF_RAM, PBUF_POOL}" "p_payload (pb (n_lwip s) p) = Some l"
    and "if_mtu (n_netif s i) = 0 \<or> p_tot_len (pb (n_lwip s) p) + 20 \<le> if_mtu (n_netif s i)"
  shows "if loc_off l < loc_off p + 36 then ip_output_if E p src (Some dest) ttl tos proto i s = Some (ERR_BUF, s)
    else \<exists>t h. ip_output_if E p src (Some dest) ttl tos proto i s = netif_output E i p dest t \<and>
      p_payload (pb (n_lwip t) p) = Some h \<and> loc_add h 20 = l \<and> p_tot_len (pb (n_lwip t) p) = p_tot_len (pb (n_lwip s) p) + 20 \<and>
      IPH_V (bytes t) h = 4 \<and> IPH_HL (bytes t) h * 4 = 20 \<and> IPH_LEN (bytes t) h = p_tot_len (pb (n_lwip t) p) \<and>
      IPH_ID (bytes t) h = ip_id s \<and> IPH_OFFSET (bytes t) h = 0 \<and> IPH_PROTO (bytes t) h = proto \<and> ip_dest (bytes t) h = dest \<and>
      ip_src (bytes t) h = (if ip_addr_isany src then if_ip (n_netif s i) else src) \<and>
      (\<forall>a. a \<notin> area h 20 \<longrightarrow> bytes t a = bytes s a) \<and> (\<forall>q. q \<noteq> p \<longrightarrow> pb (n_lwip t) q = pb (n_lwip s) q) \<and> ip_id t = ip_id s + 1"
proof (cases "loc_off l < loc_off p + 36")
  case True
  then have "pbuf_header (Some p) 20 (n_lwip s) = Some (1, n_lwip s)" using assms by (intro pbuf_header_no_room) auto
  then show ?thesis using True by (simp add: ip_output_if_def on_lwip_def)
next
  case False
  let ?h = "loc_add l (- 20)" and ?src = "if ip_addr_isany src then if_ip (n_netif s i) else src"
  let ?t = "(put_bytes (ip_header ?h ?src dest ttl tos proto (p_tot_len (pb (n_lwip s) p) + 20) (ip_id s)) (s\<lparr>n_lwip := moved p 20 (n_lwip s)\<rparr>))\<lparr>ip_id := ip_id s + 1\<rparr>"
  have "pbuf_header (Some p) 20 (n_lwip s) = Some (0, moved p 20 (n_lwip s))" using assms False by (intro pbuf_header_moves) auto
  then have "ip_output_if E p src (Some dest) ttl tos proto i s = netif_output E i p dest ?t"
    using assms by (auto simp: ip_output_if_def on_lwip_def put_bytes_def Let_def)
  moreover have "\<forall>q. q \<noteq> p \<longrightarrow> pb (n_lwip ?t) q = pb (n_lwip s) q" by (simp add: put_bytes_def Let_def moved_def pb_upd_def)
  moreover have "bytes ?t = ip_header ?h ?src dest ttl tos proto (p_tot_len (pb (n_lwip s) p) + 20) (ip_id s) (bytes s)"
    by (simp add: put_bytes_def Let_def)
  ultimately show ?thesis using False assms(2) ip_header_fields [of ?h] ip_header_out [of _ ?h]
    by (simp only: if_False) (intro exI [of _ ?t] exI [of _ ?h], simp add: put_bytes_def Let_def)
qed

section \<open>Echo\<close>

lemma inet_chksum_pbuf_sum:
  assumes "chain_at l q ps" "payloads l ps"
  shows "inet_chksum_pbuf q l = Some (NOT (internet_sum (chain_data l ps)))"
  using chain_sum [OF assms] final_word by (auto simp: inet_chksum_pbuf_def Let_def)

lemma moved_bytes [simp]: "moved p inc (l\<lparr>l_bytes := m\<rparr>) = (moved p inc l)\<lparr>l_bytes := m\<rparr>"
  by (simp add: moved_def pb_upd_def)

lemma echo_reply_eq:
  "echo_reply h e m = m(loc_add h 12 := m (loc_add h 16), loc_add h 13 := m (loc_add h 17), loc_add h 14 := m (loc_add h 18), loc_add h 15 := m (loc_add h 19),
     loc_add h 16 := m (loc_add h 12), loc_add h 17 := m (loc_add h 13), loc_add h 18 := m (loc_add h 14), loc_add h 19 := m (loc_add h 15),
     e := ICMP_ER, loc_add e 2 := 0, loc_add e 3 := 0, loc_add h 8 := ICMP_TTL, loc_add h 10 := 0, loc_add h 11 := 0)"
  by (simp add: echo_reply_def Let_def put_addr_eq put_be16_def get_addr_def IP4_ADDR_le32 header_access)

lemma echo_reply_fields:
  fixes h n m
  assumes "20 \<le> n"
  defines "m' \<equiv> echo_reply h (loc_add h n) m"
  shows "ip_dest m' h = ip_src m h" "ip_src m' h = ip_dest m h" "m' (loc_add h n) = ICMP_ER" "m' (loc_add h 8) = ICMP_TTL"
    "get_be16 m' (loc_add h 10) = 0" "get_be16 m' (loc_add h (n + 2)) = 0"
    "a \<notin> area (loc_add h 8) 12 - {loc_add h 9} \<union> {loc_add h n, loc_add h (n + 2), loc_add h (n + 3)} \<Longrightarrow> m' a = m a"
proof -
  have "n + j \<noteq> k" "k \<noteq> n + j" if "0 \<le> j" "k < 20" for j k :: int using assms(1) that by auto
  note ne = this [of 0, simplified] this [of 2] this [of 3]
  show "ip_dest m' h = ip_src m h" "ip_src m' h = ip_dest m h" "m' (loc_add h n) = ICMP_ER" "m' (loc_add h 8) = ICMP_TTL"
    "get_be16 m' (loc_add h 10) = 0" "get_be16 m' (loc_add h (n + 2)) = 0"
    unfolding m'_def echo_reply_eq header_access get_addr_def get_be16_def by (simp_all add: ne add.assoc)
  assume "a \<notin> area (loc_add h 8) 12 - {loc_add h 9} \<union> {loc_add h n, loc_add h (n + 2), loc_add h (n + 3)}"
  then show "m' a = m a" unfolding m'_def echo_reply_eq by (cases "a = loc_add h 9") (simp_all add: area_list upt_rec)
qed

lemma echo_packet_same:
  assumes "p_type (pb (n_lwip s) p) \<in> {PBUF_RAM, PBUF_POOL}" "p_payload (pb (n_lwip s) p) = Some l" "loc_off p + 50 \<le> loc_off l"
    and "unat (p_len (pb (n_lwip s) p)) < 65502"
  shows "echo_packet p h hlen s = Some (Some (p, h), s)"
proof -
  let ?l = "moved p 34 (n_lwip s)"
  have "unat (p_len (pb (n_lwip s) p) + 34) = unat (p_len (pb (n_lwip s) p)) + 34" using assms(4) by (simp add: unat_word_ariths)
  then have "34 \<le> uint (p_len (pb (n_lwip s) p) + 34)" by (simp only: uint_nat)
  then have "pbuf_header (Some p) (- 34) ?l = Some (0, moved p (- 34) ?l)"
    using assms(1-3) by (intro pbuf_header_moves [of _ _ "loc_add l (- 34)"]) simp_all
  moreover have "pbuf_header (Some p) 34 (n_lwip s) = Some (0, ?l)" using assms(1-3) by (intro pbuf_header_moves [of _ _ l]) simp_all
  ultimately show ?thesis by (simp add: echo_packet_def on_lwip_def moved_moved moved_0)
qed

text \<open>Every ping is answered. For an echo request to the address of the interface, in a packet with room for the link
  header and with a correct checksum, \<open>icmp_input\<close> sends exactly one packet back over the same interface and then gives the buffer
  back: the request itself, as long as before, with the addresses exchanged, the type of an echo reply, a new time to live and
  checksum fields of 0 for the hardware; every other byte, the identifier, sequence number and data of the request, is unchanged.\<close>

lemma icmp_echo_ok:
  assumes "p_type (pb (n_lwip s) p) \<in> {PBUF_RAM, PBUF_POOL}" "p_payload (pb (n_lwip s) p) = Some h" "loc_off p + 30 \<le> loc_off h"
    and "hlen = IPH_HL (bytes s) h * 4" "20 \<le> hlen" "hlen + 8 \<le> unat (p_len (pb (n_lwip s) p))" "unat (p_len (pb (n_lwip s) p)) \<le> 65500"
    and "p_len (pb (n_lwip s) p) \<le> p_tot_len (pb (n_lwip s) p)" "if_mtu (n_netif s i) = 0 \<or> p_tot_len (pb (n_lwip s) p) \<le> if_mtu (n_netif s i)"
    and "bytes s (loc_add h (int hlen)) = ICMP_ECHO" "inet_chksum_pbuf (Some p) (moved p (- int hlen) (n_lwip s)) = Some 0"
    and "\<not> ip_addr_ismulticast (ip_dest (bytes s) h)" "\<not> ip_addr_isbroadcast (ip_dest (bytes s) h) (n_netif s i)"
  shows "\<exists>m. icmp_input E p i s = Option.bind (netif_output E i p (ip_src (bytes s) h) (put_bytes (\<lambda>_. m) s)) (\<lambda>(err, t). net_free p t) \<and>
    ip_src m h = ip_dest (bytes s) h \<and> ip_dest m h = ip_src (bytes s) h \<and> m (loc_add h (int hlen)) = ICMP_ER \<and> m (loc_add h 8) = ICMP_TTL \<and>
    get_be16 m (loc_add h 10) = 0 \<and> get_be16 m (loc_add h (int hlen + 2)) = 0 \<and>
    (\<forall>a. a \<notin> area (loc_add h 8) 12 - {loc_add h 9} \<union> {loc_add h (int hlen), loc_add h (int hlen + 2), loc_add h (int hlen + 3)} \<longrightarrow> m a = bytes s a)"
proof -
  let ?l = "n_lwip s" and ?ic = "loc_add h (int hlen)"
  let ?k = "moved p (- int hlen) ?l"
  define m where "m = echo_reply h ?ic (bytes s)"
  let ?s = "s\<lparr>n_lwip := ?k\<rparr>"
  have n: "unat (of_nat hlen :: u16) = hlen" using assms(6,7) by (simp add: unsigned_of_nat take_bit_nat_eq_self)
  then have w: "of_nat hlen \<le> p_len (pb ?l p)" "of_nat hlen \<le> p_tot_len (pb ?l p)"
    using assms(6,8) by (simp_all add: word_le_nat_alt)
  have len: "unat (p_len (pb ?l p) - of_nat hlen) = unat (p_len (pb ?l p)) - hlen" "unat (p_tot_len (pb ?l p) - of_nat hlen) = unat (p_tot_len (pb ?l p)) - hlen"
    using w n by (simp_all add: unat_sub)
  have tot: "8 \<le> p_tot_len (pb ?l p) - of_nat hlen" using len(2) assms(6,8) by (simp add: word_le_nat_alt)
  have int_le: "int hlen \<le> uint (p_len (pb ?l p))" using assms(6) by (simp only: uint_nat)
  have hd: "pbuf_header (Some p) (- int hlen) ?l = Some (0, ?k)" using assms(1,2,3,5,6) int_le
    by (intro pbuf_header_moves [of _ _ h]) simp_all
  have echo: "echo_packet p h hlen ?s = Some (Some (p, h), ?s)" using assms(1-3,5,7) len(1) by (intro echo_packet_same [of _ _ ?ic]) auto
  have front: "pbuf_header (Some p) (int hlen) (?k\<lparr>l_bytes := m\<rparr>) = Some (0, ?l\<lparr>l_bytes := m\<rparr>)"
    using pbuf_header_moves [of "?k\<lparr>l_bytes := m\<rparr>" p ?ic "int hlen"] assms(1-3,5) by (auto simp: moved_moved moved_0)
  have dest: "ip_dest m h = ip_src (bytes s) h" using assms(5) by (simp add: m_def echo_reply_fields)
  have "icmp_echo E p h hlen i ?s = Option.bind (netif_output E i p (ip_src (bytes s) h) (put_bytes (\<lambda>_. m) s)) (\<lambda>(err, t). net_free p t)"
    using echo front dest assms(2,9)
    by (cases "netif_output E i p (ip_src (bytes s) h) (s\<lparr>n_lwip := ?l\<lparr>l_bytes := m\<rparr>\<rparr>)")
      (auto simp: icmp_echo_def on_lwip_def put_bytes_def Let_def ip_output_if_def m_def)
  moreover have "icmp_input E p i s = icmp_echo E p h hlen i ?s"
    using assms(2,4,10-13) hd tot
    by (simp add: icmp_input_def on_lwip_def Let_def word_less_nat_alt word_le_nat_alt)
  moreover have "20 \<le> int hlen" using assms(5) by simp
  note fields = echo_reply_fields [OF this, where h = h and m = "bytes s", folded m_def]
  ultimately show ?thesis using fields(1-6) by (intro exI [of _ m] conjI allI impI fields(7)) simp_all
qed

section \<open>Witnesses\<close>

text \<open>A ping from 10.0.0.1 to 10.0.0.2 in a buffer with room in front.\<close>

definition ping_w :: "(unit, unit) net" where
  "ping_w = net_w\<lparr>n_lwip := lwip_a\<lparr>l_pbufs := (\<lambda>_. \<lparr>p_next = None, p_payload = Some (Ram 100), p_tot_len = 28, p_len = 28, p_type = PBUF_RAM,
       p_flags = 0, p_ref = 1\<rparr>),
     l_bytes := put_at (Ram 100) [0x45, 0, 0, 28, 0, 0, 0, 0, 255, 1, 0, 0, 10, 0, 0, 1, 10, 0, 0, 2, 8, 0, 0xF7, 0xFF, 0, 0, 0, 0] (\<lambda>_. 0)\<rparr>\<rparr>"

theorem ip_output_if_header_witness:
  "\<forall>E. \<exists>t. ip_output_if E (Ram 8) 0 (Some 7) 64 0 17 0 ping_w = netif_output E 0 (Ram 8) 7 t \<and>
     p_payload (pb (n_lwip t) (Ram 8)) = Some (Ram 80) \<and> IPH_V (bytes t) (Ram 80) = 4 \<and> IPH_LEN (bytes t) (Ram 80) = 48 \<and> ip_dest (bytes t) (Ram 80) = 7"
proof
  fix E
  have "p_type (pb (n_lwip ping_w) (Ram 8)) \<in> {PBUF_RAM, PBUF_POOL}" "p_payload (pb (n_lwip ping_w) (Ram 8)) = Some (Ram 100)"
    "if_mtu (n_netif ping_w 0) = 0 \<or> p_tot_len (pb (n_lwip ping_w) (Ram 8)) + 20 \<le> if_mtu (n_netif ping_w 0)"
    "p_tot_len (pb (n_lwip ping_w) (Ram 8)) = 28"
    by (simp_all add: ping_w_def net_w_def)
  note w = this
  have h: "loc_add h 20 = Ram 100 \<longleftrightarrow> h = Ram 80" for h by (cases h) auto
  from ip_output_if_header [OF w(1-3), where E = E and src = 0 and dest = 7 and ttl = 64 and tos = 0 and proto = 17] w(4)
  show "\<exists>t. ip_output_if E (Ram 8) 0 (Some 7) 64 0 17 0 ping_w = netif_output E 0 (Ram 8) 7 t \<and>
     p_payload (pb (n_lwip t) (Ram 8)) = Some (Ram 80) \<and> IPH_V (bytes t) (Ram 80) = 4 \<and> IPH_LEN (bytes t) (Ram 80) = 48 \<and> ip_dest (bytes t) (Ram 80) = 7"
    by (auto simp: h)
qed

end
