(* ===== verification/IpIn.thy ===== *)
theory IpIn
  imports Ip
begin

text \<open>
  Receiving over IP: the reassembly of fragments (\<open>ip_frag.c\<close>), the raw control blocks (\<open>raw.c\<close>) and \<open>ip_input\<close>
  (\<open>ip.c\<close>), with overlapping fragments thrown away and the oldest datagram given up when memory is short.

  While a datagram is incomplete, the code keeps a small record in place of the IP header of every fragment: the next
  fragment, and the first and last offset. The offsets are in the bytes of the packet, the pointer is in \<open>n_ptr\<close>.

  The list of fragments is shown to follow a reference definition on pairs of offsets; a ping is followed from
  \<open>ip_input\<close> to the interface.
\<close>

unbundle bit_operations_syntax

section \<open>Fragments that wait\<close>

definition IP_REASS_FLAG_LASTFRAG :: u8 where [simp]: "IP_REASS_FLAG_LASTFRAG = 1"
definition IP_REASS_MAXAGE :: u8 where [simp]: "IP_REASS_MAXAGE = 3"
definition IP_REASS_MAX_PBUFS :: nat where [simp]: "IP_REASS_MAX_PBUFS = 10"

definition get_le16 :: "(loc \<Rightarrow> u8) \<Rightarrow> loc \<Rightarrow> u16" where
  "get_le16 m p = ucast (m p) OR push_bit 8 (ucast (m (loc_add p 1)))"

definition iprh_start :: "('c, 'h) net \<Rightarrow> loc \<Rightarrow> u16" where
  "iprh_start s h = get_le16 (bytes s) (loc_add h 4)"

definition iprh_end :: "('c, 'h) net \<Rightarrow> loc \<Rightarrow> u16" where
  "iprh_end s h = get_le16 (bytes s) (loc_add h 6)"

definition set_ptr :: "loc \<Rightarrow> loc option \<Rightarrow> ('c, 'h) net \<Rightarrow> ('c, 'h) net" where
  "set_ptr h p s = s\<lparr>n_ptr := (n_ptr s)(h := p)\<rparr>"

definition reass_upd :: "nat \<Rightarrow> (ip_reassdata \<Rightarrow> ip_reassdata) \<Rightarrow> ('c, 'h) net \<Rightarrow> ('c, 'h) net" where
  "reass_upd i f s = s\<lparr>n_reass := (n_reass s)(i := f (n_reass s i))\<rparr>"

definition IP_ADDRESSES_AND_ID_MATCH :: "u8 list \<Rightarrow> (loc \<Rightarrow> u8) \<Rightarrow> loc \<Rightarrow> bool" where
  "IP_ADDRESSES_AND_ID_MATCH hdr m h \<longleftrightarrow>
     take 8 (drop 12 hdr) = read_at m (loc_add h 12) 8 \<and> take 2 (drop 4 hdr) = read_at m (loc_add h 4) 2"

definition ip_reass_dequeue_datagram :: "nat \<Rightarrow> nat option \<Rightarrow> ('c, 'h) net \<Rightarrow> ('c, 'h) net option" where
  "ip_reass_dequeue_datagram ipr prev s = do {
     s \<leftarrow> (if reassdatagrams s = Some ipr then Some (s\<lparr>reassdatagrams := ir_next (n_reass s ipr)\<rparr>)
           else do { prev \<leftarrow> prev; Some (reass_upd prev (\<lambda>d. d\<lparr>ir_next := ir_next (n_reass s ipr)\<rparr>) s) });
     let l = n_lwip s;
     Some (s\<lparr>n_lwip := l\<lparr>l_memp := memp_free MEMP_REASSDATA (Some ipr) (l_memp l)\<rparr>\<rparr>)
   }"

partial_function (option) free_frags :: "loc option \<Rightarrow> nat \<Rightarrow> ('c, 'h) net \<Rightarrow> (nat \<times> ('c, 'h) net) option" where
  "free_frags p freed s =
     (case p of
        None \<Rightarrow> Some (freed, s)
      | Some pcur \<Rightarrow> do {
          iprh \<leftarrow> p_payload (pb (n_lwip s) pcur);
          let p = n_ptr s iprh;
          n \<leftarrow> pbuf_clen (Some pcur) (n_lwip s);
          s \<leftarrow> net_free pcur s;
          free_frags p (freed + unat n) s
        })"

definition ip_reass_free_complete_datagram :: "('c, 'h) ip_env \<Rightarrow> nat \<Rightarrow> nat option \<Rightarrow> ('c, 'h) net \<Rightarrow> (nat \<times> ('c, 'h) net) option" where
  "ip_reass_free_complete_datagram E ipr prev s = do {
     p \<leftarrow> ir_p (n_reass s ipr);
     iprh \<leftarrow> p_payload (pb (n_lwip s) p);
     (n, s) \<leftarrow>
       (if iprh_start s iprh = 0 then do {
          let s = reass_upd ipr (\<lambda>d. d\<lparr>ir_p := n_ptr s iprh\<rparr>) s;
          let s = put_bytes (put_at iprh (ir_iphdr (n_reass s ipr))) s;
          s \<leftarrow> icmp_time_exceeded E p ICMP_TE_FRAG s;
          n \<leftarrow> pbuf_clen (Some p) (n_lwip s);
          s \<leftarrow> net_free p s;
          Some (unat n, s)
        } else Some (0, s));
     (n, s) \<leftarrow> free_frags (ir_p (n_reass s ipr)) n s;
     s \<leftarrow> ip_reass_dequeue_datagram ipr prev s;
     Some (n, s\<lparr>ip_reass_pbufcount := ip_reass_pbufcount s - of_nat n\<rparr>)
   }"

text \<open>The timer of the reassembly; the firmware does not call it.\<close>

partial_function (option) reass_tmr_loop :: "('c, 'h) ip_env \<Rightarrow> nat option \<Rightarrow> nat option \<Rightarrow> ('c, 'h) net \<Rightarrow> ('c, 'h) net option" where
  "reass_tmr_loop E r prev s =
     (case r of
        None \<Rightarrow> Some s
      | Some r \<Rightarrow>
          if ir_timer (n_reass s r) > 0 then
            reass_tmr_loop E (ir_next (n_reass s r)) (Some r) (reass_upd r (\<lambda>d. d\<lparr>ir_timer := ir_timer d - 1\<rparr>) s)
          else do {
            let next = ir_next (n_reass s r);
            (n, s) \<leftarrow> ip_reass_free_complete_datagram E r prev s;
            reass_tmr_loop E next prev s
          })"

definition ip_reass_tmr :: "('c, 'h) ip_env \<Rightarrow> ('c, 'h) net \<Rightarrow> ('c, 'h) net option" where
  "ip_reass_tmr E s = reass_tmr_loop E (reassdatagrams s) None s"

text \<open>The search for the oldest datagram other than that of the header at \<open>h\<close>: the oldest one, the last
  datagram that has a successor, and the number of candidates.\<close>

partial_function (option) oldest_loop :: "('c, 'h) net \<Rightarrow> loc \<Rightarrow> nat option \<Rightarrow> nat option \<Rightarrow> nat option \<Rightarrow> nat \<Rightarrow>
    (nat option \<times> nat option \<times> nat) option" where
  "oldest_loop s h r oldest prev others =
     (case r of
        None \<Rightarrow> Some (oldest, prev, others)
      | Some r \<Rightarrow>
          let d = n_reass s r;
              (oldest, others) =
                (if \<not> IP_ADDRESSES_AND_ID_MATCH (ir_iphdr d) (bytes s) h then
                   (case oldest of
                      None \<Rightarrow> Some r
                    | Some a \<Rightarrow> if ir_timer d \<le> ir_timer (n_reass s a) then Some r else Some a, others + 1)
                 else (oldest, others));
              prev = (if ir_next d \<noteq> None then Some r else prev)
          in oldest_loop s h (ir_next d) oldest prev others)"

partial_function (option) remove_oldest :: "('c, 'h) ip_env \<Rightarrow> loc \<Rightarrow> nat \<Rightarrow> nat \<Rightarrow> ('c, 'h) net \<Rightarrow> (nat \<times> ('c, 'h) net) option" where
  "remove_oldest E h needed freed s = do {
     (old, prev, others) \<leftarrow> oldest_loop s h (reassdatagrams s) None None 0;
     (n, s) \<leftarrow> (case old of None \<Rightarrow> Some (0, s) | Some r \<Rightarrow> ip_reass_free_complete_datagram E r prev s);
     let freed = freed + n;
     if freed < needed \<and> others > 1 then remove_oldest E h needed freed s else Some (freed, s)
   }"

definition ip_reass_remove_oldest_datagram :: "('c, 'h) ip_env \<Rightarrow> loc \<Rightarrow> nat \<Rightarrow> ('c, 'h) net \<Rightarrow> (nat \<times> ('c, 'h) net) option" where
  "ip_reass_remove_oldest_datagram E h needed s = remove_oldest E h needed 0 s"

definition reass_malloc :: "('c, 'h) net \<Rightarrow> nat option \<times> ('c, 'h) net" where
  "reass_malloc s =
     (let l = n_lwip s; (a, m) = memp_malloc MEMP_REASSDATA (l_memp l) in (a, s\<lparr>n_lwip := l\<lparr>l_memp := m\<rparr>\<rparr>))"

definition ip_reass_enqueue_new_datagram :: "('c, 'h) ip_env \<Rightarrow> loc \<Rightarrow> nat \<Rightarrow> ('c, 'h) net \<Rightarrow> (nat option \<times> ('c, 'h) net) option" where
  "ip_reass_enqueue_new_datagram E h clen s = do {
     let (ipr, s) = reass_malloc s;
     (ipr, s) \<leftarrow>
       (case ipr of
          Some i \<Rightarrow> Some (Some i, s)
        | None \<Rightarrow> do {
            (n, s) \<leftarrow> ip_reass_remove_oldest_datagram E h clen s;
            Some (if n \<ge> clen then reass_malloc s else (None, s))
          });
     Some (case ipr of
       None \<Rightarrow> (None, s)
     | Some i \<Rightarrow>
         (Some i, (reass_upd i (\<lambda>_. no_reass\<lparr>ir_timer := IP_REASS_MAXAGE, ir_next := reassdatagrams s,
             ir_iphdr := read_at (bytes s) h IP_HLEN\<rparr>) s)\<lparr>reassdatagrams := Some i\<rparr>))
   }"

section \<open>A new fragment\<close>

text \<open>The place of the fragment with the record at \<open>h\<close>: None when it is thrown away; otherwise the fragment behind
  it, the record of the one before it, and whether there is no gap so far.\<close>

partial_function (option) place_loop :: "('c, 'h) net \<Rightarrow> loc \<Rightarrow> loc option \<Rightarrow> loc option \<Rightarrow> bool \<Rightarrow>
    (loc option \<times> loc option \<times> bool) option option" where
  "place_loop s h q prev valid =
     (case q of
        None \<Rightarrow> Some (Some (None, prev, valid))
      | Some q \<Rightarrow> do {
          t \<leftarrow> p_payload (pb (n_lwip s) q);
          if iprh_start s h < iprh_start s t then
            Some (case prev of
              Some v \<Rightarrow> if iprh_start s h < iprh_end s v \<or> iprh_end s h > iprh_start s t then None else Some (Some q, Some v, valid)
            | None \<Rightarrow> Some (Some q, None, valid))
          else if iprh_start s h = iprh_start s t then Some None
          else if iprh_start s h < iprh_end s t then Some None
          else
            let valid = (case prev of Some v \<Rightarrow> if iprh_end s v \<noteq> iprh_start s t then False else valid | None \<Rightarrow> valid)
            in place_loop s h (n_ptr s t) (Some t) valid
        })"

partial_function (option) gap_loop :: "('c, 'h) net \<Rightarrow> loc \<Rightarrow> loc option \<Rightarrow> bool option" where
  "gap_loop s prev q =
     (case q of
        None \<Rightarrow> Some True
      | Some q \<Rightarrow> do {
          t \<leftarrow> p_payload (pb (n_lwip s) q);
          if iprh_end s prev \<noteq> iprh_start s t then Some False else gap_loop s t (n_ptr s t)
        })"

text \<open>Whether all fragments are there, after the fragment with the record at \<open>h\<close> has been put in.\<close>

definition frags_complete :: "nat \<Rightarrow> loc \<Rightarrow> bool \<Rightarrow> ('c, 'h) net \<Rightarrow> bool option" where
  "frags_complete ipr h valid s =
     (if (ir_flags (n_reass s ipr) AND IP_REASS_FLAG_LASTFRAG) = 0 \<or> \<not> valid then Some False
      else do {
        p \<leftarrow> ir_p (n_reass s ipr);
        t \<leftarrow> p_payload (pb (n_lwip s) p);
        if iprh_start s t \<noteq> 0 then Some False else gap_loop s h (n_ptr s h)
      })"

definition ip_reass_chain_frag :: "nat \<Rightarrow> loc \<Rightarrow> ('c, 'h) net \<Rightarrow> (bool \<times> ('c, 'h) net) option" where
  "ip_reass_chain_frag ipr new_p s = do {
     h \<leftarrow> p_payload (pb (n_lwip s) new_p);
     let len = IPH_LEN (bytes s) h - of_nat (IPH_HL (bytes s) h * 4);
     let offset = (IPH_OFFSET (bytes s) h AND IP_OFFMASK) * 8;
     let s = put_bytes (\<lambda>m. put_le16 (loc_add h 6) (offset + len) (put_le16 (loc_add h 4) offset m)) (set_ptr h None s);
     r \<leftarrow> place_loop s h (ir_p (n_reass s ipr)) None True;
     case r of
       None \<Rightarrow> do {
         n \<leftarrow> pbuf_clen (Some new_p) (n_lwip s);
         let s = s\<lparr>ip_reass_pbufcount := ip_reass_pbufcount s - ucast n\<rparr>;
         s \<leftarrow> net_free new_p s;
         Some (False, s)
       }
     | Some (q, prev, valid) \<Rightarrow> do {
         let s = (if q = None then s else set_ptr h q s);
         let s = (case prev of
                    Some v \<Rightarrow> set_ptr v (Some new_p) s
                  | None \<Rightarrow> reass_upd ipr (\<lambda>d. d\<lparr>ir_p := Some new_p\<rparr>) s);
         let valid = (case (q, prev) of (None, Some v) \<Rightarrow> valid \<and> iprh_end s v = iprh_start s h | _ \<Rightarrow> valid);
         ok \<leftarrow> frags_complete ipr h valid s;
         Some (ok, s)
       }
   }"

partial_function (option) join_loop :: "loc \<Rightarrow> loc option \<Rightarrow> ('c, 'h) net \<Rightarrow> ('c, 'h) net option" where
  "join_loop p r s =
     (case r of
        None \<Rightarrow> Some s
      | Some r \<Rightarrow> do {
          iprh \<leftarrow> p_payload (pb (n_lwip s) r);
          (bad, s) \<leftarrow> on_lwip (pbuf_header (Some r) (- int IP_HLEN)) s;
          s \<leftarrow> lwip_step (pbuf_cat (Some p) (Some r)) s;
          join_loop p (n_ptr s iprh) s
        })"

text \<open>All fragments have arrived: the header goes back into the first one and the others are chained to it.\<close>

definition reass_finish :: "nat \<Rightarrow> nat option \<Rightarrow> ('c, 'h) net \<Rightarrow> (loc option \<times> ('c, 'h) net) option" where
  "reass_finish ipr prev s = do {
     let s = reass_upd ipr (\<lambda>d. d\<lparr>ir_datagram_len := ir_datagram_len d + of_nat IP_HLEN\<rparr>) s;
     p \<leftarrow> ir_p (n_reass s ipr);
     h \<leftarrow> p_payload (pb (n_lwip s) p);
     let r = n_ptr s h;
     let s = put_bytes (\<lambda>m. put_be16 (loc_add h 10) 0 (put_be16 (loc_add h 6) 0 (put_be16 (loc_add h 2) (ir_datagram_len (n_reass s ipr))
               (put_at h (ir_iphdr (n_reass s ipr)) m)))) s;
     c \<leftarrow> inet_chksum (bytes s) (Some h) (of_nat IP_HLEN);
     let s = put_bytes (put_le16 (loc_add h 10) c) s;
     s \<leftarrow> join_loop p r s;
     s \<leftarrow> ip_reass_dequeue_datagram ipr prev s;
     n \<leftarrow> pbuf_clen (Some p) (n_lwip s);
     Some (Some p, s\<lparr>ip_reass_pbufcount := ip_reass_pbufcount s - ucast n\<rparr>)
   }"

text \<open>The datagram that a fragment belongs to, with the one before it on the list.\<close>

partial_function (option) reass_find :: "('c, 'h) net \<Rightarrow> loc \<Rightarrow> nat option \<Rightarrow> nat option \<Rightarrow> (nat option \<times> nat option) option" where
  "reass_find s h ipr prev =
     (case ipr of
        None \<Rightarrow> Some (None, prev)
      | Some i \<Rightarrow>
          if IP_ADDRESSES_AND_ID_MATCH (ir_iphdr (n_reass s i)) (bytes s) h then Some (Some i, prev)
          else reass_find s h (ir_next (n_reass s i)) (Some i))"

definition hdr_offset :: "u8 list \<Rightarrow> u16" where
  "hdr_offset hdr = push_bit 8 (ucast (hdr ! 6)) OR ucast (hdr ! 7)"

definition reass_room :: "('c, 'h) ip_env \<Rightarrow> loc \<Rightarrow> nat \<Rightarrow> ('c, 'h) net \<Rightarrow> (bool \<times> ('c, 'h) net) option" where
  "reass_room E h clen s =
     (if unat (ip_reass_pbufcount s) + clen > IP_REASS_MAX_PBUFS then do {
        (n, s) \<leftarrow> ip_reass_remove_oldest_datagram E h clen s;
        Some (n \<noteq> 0 \<and> unat (ip_reass_pbufcount s) + clen \<le> IP_REASS_MAX_PBUFS, s)
      } else Some (True, s))"

definition ip_reass :: "('c, 'h) ip_env \<Rightarrow> loc \<Rightarrow> ('c, 'h) net \<Rightarrow> (loc option \<times> ('c, 'h) net) option" where
  "ip_reass E p s = do {
     h \<leftarrow> p_payload (pb (n_lwip s) p);
     let hl = IPH_HL (bytes s) h * 4;
     if hl \<noteq> IP_HLEN then do { s \<leftarrow> net_free p s; Some (None, s) }
     else do {
       let off = IPH_OFFSET (bytes s) h;
       let end = (off AND IP_OFFMASK) * 8 + (IPH_LEN (bytes s) h - of_nat hl);
       clen \<leftarrow> pbuf_clen (Some p) (n_lwip s);
       (room, s) \<leftarrow> reass_room E h (unat clen) s;
       if \<not> room then do { s \<leftarrow> net_free p s; Some (None, s) }
       else do {
         (ipr, prev) \<leftarrow> reass_find s h (reassdatagrams s) None;
         (ipr, s) \<leftarrow>
           (case ipr of
              None \<Rightarrow> ip_reass_enqueue_new_datagram E h (unat clen) s
            | Some i \<Rightarrow>
                Some (Some i,
                  if (off AND IP_OFFMASK) = 0 \<and> (hdr_offset (ir_iphdr (n_reass s i)) AND IP_OFFMASK) \<noteq> 0
                  then reass_upd i (\<lambda>d. d\<lparr>ir_iphdr := read_at (bytes s) h IP_HLEN\<rparr>) s else s));
         case ipr of
           None \<Rightarrow> do { s \<leftarrow> net_free p s; Some (None, s) }
         | Some i \<Rightarrow> do {
             let s = s\<lparr>ip_reass_pbufcount := ip_reass_pbufcount s + ucast clen\<rparr>;
             let s = (if (off AND IP_MF) = 0
                      then reass_upd i (\<lambda>d. d\<lparr>ir_flags := ir_flags d OR IP_REASS_FLAG_LASTFRAG, ir_datagram_len := end\<rparr>) s
                      else s);
             (valid, s) \<leftarrow> ip_reass_chain_frag i p s;
             if valid then reass_finish i prev s else Some (None, s)
           }
       }
     }
   }"

section \<open>Raw control blocks\<close>

definition RAW_TTL :: u8 where [simp]: "RAW_TTL = 255"

definition raw_upd :: "nat \<Rightarrow> ('c raw_pcb \<Rightarrow> 'c raw_pcb) \<Rightarrow> ('c, 'h) net \<Rightarrow> ('c, 'h) net" where
  "raw_upd i f s = s\<lparr>n_raw := (n_raw s)(i := f (n_raw s i))\<rparr>"

partial_function (option) raw_loop :: "('c, 'h) ip_env \<Rightarrow> loc \<Rightarrow> loc \<Rightarrow> u8 \<Rightarrow> nat option \<Rightarrow> nat option \<Rightarrow> ('c, 'h) net \<Rightarrow> (u8 \<times> ('c, 'h) net) option" where
  "raw_loop E p iphdr proto prev pcb s =
     (case pcb of
        None \<Rightarrow> Some (0, s)
      | Some i \<Rightarrow> do {
          (eaten, s) \<leftarrow>
            (case (r_protocol (n_raw s i) = proto, r_recv (n_raw s i)) of
               (True, Some f) \<Rightarrow> raw_recv_fn E f (r_recv_arg (n_raw s i)) i p (loc_add iphdr 12) s
             | _ \<Rightarrow> Some (0, s));
          if eaten \<noteq> 0 then
            Some (1, case prev of
              None \<Rightarrow> s
            | Some j \<Rightarrow>
                let s = raw_upd j (\<lambda>r. r\<lparr>r_next := r_next (n_raw s i)\<rparr>) s;
                    s = raw_upd i (\<lambda>r. r\<lparr>r_next := raw_pcbs s\<rparr>) s
                in s\<lparr>raw_pcbs := Some i\<rparr>)
          else raw_loop E p iphdr proto (Some i) (r_next (n_raw s i)) s
        })"

definition raw_input :: "('c, 'h) ip_env \<Rightarrow> loc \<Rightarrow> nat \<Rightarrow> ('c, 'h) net \<Rightarrow> (u8 \<times> ('c, 'h) net) option" where
  "raw_input E p inp s = do {
     iphdr \<leftarrow> p_payload (pb (n_lwip s) p);
     raw_loop E p iphdr (IPH_PROTO (bytes s) iphdr) None (raw_pcbs s) s
   }"

definition raw_bind :: "nat \<Rightarrow> u32 option \<Rightarrow> ('c, 'h) net \<Rightarrow> int \<times> ('c, 'h) net" where
  "raw_bind pcb ipaddr s = (ERR_OK, raw_upd pcb (\<lambda>r. r\<lparr>r_local_ip := ip_addr_set ipaddr\<rparr>) s)"

definition raw_connect :: "nat \<Rightarrow> u32 option \<Rightarrow> ('c, 'h) net \<Rightarrow> int \<times> ('c, 'h) net" where
  "raw_connect pcb ipaddr s = (ERR_OK, raw_upd pcb (\<lambda>r. r\<lparr>r_remote_ip := ip_addr_set ipaddr\<rparr>) s)"

definition raw_recv :: "nat \<Rightarrow> 'c option \<Rightarrow> loc option \<Rightarrow> ('c, 'h) net \<Rightarrow> ('c, 'h) net" where
  "raw_recv pcb f arg s = raw_upd pcb (\<lambda>r. r\<lparr>r_recv := f, r_recv_arg := arg\<rparr>) s"

text \<open>The packet with room for the IP header, chained behind a new buffer if it has none; None for \<open>ERR_MEM\<close>.\<close>

definition raw_packet :: "loc \<Rightarrow> ('c, 'h) net \<Rightarrow> (loc option \<times> ('c, 'h) net) option" where
  "raw_packet p s = do {
     (full, s) \<leftarrow> on_lwip (pbuf_header (Some p) (int IP_HLEN)) s;
     if full \<noteq> 0 then do {
       (q, s) \<leftarrow> on_lwip (pbuf_alloc PBUF_IP 0 PBUF_RAM) s;
       case q of
         None \<Rightarrow> Some (None, s)
       | Some q \<Rightarrow> do { s \<leftarrow> lwip_step (pbuf_chain (Some q) (Some p)) s; Some (Some q, s) }
     } else do {
       (bad, s) \<leftarrow> on_lwip (pbuf_header (Some p) (- int IP_HLEN)) s;
       Some (if bad \<noteq> 0 then None else Some p, s)
     }
   }"

definition raw_sendto :: "('c, 'h) ip_env \<Rightarrow> nat \<Rightarrow> loc \<Rightarrow> u32 \<Rightarrow> ('c, 'h) net \<Rightarrow> (int \<times> ('c, 'h) net) option" where
  "raw_sendto E pcb p ipaddr s = do {
     (q, s) \<leftarrow> raw_packet p s;
     case q of
       None \<Rightarrow> Some (ERR_MEM, s)
     | Some q \<Rightarrow> do {
         netif \<leftarrow> ip_route ipaddr s;
         (err, s) \<leftarrow>
           (case netif of
              None \<Rightarrow> Some (ERR_RTE, s)
            | Some i \<Rightarrow>
                let u = n_raw s pcb; src_ip = (if ip_addr_isany (r_local_ip u) then if_ip (n_netif s i) else r_local_ip u)
                in ip_output_if E q src_ip (Some ipaddr) (r_ttl u) (r_tos u) (r_protocol u) i s);
         s \<leftarrow> (if q \<noteq> p then net_free q s else Some s);
         Some (err, s)
       }
   }"

definition raw_send :: "('c, 'h) ip_env \<Rightarrow> nat \<Rightarrow> loc \<Rightarrow> ('c, 'h) net \<Rightarrow> (int \<times> ('c, 'h) net) option" where
  "raw_send E pcb p s = raw_sendto E pcb p (r_remote_ip (n_raw s pcb)) s"

partial_function (option) raw_remove_loop :: "nat \<Rightarrow> nat option \<Rightarrow> ('c, 'h) net \<Rightarrow> ('c, 'h) net option" where
  "raw_remove_loop pcb pcb2 s =
     (case pcb2 of
        None \<Rightarrow> Some s
      | Some i \<Rightarrow>
          let s = (if r_next (n_raw s i) = Some pcb then raw_upd i (\<lambda>r. r\<lparr>r_next := r_next (n_raw s pcb)\<rparr>) s else s)
          in raw_remove_loop pcb (r_next (n_raw s i)) s)"

definition raw_remove :: "nat \<Rightarrow> ('c, 'h) net \<Rightarrow> ('c, 'h) net option" where
  "raw_remove pcb s = do {
     s \<leftarrow> (if raw_pcbs s = Some pcb then Some (s\<lparr>raw_pcbs := r_next (n_raw s pcb)\<rparr>) else raw_remove_loop pcb (raw_pcbs s) s);
     let l = n_lwip s;
     Some (s\<lparr>n_lwip := l\<lparr>l_memp := memp_free MEMP_RAW_PCB (Some pcb) (l_memp l)\<rparr>\<rparr>)
   }"

definition raw_new :: "u8 \<Rightarrow> ('c, 'h) net \<Rightarrow> nat option \<times> ('c, 'h) net" where
  "raw_new proto s =
     (let l = n_lwip s; (a, m) = memp_malloc MEMP_RAW_PCB (l_memp l); s = s\<lparr>n_lwip := l\<lparr>l_memp := m\<rparr>\<rparr>
      in case a of
        None \<Rightarrow> (None, s)
      | Some i \<Rightarrow> (Some i, (raw_upd i (\<lambda>_. no_raw\<lparr>r_protocol := proto, r_ttl := RAW_TTL, r_next := raw_pcbs s\<rparr>) s)\<lparr>raw_pcbs := Some i\<rparr>))"

section \<open>Input\<close>

definition accepts :: "u32 \<Rightarrow> netif \<Rightarrow> bool" where
  "accepts dest n \<longleftrightarrow> netif_is_up n \<and> \<not> ip_addr_isany (if_ip n) \<and> (dest = if_ip n \<or> ip_addr_isbroadcast dest n)"

text \<open>The walk over the other interfaces, which skips \<open>inp\<close>.\<close>

definition skip_inp :: "('c, 'h) net \<Rightarrow> nat \<Rightarrow> nat option \<Rightarrow> nat option" where
  "skip_inp s inp n = (if n = Some inp then if_next (n_netif s inp) else n)"

partial_function (option) accept_loop :: "('c, 'h) net \<Rightarrow> nat \<Rightarrow> u32 \<Rightarrow> nat option \<Rightarrow> nat option option" where
  "accept_loop s inp dest netif =
     (case netif of
        None \<Rightarrow> Some None
      | Some i \<Rightarrow> if accepts dest (n_netif s i) then Some (Some i)
                  else accept_loop s inp dest (skip_inp s inp (if_next (n_netif s i))))"

definition ip_accept :: "('c, 'h) net \<Rightarrow> nat \<Rightarrow> u32 \<Rightarrow> nat option option" where
  "ip_accept s inp dest =
     (if accepts dest (n_netif s inp) then Some (Some inp) else accept_loop s inp dest (skip_inp s inp (netif_list s)))"

definition udp_layers :: "('c, 'h) ip_env \<Rightarrow> ('c, 'h) layers" where
  "udp_layers E = \<lparr>icmp_dest_unreach = (\<lambda>p. icmp_unreach E p ICMP_DUR_PORT), call_recv = udp_recv_fn E\<rparr>"

text \<open>To the protocol of the packet.\<close>

definition ip_deliver :: "('c, 'h) ip_env \<Rightarrow> loc \<Rightarrow> loc \<Rightarrow> nat \<Rightarrow> ('c, 'h) net \<Rightarrow> ('c, 'h) net option" where
  "ip_deliver E p iphdr inp s =
     (let proto = IPH_PROTO (bytes s) iphdr; dest = ip_dest (bytes s) iphdr in
      if proto = IP_PROTO_UDP then udp_input (udp_layers E) p inp s
      else if proto = IP_PROTO_TCP then tcp_input E p inp s
      else if proto = IP_PROTO_ICMP then icmp_input E p inp s
      else do {
        s \<leftarrow> (if \<not> ip_addr_isbroadcast dest (n_netif s inp) \<and> \<not> ip_addr_ismulticast dest then do {
                s \<leftarrow> lwip_step (\<lambda>l. Some (pb_upd p (\<lambda>b. b\<lparr>p_payload := Some iphdr\<rparr>) l)) s;
                icmp_unreach E p ICMP_DUR_PROTO s
              } else Some s);
        net_free p s
      })"

definition ip_dispatch :: "('c, 'h) ip_env \<Rightarrow> loc \<Rightarrow> nat \<Rightarrow> ('c, 'h) net \<Rightarrow> ('c, 'h) net option" where
  "ip_dispatch E p inp s = do {
     iphdr \<leftarrow> p_payload (pb (n_lwip s) p);
     let s = s\<lparr>current_netif := Some inp, current_header := Some iphdr\<rparr>;
     (eaten, s) \<leftarrow> raw_input E p inp s;
     s \<leftarrow> (if eaten = 0 then ip_deliver E p iphdr inp s else Some s);
     Some (s\<lparr>current_netif := None, current_header := None\<rparr>)
   }"

definition ip_input :: "('c, 'h) ip_env \<Rightarrow> loc \<Rightarrow> nat \<Rightarrow> ('c, 'h) net \<Rightarrow> ('c, 'h) net option" where
  "ip_input E p inp s = do {
     iphdr \<leftarrow> p_payload (pb (n_lwip s) p);
     if IPH_V (bytes s) iphdr \<noteq> 4 then net_free p s
     else do {
       let hlen = IPH_HL (bytes s) iphdr * 4;
       let len = IPH_LEN (bytes s) iphdr;
       if hlen > unat (p_len (pb (n_lwip s) p)) \<or> len > p_tot_len (pb (n_lwip s) p) then net_free p s
       else do {
         s \<leftarrow> lwip_step (pbuf_realloc p len) s;
         let m = bytes s;
         netif \<leftarrow> ip_accept s inp (ip_dest m iphdr);
         let dhcp = (netif = None \<and> IPH_PROTO m iphdr = IP_PROTO_UDP \<and> get_be16 m (loc_add iphdr (int hlen + 2)) = DHCP_CLIENT_PORT);
         if \<not> dhcp \<and> (ip_addr_isbroadcast (ip_src m iphdr) (n_netif s inp) \<or> ip_addr_ismulticast (ip_src m iphdr)) then net_free p s
         else if netif = None \<and> \<not> dhcp then net_free p s
         else do {
           (q, s) \<leftarrow> (if (IPH_OFFSET m iphdr AND (IP_OFFMASK OR IP_MF)) \<noteq> 0 then ip_reass E p s else Some (Some p, s));
           case q of
             None \<Rightarrow> Some s
           | Some p \<Rightarrow> ip_dispatch E p inp s
         }
       }
     }
   }"

section \<open>Fragments as a list\<close>

text \<open>A fragment as the pair of its first offset and the offset behind its end; the waiting fragments of a datagram in the
  order of their list.\<close>

definition rec_of :: "('c, 'h) net \<Rightarrow> loc \<Rightarrow> loc" where
  "rec_of s p = the (p_payload (pb (n_lwip s) p))"

definition frag :: "('c, 'h) net \<Rightarrow> loc \<Rightarrow> u16 \<times> u16" where
  "frag s p = (iprh_start s (rec_of s p), iprh_end s (rec_of s p))"

primrec frags_at :: "('c, 'h) net \<Rightarrow> loc option \<Rightarrow> loc list \<Rightarrow> bool" where
  "frags_at s q [] \<longleftrightarrow> q = None"
| "frags_at s q (p # ps) \<longleftrightarrow> q = Some p \<and> p_payload (pb (n_lwip s) p) \<noteq> None \<and> frags_at s (n_ptr s (rec_of s p)) ps"

text \<open>The reference: where a new fragment belongs, when it is thrown away, and when the fragments are taken for complete.\<close>

definition frags_below :: "u16 \<times> u16 \<Rightarrow> (u16 \<times> u16) list \<Rightarrow> (u16 \<times> u16) list" where
  "frags_below x xs = takeWhile (\<lambda>y. fst y < fst x) xs"

definition frags_above :: "u16 \<times> u16 \<Rightarrow> (u16 \<times> u16) list \<Rightarrow> (u16 \<times> u16) list" where
  "frags_above x xs = dropWhile (\<lambda>y. fst y < fst x) xs"

fun contiguous :: "(u16 \<times> u16) list \<Rightarrow> bool" where
  "contiguous (x # y # xs) \<longleftrightarrow> snd x = fst y \<and> contiguous (y # xs)"
| "contiguous _ \<longleftrightarrow> True"

definition refused :: "u16 \<times> u16 \<Rightarrow> (u16 \<times> u16) list \<Rightarrow> bool" where
  "refused x xs \<longleftrightarrow> (\<exists>y \<in> set xs. fst y \<le> fst x \<and> (fst y = fst x \<or> fst x < snd y)) \<or>
     (frags_below x xs \<noteq> [] \<and> frags_above x xs \<noteq> [] \<and> fst (hd (frags_above x xs)) < snd x)"

definition seems_complete :: "u16 \<times> u16 \<Rightarrow> (u16 \<times> u16) list \<Rightarrow> bool" where
  "seems_complete x xs \<longleftrightarrow> fst (hd (frags_below x xs @ [x])) = 0 \<and> contiguous (frags_below x xs) \<and> contiguous (x # frags_above x xs) \<and>
     (frags_above x xs = [] \<longrightarrow> contiguous (frags_below x xs @ [x]))"

lemma contiguous_append: "contiguous (xs @ y # ys) \<longleftrightarrow> contiguous (xs @ [y]) \<and> contiguous (y # ys)"
  by (induction xs rule: contiguous.induct) auto

lemma contiguous_snoc: "contiguous (xs @ [y]) \<longleftrightarrow> contiguous xs \<and> (xs \<noteq> [] \<longrightarrow> snd (last xs) = fst y)"
  by (induction xs rule: contiguous.induct) auto

lemma frags_at_cong:
  assumes "frags_at s q ps"
    and "\<And>p. p \<in> set ps \<Longrightarrow> p_payload (pb (n_lwip t) p) = p_payload (pb (n_lwip s) p)"
    and "\<And>p. p \<in> set ps \<Longrightarrow> n_ptr t (rec_of s p) = n_ptr s (rec_of s p)"
  shows "frags_at t q ps"
  using assms by (induction ps arbitrary: q) (simp_all add: rec_of_def)

text \<open>Putting a fragment in: its own link first, then the one before it.\<close>

definition link_in :: "loc \<Rightarrow> loc list \<Rightarrow> loc list \<Rightarrow> ('c, 'h) net \<Rightarrow> ('c, 'h) net" where
  "link_in p bl al s =
     (let s = (case al of [] \<Rightarrow> s | a # _ \<Rightarrow> set_ptr (rec_of s p) (Some a) s)
      in if bl = [] then s else set_ptr (rec_of s (last bl)) (Some p) s)"

lemma frags_at_tail: "frags_at s q (bl @ al) \<Longrightarrow> frags_at s (if bl = [] then q else n_ptr s (rec_of s (last bl))) al"
  by (induction bl arbitrary: q) auto

lemma frags_at_link:
  assumes "frags_at s q (bl @ al)" "distinct (map (rec_of s) (bl @ al))" "rec_of s p \<notin> rec_of s ` set (bl @ al)"
    and "p_payload (pb (n_lwip s) p) \<noteq> None" "n_ptr s (rec_of s p) = None"
  shows "frags_at (link_in p bl al s) (if bl = [] then Some p else q) (bl @ p # al)"
proof -
  let ?t = "link_in p bl al s"
  have eq: "n_lwip ?t = n_lwip s" "rec_of ?t = rec_of s" by (auto simp: link_in_def set_ptr_def rec_of_def Let_def split: list.splits)
  have ptr: "n_ptr ?t h = (if bl \<noteq> [] \<and> h = rec_of s (last bl) then Some p else if al \<noteq> [] \<and> h = rec_of s p then Some (hd al) else n_ptr s h)" for h
    by (cases al) (auto simp: link_in_def set_ptr_def rec_of_def Let_def)
  have al: "frags_at ?t (if al = [] then None else Some (hd al)) al"
  proof (cases al)
    case (Cons a as)
    have "frags_at s (Some a) al" using frags_at_tail [OF assms(1)] Cons by auto
    then have "frags_at ?t (Some a) al"
    proof (rule frags_at_cong)
      fix y assume "y \<in> set al"
      then have y: "rec_of s y \<in> rec_of s ` set al" by simp
      moreover have "rec_of s ` set bl \<inter> rec_of s ` set al = {}" using assms(2) by simp
      moreover have "bl \<noteq> [] \<Longrightarrow> rec_of s (last bl) \<in> rec_of s ` set bl" by simp
      ultimately have "bl \<noteq> [] \<Longrightarrow> rec_of s y \<noteq> rec_of s (last bl)" by (metis disjoint_iff)
      moreover have "rec_of s y \<noteq> rec_of s p" using assms(3) y by (metis UnI2 image_Un set_append)
      ultimately show "n_ptr ?t (rec_of s y) = n_ptr s (rec_of s y)" by (auto simp: ptr)
    qed (simp add: eq)
    with Cons show ?thesis by simp
  qed simp
  have "n_ptr ?t (rec_of s p) = (if al = [] then None else Some (hd al))" using assms(3,5) by (auto simp: ptr dest: last_in_set)
  then have pal: "frags_at ?t (Some p) (p # al)" using al assms(4) eq by simp
  show ?thesis
  proof (cases bl rule: rev_cases)
    case Nil
    then show ?thesis using pal by simp
  next
    case (snoc bs b)
    have lb: "n_ptr ?t (rec_of s b) = Some p" by (subst ptr) (simp add: snoc)
    have lc: "n_ptr ?t (rec_of s c) = n_ptr s (rec_of s c)" if "c \<in> set bs" for c
    proof -
      have "rec_of s c \<in> rec_of s ` set bs" using that by simp
      moreover have "rec_of s b \<notin> rec_of s ` set bs" "rec_of s p \<notin> rec_of s ` set bs" using assms(2,3) by (auto simp: snoc image_Un)
      ultimately have "rec_of s c \<noteq> rec_of s b" "rec_of s c \<noteq> rec_of s p" by metis+
      then show ?thesis by (subst ptr) (simp add: snoc)
    qed
    have "frags_at ?t r (cs @ b # p # al)" if "frags_at s r (cs @ b # al)" "set cs \<subseteq> set bs" for r cs
      using that
    proof (induction cs arbitrary: r)
      case Nil
      then show ?case using pal lb eq by simp
    next
      case (Cons c cs)
      then show ?case using lc eq by simp
    qed
    from this [of q bs] show ?thesis using assms(1) snoc by simp
  qed
qed

lemma place_loop_ok:
  assumes "frags_at s q ps" "sorted_wrt (<) (map (\<lambda>p. fst (frag s p)) ps)" "x = (iprh_start s h, iprh_end s h)"
    and "bl = takeWhile (\<lambda>p. fst (frag s p) < fst x) ps" "al = dropWhile (\<lambda>p. fst (frag s p) < fst x) ps"
    and "prev' = (if bl = [] then prev else Some (rec_of s (last bl)))"
  shows "place_loop s h q prev valid = Some
    (if (\<exists>p \<in> set ps. fst (frag s p) \<le> fst x \<and> (fst (frag s p) = fst x \<or> fst x < snd (frag s p))) \<or>
        (\<exists>v. prev' = Some v \<and> al \<noteq> [] \<and> (fst x < iprh_end s v \<or> fst (frag s (hd al)) < snd x))
     then None
     else Some (if al = [] then None else Some (hd al), prev',
       valid \<and> contiguous ((case prev of None \<Rightarrow> [] | Some v \<Rightarrow> [(iprh_start s v, iprh_end s v)]) @ map (frag s) bl)))"
  using assms
proof (induction ps arbitrary: q prev valid bl al prev')
  case Nil
  then show ?case by (subst place_loop.simps) (cases prev; simp)
next
  case (Cons p ps)
  let ?r = "rec_of s p"
  have p: "q = Some p" "p_payload (pb (n_lwip s) p) = Some ?r" "frags_at s (n_ptr s ?r) ps" using Cons.prems(1) by (auto simp: rec_of_def)
  have later: "\<forall>y \<in> set ps. fst (frag s p) < fst (frag s y)" "sorted_wrt (<) (map (\<lambda>p. fst (frag s p)) ps)" using Cons.prems(2) by auto
  have fp: "frag s p = (iprh_start s ?r, iprh_end s ?r)" by (simp add: frag_def)
  consider (before) "fst x < fst (frag s p)" | (hit) "fst (frag s p) \<le> fst x" "fst (frag s p) = fst x \<or> fst x < snd (frag s p)"
    | (after) "fst (frag s p) < fst x" "\<not> fst x < snd (frag s p)" by fastforce
  then show ?case
  proof cases
    case before
    then have "\<not> (\<exists>y \<in> set (p # ps). fst (frag s y) \<le> fst x \<and> (fst (frag s y) = fst x \<or> fst x < snd (frag s y)))"
      using later(1) by fastforce
    moreover have "bl = []" "al = p # ps" "prev' = prev" using before Cons.prems by auto
    ultimately show ?thesis using before p fp Cons.prems(3) by (subst place_loop.simps) (cases prev; simp)
  next
    case hit
    then have "\<exists>y \<in> set (p # ps). fst (frag s y) \<le> fst x \<and> (fst (frag s y) = fst x \<or> fst x < snd (frag s y))" by auto
    moreover have "place_loop s h q prev valid = Some None" using hit p fp Cons.prems(3) by (subst place_loop.simps) auto
    ultimately show ?thesis by (simp only: if_True simp_thms)
  next
    case after
    let ?bl = "takeWhile (\<lambda>p. fst (frag s p) < fst x) ps"
    let ?valid = "case prev of Some v \<Rightarrow> if iprh_end s v \<noteq> iprh_start s ?r then False else valid | None \<Rightarrow> valid"
    have b: "bl = p # ?bl" "al = dropWhile (\<lambda>p. fst (frag s p) < fst x) ps" using after Cons.prems by auto
    have pr: "prev' = (if ?bl = [] then Some ?r else Some (rec_of s (last ?bl)))" using b Cons.prems(6) by simp
    have "place_loop s h q prev valid = place_loop s h (n_ptr s ?r) (Some ?r) ?valid"
      using after p fp Cons.prems(3) by (subst place_loop.simps) (auto simp: Let_def)
    also note Cons.IH [OF p(3) later(2) Cons.prems(3) refl b(2) pr]
    finally show ?thesis using after b fp by (cases prev) auto
  qed
qed

lemma gap_loop_ok: "frags_at s q ps \<Longrightarrow> gap_loop s v q = Some (contiguous ((iprh_start s v, iprh_end s v) # map (frag s) ps))"
proof (induction ps arbitrary: q v)
  case Nil
  then show ?case by (subst gap_loop.simps) simp
next
  case (Cons p ps)
  obtain r where r: "p_payload (pb (n_lwip s) p) = Some r" "frag s p = (iprh_start s r, iprh_end s r)" "rec_of s p = r"
    using Cons.prems by (auto simp: frag_def rec_of_def)
  with Cons show ?case by (subst gap_loop.simps) auto
qed

lemma sorted_insert:
  assumes "sorted_wrt (<) (map fst xs)" "\<not> refused x xs"
  shows "sorted_wrt (<) (map fst (frags_below x xs @ x # frags_above x xs))"
proof -
  have s: "sorted_wrt (<) (map fst (frags_below x xs @ frags_above x xs))" using assms(1) by (simp add: frags_below_def frags_above_def)
  have "fst y < fst x" if "y \<in> set (frags_below x xs)" for y using that by (auto simp: frags_below_def dest: set_takeWhileD)
  moreover have "fst x < fst y" if y: "y \<in> set (frags_above x xs)" for y
  proof -
    have "frags_above x xs \<noteq> []" using y by auto
    then obtain z zs where z: "frags_above x xs = z # zs" by (cases "frags_above x xs") auto
    have "\<not> fst z < fst x" using dropWhile_eq_Cons_conv [of "\<lambda>y. fst y < fst x" xs z zs] z by (simp add: frags_above_def)
    moreover have "z \<in> set xs" using z set_dropWhileD [of z "\<lambda>y. fst y < fst x" xs] by (simp add: frags_above_def)
    ultimately have "fst x < fst z" using assms(2) by (auto simp: refused_def)
    moreover have "y = z \<or> fst z < fst y" using s y z by (auto simp: sorted_wrt_append)
    ultimately show ?thesis by auto
  qed
  ultimately show ?thesis using s by (auto simp: sorted_wrt_append)
qed

text \<open>The record of a new fragment.\<close>

lemma get_put_le16 [simp]: "get_le16 (put_le16 l w m) l = w"
  using be16_bytes [of w] by (simp add: get_le16_def put_le16_def or.commute)

definition new_rec :: "loc \<Rightarrow> u16 \<times> u16 \<Rightarrow> ('c, 'h) net \<Rightarrow> ('c, 'h) net" where
  "new_rec h x s = put_bytes (\<lambda>m. put_le16 (loc_add h 6) (snd x) (put_le16 (loc_add h 4) (fst x) m)) (set_ptr h None s)"

lemma new_rec_sel [simp]:
  "pb (n_lwip (new_rec h x s)) p = pb (n_lwip s) p" "rec_of (new_rec h x s) p = rec_of s p" "n_ptr (new_rec h x s) = (n_ptr s)(h := None)"
  "n_reass (new_rec h x s) = n_reass s" "ip_reass_pbufcount (new_rec h x s) = ip_reass_pbufcount s"
  by (simp_all add: new_rec_def put_bytes_def set_ptr_def rec_of_def Let_def)

lemma new_rec_own: "iprh_start (new_rec h x s) h = fst x" "iprh_end (new_rec h x s) h = snd x"
proof -
  show "iprh_end (new_rec h x s) h = snd x" by (simp add: iprh_end_def new_rec_def put_bytes_def Let_def)
  have "get_le16 (put_le16 (loc_add h 6) w m) (loc_add h 4) = get_le16 m (loc_add h 4)" for w m by (simp add: get_le16_def put_le16_def)
  then show "iprh_start (new_rec h x s) h = fst x" by (simp add: iprh_start_def new_rec_def put_bytes_def Let_def)
qed

lemma new_rec_other:
  assumes "area g 8 \<inter> area h 8 = {}"
  shows "iprh_start (new_rec h x s) g = iprh_start s g" "iprh_end (new_rec h x s) g = iprh_end s g" "g \<noteq> h"
proof -
  have "bytes (new_rec h x s) a = bytes s a" if "a \<notin> area h 8" for a
    using that by (auto simp: new_rec_def put_bytes_def Let_def put_le16_def set_ptr_def area_list upt_rec)
  moreover have "loc_add g k \<notin> area h 8" if "k \<in> {4, 5, 6, 7}" for k
    using assms that by (auto simp: area_list upt_rec)
  ultimately show "iprh_start (new_rec h x s) g = iprh_start s g" "iprh_end (new_rec h x s) g = iprh_end s g"
    by (simp_all add: iprh_start_def iprh_end_def get_le16_def)
  show "g \<noteq> h" using assms area_front area_Suc [of g 7] by auto
qed

lemma clen_chain: "chain_at l p qs \<Longrightarrow> clen_loop p n l = Some (n + of_nat (length qs))"
proof (induction qs arbitrary: p n)
  case Nil
  then show ?case by (subst clen_loop.simps) simp
next
  case (Cons q qs)
  then show ?case by (subst clen_loop.simps) (simp add: ac_simps)
qed

lemma frags_frame:
  assumes "n_ptr t = n_ptr s" "\<And>p. p_payload (pb (n_lwip t) p) = p_payload (pb (n_lwip s) p)" "bytes t = bytes s"
  shows "frags_at t q ps = frags_at s q ps" "frag t = frag s" "iprh_start t = iprh_start s" "iprh_end t = iprh_end s"
proof -
  have "rec_of t = rec_of s" using assms(2) by (auto simp: rec_of_def)
  then show "frag t = frag s" "iprh_start t = iprh_start s" "iprh_end t = iprh_end s"
    using assms(3) by (auto simp: frag_def iprh_start_def iprh_end_def)
  show "frags_at t q ps = frags_at s q ps" using assms(1,2) \<open>rec_of t = rec_of s\<close> by (induction ps arbitrary: q) auto
qed

text \<open>The place of a new fragment whose record has been written.\<close>

lemma place_new:
  assumes "frags_at t q ps" "sorted_wrt (<) (map (\<lambda>p. fst (frag t p)) ps)" "x = (iprh_start t h, iprh_end t h)" "xs = map (frag t) ps"
    and "bl = takeWhile (\<lambda>p. fst (frag t p) < fst x) ps" "al = dropWhile (\<lambda>p. fst (frag t p) < fst x) ps"
  shows "map (frag t) bl = frags_below x xs" "map (frag t) al = frags_above x xs"
    "place_loop t h q None True = Some (if refused x xs then None
       else Some (if al = [] then None else Some (hd al), if bl = [] then None else Some (rec_of t (last bl)), contiguous (frags_below x xs)))"
proof -
  show bl: "map (frag t) bl = frags_below x xs" and al: "map (frag t) al = frags_above x xs"
    using assms(4-6) by (simp_all add: frags_below_def frags_above_def takeWhile_map dropWhile_map comp_def)
  have e: "bl = [] \<longleftrightarrow> frags_below x xs = []" "al = [] \<longleftrightarrow> frags_above x xs = []" using bl al by auto
  have "iprh_end t (rec_of t (last bl)) = snd (frag t (last bl))" by (simp add: frag_def)
  moreover have "last bl \<in> set ps \<and> fst (frag t (last bl)) < fst x" if "bl \<noteq> []"
    using set_takeWhileD [of "last bl" "\<lambda>p. fst (frag t p) < fst x" ps] last_in_set [OF that] unfolding assms(5) by blast
  moreover have "al \<noteq> [] \<Longrightarrow> fst (frag t (hd al)) = fst (hd (frags_above x xs))" using al by (metis hd_map)
  ultimately have "((\<exists>p \<in> set ps. fst (frag t p) \<le> fst x \<and> (fst (frag t p) = fst x \<or> fst x < snd (frag t p))) \<or>
      (\<exists>v. (if bl = [] then None else Some (rec_of t (last bl))) = Some v \<and> al \<noteq> [] \<and> (fst x < iprh_end t v \<or> fst (frag t (hd al)) < snd x)))
    \<longleftrightarrow> refused x xs"
    using e assms(4) unfolding refused_def by (auto 4 3 intro: less_imp_le)
  with place_loop_ok [OF assms(1,2,3,5,6) refl, of None True] bl
  show "place_loop t h q None True = Some (if refused x xs then None
       else Some (if al = [] then None else Some (hd al), if bl = [] then None else Some (rec_of t (last bl)), contiguous (frags_below x xs)))"
    by simp
qed

text \<open>Writing the record of a new fragment leaves the list as it is.\<close>

lemma new_rec_frags:
  fixes x and s :: "('c, 'h) net"
  assumes "frags_at s q ps" "sorted_wrt (<) (map (\<lambda>p. fst (frag s p)) ps)" "\<forall>p \<in> set ps. area (rec_of s p) 8 \<inter> area h 8 = {}"
  defines "t \<equiv> new_rec h x s"
  shows "frags_at t q ps" "map (frag t) ps = map (frag s) ps" "sorted_wrt (<) (map (\<lambda>p. fst (frag t p)) ps)"
    "distinct (map (rec_of t) ps)" "h \<notin> rec_of t ` set ps"
proof -
  have ne: "rec_of s p \<noteq> h" "iprh_start t (rec_of s p) = iprh_start s (rec_of s p)" "iprh_end t (rec_of s p) = iprh_end s (rec_of s p)" if "p \<in> set ps" for p
    unfolding t_def using new_rec_other [of "rec_of s p" h] assms(3) that by blast+
  then show m: "map (frag t) ps = map (frag s) ps" by (simp add: frag_def t_def)
  show "frags_at t q ps" by (rule frags_at_cong [OF assms(1)]) (simp_all add: t_def ne(1))
  show so: "sorted_wrt (<) (map (\<lambda>p. fst (frag t p)) ps)" using assms(2) m by (metis (no_types) list.map_comp o_apply map_eq_conv)
  then have "distinct (map (\<lambda>p. fst (frag t p)) ps)" using strict_sorted_iff by blast
  then show "distinct (map (rec_of t) ps)" by (auto simp: distinct_map inj_on_def frag_def)
  show "h \<notin> rec_of t ` set ps" using ne(1) by (auto simp: t_def)
qed

text \<open>The test at the end, on the list with the new fragment \<open>p\<close>.\<close>

lemma frags_complete_ok:
  assumes "frags_at v (ir_p (n_reass v i)) (bl @ p # al)" "map (frag v) bl = frags_below x xs" "map (frag v) al = frags_above x xs"
    and "frag v p = x" "rec_of v p = h"
  shows "frags_complete i h (contiguous (frags_below x xs) \<and> (al = [] \<longrightarrow> contiguous (frags_below x xs @ [x]))) v =
    Some ((ir_flags (n_reass v i) AND IP_REASS_FLAG_LASTFRAG) \<noteq> 0 \<and> seems_complete x xs)"
proof -
  have first: "ir_p (n_reass v i) = Some (hd (bl @ [p]))" "p_payload (pb (n_lwip v) (hd (bl @ [p]))) = Some (rec_of v (hd (bl @ [p])))"
    using assms(1) by (cases bl; auto simp: rec_of_def)+
  have "map (frag v) (bl @ [p]) = frags_below x xs @ [x]" using assms(2,4) by simp
  then have st: "iprh_start v (rec_of v (hd (bl @ [p]))) = fst (hd (frags_below x xs @ [x]))"
    by (metis (no_types) frag_def fst_conv hd_map snoc_eq_iff_butlast)
  have "frags_at v (n_ptr v h) al" using frags_at_tail [OF assms(1)] assms(5) by simp
  from gap_loop_ok [OF this, of h] have gap: "gap_loop v h (n_ptr v h) = Some (contiguous (x # frags_above x xs))"
    using assms(3-5) by (simp add: frag_def)
  show ?thesis using first st gap assms(3) unfolding frags_complete_def seems_complete_def by auto
qed

text \<open>What is done with a fragment that is kept.\<close>

lemma chain_kept:
  fixes s :: "('c, 'h) net"
  assumes h: "p_payload (pb (n_lwip s) p) = Some h" and list: "frags_at s (ir_p (n_reass s i)) ps" "sorted_wrt (<) (map (\<lambda>p. fst (frag s p)) ps)"
    and apart: "\<forall>q \<in> set ps. area (rec_of s q) 8 \<inter> area h 8 = {}" and xs: "xs = map (frag s) ps" "\<not> refused x xs"
    and x: "x = (start, start + len)" "start = (IPH_OFFSET (bytes s) h AND IP_OFFMASK) * 8" "len = IPH_LEN (bytes s) h - of_nat (IPH_HL (bytes s) h * 4)"
  shows "\<exists>s' ps'. ip_reass_chain_frag i p s = Some ((ir_flags (n_reass s i) AND IP_REASS_FLAG_LASTFRAG) \<noteq> 0 \<and> seems_complete x xs, s') \<and>
    frags_at s' (ir_p (n_reass s' i)) ps' \<and> map (frag s') ps' = frags_below x xs @ x # frags_above x xs"
proof -
  let ?t = "new_rec h x s"
  note t = new_rec_frags [OF list apart, where x = x]
  have r: "rec_of ?t p = h" using h by (simp add: rec_of_def)
  have x': "x = (iprh_start ?t h, iprh_end ?t h)" by (simp add: new_rec_own)
  define bl where "bl = takeWhile (\<lambda>p. fst (frag ?t p) < fst x) ps"
  define al where "al = dropWhile (\<lambda>p. fst (frag ?t p) < fst x) ps"
  have ps: "ps = bl @ al" by (simp add: bl_def al_def)
  note place = place_new [OF t(1,3) x' xs(1) [folded t(2)] bl_def al_def]
  define u where "u = link_in p bl al ?t"
  define v where "v = (if bl = [] then reass_upd i (\<lambda>d. d\<lparr>ir_p := Some p\<rparr>) u else u)"
  have uv: "n_lwip v = n_lwip ?t" "n_ptr v = n_ptr u" "n_lwip u = n_lwip ?t" "n_reass u = n_reass s"
    by (auto simp: v_def u_def link_in_def reass_upd_def set_ptr_def Let_def split: list.splits)
  have "frags_at u (if bl = [] then Some p else ir_p (n_reass s i)) (bl @ p # al)"
    unfolding u_def using t h r by (intro frags_at_link) (simp_all add: ps)
  moreover have "ir_p (n_reass v i) = (if bl = [] then Some p else ir_p (n_reass s i))" using uv(4) by (simp add: v_def reass_upd_def)
  moreover have "frags_at v q qs = frags_at u q qs" for q qs by (rule frags_frame(1)) (simp_all add: uv)
  ultimately have fin: "frags_at v (ir_p (n_reass v i)) (bl @ p # al)" by simp
  have fv: "frag v = frag ?t" "iprh_start v = iprh_start ?t" "iprh_end v = iprh_end ?t" "rec_of v = rec_of ?t"
    using uv(1) by (auto simp: frag_def iprh_start_def iprh_end_def rec_of_def fun_eq_iff)
  have fp: "frag v p = x" "rec_of v p = h" using r x' by (simp_all add: fv) (simp add: frag_def)
  have fl: "ir_flags (n_reass v i) = ir_flags (n_reass s i)" using uv(4) by (simp add: v_def reass_upd_def)
  note fc = frags_complete_ok [OF fin place(1,2) [folded fv(1)] fp, unfolded fl]
  have val: "(case (if al = [] then None else Some (hd al), if bl = [] then None else Some (rec_of ?t (last bl))) of
      (None, Some w) \<Rightarrow> contiguous (frags_below x xs) \<and> iprh_end v w = iprh_start v h | _ \<Rightarrow> contiguous (frags_below x xs))
    \<longleftrightarrow> contiguous (frags_below x xs) \<and> (al = [] \<longrightarrow> contiguous (frags_below x xs @ [x]))"
    using place(1) last_map [of bl "frag ?t"] by (auto simp: contiguous_snoc fv new_rec_own frag_def)
  let ?q = "if al = [] then None else Some (hd al)" and ?prev = "if bl = [] then None else Some (rec_of ?t (last bl))"
  have t': "put_bytes (\<lambda>m. put_le16 (loc_add h 6) (start + len) (put_le16 (loc_add h 4) start m)) (set_ptr h None s) = ?t"
    by (simp add: new_rec_def x(1))
  have v': "(case ?prev of Some w \<Rightarrow> set_ptr w (Some p) (if ?q = None then ?t else set_ptr h ?q ?t)
      | None \<Rightarrow> reass_upd i (\<lambda>d. d\<lparr>ir_p := Some p\<rparr>) (if ?q = None then ?t else set_ptr h ?q ?t)) = v"
    using r by (cases al) (auto simp: v_def u_def link_in_def set_ptr_def rec_of_def)
  have "ip_reass_chain_frag i p s = Some ((ir_flags (n_reass s i) AND IP_REASS_FLAG_LASTFRAG) \<noteq> 0 \<and> seems_complete x xs, v)"
    unfolding ip_reass_chain_frag_def h Let_def x(2,3) [symmetric] t' bind.bind_lunit new_rec_sel place(3)
    using xs(2) v' val fc by (cases "al = []"; cases "bl = []"; simp cong: conj_cong)
  then show ?thesis using fin place(1,2) fp(1) by (auto simp: fv)
qed

text \<open>What is done with a fragment that is thrown away.\<close>

lemma chain_refused:
  fixes s :: "('c, 'h) net"
  assumes h: "p_payload (pb (n_lwip s) p) = Some h" and list: "frags_at s (ir_p (n_reass s i)) ps" "sorted_wrt (<) (map (\<lambda>p. fst (frag s p)) ps)"
    and apart: "\<forall>q \<in> set ps. area (rec_of s q) 8 \<inter> area h 8 = {}" and xs: "xs = map (frag s) ps" "refused x xs"
    and x: "x = (start, start + len)" "start = (IPH_OFFSET (bytes s) h AND IP_OFFMASK) * 8" "len = IPH_LEN (bytes s) h - of_nat (IPH_HL (bytes s) h * 4)"
    and pkt: "lwip_ok sizes (n_lwip s)" "chain_at (n_lwip s) (Some p) qs" "distinct qs" "\<forall>q \<in> set qs. owned sizes (n_lwip s) q \<and> p_ref (pb (n_lwip s) q) = 1"
  shows "\<exists>s'. ip_reass_chain_frag i p s = Some (False, s') \<and> frags_at s' (ir_p (n_reass s' i)) ps \<and> map (frag s') ps = xs \<and>
    pbuf_live sizes (n_lwip s') = pbuf_live sizes (n_lwip s) - set qs \<and>
    ip_reass_pbufcount s' = ip_reass_pbufcount s - ucast (of_nat (length qs) :: u8)"
proof -
  let ?t = "new_rec h x s"
  note t = new_rec_frags [OF list apart, where x = x]
  have x': "x = (iprh_start ?t h, iprh_end ?t h)" by (simp add: new_rec_own)
  note place = place_new [OF t(1,3) x' xs(1) [folded t(2)] refl refl]
  have t': "put_bytes (\<lambda>m. put_le16 (loc_add h 6) (start + len) (put_le16 (loc_add h 4) start m)) (set_ptr h None s) = ?t"
    by (simp add: new_rec_def x(1))
  obtain m where m: "n_lwip ?t = (n_lwip s)\<lparr>l_bytes := m\<rparr>" by (auto simp: new_rec_def put_bytes_def set_ptr_def Let_def)
  have o: "owned sizes ((n_lwip s)\<lparr>l_bytes := m\<rparr>) = owned sizes (n_lwip s)" "pbuf_live sizes ((n_lwip s)\<lparr>l_bytes := m\<rparr>) = pbuf_live sizes (n_lwip s)"
    by (simp_all add: owned_def pbuf_home_def pbuf_live_def in_pool_def in_heap_def fun_eq_iff cong: pbuf_type.case_cong)
  have "lwip_ok sizes (n_lwip ?t)" "chain_at (n_lwip ?t) (Some p) qs" "\<forall>q \<in> set qs. owned sizes (n_lwip ?t) q" "ones (n_lwip ?t) qs = length qs"
    using pkt by (simp_all add: m lwip_ok_def o ones_all)
  note pkt' = this
  from pbuf_free_loop_ok [OF pkt'(1,2) pkt(3) pkt'(3), of 0, unfolded pkt'(4)] obtain l where
    l: "pbuf_free (Some p) (n_lwip ?t) = Some (of_nat (length qs), l)" "l_bytes l = bytes ?t" "pbuf_live sizes l = pbuf_live sizes (n_lwip s) - set qs"
    "\<forall>q. p_payload (pb l q) = p_payload (pb (n_lwip s) q)" using m o(2) by (auto simp: pbuf_free_def)
  let ?s = "?t\<lparr>ip_reass_pbufcount := ip_reass_pbufcount s - ucast (of_nat (length qs) :: u8), n_lwip := l\<rparr>"
  have "ip_reass_chain_frag i p s = Some (False, ?s)"
    unfolding ip_reass_chain_frag_def h Let_def x(2,3) [symmetric] t' bind.bind_lunit new_rec_sel place(3)
    using xs(2) l(1) clen_chain [OF pkt'(2), of 0] by (simp add: pbuf_clen_def net_free_def on_lwip_def)
  moreover have "frags_at ?s q ps = frags_at ?t q ps" "frag ?s = frag ?t" for q
    using l(2,4) by (intro frags_frame; simp)+
  ultimately show ?thesis using t(1,2) l(3) xs(1) by (intro exI [of _ ?s]) simp
qed

section \<open>A ping\<close>

lemma pb_upd_same: "f (pb l p) = pb l p \<Longrightarrow> pb_upd p f l = l"
  by (cases l) (simp add: pb_upd_def)

lemma trim_pool:
  assumes "p_type (pb l p) = PBUF_POOL" "p_next (pb l p) = None" "p_len (pb l p) = p_tot_len (pb l p)" "len \<le> p_tot_len (pb l p)"
  shows "pbuf_realloc p len l = Some (pb_upd p (\<lambda>b. b\<lparr>p_len := len, p_tot_len := len\<rparr>) l)"
proof (cases "len = p_tot_len (pb l p)")
  case True
  then have "pb_upd p (\<lambda>b. b\<lparr>p_len := len, p_tot_len := len\<rparr>) l = l" using assms(3) by (intro pb_upd_same) simp
  then show ?thesis using True by (simp add: pbuf_realloc_def)
next
  case False
  then have "realloc_skip p len g l = Some (p, len, l)" for g using assms by (subst realloc_skip.simps) (auto simp: not_less)
  then show ?thesis using assms False by (auto simp: pbuf_realloc_def pbuf_shrink_def pb_upd_def Let_def fun_eq_iff)
qed

section \<open>Properties\<close>

text \<open>C26: Reassembly by its reference definition. A new fragment of a datagram, as the pair of its offsets, is thrown
  away exactly when it starts inside a waiting fragment or, between two of them, reaches into the next one; then the list stays as it is,
  the buffers of the fragment are given back and are no longer counted. Otherwise it is put in its place, so that the
  list stays ordered by strictly increasing offsets. The datagram is reported as complete exactly when its last fragment has been seen and
  \<open>seems_complete\<close> holds.\<close>

theorem ip_reass_chain_refines:
  fixes s :: "('c, 'h) net"
  assumes "p_payload (pb (n_lwip s) p) = Some h" "frags_at s (ir_p (n_reass s i)) ps" "sorted_wrt (<) (map (\<lambda>p. fst (frag s p)) ps)"
    and "\<forall>q \<in> set ps. area (rec_of s q) 8 \<inter> area h 8 = {}"
    and "start = (IPH_OFFSET (bytes s) h AND IP_OFFMASK) * 8" "len = IPH_LEN (bytes s) h - of_nat (IPH_HL (bytes s) h * 4)"
    and "lwip_ok sizes (n_lwip s)" "chain_at (n_lwip s) (Some p) qs" "distinct qs" "\<forall>q \<in> set qs. owned sizes (n_lwip s) q \<and> p_ref (pb (n_lwip s) q) = 1"
    and "xs = map (frag s) ps" "x = (start, start + len)"
  shows "\<exists>s' ps'. ip_reass_chain_frag i p s =
      Some (\<not> refused x xs \<and> (ir_flags (n_reass s i) AND IP_REASS_FLAG_LASTFRAG) \<noteq> 0 \<and> seems_complete x xs, s') \<and>
    frags_at s' (ir_p (n_reass s' i)) ps' \<and> map (frag s') ps' = (if refused x xs then xs else frags_below x xs @ x # frags_above x xs) \<and>
    sorted_wrt (<) (map fst (map (frag s') ps')) \<and>
    (refused x xs \<longrightarrow> pbuf_live sizes (n_lwip s') = pbuf_live sizes (n_lwip s) - set qs \<and>
       ip_reass_pbufcount s' = ip_reass_pbufcount s - ucast (of_nat (length qs) :: u8))"
proof -
  have so: "sorted_wrt (<) (map fst xs)" using assms(3,11) by (simp add: comp_def)
  show ?thesis
  proof (cases "refused x xs")
    case True
    from chain_refused [OF assms(1-4,11) True assms(12,5-10)] obtain s' where s': "ip_reass_chain_frag i p s = Some (False, s')"
      "frags_at s' (ir_p (n_reass s' i)) ps" "map (frag s') ps = xs" "pbuf_live sizes (n_lwip s') = pbuf_live sizes (n_lwip s) - set qs"
      "ip_reass_pbufcount s' = ip_reass_pbufcount s - ucast (of_nat (length qs) :: u8)" by blast
    then show ?thesis using so True by (intro exI [of _ s'] exI [of _ ps]) simp
  next
    case False
    from chain_kept [OF assms(1-4,11) False assms(12,5,6)] obtain s' ps' where
      "ip_reass_chain_frag i p s = Some ((ir_flags (n_reass s i) AND IP_REASS_FLAG_LASTFRAG) \<noteq> 0 \<and> seems_complete x xs, s')"
      "frags_at s' (ir_p (n_reass s' i)) ps'" "map (frag s') ps' = frags_below x xs @ x # frags_above x xs" by blast
    then show ?thesis using sorted_insert [OF so False] False by (intro exI [of _ s'] exI [of _ ps']) (simp only: simp_thms if_False)
  qed
qed

text \<open>C33: A hole that is not noticed. A new fragment in the middle is not compared with the one before it: when the fragments
  \<open>0..a\<close> and \<open>c..d\<close> wait, the last one among them, then \<open>b..c\<close> with \<open>a < b < c\<close> makes the datagram complete, although nothing of
  \<open>a..b\<close> has arrived.\<close>

theorem ip_reass_hole_accepted:
  fixes s :: "('c, 'h) net"
  assumes "p_payload (pb (n_lwip s) p) = Some h" "frags_at s (ir_p (n_reass s i)) [y, z]" "frag s y = (0, a)" "frag s z = (c, d)"
    and "area (rec_of s y) 8 \<inter> area h 8 = {}" "area (rec_of s z) 8 \<inter> area h 8 = {}"
    and "b = (IPH_OFFSET (bytes s) h AND IP_OFFMASK) * 8" "c = b + (IPH_LEN (bytes s) h - of_nat (IPH_HL (bytes s) h * 4))"
    and "a < b" "b < c" "(ir_flags (n_reass s i) AND IP_REASS_FLAG_LASTFRAG) \<noteq> 0"
  shows "\<exists>s' ps'. ip_reass_chain_frag i p s = Some (True, s') \<and> frags_at s' (ir_p (n_reass s' i)) ps' \<and> map (frag s') ps' = [(0, a), (b, c), (c, d)]"
proof -
  have ab: "0 < b" "0 < c" "\<not> c < b" "\<not> b < a" using assms(9,10) by (auto simp: word_gt_0)
  let ?x = "(b, c)" and ?xs = "[(0, a), (c, d)]"
  have bl: "frags_below ?x ?xs = [(0, a)]" "frags_above ?x ?xs = [(c, d)]" using ab assms(10) by (simp_all add: frags_below_def frags_above_def)
  have "\<not> refused ?x ?xs" using ab assms(9,10) unfolding refused_def bl by auto
  moreover have "seems_complete ?x ?xs" by (simp add: seems_complete_def bl)
  ultimately show ?thesis
    using chain_kept [OF assms(1,2) _ _ _ _ _ assms(7) refl, of ?xs ?x] assms(3-6,8,10,11) ab(2) bl by simp
qed

text \<open>C25: A ping through IP. An echo request in one pool buffer, with a valid header and a correct checksum, addressed to an interface that is up,
  is trimmed to the length in its header and answered by one packet to its sender over that interface, with the addresses
  exchanged, the type of an echo reply and the data of the request; the buffer is given back, and no
  header is left as the current one.\<close>

theorem ip_input_ping:
  fixes s :: "('c, 'h) net"
  assumes b: "p_type (pb (n_lwip s) p) = PBUF_POOL" "p_next (pb (n_lwip s) p) = None" "p_len (pb (n_lwip s) p) = p_tot_len (pb (n_lwip s) p)"
      "p_payload (pb (n_lwip s) p) = Some h" "loc_off p + 30 \<le> loc_off h" "unat (p_len (pb (n_lwip s) p)) \<le> 65500"
    and hdr: "IPH_V (bytes s) h = 4" "hlen = IPH_HL (bytes s) h * 4" "20 \<le> hlen" "len = IPH_LEN (bytes s) h" "hlen + 8 \<le> unat len"
      "len \<le> p_tot_len (pb (n_lwip s) p)" "(IPH_OFFSET (bytes s) h AND (IP_OFFMASK OR IP_MF)) = 0" "IPH_PROTO (bytes s) h = IP_PROTO_ICMP"
    and adr: "ip_dest (bytes s) h = if_ip (n_netif s i)" "netif_is_up (n_netif s i)" "\<not> ip_addr_isany (if_ip (n_netif s i))"
      "\<not> ip_addr_ismulticast (if_ip (n_netif s i))" "\<not> ip_addr_isbroadcast (if_ip (n_netif s i)) (n_netif s i)"
      "\<not> ip_addr_ismulticast (ip_src (bytes s) h)" "\<not> ip_addr_isbroadcast (ip_src (bytes s) h) (n_netif s i)"
    and icmp: "bytes s (loc_add h (int hlen)) = ICMP_ECHO" "internet_sum (read_at (bytes s) (loc_add h (int hlen)) (unat len - hlen)) = 0xFFFF"
    and net: "raw_pcbs s = None" "if_mtu (n_netif s i) = 0 \<or> len \<le> if_mtu (n_netif s i)"
  shows "\<exists>t. ip_input E p i s = Option.bind (netif_output E i p (ip_src (bytes s) h) t)
      (\<lambda>(err, u). map_option (\<lambda>u. u\<lparr>current_netif := None, current_header := None\<rparr>) (net_free p u)) \<and>
    p_payload (pb (n_lwip t) p) = Some h \<and> p_tot_len (pb (n_lwip t) p) = len \<and> p_len (pb (n_lwip t) p) = len \<and>
    ip_src (bytes t) h = ip_dest (bytes s) h \<and> ip_dest (bytes t) h = ip_src (bytes s) h \<and> bytes t (loc_add h (int hlen)) = ICMP_ER \<and>
    read_at (bytes t) (loc_add h (int hlen + 4)) (unat len - hlen - 4) = read_at (bytes s) (loc_add h (int hlen + 4)) (unat len - hlen - 4)"
proof -
  let ?l = "pb_upd p (\<lambda>b. b\<lparr>p_len := len, p_tot_len := len\<rparr>) (n_lwip s)"
  let ?s = "s\<lparr>n_lwip := ?l, current_netif := Some i, current_header := Some h\<rparr>"
  let ?k = "moved p (- int hlen) ?l"
  have n: "unat (of_nat hlen :: u16) = hlen" using hdr(5) u16_less [of len] by (simp add: unsigned_of_nat take_bit_nat_eq_self)
  then have "unat (len - of_nat hlen) = unat len - hlen" using hdr(5) by (simp add: unat_sub word_le_nat_alt)
  then have "chain_data ?k [p] = read_at (bytes s) (loc_add h (int hlen)) (unat len - hlen)" "chain_at ?k (Some p) [p]" "payloads ?k [p]"
    using b by (simp_all add: chain_data_def pdata_def moved_def pb_upd_def payloads_def)
  then have ck: "inet_chksum_pbuf (Some p) ?k = Some 0" using inet_chksum_pbuf_sum [of ?k "Some p" "[p]"] icmp(2) by simp
  have le: "unat len \<le> 65500" "hlen \<le> unat (p_len (pb (n_lwip s) p))" using hdr(5,6) b(3,6) by (simp_all add: word_le_nat_alt)
  obtain m where m: "icmp_input E p i ?s = Option.bind (netif_output E i p (ip_src (bytes s) h) (put_bytes (\<lambda>_. m) ?s)) (\<lambda>(err, t). net_free p t)"
    "ip_src m h = ip_dest (bytes s) h" "ip_dest m h = ip_src (bytes s) h" "m (loc_add h (int hlen)) = ICMP_ER"
    "\<forall>a. a \<notin> area (loc_add h 8) 12 - {loc_add h 9} \<union> {loc_add h (int hlen), loc_add h (int hlen + 2), loc_add h (int hlen + 3)} \<longrightarrow> m a = bytes s a"
    using icmp_echo_ok [of ?s p h hlen i E] b hdr adr icmp ck net le by auto
  have data: "read_at m (loc_add h (int hlen + 4)) k = read_at (bytes s) (loc_add h (int hlen + 4)) k" for k
  proof -
    have "m (loc_add h (int hlen + 4 + int x)) = bytes s (loc_add h (int hlen + 4 + int x))" for x
      using hdr(3) by (intro m(5) [rule_format]) (auto simp: area_def)
    then show ?thesis by (intro read_cong) (auto simp: area_def)
  qed
  have "ip_input E p i s = ip_dispatch E p i (s\<lparr>n_lwip := ?l\<rparr>)"
    using b(4) hdr adr le trim_pool [OF b(1-3) hdr(6)]
    by (simp add: ip_input_def Let_def lwip_step_def ip_accept_def accepts_def not_less leD)
  also have "\<dots> = map_option (\<lambda>s. s\<lparr>current_netif := None, current_header := None\<rparr>) (icmp_input E p i ?s)"
    using b(4) net(1) hdr(8) raw_loop.simps [of E p h _ None None]
    by (cases "icmp_input E p i ?s") (auto simp: ip_dispatch_def raw_input_def ip_deliver_def Let_def)
  finally have "ip_input E p i s = Option.bind (netif_output E i p (ip_src (bytes s) h) (put_bytes (\<lambda>_. m) ?s))
      (\<lambda>(err, u). map_option (\<lambda>u. u\<lparr>current_netif := None, current_header := None\<rparr>) (net_free p u))"
    by (cases "netif_output E i p (ip_src (bytes s) h) (put_bytes (\<lambda>_. m) ?s)") (auto simp: m(1))
  then show ?thesis using m(2-4) data b(4) by (intro exI [of _ "put_bytes (\<lambda>_. m) ?s"]) (simp add: put_bytes_def Let_def pb_upd_def)
qed

section \<open>Witnesses\<close>

text \<open>Two fragments wait, \<open>0..8\<close> and the last one \<open>24..32\<close>; the new one has eight bytes from \<open>8 * k\<close> on.\<close>

definition reass_w :: "u8 \<Rightarrow> (unit, unit) net" where
  "reass_w k = net_w\<lparr>n_lwip := lwip_a\<lparr>l_pbufs := (\<lambda>q. \<lparr>p_next = None, p_payload = Some (if q = Ram 8 then Ext 200 else if q = Ext 1 then Ext 0 else Ext 100),
       p_tot_len = 28, p_len = 28, p_type = PBUF_RAM, p_flags = 0, p_ref = 1\<rparr>),
     l_bytes := put_at (Ext 0) [0, 0, 0, 0, 0, 0, 8, 0] (put_at (Ext 100) [0, 0, 0, 0, 24, 0, 32, 0]
       (put_at (Ext 200) [0x45, 0, 0, 28, 0, 0, 0x20, k] (\<lambda>_. 0)))\<rparr>,
     n_reass := (\<lambda>_. no_reass\<lparr>ir_p := Some (Ext 1), ir_flags := 1\<rparr>), n_ptr := [Ext 0 \<mapsto> Ext 2]\<rparr>"

lemma reass_w_frags:
  "p_payload (pb (n_lwip (reass_w k)) (Ram 8)) = Some (Ext 200)" "frags_at (reass_w k) (ir_p (n_reass (reass_w k) 0)) [Ext 1, Ext 2]"
  "frag (reass_w k) (Ext 1) = (0, 8)" "frag (reass_w k) (Ext 2) = (24, 32)"
  "area (rec_of (reass_w k) (Ext 1)) 8 \<inter> area (Ext 200) 8 = {}" "area (rec_of (reass_w k) (Ext 2)) 8 \<inter> area (Ext 200) 8 = {}"
  "IPH_LEN (bytes (reass_w k)) (Ext 200) = 28" "IPH_HL (bytes (reass_w k)) (Ext 200) = 5" "(ir_flags (n_reass (reass_w k) i) AND IP_REASS_FLAG_LASTFRAG) \<noteq> 0"
  by (simp_all add: reass_w_def rec_of_def frag_def iprh_start_def iprh_end_def get_le16_def get_be16_def header_access area_list upt_rec no_reass_def)

lemma reass_w_offset: "IPH_OFFSET (bytes (reass_w 0)) (Ext 200) = 0x2000" "IPH_OFFSET (bytes (reass_w 2)) (Ext 200) = 0x2002"
  by (simp_all add: reass_w_def get_be16_def header_access)

theorem ip_reass_chain_refines_witness:
  "\<exists>s'. ip_reass_chain_frag 0 (Ram 8) (reass_w 0) = Some (False, s') \<and> Ram 8 \<notin> pbuf_live (\<lambda>_. 1516) (n_lwip s')"
proof -
  let ?s = "reass_w 0"
  have live: "heap_live (l_heap (n_lwip ?s)) = {8, 116}" using heap_b_eval(2) by (simp add: heap_live_def reass_w_def lwip_a_def)
  have "lwip_ok (\<lambda>_. 1516) (n_lwip ?s)" using lwip_a_ok by (simp add: reass_w_def lwip_ok_def)
  moreover have "chain_at (n_lwip ?s) (Some (Ram 8)) [Ram 8]" by (simp add: reass_w_def)
  moreover have "owned (\<lambda>_. 1516) (n_lwip ?s) (Ram 8) \<and> p_ref (pb (n_lwip ?s) (Ram 8)) = 1"
  proof -
    have "Ram 8 \<in> in_heap (n_lwip ?s)" using live by (simp add: in_heap_def)
    moreover have "p_type (pb (n_lwip ?s) (Ram 8)) = PBUF_RAM" "p_ref (pb (n_lwip ?s) (Ram 8)) = 1" by (simp_all add: reass_w_def)
    ultimately show ?thesis by (simp add: owned_def pbuf_home_def)
  qed
  moreover have "refused (0, 8) [(0, 8), (24, 32)]" by (simp add: refused_def)
  ultimately show ?thesis
    using ip_reass_chain_refines [OF reass_w_frags(1,2) [of 0], where sizes = "\<lambda>_. 1516" and qs = "[Ram 8]", OF _ _ refl refl _ _ _ _ refl refl]
      reass_w_frags [of 0] reass_w_offset(1) by simp (metis DiffD2 insertI1)
qed

theorem ip_reass_hole_accepted_witness:
  "\<exists>s' ps'. ip_reass_chain_frag 0 (Ram 8) (reass_w 2) = Some (True, s') \<and> frags_at s' (ir_p (n_reass s' 0)) ps' \<and>
     map (frag s') ps' = [(0, 8), (16, 24), (24, 32)]"
  by (rule ip_reass_hole_accepted [OF reass_w_frags(1-6) [of 2] _ _ _ _ reass_w_frags(9)])
    (simp_all only: reass_w_frags reass_w_offset, simp_all)

definition ping_in_w :: "(unit, unit) net" where
  "ping_in_w = ping_w\<lparr>n_lwip := (n_lwip ping_w)\<lparr>l_pbufs := (\<lambda>_. \<lparr>p_next = None, p_payload = Some (Ram 100), p_tot_len = 46, p_len = 46,
       p_type = PBUF_POOL, p_flags = 0, p_ref = 1\<rparr>)\<rparr>,
     n_netif := (\<lambda>i. (n_netif ping_w i)\<lparr>if_ip := IP4_ADDR 10 0 0 2, if_netmask := IP4_ADDR 255 0 0 0, if_flags := 3, if_mtu := 1500\<rparr>)\<rparr>"

theorem ip_input_ping_witness:
  "\<forall>E. \<exists>t. ip_input E (Ram 8) 0 ping_in_w = Option.bind (netif_output E 0 (Ram 8) (IP4_ADDR 10 0 0 1) t)
      (\<lambda>(err, u). map_option (\<lambda>u. u\<lparr>current_netif := None, current_header := None\<rparr>) (net_free (Ram 8) u)) \<and>
    p_tot_len (pb (n_lwip t) (Ram 8)) = 28 \<and> ip_dest (bytes t) (Ram 100) = IP4_ADDR 10 0 0 1 \<and> bytes t (Ram 120) = ICMP_ER"
proof
  fix E
  let ?s = ping_in_w and ?h = "Ram 100"
  have b: "p_type (pb (n_lwip ?s) (Ram 8)) = PBUF_POOL" "p_next (pb (n_lwip ?s) (Ram 8)) = None"
    "p_len (pb (n_lwip ?s) (Ram 8)) = p_tot_len (pb (n_lwip ?s) (Ram 8))" "p_payload (pb (n_lwip ?s) (Ram 8)) = Some ?h"
    "p_tot_len (pb (n_lwip ?s) (Ram 8)) = 46" "raw_pcbs ?s = None" "p_len (pb (n_lwip ?s) (Ram 8)) = 46" by (simp_all add: ping_in_w_def ping_w_def net_w_def)
  have f: "IPH_V (bytes ?s) ?h = 4" "IPH_HL (bytes ?s) ?h = 5" "IPH_LEN (bytes ?s) ?h = 28" "IPH_OFFSET (bytes ?s) ?h = 0"
    "IPH_PROTO (bytes ?s) ?h = IP_PROTO_ICMP" "ip_dest (bytes ?s) ?h = IP4_ADDR 10 0 0 2" "ip_src (bytes ?s) ?h = IP4_ADDR 10 0 0 1"
    "bytes ?s (Ram 120) = ICMP_ECHO" "read_at (bytes ?s) (Ram 120) 8 = [8, 0, 0xF7, 0xFF, 0, 0, 0, 0]"
    by (simp_all add: ping_in_w_def ping_w_def header_access get_addr_def get_be16_def read_at_def upt_rec)
  have n: "if_ip (n_netif ?s 0) = IP4_ADDR 10 0 0 2" "if_netmask (n_netif ?s 0) = IP4_ADDR 255 0 0 0" "if_flags (n_netif ?s 0) = 3" "if_mtu (n_netif ?s 0) = 1500"
    by (simp_all add: ping_in_w_def)
  have "internet_sum [8, 0, 0xF7, 0xFF, 0, 0, 0, 0] = 0xFFFF" by (simp add: internet_sum_def ones_sum_def htons_def)
  moreover have "\<not> ip_addr_ismulticast (IP4_ADDR 10 0 0 2)" "\<not> ip_addr_ismulticast (IP4_ADDR 10 0 0 1)"
    "\<not> ip_addr_isbroadcast (IP4_ADDR 10 0 0 2) (n_netif ?s 0)" "\<not> ip_addr_isbroadcast (IP4_ADDR 10 0 0 1) (n_netif ?s 0)"
    "netif_is_up (n_netif ?s 0)" "\<not> ip_addr_isany (IP4_ADDR 10 0 0 2)"
    by (simp_all add: ip_addr_ismulticast_def ip_addr_isbroadcast_def ip_addr_netcmp_def ip_addr_isany_def netif_is_up_def n IP4_ADDR_def)
  ultimately show "\<exists>t. ip_input E (Ram 8) 0 ping_in_w = Option.bind (netif_output E 0 (Ram 8) (IP4_ADDR 10 0 0 1) t)
      (\<lambda>(err, u). map_option (\<lambda>u. u\<lparr>current_netif := None, current_header := None\<rparr>) (net_free (Ram 8) u)) \<and>
    p_tot_len (pb (n_lwip t) (Ram 8)) = 28 \<and> ip_dest (bytes t) (Ram 100) = IP4_ADDR 10 0 0 1 \<and> bytes t (Ram 120) = ICMP_ER"
    using ip_input_ping [OF b(1-4), of 20 28 0 E] b(5-7) f n by auto
qed

end
