(* ===== verification/Etharp.thy ===== *)
theory Etharp
  imports Net
begin

text \<open>
  ARP over Ethernet (\<open>etharp.c\<close>): the table of address pairs with its ageing, the queues of packets that wait for
  an address, requests and replies, and the entry of received frames, \<open>ethernet_input\<close>. The updater leaves the
  defaults: a table of ten entries, queueing, and addresses learnt from IP packets.

  The driver's function that sends a frame and the reaction of the DHCP client to an ARP reply are arguments of
  the definitions, in the record \<open>arp_env\<close>.
\<close>

unbundle bit_operations_syntax

section \<open>Constants\<close>

definition ARP_TABLE_SIZE :: nat where [simp]: "ARP_TABLE_SIZE = 10"
definition ARP_MAXAGE :: u8 where [simp]: "ARP_MAXAGE = 240"
definition ARP_MAXPENDING :: u8 where [simp]: "ARP_MAXPENDING = 2"
definition HWTYPE_ETHERNET :: u16 where [simp]: "HWTYPE_ETHERNET = 1"
definition ETHARP_HWADDR_LEN :: u8 where [simp]: "ETHARP_HWADDR_LEN = 6"
definition ETHARP_TRY_HARD :: u8 where [simp]: "ETHARP_TRY_HARD = 1"
definition ETHARP_FIND_ONLY :: u8 where [simp]: "ETHARP_FIND_ONLY = 2"
definition ETHTYPE_ARP :: u16 where [simp]: "ETHTYPE_ARP = 0x0806"
definition ETHTYPE_IP :: u16 where [simp]: "ETHTYPE_IP = 0x0800"
definition ARP_REQUEST :: u16 where [simp]: "ARP_REQUEST = 1"
definition ARP_REPLY :: u16 where [simp]: "ARP_REPLY = 2"
definition SIZEOF_ETH_HDR :: nat where [simp]: "SIZEOF_ETH_HDR = 14"
definition SIZEOF_ETHARP_HDR :: nat where [simp]: "SIZEOF_ETHARP_HDR = 42"
definition ethbroadcast :: "u8 list" where [simp]: "ethbroadcast = [0xff, 0xff, 0xff, 0xff, 0xff, 0xff]"
definition ethzero :: "u8 list" where [simp]: "ethzero = [0, 0, 0, 0, 0, 0]"

record ('c, 'h) arp_env =
  linkoutput :: "nat \<Rightarrow> loc \<Rightarrow> ('c, 'h) net \<Rightarrow> (int \<times> ('c, 'h) net) option"
  dhcp_arp_reply :: "nat \<Rightarrow> u32 \<Rightarrow> ('c, 'h) net \<Rightarrow> ('c, 'h) net option"

definition arp_upd :: "nat \<Rightarrow> (etharp_entry \<Rightarrow> etharp_entry) \<Rightarrow> ('c, 'h) net \<Rightarrow> ('c, 'h) net" where
  "arp_upd i f s = s\<lparr>arp_table := (arp_table s)(i := f (arp_table s i))\<rparr>"

definition q_release :: "nat \<Rightarrow> ('c, 'h) net \<Rightarrow> ('c, 'h) net" where
  "q_release r s = (let l = n_lwip s in s\<lparr>n_lwip := l\<lparr>l_memp := memp_free MEMP_ARP_QUEUE (Some r) (l_memp l)\<rparr>\<rparr>)"

section \<open>Ageing\<close>

partial_function (option) free_etharp_q :: "nat option \<Rightarrow> ('c, 'h) net \<Rightarrow> ('c, 'h) net option" where
  "free_etharp_q q s =
     (case q of
        None \<Rightarrow> Some s
      | Some r \<Rightarrow> do {
          let q = q_next (n_q s r);
          s \<leftarrow> net_free (q_p (n_q s r)) s;
          free_etharp_q q (q_release r s)
        })"

definition tmr_entry :: "nat \<Rightarrow> ('c, 'h) net \<Rightarrow> ('c, 'h) net option" where
  "tmr_entry i s =
     (let s = arp_upd i (\<lambda>e. e\<lparr>arp_ctime := arp_ctime e + 1\<rparr>) s; e = arp_table s i in
      if (arp_state e = ETHARP_STATE_STABLE \<and> arp_ctime e \<ge> ARP_MAXAGE) \<or>
         (arp_state e = ETHARP_STATE_PENDING \<and> arp_ctime e \<ge> ARP_MAXPENDING)
      then do {
        s \<leftarrow> (if arp_q e \<noteq> None then do {
                s \<leftarrow> free_etharp_q (arp_q e) s;
                Some (arp_upd i (\<lambda>e. e\<lparr>arp_q := None\<rparr>) s)
              } else Some s);
        Some (arp_upd i (\<lambda>e. e\<lparr>arp_state := ETHARP_STATE_EMPTY\<rparr>) s)
      }
      else Some s)"

definition etharp_tmr :: "('c, 'h) net \<Rightarrow> ('c, 'h) net option" where
  "etharp_tmr s = fold (\<lambda>i r. Option.bind r (tmr_entry i)) [0..<ARP_TABLE_SIZE] (Some s)"

section \<open>Finding an entry\<close>

text \<open>The candidates that the search remembers; \<open>ARP_TABLE_SIZE\<close> means none.\<close>

record cand =
  c_empty :: nat
  old_pending :: nat
  age_pending :: u8
  old_stable :: nat
  age_stable :: u8
  old_queue :: nat
  age_queue :: u8

fun find_loop :: "(nat \<Rightarrow> etharp_entry) \<Rightarrow> u32 option \<Rightarrow> nat list \<Rightarrow> cand \<Rightarrow> nat + cand" where
  "find_loop t ipaddr [] c = Inr c"
| "find_loop t ipaddr (i # is) c =
     (let e = t i in
      if c_empty c = ARP_TABLE_SIZE \<and> arp_state e = ETHARP_STATE_EMPTY then find_loop t ipaddr is (c\<lparr>c_empty := i\<rparr>)
      else if arp_state e = ETHARP_STATE_PENDING then
        (if ipaddr = Some (arp_ip e) then Inl i
         else if arp_q e \<noteq> None then
           find_loop t ipaddr is (if arp_ctime e \<ge> age_queue c then c\<lparr>old_queue := i, age_queue := arp_ctime e\<rparr> else c)
         else
           find_loop t ipaddr is (if arp_ctime e \<ge> age_pending c then c\<lparr>old_pending := i, age_pending := arp_ctime e\<rparr> else c))
      else if arp_state e = ETHARP_STATE_STABLE then
        (if ipaddr = Some (arp_ip e) then Inl i
         else find_loop t ipaddr is (if arp_ctime e \<ge> age_stable c then c\<lparr>old_stable := i, age_stable := arp_ctime e\<rparr> else c))
      else find_loop t ipaddr is c)"

definition no_cand :: cand where
  "no_cand = \<lparr>c_empty = ARP_TABLE_SIZE, old_pending = ARP_TABLE_SIZE, age_pending = 0, old_stable = ARP_TABLE_SIZE, age_stable = 0,
     old_queue = ARP_TABLE_SIZE, age_queue = 0\<rparr>"

text \<open>The choice among the candidates: an empty entry, the oldest stable one, the oldest pending one without and
  then with queued packets.\<close>

definition recycle :: "cand \<Rightarrow> nat option" where
  "recycle c =
     (if c_empty c < ARP_TABLE_SIZE then Some (c_empty c)
      else if old_stable c < ARP_TABLE_SIZE then Some (old_stable c)
      else if old_pending c < ARP_TABLE_SIZE then Some (old_pending c)
      else if old_queue c < ARP_TABLE_SIZE then Some (old_queue c)
      else None)"

definition drop_queue :: "nat \<Rightarrow> ('c, 'h) net \<Rightarrow> ('c, 'h) net option" where
  "drop_queue i s = do {
     s \<leftarrow> free_etharp_q (arp_q (arp_table s i)) s;
     Some (arp_upd i (\<lambda>e. e\<lparr>arp_q := None\<rparr>) s)
   }"

definition find_entry :: "u32 option \<Rightarrow> u8 \<Rightarrow> ('c, 'h) net \<Rightarrow> (int \<times> ('c, 'h) net) option" where
  "find_entry ipaddr flags s =
     (let e = arp_table s (etharp_cached_entry s) in
      if ipaddr \<noteq> None \<and> arp_state e = ETHARP_STATE_STABLE \<and> ipaddr = Some (arp_ip e) then Some (int (etharp_cached_entry s), s)
      else
        (case find_loop (arp_table s) ipaddr [0..<ARP_TABLE_SIZE] no_cand of
           Inl i \<Rightarrow> Some (int i, s\<lparr>etharp_cached_entry := i\<rparr>)
         | Inr c \<Rightarrow>
             if (c_empty c = ARP_TABLE_SIZE \<and> flags AND ETHARP_TRY_HARD = 0) \<or> flags AND ETHARP_FIND_ONLY \<noteq> 0
             then Some (ERR_MEM, s)
             else
               (case recycle c of
                  None \<Rightarrow> Some (ERR_MEM, s)
                | Some i \<Rightarrow> do {
                    s \<leftarrow> (if c_empty c = ARP_TABLE_SIZE \<and> old_stable c = ARP_TABLE_SIZE \<and> old_pending c = ARP_TABLE_SIZE
                           then drop_queue i s else Some s);
                    let s = arp_upd i (\<lambda>e. e\<lparr>arp_state := ETHARP_STATE_EMPTY\<rparr>) s;
                    let s = (case ipaddr of None \<Rightarrow> s | Some a \<Rightarrow> arp_upd i (\<lambda>e. e\<lparr>arp_ip := a\<rparr>) s);
                    let s = arp_upd i (\<lambda>e. e\<lparr>arp_ctime := 0\<rparr>) s;
                    Some (int i, s\<lparr>etharp_cached_entry := i\<rparr>)
                  })))"

section \<open>Updating the table\<close>

definition etharp_send_ip :: "('c, 'h) arp_env \<Rightarrow> nat \<Rightarrow> loc \<Rightarrow> u8 list \<Rightarrow> u8 list \<Rightarrow> ('c, 'h) net \<Rightarrow> (int \<times> ('c, 'h) net) option" where
  "etharp_send_ip E netif p src dst s = do {
     ethhdr \<leftarrow> p_payload (pb (n_lwip s) p);
     linkoutput E netif p
       (put_bytes (\<lambda>m. put_be16 (loc_add ethhdr 12) ETHTYPE_IP (put_hw (loc_add ethhdr 6) src (put_hw ethhdr dst m))) s)
   }"

text \<open>The queued packets of an entry are sent and freed.\<close>

partial_function (option) send_queue :: "('c, 'h) arp_env \<Rightarrow> nat \<Rightarrow> nat \<Rightarrow> u8 list \<Rightarrow> ('c, 'h) net \<Rightarrow> ('c, 'h) net option" where
  "send_queue E i netif ethaddr s =
     (case arp_q (arp_table s i) of
        None \<Rightarrow> Some s
      | Some q \<Rightarrow> do {
          let p = q_p (n_q s q);
          let s = arp_upd i (\<lambda>e. e\<lparr>arp_q := q_next (n_q s q)\<rparr>) s;
          (err, s) \<leftarrow> etharp_send_ip E netif p (if_hwaddr (n_netif s netif)) ethaddr (q_release q s);
          s \<leftarrow> net_free p s;
          send_queue E i netif ethaddr s
        })"

definition non_unicast :: "nat \<Rightarrow> u32 \<Rightarrow> ('c, 'h) net \<Rightarrow> bool" where
  "non_unicast netif ipaddr s \<longleftrightarrow>
     ip_addr_isany ipaddr \<or> ip_addr_isbroadcast ipaddr (n_netif s netif) \<or> ip_addr_ismulticast ipaddr"

definition update_arp_entry :: "('c, 'h) arp_env \<Rightarrow> nat \<Rightarrow> u32 \<Rightarrow> u8 list \<Rightarrow> u8 \<Rightarrow> ('c, 'h) net \<Rightarrow> (int \<times> ('c, 'h) net) option" where
  "update_arp_entry E netif ipaddr ethaddr flags s =
     (if non_unicast netif ipaddr s then Some (ERR_ARG, s)
      else do {
        (i, s) \<leftarrow> find_entry (Some ipaddr) flags s;
        if i < 0 then Some (i, s)
        else do {
          let s = arp_upd (nat i) (\<lambda>e. e\<lparr>arp_state := ETHARP_STATE_STABLE, arp_netif := Some netif, arp_eth := ethaddr, arp_ctime := 0\<rparr>) s;
          s \<leftarrow> send_queue E (nat i) netif ethaddr s;
          Some (ERR_OK, s)
        }
      })"

definition etharp_find_addr :: "u32 option \<Rightarrow> ('c, 'h) net \<Rightarrow> ((int \<times> u8 list \<times> u32) option \<times> ('c, 'h) net) option" where
  "etharp_find_addr ipaddr s = do {
     (i, s) \<leftarrow> find_entry ipaddr ETHARP_FIND_ONLY s;
     let e = arp_table s (nat i);
     Some (if 0 \<le> i \<and> arp_state e = ETHARP_STATE_STABLE then Some (i, arp_eth e, arp_ip e) else None, s)
   }"

definition etharp_ip_input :: "('c, 'h) arp_env \<Rightarrow> nat \<Rightarrow> loc \<Rightarrow> ('c, 'h) net \<Rightarrow> ('c, 'h) net option" where
  "etharp_ip_input E netif p s = do {
     hdr \<leftarrow> p_payload (pb (n_lwip s) p);
     let m = l_bytes (n_lwip s);
     let src = get_addr m (loc_add hdr 26);
     if \<not> ip_addr_netcmp src (if_ip (n_netif s netif)) (if_netmask (n_netif s netif)) then Some s
     else do {
       (err, s) \<leftarrow> update_arp_entry E netif src (get_hw m (loc_add hdr 6)) 0 s;
       Some s
     }
   }"

section \<open>ARP packets\<close>

text \<open>The reply, in the buffer of the request.\<close>

definition arp_reply :: "loc \<Rightarrow> u32 \<Rightarrow> u8 list \<Rightarrow> (loc \<Rightarrow> u8) \<Rightarrow> loc \<Rightarrow> u8" where
  "arp_reply hdr ip ethaddr m =
     (let sip = get_addr m (loc_add hdr 28); shw = get_hw m (loc_add hdr 22);
          m = put_be16 (loc_add hdr 20) ARP_REPLY m;
          m = put_addr (loc_add hdr 38) sip m;
          m = put_addr (loc_add hdr 28) ip m;
          m = put_hw (loc_add hdr 32) shw m;
          m = put_hw hdr shw m;
          m = put_hw (loc_add hdr 22) ethaddr m
      in put_hw (loc_add hdr 6) ethaddr m)"

text \<open>The reaction to a message.\<close>

definition arp_act :: "('c, 'h) arp_env \<Rightarrow> nat \<Rightarrow> u8 list \<Rightarrow> loc \<Rightarrow> loc \<Rightarrow> u32 \<Rightarrow> bool \<Rightarrow> ('c, 'h) net \<Rightarrow> ('c, 'h) net option" where
  "arp_act E netif ethaddr p hdr sipaddr for_us s =
     (let opcode = get_be16 (l_bytes (n_lwip s)) (loc_add hdr 20) in
      if opcode = ARP_REQUEST then
        (if for_us then map_option snd (linkoutput E netif p (put_bytes (arp_reply hdr (if_ip (n_netif s netif)) ethaddr) s))
         else Some s)
      else if opcode = ARP_REPLY then dhcp_arp_reply E netif sipaddr s
      else Some s)"

definition etharp_arp_input :: "('c, 'h) arp_env \<Rightarrow> nat \<Rightarrow> u8 list \<Rightarrow> loc \<Rightarrow> ('c, 'h) net \<Rightarrow> ('c, 'h) net option" where
  "etharp_arp_input E netif ethaddr p s =
     (if unat (p_len (pb (n_lwip s) p)) < SIZEOF_ETHARP_HDR then net_free p s
      else do {
        hdr \<leftarrow> p_payload (pb (n_lwip s) p);
        let m = l_bytes (n_lwip s);
        if get_be16 m (loc_add hdr 14) \<noteq> HWTYPE_ETHERNET \<or> get_be16 m (loc_add hdr 18) \<noteq> 0x0604 \<or>
           get_be16 m (loc_add hdr 16) \<noteq> ETHTYPE_IP \<or> get_be16 m (loc_add hdr 12) \<noteq> ETHTYPE_ARP
        then net_free p s
        else do {
          let sipaddr = get_addr m (loc_add hdr 28);
          let dipaddr = get_addr m (loc_add hdr 38);
          let own = if_ip (n_netif s netif);
          let for_us = (own \<noteq> 0 \<and> dipaddr = own);
          (err, s) \<leftarrow> update_arp_entry E netif sipaddr (get_hw m (loc_add hdr 22)) (if for_us then ETHARP_TRY_HARD else 0) s;
          s \<leftarrow> arp_act E netif ethaddr p hdr sipaddr for_us s;
          net_free p s
        }
      })"

definition arp_packet :: "loc \<Rightarrow> u8 list \<Rightarrow> u8 list \<Rightarrow> u8 list \<Rightarrow> u32 \<Rightarrow> u8 list \<Rightarrow> u32 \<Rightarrow> u16 \<Rightarrow> (loc \<Rightarrow> u8) \<Rightarrow> loc \<Rightarrow> u8" where
  "arp_packet hdr ethsrc ethdst hwsrc ipsrc hwdst ipdst opcode m =
     (let m = put_be16 (loc_add hdr 20) opcode m;
          m = put_hw (loc_add hdr 22) hwsrc m;
          m = put_hw (loc_add hdr 32) hwdst m;
          m = put_hw hdr ethdst m;
          m = put_hw (loc_add hdr 6) ethsrc m;
          m = put_addr (loc_add hdr 28) ipsrc m;
          m = put_addr (loc_add hdr 38) ipdst m;
          m = put_be16 (loc_add hdr 14) HWTYPE_ETHERNET m;
          m = put_be16 (loc_add hdr 16) ETHTYPE_IP m;
          m = put_be16 (loc_add hdr 18) 0x0604 m
      in put_be16 (loc_add hdr 12) ETHTYPE_ARP m)"

definition etharp_raw :: "('c, 'h) arp_env \<Rightarrow> nat \<Rightarrow> u8 list \<Rightarrow> u8 list \<Rightarrow> u8 list \<Rightarrow> u32 \<Rightarrow> u8 list \<Rightarrow> u32 \<Rightarrow> u16 \<Rightarrow> ('c, 'h) net \<Rightarrow>
    (int \<times> ('c, 'h) net) option" where
  "etharp_raw E netif ethsrc ethdst hwsrc ipsrc hwdst ipdst opcode s = do {
     (p, s) \<leftarrow> on_lwip (pbuf_alloc PBUF_RAW (of_nat SIZEOF_ETHARP_HDR) PBUF_RAM) s;
     case p of
       None \<Rightarrow> Some (ERR_MEM, s)
     | Some p \<Rightarrow> do {
         hdr \<leftarrow> p_payload (pb (n_lwip s) p);
         (result, s) \<leftarrow> linkoutput E netif p (put_bytes (arp_packet hdr ethsrc ethdst hwsrc ipsrc hwdst ipdst opcode) s);
         s \<leftarrow> net_free p s;
         Some (result, s)
       }
   }"

definition etharp_request :: "('c, 'h) arp_env \<Rightarrow> nat \<Rightarrow> u32 \<Rightarrow> ('c, 'h) net \<Rightarrow> (int \<times> ('c, 'h) net) option" where
  "etharp_request E netif ipaddr s =
     (let n = n_netif s netif
      in etharp_raw E netif (if_hwaddr n) ethbroadcast (if_hwaddr n) (if_ip n) ethzero ipaddr ARP_REQUEST s)"

definition etharp_gratuitous :: "('c, 'h) arp_env \<Rightarrow> nat \<Rightarrow> ('c, 'h) net \<Rightarrow> (int \<times> ('c, 'h) net) option" where
  "etharp_gratuitous E netif s = etharp_request E netif (if_ip (n_netif s netif)) s"

section \<open>Sending\<close>

text \<open>The first buffer of a packet that is not in read-only memory.\<close>

partial_function (option) first_non_rom :: "lwip \<Rightarrow> loc option \<Rightarrow> loc option option" where
  "first_non_rom l p =
     (case p of
        None \<Rightarrow> Some None
      | Some a \<Rightarrow> if p_type (pb l a) \<noteq> PBUF_ROM then Some (Some a) else first_non_rom l (p_next (pb l a)))"

text \<open>The packet to queue: the given one with another reference, or a copy.\<close>

definition take_over :: "loc \<Rightarrow> ('c, 'h) net \<Rightarrow> (loc option \<times> ('c, 'h) net) option" where
  "take_over q s = do {
     c \<leftarrow> first_non_rom (n_lwip s) (Some q);
     case c of
       None \<Rightarrow> Some (Some q, s\<lparr>n_lwip := pbuf_ref (Some q) (n_lwip s)\<rparr>)
     | Some a \<Rightarrow> do {
         (p, s) \<leftarrow> on_lwip (pbuf_alloc PBUF_RAW (p_tot_len (pb (n_lwip s) a)) PBUF_RAM) s;
         case p of
           None \<Rightarrow> Some (None, s)
         | Some p \<Rightarrow> do {
             (err, s) \<leftarrow> on_lwip (pbuf_copy (Some p) (Some q)) s;
             if err \<noteq> ERR_OK then do { s \<leftarrow> net_free p s; Some (None, s) } else Some (Some p, s)
           }
       }
   }"

partial_function (option) q_last :: "(nat \<Rightarrow> etharp_q_entry) \<Rightarrow> nat \<Rightarrow> nat option" where
  "q_last n r = (case q_next (n r) of None \<Rightarrow> Some r | Some r' \<Rightarrow> q_last n r')"

definition enqueue :: "nat \<Rightarrow> loc \<Rightarrow> ('c, 'h) net \<Rightarrow> (bool \<times> ('c, 'h) net) option" where
  "enqueue i p s =
     (let l = n_lwip s in
      case memp_malloc MEMP_ARP_QUEUE (l_memp l) of
        (None, mp) \<Rightarrow> do { s \<leftarrow> net_free p (s\<lparr>n_lwip := l\<lparr>l_memp := mp\<rparr>\<rparr>); Some (False, s) }
      | (Some a, mp) \<Rightarrow> do {
          let s = s\<lparr>n_lwip := l\<lparr>l_memp := mp\<rparr>, n_q := (n_q s)(a := \<lparr>q_next = None, q_p = p\<rparr>)\<rparr>;
          case arp_q (arp_table s i) of
            None \<Rightarrow> Some (True, arp_upd i (\<lambda>e. e\<lparr>arp_q := Some a\<rparr>) s)
          | Some r \<Rightarrow> do {
              r \<leftarrow> q_last (n_q s) r;
              Some (True, s\<lparr>n_q := (n_q s)(r := (n_q s r)\<lparr>q_next := Some a\<rparr>)\<rparr>)
            }
        })"

text \<open>The packet of a query: sent to a stable entry, queued on a pending one.\<close>

definition query_packet :: "('c, 'h) arp_env \<Rightarrow> nat \<Rightarrow> nat \<Rightarrow> int \<Rightarrow> loc \<Rightarrow> ('c, 'h) net \<Rightarrow> (int \<times> ('c, 'h) net) option" where
  "query_packet E netif i result q s =
     (if arp_state (arp_table s i) = ETHARP_STATE_STABLE
      then etharp_send_ip E netif q (if_hwaddr (n_netif s netif)) (arp_eth (arp_table s i)) s
      else if arp_state (arp_table s i) = ETHARP_STATE_PENDING then do {
        (p, s) \<leftarrow> take_over q s;
        case p of
          None \<Rightarrow> Some (result, s)
        | Some p \<Rightarrow> do { (ok, s) \<leftarrow> enqueue i p s; Some (if ok then ERR_OK else result, s) }
      }
      else Some (result, s))"

definition etharp_query :: "('c, 'h) arp_env \<Rightarrow> nat \<Rightarrow> u32 \<Rightarrow> loc option \<Rightarrow> ('c, 'h) net \<Rightarrow> (int \<times> ('c, 'h) net) option" where
  "etharp_query E netif ipaddr q s =
     (if non_unicast netif ipaddr s then Some (ERR_ARG, s)
      else do {
        (i, s) \<leftarrow> find_entry (Some ipaddr) ETHARP_TRY_HARD s;
        if i < 0 then Some (i, s)
        else do {
          let i = nat i;
          let s = (if arp_state (arp_table s i) = ETHARP_STATE_EMPTY
                   then arp_upd i (\<lambda>e. e\<lparr>arp_state := ETHARP_STATE_PENDING\<rparr>) s else s);
          (result, s) \<leftarrow> (if arp_state (arp_table s i) = ETHARP_STATE_PENDING \<or> q = None
                          then etharp_request E netif ipaddr s else Some (ERR_MEM, s));
          case q of None \<Rightarrow> Some (result, s) | Some q \<Rightarrow> query_packet E netif i result q s
        }
      })"

definition etharp_output :: "('c, 'h) arp_env \<Rightarrow> nat \<Rightarrow> loc \<Rightarrow> u32 \<Rightarrow> ('c, 'h) net \<Rightarrow> (int \<times> ('c, 'h) net) option" where
  "etharp_output E netif q ipaddr s = do {
     (full, s) \<leftarrow> on_lwip (pbuf_header (Some q) (int SIZEOF_ETH_HDR)) s;
     if full \<noteq> 0 then Some (ERR_BUF, s)
     else
       let n = n_netif s netif in
       if ip_addr_isbroadcast ipaddr n then etharp_send_ip E netif q (if_hwaddr n) ethbroadcast s
       else if ip_addr_ismulticast ipaddr then
         etharp_send_ip E netif q (if_hwaddr n)
           [0x01, 0x00, 0x5e, byte_of ipaddr 1 AND 0x7f, byte_of ipaddr 2, byte_of ipaddr 3] s
       else if \<not> ip_addr_netcmp ipaddr (if_ip n) (if_netmask n) then
         (if if_gw n \<noteq> 0 then etharp_query E netif (if_gw n) (Some q) s else Some (ERR_RTE, s))
       else etharp_query E netif ipaddr (Some q) s
   }"

section \<open>Received frames\<close>

definition ethernet_input :: "('c, 'h) arp_env \<Rightarrow> (loc \<Rightarrow> nat \<Rightarrow> ('c, 'h) net \<Rightarrow> ('c, 'h) net option) \<Rightarrow> loc \<Rightarrow> nat \<Rightarrow> ('c, 'h) net \<Rightarrow>
    (int \<times> ('c, 'h) net) option" where
  "ethernet_input E ip_in p netif s = do {
     ethhdr \<leftarrow> p_payload (pb (n_lwip s) p);
     let ty = get_be16 (l_bytes (n_lwip s)) (loc_add ethhdr 12);
     s \<leftarrow> (if ty = ETHTYPE_IP then do {
             s \<leftarrow> etharp_ip_input E netif p s;
             (err, s) \<leftarrow> on_lwip (pbuf_header (Some p) (- int SIZEOF_ETH_HDR)) s;
             if err \<noteq> 0 then net_free p s else ip_in p netif s
           }
           else if ty = ETHTYPE_ARP then etharp_arp_input E netif (if_hwaddr (n_netif s netif)) p s
           else net_free p s);
     Some (ERR_OK, s)
   }"

section \<open>Interfaces that send\<close>

text \<open>Bringing an Ethernet interface up announces its address.\<close>

definition netif_set_up :: "('c, 'h) arp_env \<Rightarrow> nat \<Rightarrow> ('c, 'h) net \<Rightarrow> ('c, 'h) net option" where
  "netif_set_up E i s =
     (if (if_flags (n_netif s i) AND NETIF_FLAG_UP) = 0 then
        let s = if_upd i (\<lambda>n. n\<lparr>if_flags := if_flags n OR NETIF_FLAG_UP\<rparr>) s
        in if (if_flags (n_netif s i) AND NETIF_FLAG_ETHARP) \<noteq> 0 then map_option snd (etharp_gratuitous E i s) else Some s
      else Some s)"

section \<open>The search for an entry\<close>

definition matches :: "(nat \<Rightarrow> etharp_entry) \<Rightarrow> u32 option \<Rightarrow> nat \<Rightarrow> bool" where
  "matches t a i \<longleftrightarrow> arp_state (t i) \<noteq> ETHARP_STATE_EMPTY \<and> a = Some (arp_ip (t i))"

definition note_cand :: "(nat \<Rightarrow> etharp_entry) \<Rightarrow> nat \<Rightarrow> cand \<Rightarrow> cand" where
  "note_cand t i c =
     (case arp_state (t i) of
        ETHARP_STATE_EMPTY \<Rightarrow> if c_empty c = ARP_TABLE_SIZE then c\<lparr>c_empty := i\<rparr> else c
      | ETHARP_STATE_PENDING \<Rightarrow>
          if arp_q (t i) \<noteq> None
          then (if arp_ctime (t i) \<ge> age_queue c then c\<lparr>old_queue := i, age_queue := arp_ctime (t i)\<rparr> else c)
          else (if arp_ctime (t i) \<ge> age_pending c then c\<lparr>old_pending := i, age_pending := arp_ctime (t i)\<rparr> else c)
      | ETHARP_STATE_STABLE \<Rightarrow>
          if arp_ctime (t i) \<ge> age_stable c then c\<lparr>old_stable := i, age_stable := arp_ctime (t i)\<rparr> else c)"

text \<open>The sweep is a search for the first match, and a collection of candidates when there is none.\<close>

lemma find_loop_step: "find_loop t a (i # is) c = (if matches t a i then Inl i else find_loop t a is (note_cand t i c))"
  by (cases "arp_state (t i)") (simp_all add: matches_def note_cand_def Let_def)

lemma find_loop_eq:
  "find_loop t a is c = (case find (matches t a) is of Some i \<Rightarrow> Inl i | None \<Rightarrow> Inr (fold (note_cand t) is c))"
  by (induction "is" arbitrary: c) (simp_all add: find_loop_step del: find_loop.simps(2) split: option.split)

lemma find_loop_match: "find_loop t a is c = Inl i \<Longrightarrow> i \<in> set is \<and> matches t a i"
  by (auto simp: find_loop_eq find_Some_iff split: option.splits)

lemma find_loop_no_match: "find_loop t a is c = Inr c' \<Longrightarrow> (\<forall>i \<in> set is. \<not> matches t a i) \<and> c' = fold (note_cand t) is c"
  by (auto simp: find_loop_eq find_None_iff split: option.splits)

text \<open>The oldest of the entries with a property.\<close>

definition oldest :: "(nat \<Rightarrow> bool) \<Rightarrow> (nat \<Rightarrow> u8) \<Rightarrow> nat list \<Rightarrow> nat \<times> u8 \<Rightarrow> nat \<times> u8" where
  "oldest Q age is = fold (\<lambda>i (b, a). if Q i \<and> a \<le> age i then (i, age i) else (b, a)) is"

lemma oldest_Nil [simp]: "oldest Q age [] x = x"
  by (simp add: oldest_def)

lemma oldest_snoc: "oldest Q age (is @ [i]) x =
  (case oldest Q age is x of (b, a) \<Rightarrow> if Q i \<and> a \<le> age i then (i, age i) else (b, a))"
  by (simp add: oldest_def)

lemma oldest_ok:
  assumes "oldest Q age is (b0, 0) = (b, a)"
  shows "(\<forall>j \<in> set is. Q j \<longrightarrow> age j \<le> a) \<and>
    (if \<exists>j \<in> set is. Q j then b \<in> set is \<and> Q b \<and> a = age b else b = b0)"
  using assms
proof (induction "is" arbitrary: b a rule: rev_induct)
  case (snoc i "is")
  obtain b' a' where o: "oldest Q age is (b0, 0) = (b', a')" by fastforce
  have s: "(b, a) = (if Q i \<and> a' \<le> age i then (i, age i) else (b', a'))" using snoc.prems by (simp add: oldest_snoc o)
  note IH = snoc.IH [OF o]
  show ?case
  proof (cases "Q i \<and> a' \<le> age i")
    case True
    then show ?thesis using s IH by (auto intro: order_trans)
  next
    case False
    moreover have "a' = 0" if "\<not> (\<exists>j \<in> set is. Q j)" using o that
      by (induction "is" arbitrary: b' a' rule: rev_induct) (auto simp: oldest_snoc split: prod.splits if_splits)
    ultimately show ?thesis using s IH by (cases "\<exists>j \<in> set is. Q j") auto
  qed
qed simp

text \<open>What the candidates are.\<close>

lemma fold_note_stable:
  "(old_stable (fold (note_cand t) is c), age_stable (fold (note_cand t) is c)) =
     oldest (\<lambda>i. arp_state (t i) = ETHARP_STATE_STABLE) (\<lambda>i. arp_ctime (t i)) is (old_stable c, age_stable c)"
  by (induction "is" rule: rev_induct) (auto simp: oldest_snoc note_cand_def split: etharp_state.splits prod.splits)

lemma fold_note_pending:
  "(old_pending (fold (note_cand t) is c), age_pending (fold (note_cand t) is c)) =
     oldest (\<lambda>i. arp_state (t i) = ETHARP_STATE_PENDING \<and> arp_q (t i) = None) (\<lambda>i. arp_ctime (t i)) is (old_pending c, age_pending c)"
  by (induction "is" rule: rev_induct) (auto simp: oldest_snoc note_cand_def split: etharp_state.splits prod.splits)

lemma fold_note_queue:
  "(old_queue (fold (note_cand t) is c), age_queue (fold (note_cand t) is c)) =
     oldest (\<lambda>i. arp_state (t i) = ETHARP_STATE_PENDING \<and> arp_q (t i) \<noteq> None) (\<lambda>i. arp_ctime (t i)) is (old_queue c, age_queue c)"
  by (induction "is" rule: rev_induct) (auto simp: oldest_snoc note_cand_def split: etharp_state.splits prod.splits)

lemma fold_note_empty:
  assumes "\<forall>i \<in> set is. i < ARP_TABLE_SIZE" "c_empty c = ARP_TABLE_SIZE"
  shows "c_empty (fold (note_cand t) is c) =
    (case find (\<lambda>i. arp_state (t i) = ETHARP_STATE_EMPTY) is of Some i \<Rightarrow> i | None \<Rightarrow> ARP_TABLE_SIZE)"
proof -
  have keep: "c_empty (fold (note_cand t) is c) = c_empty c" if "c_empty c < ARP_TABLE_SIZE" for "is" c
    using that by (induction "is" rule: rev_induct) (auto simp: note_cand_def split: etharp_state.splits)
  show ?thesis using assms
  proof (induction "is" arbitrary: c)
    case (Cons i "is")
    show ?case
    proof (cases "arp_state (t i)")
      case ETHARP_STATE_EMPTY
      then have "note_cand t i c = c\<lparr>c_empty := i\<rparr>" using Cons.prems by (simp add: note_cand_def)
      then show ?thesis using keep [of "c\<lparr>c_empty := i\<rparr>" "is"] Cons.prems ETHARP_STATE_EMPTY by simp
    next
      case ETHARP_STATE_PENDING
      then have "c_empty (note_cand t i c) = ARP_TABLE_SIZE" using Cons.prems by (simp add: note_cand_def)
      then show ?thesis using Cons ETHARP_STATE_PENDING by simp
    next
      case ETHARP_STATE_STABLE
      then have "c_empty (note_cand t i c) = ARP_TABLE_SIZE" using Cons.prems by (simp add: note_cand_def)
      then show ?thesis using Cons ETHARP_STATE_STABLE by simp
    qed
  qed simp
qed

text \<open>Which entry may be given up: an empty one before a stable one, before one that waits for an answer, before
  one on which packets wait; among empty entries the first, among others an oldest.\<close>

definition arp_rank :: "etharp_entry \<Rightarrow> nat" where
  "arp_rank e =
     (case arp_state e of ETHARP_STATE_EMPTY \<Rightarrow> 0 | ETHARP_STATE_STABLE \<Rightarrow> 1
      | ETHARP_STATE_PENDING \<Rightarrow> if arp_q e = None then 2 else 3)"

definition victim :: "(nat \<Rightarrow> etharp_entry) \<Rightarrow> nat \<Rightarrow> bool" where
  "victim t i \<longleftrightarrow> i < ARP_TABLE_SIZE \<and>
     (\<forall>j < ARP_TABLE_SIZE. arp_rank (t i) < arp_rank (t j) \<or>
        arp_rank (t i) = arp_rank (t j) \<and> (if arp_rank (t i) = 0 then i \<le> j else arp_ctime (t j) \<le> arp_ctime (t i)))"

lemma arp_rank_cases:
  "arp_rank e = 0 \<longleftrightarrow> arp_state e = ETHARP_STATE_EMPTY"
  "arp_rank e = 1 \<longleftrightarrow> arp_state e = ETHARP_STATE_STABLE"
  "arp_rank e = 2 \<longleftrightarrow> arp_state e = ETHARP_STATE_PENDING \<and> arp_q e = None"
  "arp_rank e = 3 \<longleftrightarrow> arp_state e = ETHARP_STATE_PENDING \<and> arp_q e \<noteq> None"
  "arp_rank e \<in> {0, 1, 2, 3}"
  by (auto simp: arp_rank_def split: etharp_state.splits)


lemma recycle_victim: "\<exists>i. recycle (fold (note_cand t) [0..<ARP_TABLE_SIZE] no_cand) = Some i \<and> victim t i"
proof -
  define c where "c = fold (note_cand t) [0..<ARP_TABLE_SIZE] no_cand"
  let ?has = "\<lambda>k. \<exists>j < ARP_TABLE_SIZE. arp_rank (t j) = k"
  have best: "(if ?has k then b < ARP_TABLE_SIZE \<and> arp_rank (t b) = k \<and> (\<forall>j < ARP_TABLE_SIZE. arp_rank (t j) = k \<longrightarrow> arp_ctime (t j) \<le> arp_ctime (t b))
       else b = ARP_TABLE_SIZE)"
    if "(b, a) = oldest (\<lambda>i. arp_rank (t i) = k) (\<lambda>i. arp_ctime (t i)) [0..<ARP_TABLE_SIZE] (ARP_TABLE_SIZE, 0)" for k b a
    using oldest_ok [OF that [symmetric]] unfolding set_upt atLeast0LessThan Ball_def Bex_def lessThan_iff by (auto split: if_splits)
  have st: "(old_stable c, age_stable c) = oldest (\<lambda>i. arp_rank (t i) = 1) (\<lambda>i. arp_ctime (t i)) [0..<ARP_TABLE_SIZE] (ARP_TABLE_SIZE, 0)"
    unfolding c_def fold_note_stable arp_rank_cases by (simp add: no_cand_def)
  have pe: "(old_pending c, age_pending c) = oldest (\<lambda>i. arp_rank (t i) = 2) (\<lambda>i. arp_ctime (t i)) [0..<ARP_TABLE_SIZE] (ARP_TABLE_SIZE, 0)"
    unfolding c_def fold_note_pending arp_rank_cases by (simp add: no_cand_def)
  have qu: "(old_queue c, age_queue c) = oldest (\<lambda>i. arp_rank (t i) = 3) (\<lambda>i. arp_ctime (t i)) [0..<ARP_TABLE_SIZE] (ARP_TABLE_SIZE, 0)"
    unfolding c_def fold_note_queue arp_rank_cases by (simp add: no_cand_def)
  have em: "c_empty c = (case find (\<lambda>i. arp_rank (t i) = 0) [0..<ARP_TABLE_SIZE] of Some i \<Rightarrow> i | None \<Rightarrow> ARP_TABLE_SIZE)"
    unfolding c_def arp_rank_cases by (rule fold_note_empty) (simp_all add: no_cand_def)
  have low: "\<forall>j < ARP_TABLE_SIZE. k \<le> arp_rank (t j)" if "\<forall>l < k. \<not> ?has l" for k using that not_less by blast
  have vic: "victim t b" if "\<forall>l < k. \<not> ?has l" "?has k" "k \<noteq> 0"
      "(b, a) = oldest (\<lambda>i. arp_rank (t i) = k) (\<lambda>i. arp_ctime (t i)) [0..<ARP_TABLE_SIZE] (ARP_TABLE_SIZE, 0)" for k b a
  proof -
    have b: "b < ARP_TABLE_SIZE" "arp_rank (t b) = k" and age: "j < ARP_TABLE_SIZE \<Longrightarrow> arp_rank (t j) = k \<Longrightarrow> arp_ctime (t j) \<le> arp_ctime (t b)" for j
      using best [OF that(4)] unfolding if_P [OF that(2)] by blast+
    have "k < arp_rank (t j) \<or> k = arp_rank (t j) \<and> arp_ctime (t j) \<le> arp_ctime (t b)" if "j < ARP_TABLE_SIZE" for j
      using low [OF \<open>\<forall>l < k. _\<close>, rule_format, OF that] age [OF that] by (metis le_neq_implies_less)
    then show ?thesis using b that(3) unfolding victim_def by simp
  qed
  have sel: "(b < ARP_TABLE_SIZE) = ?has k"
    if "(b, a) = oldest (\<lambda>i. arp_rank (t i) = k) (\<lambda>i. arp_ctime (t i)) [0..<ARP_TABLE_SIZE] (ARP_TABLE_SIZE, 0)" for k b a
    using best [OF that] by (auto split: if_splits)
  have sel0: "(c_empty c < ARP_TABLE_SIZE) = ?has 0"
    unfolding em by (auto simp: find_None_iff find_Some_iff split: option.splits)
  have vic0: "victim t (c_empty c)" if has0: "?has 0"
  proof -
    obtain i where i: "find (\<lambda>i. arp_rank (t i) = 0) [0..<ARP_TABLE_SIZE] = Some i"
      using has0 by (cases "find (\<lambda>i. arp_rank (t i) = 0) [0..<ARP_TABLE_SIZE]") (auto simp: find_None_iff)
    then have "i < ARP_TABLE_SIZE" "arp_rank (t i) = 0" "\<forall>j < i. arp_rank (t j) \<noteq> 0"
      unfolding find_Some_iff by (auto simp del: upt_rec_numeral)
    then show ?thesis unfolding em i victim_def by (auto simp: not_less [symmetric])
  qed
  have "?has 0 \<or> ?has 1 \<or> ?has 2 \<or> ?has 3" using arp_rank_cases(5) [of "t 0"] by (auto intro: exI [of _ 0])
  then consider "?has 0" | "\<not> ?has 0" "?has 1" | "\<not> ?has 0" "\<not> ?has 1" "?has 2" | "\<not> ?has 0" "\<not> ?has 1" "\<not> ?has 2" "?has 3" by blast
  then show ?thesis
  proof cases
    case 1
    then show ?thesis unfolding c_def [symmetric] recycle_def using sel0 vic0 by simp
  next
    case 2
    then have "\<forall>l < 1. \<not> ?has l" by simp
    from vic [OF this 2(2) _ st] have "victim t (old_stable c)" by simp
    then show ?thesis unfolding c_def [symmetric] recycle_def sel0 sel [OF st] if_not_P [OF 2(1)] if_P [OF 2(2)] by blast
  next
    case 3
    then have "\<forall>l < 2. \<not> ?has l" by (simp add: less_2_cases_iff)
    from vic [OF this 3(3) _ pe] have "victim t (old_pending c)" by simp
    then show ?thesis
      unfolding c_def [symmetric] recycle_def sel0 sel [OF st] sel [OF pe] if_not_P [OF 3(1)] if_not_P [OF 3(2)] if_P [OF 3(3)] by blast
  next
    case 4
    then have "\<forall>l < 3. \<not> ?has l" by (simp add: numeral_3_eq_3 less_Suc_eq numeral_2_eq_2)
    from vic [OF this 4(4) _ qu] have "victim t (old_queue c)" by simp
    then show ?thesis
      unfolding c_def [symmetric] recycle_def sel0 sel [OF st] sel [OF pe] sel [OF qu] if_not_P [OF 4(1)] if_not_P [OF 4(2)] if_not_P [OF 4(3)]
        if_P [OF 4(4)] by blast
  qed
qed

lemma no_empty_cand:
  "(c_empty (fold (note_cand t) [0..<ARP_TABLE_SIZE] no_cand) = ARP_TABLE_SIZE) = (\<forall>i < ARP_TABLE_SIZE. arp_state (t i) \<noteq> ETHARP_STATE_EMPTY)"
  by (subst fold_note_empty) (auto simp: no_cand_def find_None_iff find_Some_iff simp del: upt_rec_numeral split: option.splits)

section \<open>What the operations leave alone\<close>

definition arp_same :: "('c, 'h) net \<Rightarrow> ('c, 'h) net \<Rightarrow> bool" where
  "arp_same s s' \<longleftrightarrow> arp_table s' = arp_table s \<and> etharp_cached_entry s' = etharp_cached_entry s"

lemma arp_same_refl [simp]: "arp_same s s"
  by (simp add: arp_same_def)

lemma arp_same_trans: "arp_same s s' \<Longrightarrow> arp_same s' s'' \<Longrightarrow> arp_same s s''"
  by (simp add: arp_same_def)

lemma arp_same_upd [simp]:
  "arp_same s (s\<lparr>n_lwip := l\<rparr>)" "arp_same s (s\<lparr>n_q := q\<rparr>)" "arp_same s (put_bytes f s)" "arp_same s (q_release r s)"
  by (simp_all add: arp_same_def put_bytes_def q_release_def Let_def)

lemma on_lwip_same: "on_lwip f s = Some (x, s') \<Longrightarrow> arp_same s s'"
  by (auto simp: on_lwip_def)

lemma net_free_same: "net_free p s = Some s' \<Longrightarrow> arp_same s s'"
  by (auto simp: net_free_def dest: on_lwip_same)

lemma free_etharp_q_same: "free_etharp_q q s = Some s' \<Longrightarrow> arp_same s s'"
proof (induction rule: free_etharp_q.raw_induct [rotated, consumes 1])
  case (1 free q s s')
  show ?case
  proof (cases q)
    case (Some r)
    then obtain s1 where "net_free (q_p (n_q s r)) s = Some s1" "free (q_next (n_q s r)) (q_release r s1) = Some s'"
      using 1(2) unfolding Some option.case Let_def bind_eq_Some_conv by blast
    then show ?thesis using arp_same_trans [OF arp_same_trans [OF net_free_same arp_same_upd(4)] 1(1)] by blast
  qed (use 1(2) in simp)
qed

section \<open>The invariant of the table\<close>

text \<open>Packets wait on pending entries only, ages are below their limits, an address has one entry, and the index of
  the last entry found is one of the table.\<close>

definition entry_ok :: "etharp_entry \<Rightarrow> bool" where
  "entry_ok e \<longleftrightarrow> (arp_q e \<noteq> None \<longrightarrow> arp_state e = ETHARP_STATE_PENDING) \<and>
     (arp_state e = ETHARP_STATE_STABLE \<longrightarrow> arp_ctime e < ARP_MAXAGE) \<and>
     (arp_state e = ETHARP_STATE_PENDING \<longrightarrow> arp_ctime e < ARP_MAXPENDING)"

definition table_ok :: "(nat \<Rightarrow> etharp_entry) \<Rightarrow> bool" where
  "table_ok t \<longleftrightarrow> (\<forall>i < ARP_TABLE_SIZE. entry_ok (t i)) \<and>
     (\<forall>i < ARP_TABLE_SIZE. \<forall>j < ARP_TABLE_SIZE. i \<noteq> j \<longrightarrow> arp_state (t i) \<noteq> ETHARP_STATE_EMPTY \<longrightarrow>
        arp_state (t j) \<noteq> ETHARP_STATE_EMPTY \<longrightarrow> arp_ip (t i) \<noteq> arp_ip (t j))"

definition arp_ok :: "('c, 'h) net \<Rightarrow> bool" where
  "arp_ok s \<longleftrightarrow> table_ok (arp_table s) \<and> etharp_cached_entry s < ARP_TABLE_SIZE"

lemma arp_ok_same: "arp_same s s' \<Longrightarrow> arp_ok s \<Longrightarrow> arp_ok s'"
  by (simp add: arp_same_def arp_ok_def)

text \<open>An entry that is made anew.\<close>

definition fresh_entry :: "u32 option \<Rightarrow> etharp_entry \<Rightarrow> etharp_entry" where
  "fresh_entry a e = e\<lparr>arp_q := None, arp_state := ETHARP_STATE_EMPTY, arp_ip := (case a of None \<Rightarrow> arp_ip e | Some a \<Rightarrow> a), arp_ctime := 0\<rparr>"

lemma fresh_entry_sel [simp]:
  "arp_state (fresh_entry a e) = ETHARP_STATE_EMPTY" "arp_ctime (fresh_entry a e) = 0" "arp_q (fresh_entry a e) = None"
  "arp_ip (fresh_entry (Some x) e) = x"
  by (simp_all add: fresh_entry_def)

lemma cand_set:
  assumes "c = fold (note_cand t) [0..<ARP_TABLE_SIZE] no_cand"
    and "\<not> (c_empty c = ARP_TABLE_SIZE \<and> old_stable c = ARP_TABLE_SIZE \<and> old_pending c = ARP_TABLE_SIZE)"
  shows "\<exists>j < ARP_TABLE_SIZE. arp_rank (t j) < 3"
proof -
  have init: "old_stable no_cand = ARP_TABLE_SIZE" "age_stable no_cand = 0" "old_pending no_cand = ARP_TABLE_SIZE" "age_pending no_cand = 0"
    by (simp_all add: no_cand_def)
  consider "c_empty c \<noteq> ARP_TABLE_SIZE" | "old_stable c \<noteq> ARP_TABLE_SIZE" | "old_pending c \<noteq> ARP_TABLE_SIZE" using assms(2) by blast
  then show ?thesis
  proof cases
    case 1
    then have "\<exists>j < ARP_TABLE_SIZE. arp_state (t j) = ETHARP_STATE_EMPTY" unfolding assms(1) no_empty_cand by blast
    then show ?thesis by (auto simp: arp_rank_def)
  next
    case 2
    then have "\<exists>j \<in> set [0..<ARP_TABLE_SIZE]. arp_state (t j) = ETHARP_STATE_STABLE"
      using oldest_ok [OF fold_note_stable [of t "[0..<ARP_TABLE_SIZE]" no_cand, unfolded init, symmetric]] assms(1) by (auto split: if_splits)
    then show ?thesis by (auto simp: arp_rank_def)
  next
    case 3
    then have "\<exists>j \<in> set [0..<ARP_TABLE_SIZE]. arp_state (t j) = ETHARP_STATE_PENDING \<and> arp_q (t j) = None"
      using oldest_ok [OF fold_note_pending [of t "[0..<ARP_TABLE_SIZE]" no_cand, unfolded init, symmetric]] assms(1) by (auto split: if_splits)
    then show ?thesis by (auto simp: arp_rank_def)
  qed
qed

text \<open>A victim on which no packets wait.\<close>

lemma victim_no_queue:
  assumes "table_ok t" "victim t i" "\<exists>j < ARP_TABLE_SIZE. arp_rank (t j) < 3"
  shows "arp_q (t i) = None"
proof -
  have "entry_ok (t i)" using assms(1,2) by (simp add: table_ok_def victim_def)
  moreover have "arp_rank (t i) \<noteq> 3" using assms(2,3) by (force simp: victim_def)
  ultimately show ?thesis using arp_rank_cases(4) [of "t i"] by (auto simp: entry_ok_def)
qed

text \<open>A search in a table with the invariant: the matching entry, an error, or a new entry in the place of one that
  may be given up.\<close>

lemma find_entry_cases:
  assumes f: "find_entry a flags s = Some (r, s')" and ok: "arp_ok s"
  obtains (found) i where "i < ARP_TABLE_SIZE" "matches (arp_table s) a i" "r = int i" "arp_table s' = arp_table s" "etharp_cached_entry s' = i"
  | (error) "\<forall>i < ARP_TABLE_SIZE. \<not> matches (arp_table s) a i" "r = ERR_MEM" "s' = s"
      "flags AND ETHARP_FIND_ONLY \<noteq> 0 \<or>
       flags AND ETHARP_TRY_HARD = 0 \<and> (\<forall>i < ARP_TABLE_SIZE. arp_state (arp_table s i) \<noteq> ETHARP_STATE_EMPTY)"
  | (new) i where "\<forall>j < ARP_TABLE_SIZE. \<not> matches (arp_table s) a j" "victim (arp_table s) i" "r = int i" "etharp_cached_entry s' = i"
      "arp_table s' = (arp_table s)(i := fresh_entry a (arp_table s i))" "flags AND ETHARP_FIND_ONLY = 0"
      "flags AND ETHARP_TRY_HARD \<noteq> 0 \<or> arp_state (arp_table s i) = ETHARP_STATE_EMPTY"
proof -
  let ?t = "arp_table s" and ?k = "etharp_cached_entry s"
  let ?l = "find_loop ?t a [0..<ARP_TABLE_SIZE] no_cand"
  consider (hit) "a \<noteq> None \<and> arp_state (?t ?k) = ETHARP_STATE_STABLE \<and> a = Some (arp_ip (?t ?k))"
    | (loop) "\<not> (a \<noteq> None \<and> arp_state (?t ?k) = ETHARP_STATE_STABLE \<and> a = Some (arp_ip (?t ?k)))" by blast
  then show thesis
  proof cases
    case hit
    then have "r = int ?k" "s' = s" using f [unfolded find_entry_def Let_def if_P [OF hit]] by auto
    then show thesis using hit ok by (intro found [of ?k]) (simp_all add: matches_def arp_ok_def)
  next
    case loop
    note f = f [unfolded find_entry_def Let_def if_not_P [OF loop]]
    show thesis
    proof (cases ?l)
      case (Inl i)
      then show thesis using f [unfolded Inl sum.case] find_loop_match [OF Inl] by (intro found [of i]) auto
    next
      case (Inr c)
      have none: "\<forall>i < ARP_TABLE_SIZE. \<not> matches ?t a i" and c: "c = fold (note_cand ?t) [0..<ARP_TABLE_SIZE] no_cand"
        using find_loop_no_match [OF Inr] by simp_all
      obtain i where i: "recycle c = Some i" "victim ?t i" using recycle_victim [of ?t] c by blast
      show thesis
      proof (cases "(c_empty c = ARP_TABLE_SIZE \<and> flags AND ETHARP_TRY_HARD = 0) \<or> flags AND ETHARP_FIND_ONLY \<noteq> 0")
        case True
        have "r = ERR_MEM" "s' = s" using f [unfolded Inr sum.case if_P [OF True]] by simp_all
        then show thesis using none True no_empty_cand [of ?t] unfolding c [symmetric] by (intro error) blast+
      next
        case False
        let ?D = "c_empty c = ARP_TABLE_SIZE \<and> old_stable c = ARP_TABLE_SIZE \<and> old_pending c = ARP_TABLE_SIZE"
        obtain s1 where s1: "(if ?D then drop_queue i s else Some s) = Some s1" and r: "r = int i" and k: "etharp_cached_entry s' = i"
          and t: "arp_table s' = (arp_table s1)(i := (arp_table s1 i)\<lparr>arp_state := ETHARP_STATE_EMPTY,
                    arp_ip := (case a of None \<Rightarrow> arp_ip (arp_table s1 i) | Some a \<Rightarrow> a), arp_ctime := 0\<rparr>)"
          using f [unfolded Inr sum.case if_not_P [OF False] i(1) option.case Let_def bind_eq_Some_conv]
          by (cases a) (auto simp: arp_upd_def)
        have "arp_table s1 = ?t(i := (?t i)\<lparr>arp_q := None\<rparr>)"
        proof (cases ?D)
          case True
          then obtain s0 where s0: "free_etharp_q (arp_q (?t i)) s = Some s0" "s1 = arp_upd i (\<lambda>e. e\<lparr>arp_q := None\<rparr>) s0"
            using s1 by (auto simp: drop_queue_def bind_eq_Some_conv)
          have "arp_table s0 = ?t" using free_etharp_q_same [OF s0(1)] by (simp add: arp_same_def)
          then show ?thesis using s0(2) by (simp add: arp_upd_def)
        next
          case False
          have "s1 = s" using s1 unfolding if_not_P [OF False] by simp
          moreover have "arp_q (?t i) = None" using victim_no_queue [OF _ i(2) cand_set [OF c False]] ok by (simp add: arp_ok_def)
          ultimately show ?thesis by (simp add: fun_upd_idem)
        qed
        then have "arp_table s' = ?t(i := fresh_entry a (?t i))" using t by (simp add: fresh_entry_def cong: option.case_cong)
        moreover have "flags AND ETHARP_TRY_HARD \<noteq> 0 \<or> arp_state (?t i) = ETHARP_STATE_EMPTY"
          using False no_empty_cand [of ?t] i(2) arp_rank_cases(1) unfolding c [symmetric] victim_def by (metis gr0I not_less0)
        ultimately show thesis using none i(2) r k False by (intro new [of i]) blast+
      qed
    qed
  qed
qed

lemma table_ok_upd:
  assumes "table_ok t" "entry_ok e"
    and "arp_state e \<noteq> ETHARP_STATE_EMPTY \<Longrightarrow> \<forall>j < ARP_TABLE_SIZE. j \<noteq> i \<longrightarrow> arp_state (t j) \<noteq> ETHARP_STATE_EMPTY \<longrightarrow> arp_ip (t j) \<noteq> arp_ip e"
  shows "table_ok (t(i := e))"
  using assms unfolding table_ok_def by (simp add: eq_commute)

text \<open>The entry \<open>i\<close> is the only one for the address.\<close>

definition sole :: "(nat \<Rightarrow> etharp_entry) \<Rightarrow> nat \<Rightarrow> u32 \<Rightarrow> bool" where
  "sole t i a \<longleftrightarrow> i < ARP_TABLE_SIZE \<and> arp_ip (t i) = a \<and>
     (\<forall>j < ARP_TABLE_SIZE. j \<noteq> i \<longrightarrow> arp_state (t j) \<noteq> ETHARP_STATE_EMPTY \<longrightarrow> arp_ip (t j) \<noteq> a)"

lemma table_ok_sole:
  "table_ok t \<Longrightarrow> sole t i a \<Longrightarrow> entry_ok e \<Longrightarrow> arp_ip e = a \<Longrightarrow> table_ok (t(i := e))"
  by (rule table_ok_upd) (simp_all add: sole_def)

lemma find_entry_post:
  assumes "find_entry (Some a) flags s = Some (r, s')" "arp_ok s"
  shows "arp_ok s' \<and> (r = ERR_MEM \<or>
    0 \<le> r \<and> sole (arp_table s') (nat r) a \<and> etharp_cached_entry s' = nat r \<and>
    (arp_state (arp_table s' (nat r)) = ETHARP_STATE_EMPTY \<longrightarrow>
       arp_ctime (arp_table s' (nat r)) = 0 \<and> arp_q (arp_table s' (nat r)) = None))"
  using assms(1,2)
proof (cases rule: find_entry_cases)
  case (found i)
  then have "arp_ok s'" using assms(2) by (simp add: arp_ok_def)
  moreover have "sole (arp_table s) i a" using found assms(2) by (auto simp: sole_def matches_def arp_ok_def table_ok_def)
  moreover have "arp_state (arp_table s i) \<noteq> ETHARP_STATE_EMPTY" using found by (simp add: matches_def)
  ultimately show ?thesis using found by simp
next
  case (new i)
  have t: "table_ok (arp_table s)" "i < ARP_TABLE_SIZE" using assms(2) new by (simp_all add: arp_ok_def victim_def)
  have "table_ok (arp_table s')" unfolding new(5) by (rule table_ok_upd [OF t(1)]) (simp_all add: entry_ok_def)
  moreover have "sole (arp_table s') i a" using new t by (auto simp: sole_def matches_def)
  ultimately show ?thesis using new t by (simp add: arp_ok_def)
qed (use assms in simp)

section \<open>Operations that keep the invariant\<close>

text \<open>One tick of the timer on one entry.\<close>

definition expired :: "etharp_entry \<Rightarrow> bool" where
  "expired e \<longleftrightarrow> (arp_state e = ETHARP_STATE_STABLE \<and> arp_ctime e \<ge> ARP_MAXAGE) \<or>
     (arp_state e = ETHARP_STATE_PENDING \<and> arp_ctime e \<ge> ARP_MAXPENDING)"

definition aged :: "etharp_entry \<Rightarrow> etharp_entry" where
  "aged e = (let e = e\<lparr>arp_ctime := arp_ctime e + 1\<rparr> in if expired e then e\<lparr>arp_q := None, arp_state := ETHARP_STATE_EMPTY\<rparr> else e)"

lemma tmr_entry_table:
  assumes "tmr_entry i s = Some s'"
  shows "arp_table s' = (arp_table s)(i := aged (arp_table s i)) \<and> etharp_cached_entry s' = etharp_cached_entry s"
proof -
  let ?e = "(arp_table s i)\<lparr>arp_ctime := arp_ctime (arp_table s i) + 1\<rparr>"
  define s1 where "s1 = arp_upd i (\<lambda>e. e\<lparr>arp_ctime := arp_ctime e + 1\<rparr>) s"
  have s1: "arp_table s1 = (arp_table s)(i := ?e)" "arp_table s1 i = ?e" "etharp_cached_entry s1 = etharp_cached_entry s"
    by (simp_all add: s1_def arp_upd_def)
  note t = assms [unfolded tmr_entry_def Let_def, folded s1_def, unfolded s1(2), folded expired_def]
  show ?thesis
  proof (cases "expired ?e")
    case True
    obtain s2 where s2: "(if arp_q ?e \<noteq> None then do {
          s \<leftarrow> free_etharp_q (arp_q ?e) s1; Some (arp_upd i (\<lambda>e. e\<lparr>arp_q := None\<rparr>) s) } else Some s1) = Some s2"
      "s' = arp_upd i (\<lambda>e. e\<lparr>arp_state := ETHARP_STATE_EMPTY\<rparr>) s2"
      using t [unfolded if_P [OF True] bind_eq_Some_conv] by blast
    have "arp_table s2 = (arp_table s1)(i := ?e\<lparr>arp_q := None\<rparr>) \<and> etharp_cached_entry s2 = etharp_cached_entry s1"
    proof (cases "arp_q ?e = None")
      case True
      then show ?thesis using s2(1) s1 by (auto simp: fun_upd_idem)
    next
      case False
      then obtain s3 where s3: "free_etharp_q (arp_q ?e) s1 = Some s3" "s2 = arp_upd i (\<lambda>e. e\<lparr>arp_q := None\<rparr>) s3"
        using s2(1) unfolding if_P [OF False] bind_eq_Some_conv by blast
      then show ?thesis using free_etharp_q_same [OF s3(1)] s1(2) by (simp add: arp_same_def arp_upd_def)
    qed
    then show ?thesis using s2(2) s1 True by (simp add: arp_upd_def aged_def)
  next
    case False
    then show ?thesis using t s1 by (simp add: aged_def)
  qed
qed

lemma tmr_fold:
  assumes "fold (\<lambda>i r. Option.bind r (tmr_entry i)) is (Some s) = Some s'" "distinct is"
  shows "etharp_cached_entry s' = etharp_cached_entry s \<and> arp_table s' = (\<lambda>i. if i \<in> set is then aged (arp_table s i) else arp_table s i)"
  using assms
proof (induction "is" arbitrary: s' rule: rev_induct)
  case (snoc i "is")
  then obtain s1 where "fold (\<lambda>i r. Option.bind r (tmr_entry i)) is (Some s) = Some s1" "tmr_entry i s1 = Some s'"
    by (auto simp: bind_eq_Some_conv)
  then show ?case using snoc.IH snoc.prems(2) tmr_entry_table by fastforce
qed simp

lemma etharp_tmr_table:
  assumes "etharp_tmr s = Some s'"
  shows "etharp_cached_entry s' = etharp_cached_entry s"
    "arp_table s' = (\<lambda>i. if i < ARP_TABLE_SIZE then aged (arp_table s i) else arp_table s i)"
  using tmr_fold [OF assms [unfolded etharp_tmr_def]] by (simp_all add: atLeast0LessThan)

lemma aged_ok:
  assumes "entry_ok e"
  shows "entry_ok (aged e)" "arp_ip (aged e) = arp_ip e" "arp_state (aged e) \<noteq> ETHARP_STATE_EMPTY \<Longrightarrow> arp_state e \<noteq> ETHARP_STATE_EMPTY"
  using assms by (auto simp: aged_def Let_def entry_ok_def expired_def not_le)

lemma etharp_tmr_ok:
  assumes "etharp_tmr s = Some s'" "arp_ok s"
  shows "arp_ok s'"
  using assms(2) unfolding arp_ok_def table_ok_def etharp_tmr_table [OF assms(1)] by (simp add: aged_ok)

text \<open>With no packet waiting the timer always comes to its end.\<close>

lemma etharp_tmr_total:
  assumes "\<forall>i < ARP_TABLE_SIZE. arp_q (arp_table s i) = None"
  shows "\<exists>s'. etharp_tmr s = Some s' \<and> (\<forall>i < ARP_TABLE_SIZE. arp_q (arp_table s' i) = None)"
proof -
  have step: "\<exists>s'. tmr_entry i s = Some s'" if "arp_q (arp_table s i) = None" for i and s :: "('a, 'b) net"
    using that by (simp add: tmr_entry_def Let_def arp_upd_def)
  have q: "arp_q (aged e) = None" if "arp_q e = None" for e using that by (simp add: aged_def Let_def)
  have "\<exists>s'. fold (\<lambda>i r. Option.bind r (tmr_entry i)) is (Some s) = Some s'" if "distinct is" "set is \<subseteq> {..<ARP_TABLE_SIZE}" for "is"
    using that
  proof (induction "is" rule: rev_induct)
    case (snoc i "is")
    then obtain s1 where s1: "fold (\<lambda>i r. Option.bind r (tmr_entry i)) is (Some s) = Some s1" by auto
    then have "arp_q (arp_table s1 i) = None" using tmr_fold [OF s1] snoc.prems assms q by auto
    then show ?case using s1 step by simp
  qed simp
  from this [of "[0..<ARP_TABLE_SIZE]"] obtain s' where s': "etharp_tmr s = Some s'" unfolding etharp_tmr_def by (auto simp: atLeast0LessThan)
  then show ?thesis using etharp_tmr_table(2) [OF s'] assms q by auto
qed

lemma take_over_same: "take_over q s = Some (p, s') \<Longrightarrow> arp_same s s'"
  by (auto simp: take_over_def bind_eq_Some_conv split: option.splits prod.splits if_splits
      dest!: on_lwip_same net_free_same) (blast intro: arp_same_trans)+

lemma enqueue_ok:
  assumes "enqueue i p s = Some (b, s')" "arp_ok s" "i < ARP_TABLE_SIZE" "arp_state (arp_table s i) = ETHARP_STATE_PENDING"
  shows "arp_ok s'"
proof -
  have "arp_same s s' \<or> (\<exists>a. arp_table s' = (arp_table s)(i := (arp_table s i)\<lparr>arp_q := a\<rparr>) \<and> etharp_cached_entry s' = etharp_cached_entry s)"
    using assms(1) unfolding enqueue_def Let_def
    by (auto simp: bind_eq_Some_conv arp_upd_def arp_same_def split: prod.splits option.splits dest!: net_free_same)
  then show ?thesis
  proof
    assume "\<exists>a. arp_table s' = (arp_table s)(i := (arp_table s i)\<lparr>arp_q := a\<rparr>) \<and> etharp_cached_entry s' = etharp_cached_entry s"
    then obtain a where a: "arp_table s' = (arp_table s)(i := (arp_table s i)\<lparr>arp_q := a\<rparr>)" "etharp_cached_entry s' = etharp_cached_entry s" by blast
    have "table_ok (arp_table s)" "sole (arp_table s) i (arp_ip (arp_table s i))" "entry_ok ((arp_table s i)\<lparr>arp_q := a\<rparr>)"
      using assms(2-4) by (auto simp: arp_ok_def table_ok_def sole_def entry_ok_def)
    from table_ok_sole [OF this] show ?thesis using a assms(2) by (simp add: arp_ok_def)
  qed (use assms(2) arp_ok_same in blast)
qed

section \<open>Frames in and out\<close>

lemma etharp_find_addr_ok: "etharp_find_addr (Some a) s = Some (r, s') \<Longrightarrow> arp_ok s \<Longrightarrow> arp_ok s'"
  by (auto simp: etharp_find_addr_def bind_eq_Some_conv Let_def dest!: find_entry_post)

text \<open>The table is private to the module: everything else that happens is an operation of it or leaves it alone.\<close>

inductive arp_op :: "('c, 'h) arp_env \<Rightarrow> ('c, 'h) net \<Rightarrow> ('c, 'h) net \<Rightarrow> bool" for E where
  op_tmr: "etharp_tmr s = Some s' \<Longrightarrow> arp_op E s s'"
| op_query: "etharp_query E netif a q s = Some (err, s') \<Longrightarrow> arp_op E s s'"
| op_output: "etharp_output E netif p a s = Some (err, s') \<Longrightarrow> arp_op E s s'"
| op_find_addr: "etharp_find_addr (Some a) s = Some (r, s') \<Longrightarrow> arp_op E s s'"
| op_other: "arp_same s s' \<Longrightarrow> arp_op E s s'"

text \<open>The driver's output function does not touch the table.\<close>

locale arp_link =
  fixes E :: "('c, 'h) arp_env"
  assumes link_same: "linkoutput E netif p s = Some (err, s') \<Longrightarrow> arp_same s s'"
begin

lemma etharp_send_ip_same: "etharp_send_ip E netif p src dst s = Some (err, s') \<Longrightarrow> arp_same s s'"
  by (auto simp: etharp_send_ip_def bind_eq_Some_conv dest!: link_same intro: arp_same_trans [OF arp_same_upd(3)])

lemma etharp_raw_same:
  assumes "etharp_raw E netif ethsrc ethdst hwsrc ipsrc hwdst ipdst opcode s = Some (err, s')"
  shows "arp_same s s'"
  using assms unfolding etharp_raw_def
  by (auto simp: bind_eq_Some_conv split: option.splits dest!: on_lwip_same link_same net_free_same)
    (meson arp_same_trans arp_same_upd(3))

lemma etharp_request_same: "etharp_request E netif a s = Some (err, s') \<Longrightarrow> arp_same s s'"
  by (auto simp: etharp_request_def Let_def dest: etharp_raw_same)

text \<open>Sending the packets of an entry empties its queue.\<close>

lemma send_queue_step:
  assumes "send_queue E' i netif hw s = Some s'" "E' = E"
  shows "arp_table s' = (arp_table s)(i := (arp_table s i)\<lparr>arp_q := None\<rparr>) \<and> etharp_cached_entry s' = etharp_cached_entry s"
  using assms
proof (induction rule: send_queue.raw_induct [rotated, consumes 1])
  case (1 send E' i netif hw s s')
  show ?case
  proof (cases "arp_q (arp_table s i)")
    case None
    then show ?thesis using 1(2) by (auto simp: fun_upd_idem)
  next
    case (Some q)
    define s1 where "s1 = q_release q (arp_upd i (\<lambda>e. e\<lparr>arp_q := q_next (n_q s q)\<rparr>) s)"
    have t1: "arp_table s1 = (arp_table s)(i := (arp_table s i)\<lparr>arp_q := q_next (n_q s q)\<rparr>)" "etharp_cached_entry s1 = etharp_cached_entry s"
      by (simp_all add: s1_def q_release_def arp_upd_def Let_def)
    obtain err s2 s3 where s: "etharp_send_ip E' netif (q_p (n_q s q)) (if_hwaddr (n_netif s netif)) hw s1 = Some (err, s2)"
      "net_free (q_p (n_q s q)) s2 = Some s3" "send E' i netif hw s3 = Some s'"
      using 1(2) unfolding Some option.case Let_def bind_eq_Some_conv s1_def [symmetric] by (auto simp: arp_upd_def bind_eq_Some_conv)
    have "arp_same s1 s3" by (rule arp_same_trans [OF etharp_send_ip_same net_free_same [OF s(2)]]) (use s(1) 1(3) in simp)
    then show ?thesis using 1(1) [OF s(3) 1(3)] t1 by (auto simp: arp_same_def fun_eq_iff)
  qed
qed

lemmas send_queue_table = send_queue_step [OF _ refl]

lemma update_arp_entry_post:
  assumes u: "update_arp_entry E netif a hw flags s = Some (err, s')" and ok: "arp_ok s"
  shows "arp_ok s' \<and> (err = ERR_OK \<longrightarrow> (let i = etharp_cached_entry s' in i < ARP_TABLE_SIZE \<and>
    arp_table s' i = (arp_table s' i)\<lparr>arp_q := None, arp_ip := a, arp_state := ETHARP_STATE_STABLE, arp_netif := Some netif, arp_eth := hw, arp_ctime := 0\<rparr>))"
proof (cases "non_unicast netif a s")
  case True
  then show ?thesis using u ok by (auto simp: update_arp_entry_def)
next
  case False
  obtain i s1 where f: "find_entry (Some a) flags s = Some (i, s1)"
    and r: "(if i < 0 then Some (i, s1)
        else do {
          let s = arp_upd (nat i) (\<lambda>e. e\<lparr>arp_state := ETHARP_STATE_STABLE, arp_netif := Some netif, arp_eth := hw, arp_ctime := 0\<rparr>) s1;
          s \<leftarrow> send_queue E (nat i) netif hw s;
          Some (ERR_OK, s) }) = Some (err, s')"
    using u [unfolded update_arp_entry_def if_not_P [OF False] bind_eq_Some_conv] by auto
  note p = find_entry_post [OF f ok]
  show ?thesis
  proof (cases "i < 0")
    case True
    then show ?thesis using r p by auto
  next
    case False
    let ?e = "(arp_table s1 (nat i))\<lparr>arp_state := ETHARP_STATE_STABLE, arp_netif := Some netif, arp_eth := hw, arp_ctime := 0, arp_q := None\<rparr>"
    have t: "arp_table s' = (arp_table s1)(nat i := ?e) \<and> etharp_cached_entry s' = etharp_cached_entry s1"
      using r False by (auto simp: Let_def bind_eq_Some_conv arp_upd_def dest!: send_queue_table)
    have s: "arp_ok s1" "sole (arp_table s1) (nat i) a" "etharp_cached_entry s1 = nat i" using p False by simp_all
    have "table_ok ((arp_table s1)(nat i := ?e))"
      by (rule table_ok_sole [OF _ s(2)]) (use s in \<open>simp_all add: arp_ok_def entry_ok_def sole_def\<close>)
    then show ?thesis using t s by (simp add: arp_ok_def sole_def Let_def)
  qed
qed

lemma query_packet_ok:
  assumes "query_packet E netif i result q s = Some (err, s')" "arp_ok s" "i < ARP_TABLE_SIZE"
  shows "arp_ok s'"
proof (cases "arp_state (arp_table s i)")
  case ETHARP_STATE_STABLE
  then show ?thesis using assms etharp_send_ip_same arp_ok_same unfolding query_packet_def by (metis (no_types, lifting))
next
  case ETHARP_STATE_PENDING
  then have ne: "arp_state (arp_table s i) \<noteq> ETHARP_STATE_STABLE" by simp
  obtain p s1 where t: "take_over q s = Some (p, s1)"
    and r: "(case p of None \<Rightarrow> Some (result, s1) | Some p \<Rightarrow> do { (ok, s) \<leftarrow> enqueue i p s1; Some (if ok then ERR_OK else result, s) }) = Some (err, s')"
    using assms(1) [unfolded query_packet_def if_not_P [OF ne] if_P [OF ETHARP_STATE_PENDING] bind_eq_Some_conv] by auto
  have s1: "arp_same s s1" by (rule take_over_same [OF t])
  then have ok1: "arp_ok s1" using assms(2) arp_ok_same by blast
  have "arp_state (arp_table s1 i) = ETHARP_STATE_PENDING" using s1 ETHARP_STATE_PENDING by (simp add: arp_same_def)
  then show ?thesis using r enqueue_ok [OF _ ok1 assms(3)] ok1 by (cases p) (auto simp: bind_eq_Some_conv)
qed (use assms in \<open>simp add: query_packet_def\<close>)

lemma etharp_query_ok:
  assumes q: "etharp_query E netif a q s = Some (err, s')" and ok: "arp_ok s"
  shows "arp_ok s'"
proof (cases "non_unicast netif a s")
  case True
  then show ?thesis using q ok by (auto simp: etharp_query_def)
next
  case False
  obtain i s1 where f: "find_entry (Some a) ETHARP_TRY_HARD s = Some (i, s1)"
    using q [unfolded etharp_query_def if_not_P [OF False] bind_eq_Some_conv] by auto
  note p = find_entry_post [OF f ok]
  show ?thesis
  proof (cases "i < 0")
    case True
    then show ?thesis using q False f p by (auto simp: etharp_query_def)
  next
    case i: False
    let ?i = "nat i" and ?e = "arp_table s1 (nat i)"
    define s2 where "s2 = (if arp_state ?e = ETHARP_STATE_EMPTY then arp_upd ?i (\<lambda>e. e\<lparr>arp_state := ETHARP_STATE_PENDING\<rparr>) s1 else s1)"
    have s: "arp_ok s1" "sole (arp_table s1) ?i a" "?i < ARP_TABLE_SIZE" using p i by (simp_all add: sole_def)
    have "arp_ok s2"
    proof (cases "arp_state ?e = ETHARP_STATE_EMPTY")
      case True
      have "table_ok ((arp_table s1)(?i := ?e\<lparr>arp_state := ETHARP_STATE_PENDING\<rparr>))"
        by (rule table_ok_sole [OF _ s(2)]) (use s p i True in \<open>simp_all add: arp_ok_def entry_ok_def sole_def\<close>)
      then show ?thesis using s(1) True by (simp add: s2_def arp_ok_def arp_upd_def)
    qed (use s in \<open>simp add: s2_def\<close>)
    obtain res s3 where r: "(if arp_state (arp_table s2 ?i) = ETHARP_STATE_PENDING \<or> q = None then etharp_request E netif a s2 else Some (ERR_MEM, s2)) = Some (res, s3)"
      and c: "(case q of None \<Rightarrow> Some (res, s3) | Some q \<Rightarrow> query_packet E netif ?i res q s3) = Some (err, s')"
      using q [unfolded etharp_query_def if_not_P [OF False] f Option.bind.simps prod.case if_not_P [OF i] Let_def, folded s2_def, unfolded bind_eq_Some_conv]
      by auto
    have "arp_ok s3" using r \<open>arp_ok s2\<close> by (auto split: if_splits dest!: etharp_request_same intro: arp_ok_same)
    then show ?thesis using c query_packet_ok [OF _ _ s(3)] by (cases q) auto
  qed
qed

lemma etharp_output_ok:
  assumes "etharp_output E netif q a s = Some (err, s')" "arp_ok s"
  shows "arp_ok s'"
proof -
  obtain full s1 where h: "on_lwip (pbuf_header (Some q) (int SIZEOF_ETH_HDR)) s = Some (full, s1)"
    using assms(1) unfolding etharp_output_def bind_eq_Some_conv by auto
  have ok1: "arp_ok s1" using arp_ok_same [OF on_lwip_same [OF h] assms(2)] .
  show ?thesis using assms(1) ok1 unfolding etharp_output_def h
    by (auto simp: Let_def split: if_splits dest!: etharp_send_ip_same intro: arp_ok_same etharp_query_ok)
qed

lemma arp_op_ok: "arp_op E s s' \<Longrightarrow> arp_ok s \<Longrightarrow> arp_ok s'"
  by (induction rule: arp_op.induct) (auto intro: etharp_tmr_ok etharp_query_ok etharp_output_ok etharp_find_addr_ok arp_ok_same)

lemma arp_ops_ok: "(arp_op E)\<^sup>*\<^sup>* s s' \<Longrightarrow> arp_ok s \<Longrightarrow> arp_ok s'"
  by (induction rule: rtranclp_induct) (auto intro: arp_op_ok)

lemma etharp_ip_input_ok: "etharp_ip_input E netif p s = Some s' \<Longrightarrow> arp_ok s \<Longrightarrow> arp_ok s'"
  by (auto simp: etharp_ip_input_def bind_eq_Some_conv Let_def split: if_splits dest: update_arp_entry_post)

end

text \<open>The layers above: the reaction to a reply and the IP layer change the table by the operations only.\<close>

inductive arp_run :: "('c, 'h) arp_env \<Rightarrow> (loc \<Rightarrow> nat \<Rightarrow> ('c, 'h) net \<Rightarrow> ('c, 'h) net option) \<Rightarrow> ('c, 'h) net \<Rightarrow> bool" for E ip_in where
  run_start: "\<forall>i < ARP_TABLE_SIZE. arp_state (arp_table s i) = ETHARP_STATE_EMPTY \<and> arp_q (arp_table s i) = None \<Longrightarrow>
    etharp_cached_entry s = 0 \<Longrightarrow> arp_run E ip_in s"
| run_op: "arp_run E ip_in s \<Longrightarrow> arp_op E s s' \<Longrightarrow> arp_run E ip_in s'"
| run_frame: "arp_run E ip_in s \<Longrightarrow> ethernet_input E ip_in p netif s = Some (err, s') \<Longrightarrow> arp_run E ip_in s'"

locale arp_layers = arp_link E for E :: "('c, 'h) arp_env" +
  fixes ip_in :: "loc \<Rightarrow> nat \<Rightarrow> ('c, 'h) net \<Rightarrow> ('c, 'h) net option"
  assumes dhcp_ops: "dhcp_arp_reply E netif a s = Some s' \<Longrightarrow> (arp_op E)\<^sup>*\<^sup>* s s'"
    and ip_ops: "ip_in p netif s = Some s' \<Longrightarrow> (arp_op E)\<^sup>*\<^sup>* s s'"
begin

lemmas dhcp_ok = arp_ops_ok [OF dhcp_ops]
lemmas ip_ok = arp_ops_ok [OF ip_ops]

lemma net_free_ok: "net_free p s = Some s' \<Longrightarrow> arp_ok s \<Longrightarrow> arp_ok s'"
  by (rule arp_ok_same [OF net_free_same])

lemma reply_ok: "linkoutput E netif p (put_bytes f s) = Some (err, s') \<Longrightarrow> arp_ok s \<Longrightarrow> arp_ok s'"
  by (rule arp_ok_same [OF arp_same_trans [OF arp_same_upd(3) link_same]])

lemma arp_act_ok: "arp_act E netif hw p hdr a for_us s = Some s' \<Longrightarrow> arp_ok s \<Longrightarrow> arp_ok s'"
  by (auto simp: arp_act_def Let_def split: if_splits intro: reply_ok dhcp_ok)

lemma etharp_arp_input_ok:
  assumes "etharp_arp_input E netif hw p s = Some s'" "arp_ok s"
  shows "arp_ok s'"
  using assms unfolding etharp_arp_input_def Let_def
  by (auto simp: bind_eq_Some_conv simp del: HWTYPE_ETHERNET_def ETHTYPE_IP_def ETHTYPE_ARP_def split: if_split_asm
      dest!: update_arp_entry_post intro: net_free_ok net_free_ok [OF _ arp_act_ok])

lemma ip_frame_ok:
  assumes "etharp_ip_input E netif p s = Some s1" "on_lwip (pbuf_header (Some p) k) s1 = Some x" "arp_ok s"
    and "(case x of (err, s2) \<Rightarrow> if err \<noteq> 0 then net_free p s2 else ip_in p netif s2) = Some s'"
  shows "arp_ok s'"
proof (cases x)
  case (Pair err s2)
  have "arp_ok s2" by (rule arp_ok_same [OF on_lwip_same [OF assms(2) [unfolded Pair]] etharp_ip_input_ok [OF assms(1,3)]])
  then show ?thesis using assms(4) net_free_ok ip_ok by (auto simp: Pair split: if_splits)
qed

lemma ethernet_input_ok:
  assumes "ethernet_input E ip_in p netif s = Some (err, s')" "arp_ok s"
  shows "arp_ok s'"
proof -
  obtain l where l: "p_payload (pb (n_lwip s) p) = Some l"
    and r: "(if get_be16 (l_bytes (n_lwip s)) (loc_add l 12) = ETHTYPE_IP then do {
             s \<leftarrow> etharp_ip_input E netif p s;
             (err, s) \<leftarrow> on_lwip (pbuf_header (Some p) (- int SIZEOF_ETH_HDR)) s;
             if err \<noteq> 0 then net_free p s else ip_in p netif s
           }
           else if get_be16 (l_bytes (n_lwip s)) (loc_add l 12) = ETHTYPE_ARP then etharp_arp_input E netif (if_hwaddr (n_netif s netif)) p s
           else net_free p s) = Some s'"
    using assms(1) unfolding ethernet_input_def Let_def bind_eq_Some_conv by auto
  consider "get_be16 (l_bytes (n_lwip s)) (loc_add l 12) = ETHTYPE_IP" | "get_be16 (l_bytes (n_lwip s)) (loc_add l 12) \<noteq> ETHTYPE_IP" by blast
  then show ?thesis
  proof cases
    case 1
    show ?thesis using r [unfolded if_P [OF 1] bind_eq_Some_conv] ip_frame_ok [OF _ _ assms(2)] by blast
  next
    case 2
    show ?thesis using r [unfolded if_not_P [OF 2]] etharp_arp_input_ok [OF _ assms(2)] net_free_ok [OF _ assms(2)] by (auto split: if_splits)
  qed
qed

lemma arp_run_ok: "arp_run E ip_in s \<Longrightarrow> arp_ok s"
proof (induction rule: arp_run.induct)
  case (run_start s)
  then show ?case by (simp add: arp_ok_def table_ok_def entry_ok_def)
qed (auto intro: arp_op_ok ethernet_input_ok)

end

section \<open>Properties\<close>

text \<open>C23: Whatever the network sends and the firmware does, the ARP table keeps its invariant: an IP address has
  at most one entry, packets wait on pending entries only, a stable entry is younger than 240 ticks and a pending
  one younger than 2, and the remembered index lies in the table. The driver's output function must not touch the
  table, and the layers above must change it through the operations of the module only.\<close>

theorem arp_table_invariant:
  assumes "\<And>netif p s err s'. linkoutput E netif p s = Some (err, s') \<Longrightarrow> arp_same s s'"
    and "\<And>netif a s s'. dhcp_arp_reply E netif a s = Some s' \<Longrightarrow> (arp_op E)\<^sup>*\<^sup>* s s'"
    and "\<And>p netif s s'. ip_in p netif s = Some s' \<Longrightarrow> (arp_op E)\<^sup>*\<^sup>* s s'"
    and "arp_run E ip_in s"
  shows "arp_ok s"
  by (rule arp_layers.arp_run_ok [OF arp_layers.intro [OF arp_link.intro arp_layers_axioms.intro]]) (fact assms)+

text \<open>How many more ticks an entry has.\<close>

definition lifetime :: "etharp_entry \<Rightarrow> nat" where
  "lifetime e =
     (case arp_state e of ETHARP_STATE_EMPTY \<Rightarrow> 0 | ETHARP_STATE_STABLE \<Rightarrow> unat ARP_MAXAGE - unat (arp_ctime e)
      | ETHARP_STATE_PENDING \<Rightarrow> unat ARP_MAXPENDING - unat (arp_ctime e))"

lemma unat_Suc_u8: "unat (w :: u8) < 255 \<Longrightarrow> unat (w + 1) = Suc (unat w)"
  by (simp add: unat_word_ariths)

lemma aged_empty: "arp_state e = ETHARP_STATE_EMPTY \<Longrightarrow> arp_state (aged e) = ETHARP_STATE_EMPTY"
  by (simp add: aged_def Let_def expired_def)

lemma aged_step:
  assumes "entry_ok e"
  shows "lifetime (aged e) = lifetime e - 1" "arp_state (aged e) = (if 1 < lifetime e then arp_state e else ETHARP_STATE_EMPTY)"
    "arp_eth (aged e) = arp_eth e"
proof -
  consider "arp_state e = ETHARP_STATE_EMPTY" | "arp_state e = ETHARP_STATE_STABLE" "unat (arp_ctime e) < 240"
    | "arp_state e = ETHARP_STATE_PENDING" "unat (arp_ctime e) < 2"
    using assms by (cases "arp_state e") (auto simp: entry_ok_def word_less_nat_alt)
  then have "lifetime (aged e) = lifetime e - 1 \<and> arp_state (aged e) = (if 1 < lifetime e then arp_state e else ETHARP_STATE_EMPTY)"
  proof cases
    case 1
    then show ?thesis by (simp add: aged_empty lifetime_def)
  next
    case 2
    then show ?thesis using unat_Suc_u8 [of "arp_ctime e"]
      by (auto simp: aged_def Let_def expired_def lifetime_def word_le_nat_alt)
  next
    case 3
    then show ?thesis using unat_Suc_u8 [of "arp_ctime e"]
      by (auto simp: aged_def Let_def expired_def lifetime_def word_le_nat_alt)
  qed
  then show "lifetime (aged e) = lifetime e - 1" "arp_state (aged e) = (if 1 < lifetime e then arp_state e else ETHARP_STATE_EMPTY)" by simp_all
  show "arp_eth (aged e) = arp_eth e" by (simp add: aged_def Let_def)
qed

lemma aged_pow:
  assumes "entry_ok e"
  shows "entry_ok ((aged ^^ k) e) \<and> lifetime ((aged ^^ k) e) = lifetime e - k \<and> arp_ip ((aged ^^ k) e) = arp_ip e \<and>
    arp_eth ((aged ^^ k) e) = arp_eth e \<and>
    arp_state ((aged ^^ k) e) = (if k < lifetime e then arp_state e else ETHARP_STATE_EMPTY)"
proof (induction k)
  case 0
  have "lifetime e = 0 \<Longrightarrow> arp_state e = ETHARP_STATE_EMPTY"
    using assms by (auto simp: lifetime_def entry_ok_def word_less_nat_alt split: etharp_state.splits)
  then show ?case using assms by simp
next
  case (Suc k)
  then have "entry_ok ((aged ^^ k) e)" by simp
  then show ?case using aged_ok aged_step Suc by auto
qed

text \<open>With no packets waiting, the timer always returns, and it ends the life of an entry at the right call: a
  stable entry of age \<open>t\<close> is kept for \<open>239 - t\<close> calls and given up by the next, a pending one likewise with
  2 in place of 240; until then its addresses stay as they are.\<close>

theorem etharp_tmr_expiry:
  assumes "arp_ok s" and "\<forall>i < ARP_TABLE_SIZE. arp_q (arp_table s i) = None"
  shows "\<exists>s'. ((\<lambda>r. Option.bind r etharp_tmr) ^^ k) (Some s) = Some s' \<and>
    (\<forall>i < ARP_TABLE_SIZE. arp_ip (arp_table s' i) = arp_ip (arp_table s i) \<and> arp_eth (arp_table s' i) = arp_eth (arp_table s i) \<and>
       arp_state (arp_table s' i) = (if k < lifetime (arp_table s i) then arp_state (arp_table s i) else ETHARP_STATE_EMPTY))"
proof -
  have "\<exists>s'. ((\<lambda>r. Option.bind r etharp_tmr) ^^ k) (Some s) = Some s' \<and>
    (\<forall>i < ARP_TABLE_SIZE. arp_q (arp_table s' i) = None \<and> arp_table s' i = (aged ^^ k) (arp_table s i))"
  proof (induction k)
    case (Suc k)
    then obtain s1 where s1: "((\<lambda>r. Option.bind r etharp_tmr) ^^ k) (Some s) = Some s1"
      "\<forall>i < ARP_TABLE_SIZE. arp_q (arp_table s1 i) = None" "\<forall>i < ARP_TABLE_SIZE. arp_table s1 i = (aged ^^ k) (arp_table s i)" by blast
    obtain s2 where s2: "etharp_tmr s1 = Some s2" "\<forall>i < ARP_TABLE_SIZE. arp_q (arp_table s2 i) = None" using etharp_tmr_total [OF s1(2)] by blast
    then show ?case using s1 etharp_tmr_table(2) [OF s2(1)] by simp
  qed (use assms in simp)
  then obtain s' where s': "((\<lambda>r. Option.bind r etharp_tmr) ^^ k) (Some s) = Some s'"
    "\<And>i. i < ARP_TABLE_SIZE \<Longrightarrow> arp_table s' i = (aged ^^ k) (arp_table s i)" by blast
  moreover have "entry_ok (arp_table s i)" if "i < ARP_TABLE_SIZE" for i using assms(1) that by (simp add: arp_ok_def table_ok_def)
  ultimately show ?thesis using aged_pow by (intro exI [of _ s']) simp
qed

text \<open>Unless packets wait on every entry, no queue has to be freed.\<close>

lemma cand_clear:
  assumes "j < ARP_TABLE_SIZE" "arp_rank (t j) < 3" "c = fold (note_cand t) [0..<ARP_TABLE_SIZE] no_cand"
  shows "\<not> (c_empty c = ARP_TABLE_SIZE \<and> old_stable c = ARP_TABLE_SIZE \<and> old_pending c = ARP_TABLE_SIZE)"
proof -
  have init: "old_stable no_cand = ARP_TABLE_SIZE" "age_stable no_cand = 0" "old_pending no_cand = ARP_TABLE_SIZE" "age_pending no_cand = 0"
    by (simp_all add: no_cand_def)
  have j: "j \<in> set [0..<ARP_TABLE_SIZE]" using assms(1) by simp
  consider "arp_rank (t j) = 0" | "arp_rank (t j) = 1" | "arp_rank (t j) = 2" using arp_rank_cases(5) [of "t j"] assms(2) by auto
  then show ?thesis
  proof cases
    case 1
    then have "c_empty c \<noteq> ARP_TABLE_SIZE" unfolding assms(3) no_empty_cand arp_rank_cases using assms(1) by blast
    then show ?thesis by simp
  next
    case 2
    then have "\<exists>j \<in> set [0..<ARP_TABLE_SIZE]. arp_state (t j) = ETHARP_STATE_STABLE" unfolding arp_rank_cases using j by blast
    then have "old_stable c \<in> set [0..<ARP_TABLE_SIZE]"
      using oldest_ok [OF fold_note_stable [of t "[0..<ARP_TABLE_SIZE]" no_cand, unfolded init, symmetric]] unfolding assms(3) by presburger
    then show ?thesis by simp
  next
    case 3
    then have "\<exists>j \<in> set [0..<ARP_TABLE_SIZE]. arp_state (t j) = ETHARP_STATE_PENDING \<and> arp_q (t j) = None" unfolding arp_rank_cases using j by blast
    then have "old_pending c \<in> set [0..<ARP_TABLE_SIZE]"
      using oldest_ok [OF fold_note_pending [of t "[0..<ARP_TABLE_SIZE]" no_cand, unfolded init, symmetric]] unfolding assms(3) by presburger
    then show ?thesis by simp
  qed
qed

lemma find_entry_total:
  assumes "\<exists>j < ARP_TABLE_SIZE. arp_rank (arp_table s j) < 3"
  shows "find_entry a flags s \<noteq> None"
proof (cases "find_loop (arp_table s) a [0..<ARP_TABLE_SIZE] no_cand")
  case (Inl i)
  then show ?thesis unfolding find_entry_def Let_def Inl by simp
next
  case (Inr c)
  have c: "c = fold (note_cand (arp_table s)) [0..<ARP_TABLE_SIZE] no_cand" using find_loop_no_match [OF Inr] by simp
  obtain i where "recycle c = Some i" using recycle_victim [of "arp_table s"] c by blast
  moreover have "\<not> (c_empty c = ARP_TABLE_SIZE \<and> old_stable c = ARP_TABLE_SIZE \<and> old_pending c = ARP_TABLE_SIZE)"
    using cand_clear [OF _ _ c] assms by blast
  ultimately show ?thesis unfolding find_entry_def Let_def Inr by (auto split: option.splits)
qed

text \<open>A search of the table for an address finds the entry of that address if there is one. Otherwise it takes
  the place of the least important entry - the first empty one, else the oldest stable one, else the oldest
  pending one without and then with waiting packets - unless the flags forbid it, and leaves every other
  entry as it was. Only the last choice has packets to free; without it the search always returns.\<close>

theorem find_entry_contract:
  assumes "arp_ok s"
  shows "((\<exists>i < ARP_TABLE_SIZE. arp_rank (arp_table s i) < 3) \<longrightarrow> find_entry a flags s \<noteq> None) \<and>
    (\<forall>r s'. find_entry a flags s = Some (r, s') \<longrightarrow>
       (if \<exists>i < ARP_TABLE_SIZE. matches (arp_table s) a i
        then \<exists>i < ARP_TABLE_SIZE. matches (arp_table s) a i \<and> r = int i \<and> arp_table s' = arp_table s
        else if flags AND ETHARP_FIND_ONLY \<noteq> 0 \<or>
          flags AND ETHARP_TRY_HARD = 0 \<and> (\<forall>i < ARP_TABLE_SIZE. arp_state (arp_table s i) \<noteq> ETHARP_STATE_EMPTY)
        then r = ERR_MEM \<and> s' = s
        else \<exists>i. victim (arp_table s) i \<and> r = int i \<and> arp_table s' = (arp_table s)(i := fresh_entry a (arp_table s i))))"
proof (intro conjI impI allI)
  assume "\<exists>i < ARP_TABLE_SIZE. arp_rank (arp_table s i) < 3"
  then show "find_entry a flags s \<noteq> None" by (rule find_entry_total)
next
  fix r s'
  assume "find_entry a flags s = Some (r, s')"
  then show "if \<exists>i < ARP_TABLE_SIZE. matches (arp_table s) a i
        then \<exists>i < ARP_TABLE_SIZE. matches (arp_table s) a i \<and> r = int i \<and> arp_table s' = arp_table s
        else if flags AND ETHARP_FIND_ONLY \<noteq> 0 \<or>
          flags AND ETHARP_TRY_HARD = 0 \<and> (\<forall>i < ARP_TABLE_SIZE. arp_state (arp_table s i) \<noteq> ETHARP_STATE_EMPTY)
        then r = ERR_MEM \<and> s' = s
        else \<exists>i. victim (arp_table s) i \<and> r = int i \<and> arp_table s' = (arp_table s)(i := fresh_entry a (arp_table s i))"
    using assms
  proof (cases rule: find_entry_cases)
    case (new i)
    then show ?thesis unfolding victim_def by auto
  qed auto
qed


section \<open>Witnesses\<close>

text \<open>A table of stable entries with the addresses and ages 0 to 9 beyond a base age, and an empty one.\<close>

definition arp_net :: "'h \<Rightarrow> (nat \<Rightarrow> etharp_entry) \<Rightarrow> ('c, 'h) net" where
  "arp_net h t = \<lparr>n_lwip = lwip_a, udp_pcbs = None,
     n_pcb = (\<lambda>_. \<lparr>local_ip = 0, remote_ip = 0, u_tos = 0, u_ttl = 255, u_next = None, u_flags = 0, local_port = 0,
       remote_port = 0, recv = None, recv_arg = None\<rparr>),
     netif_list = None, netif_default = None, netifnum = 0,
     n_netif = (\<lambda>_. \<lparr>if_next = None, if_ip = 0x0301A8C0, if_netmask = 0xFFFFFF, if_gw = 0, if_dhcp_pcb = None, if_state = None,
       if_hwaddr_len = 6, if_hwaddr = [0, 0x22, 0x11, 0x22, 0x11, 0x22], if_mtu = 1500, if_flags = 0x33,
       if_name = (CHR ''s'', CHR ''t''), if_num = 0\<rparr>),
     arp_table = t, etharp_cached_entry = 0, n_q = (\<lambda>_. \<lparr>q_next = None, q_p = Ram 0\<rparr>), ip_id = 0, current_netif = None, current_header = None, raw_pcbs = None, n_raw = (\<lambda>_. no_raw),
     reassdatagrams = None, n_reass = (\<lambda>_. no_reass), ip_reass_pbufcount = 0, n_ptr = (\<lambda>_. None), n_dev = h\<rparr>"

definition arp_w :: "etharp_state \<Rightarrow> u8 \<Rightarrow> (unit, unit) net" where
  "arp_w st age = arp_net () (\<lambda>i. \<lparr>arp_q = None, arp_ip = of_nat i, arp_eth = [], arp_state = st, arp_ctime = age + of_nat i, arp_netif = None\<rparr>)"

definition env_w :: "(unit, unit) arp_env" where
  "env_w = \<lparr>linkoutput = (\<lambda>_ _ s. Some (ERR_OK, s)), dhcp_arp_reply = (\<lambda>_ _. Some)\<rparr>"

lemma arp_w_table: "arp_table (arp_w st age) i = \<lparr>arp_q = None, arp_ip = of_nat i, arp_eth = [], arp_state = st, arp_ctime = age + of_nat i, arp_netif = None\<rparr>"
  by (simp add: arp_w_def arp_net_def)

lemma arp_w_ok: "age \<le> 230 \<Longrightarrow> arp_ok (arp_w ETHARP_STATE_STABLE age)"
proof -
  assume "age \<le> 230"
  then have "age + of_nat i < 240" if "i < 10" for i using that
    by (simp add: word_less_nat_alt word_le_nat_alt unat_word_ariths unsigned_of_nat take_bit_eq_mod)
  moreover have "i = j" if "i < 10" "j < 10" "(of_nat i :: u32) = of_nat j" for i j
    using that by (simp add: word_of_nat_eq_iff take_bit_nat_eq_self)
  ultimately show ?thesis by (auto simp: arp_ok_def table_ok_def entry_ok_def arp_w_table) (simp_all add: arp_w_def arp_net_def)
qed

theorem arp_table_invariant_witness: "\<exists>s'. etharp_tmr (arp_w ETHARP_STATE_EMPTY 0) = Some s' \<and> arp_ok s'"
proof -
  let ?s = "arp_w ETHARP_STATE_EMPTY 0"
  obtain s' where s': "etharp_tmr ?s = Some s'" using etharp_tmr_total [of ?s] by (auto simp: arp_w_table)
  have "arp_run env_w (\<lambda>_ _. Some) ?s" by (rule run_start) (simp_all add: arp_w_def arp_net_def)
  then have "arp_run env_w (\<lambda>_ _. Some) s'" by (rule run_op) (rule op_tmr [OF s'])
  then show ?thesis using arp_table_invariant [of env_w "\<lambda>_ _. Some" s'] s' by (simp add: env_w_def)
qed

theorem etharp_tmr_expiry_witness:
  "\<exists>s'. ((\<lambda>r. Option.bind r etharp_tmr) ^^ 4) (Some (arp_w ETHARP_STATE_STABLE 230)) = Some s' \<and>
     arp_state (arp_table s' 5) = ETHARP_STATE_STABLE \<and> arp_state (arp_table s' 6) = ETHARP_STATE_EMPTY"
proof -
  let ?s = "arp_w ETHARP_STATE_STABLE 230"
  have "\<forall>i < ARP_TABLE_SIZE. arp_q (arp_table ?s i) = None" by (simp add: arp_w_table)
  from etharp_tmr_expiry [OF arp_w_ok this, of 4] obtain s' where s': "((\<lambda>r. Option.bind r etharp_tmr) ^^ 4) (Some ?s) = Some s'"
    "\<And>i. i < 10 \<Longrightarrow> arp_state (arp_table s' i) = (if 4 < lifetime (arp_table ?s i) then arp_state (arp_table ?s i) else ETHARP_STATE_EMPTY)"
    by auto
  then show ?thesis using s'(2) [of 5] s'(2) [of 6] by (intro exI [of _ s']) (simp add: arp_w_table lifetime_def)
qed

theorem find_entry_contract_witness:
  "\<exists>s'. find_entry (Some 99) ETHARP_TRY_HARD (arp_w ETHARP_STATE_STABLE 0) = Some (9, s') \<and>
     arp_state (arp_table s' 9) = ETHARP_STATE_EMPTY \<and> arp_ip (arp_table s' 9) = 99 \<and> arp_ip (arp_table s' 8) = 8"
proof -
  let ?s = "arp_w ETHARP_STATE_STABLE 0"
  have none: "\<not> (\<exists>i < ARP_TABLE_SIZE. matches (arp_table ?s) (Some 99) i)"
  proof -
    have "(of_nat i :: u32) \<noteq> of_nat 99" if "i < 10" for i using that by (subst word_of_nat_eq_iff) (simp add: take_bit_nat_eq_self)
    then show ?thesis by (fastforce simp: matches_def arp_w_table)
  qed
  have rank: "arp_rank (arp_table ?s i) = 1" for i by (simp add: arp_rank_def arp_w_table)
  have i9: "i = 9" if "victim (arp_table ?s) i" for i
  proof -
    have i: "i < 10" "arp_ctime (arp_table ?s 9) \<le> arp_ctime (arp_table ?s i)" using that rank by (auto simp: victim_def)
    then have "9 \<le> i" by (simp add: arp_w_table word_le_nat_alt unsigned_of_nat take_bit_nat_eq_self)
    then show ?thesis using i(1) by simp
  qed
  obtain r s' where f: "find_entry (Some 99) ETHARP_TRY_HARD ?s = Some (r, s')"
    using find_entry_contract [OF arp_w_ok, of 0 "Some 99" ETHARP_TRY_HARD] rank by (auto intro: exI [of _ 0])
  have "\<exists>i. victim (arp_table ?s) i \<and> r = int i \<and> arp_table s' = (arp_table ?s)(i := fresh_entry (Some 99) (arp_table ?s i))"
    using find_entry_contract [OF arp_w_ok, of 0 "Some 99" ETHARP_TRY_HARD] f none by simp
  then obtain i where i: "victim (arp_table ?s) i" "r = int i" "arp_table s' = (arp_table ?s)(i := fresh_entry (Some 99) (arp_table ?s i))" by blast
  from i9 [OF i(1)] show ?thesis using i(2,3) f by (simp add: arp_w_table)
qed


end
