(* ===== verification/EthMac.thy ===== *)
theory EthMac
  imports Rcc
begin

text \<open>
  The Ethernet MAC driver \<open>stm32_eth.c\<close>, part 1: everything that works on the registers of the unit, over the
  bus parameter \<open>hw\<close>: initialisation, access to the PHY through the management interface, the MAC, the DMA
  controls, power management, counters and time stamps. The descriptors in memory are in the theory \<open>EthDma\<close>.

  The busy loops \<open>ETH_Delay\<close> touch neither a register nor memory that is used elsewhere and have no
  counterpart here. The waits for the PHY run on the source's own counters.
\<close>

unbundle bit_operations_syntax

section \<open>Registers and constants\<close>

definition ETH_MACCR :: u32 where "ETH_MACCR = 0x40028000"
definition ETH_MACFFR :: u32 where "ETH_MACFFR = 0x40028004"
definition ETH_MACHTHR :: u32 where "ETH_MACHTHR = 0x40028008"
definition ETH_MACHTLR :: u32 where "ETH_MACHTLR = 0x4002800C"
definition ETH_MACMIIAR :: u32 where "ETH_MACMIIAR = 0x40028010"
definition ETH_MACMIIDR :: u32 where "ETH_MACMIIDR = 0x40028014"
definition ETH_MACFCR :: u32 where "ETH_MACFCR = 0x40028018"
definition ETH_MACVLANTR :: u32 where "ETH_MACVLANTR = 0x4002801C"
definition ETH_MACRWUFFR :: u32 where "ETH_MACRWUFFR = 0x40028028"
definition ETH_MACPMTCSR :: u32 where "ETH_MACPMTCSR = 0x4002802C"
definition ETH_MACSR :: u32 where "ETH_MACSR = 0x40028038"
definition ETH_MACIMR :: u32 where "ETH_MACIMR = 0x4002803C"
definition ETH_MMCCR :: u32 where "ETH_MMCCR = 0x40028100"
definition ETH_MMCRIR :: u32 where "ETH_MMCRIR = 0x40028104"
definition ETH_MMCTIR :: u32 where "ETH_MMCTIR = 0x40028108"
definition ETH_MMCRIMR :: u32 where "ETH_MMCRIMR = 0x4002810C"
definition ETH_MMCTIMR :: u32 where "ETH_MMCTIMR = 0x40028110"
definition ETH_PTPTSCR :: u32 where "ETH_PTPTSCR = 0x40028700"
definition ETH_PTPSSIR :: u32 where "ETH_PTPSSIR = 0x40028704"
definition ETH_PTPTSHUR :: u32 where "ETH_PTPTSHUR = 0x40028710"
definition ETH_PTPTSLUR :: u32 where "ETH_PTPTSLUR = 0x40028714"
definition ETH_PTPTSAR :: u32 where "ETH_PTPTSAR = 0x40028718"
definition ETH_PTPTTHR :: u32 where "ETH_PTPTTHR = 0x4002871C"
definition ETH_PTPTTLR :: u32 where "ETH_PTPTTLR = 0x40028720"
definition ETH_DMABMR :: u32 where "ETH_DMABMR = 0x40029000"
definition ETH_DMATPDR :: u32 where "ETH_DMATPDR = 0x40029004"
definition ETH_DMARPDR :: u32 where "ETH_DMARPDR = 0x40029008"
definition ETH_DMARDLAR :: u32 where "ETH_DMARDLAR = 0x4002900C"
definition ETH_DMATDLAR :: u32 where "ETH_DMATDLAR = 0x40029010"
definition ETH_DMASR :: u32 where "ETH_DMASR = 0x40029014"
definition ETH_DMAOMR :: u32 where "ETH_DMAOMR = 0x40029018"
definition ETH_DMAIER :: u32 where "ETH_DMAIER = 0x4002901C"
definition ETH_DMAMFBOCR :: u32 where "ETH_DMAMFBOCR = 0x40029020"
definition ETH_DMACHTDR :: u32 where "ETH_DMACHTDR = 0x40029048"
definition ETH_DMACHRDR :: u32 where "ETH_DMACHRDR = 0x4002904C"
definition ETH_DMACHTBAR :: u32 where "ETH_DMACHTBAR = 0x40029050"
definition ETH_DMACHRBAR :: u32 where "ETH_DMACHRBAR = 0x40029054"

definition DMAOMR_CLEAR_MASK :: u32 where [reg_defs]: "DMAOMR_CLEAR_MASK = 0xF8DE3F23"
definition ETH_AddressAlignedBeats_Enable :: u32 where [reg_defs]: "ETH_AddressAlignedBeats_Enable = 0x02000000"
definition ETH_AutoNegotiation_Disable :: u32 where [reg_defs]: "ETH_AutoNegotiation_Disable = 0x00000000"
definition ETH_AutomaticPadCRCStrip_Disable :: u32 where [reg_defs]: "ETH_AutomaticPadCRCStrip_Disable = 0x00000000"
definition ETH_BackOffLimit_10 :: u32 where [reg_defs]: "ETH_BackOffLimit_10 = 0x00000000"
definition ETH_BroadcastFramesReception_Disable :: u32 where [reg_defs]: "ETH_BroadcastFramesReception_Disable = 0x00000020"
definition ETH_CarrierSense_Enable :: u32 where [reg_defs]: "ETH_CarrierSense_Enable = 0x00000000"
definition ETH_ChecksumOffload_Disable :: u32 where [reg_defs]: "ETH_ChecksumOffload_Disable = 0x00000000"
definition ETH_DMAArbitration_RoundRobin_RxTx_1_1 :: u32 where [reg_defs]: "ETH_DMAArbitration_RoundRobin_RxTx_1_1 = 0x00000000"
definition ETH_DMABMR_DSL :: u32 where [reg_defs]: "ETH_DMABMR_DSL = 0x0000007C"
definition ETH_DMABMR_SR :: u32 where [reg_defs]: "ETH_DMABMR_SR = 0x00000001"
definition ETH_DMABMR_USP :: u32 where [reg_defs]: "ETH_DMABMR_USP = 0x00800000"
definition ETH_DMAMFBOCR_MFA :: u32 where [reg_defs]: "ETH_DMAMFBOCR_MFA = 0x0FFE0000"
definition ETH_DMAMFBOCR_MFC :: u32 where [reg_defs]: "ETH_DMAMFBOCR_MFC = 0x0000FFFF"
definition ETH_DMAOMR_FTF :: u32 where [reg_defs]: "ETH_DMAOMR_FTF = 0x00100000"
definition ETH_DMAOMR_SR :: u32 where [reg_defs]: "ETH_DMAOMR_SR = 0x00000002"
definition ETH_DMAOMR_ST :: u32 where [reg_defs]: "ETH_DMAOMR_ST = 0x00002000"
definition ETH_DMARXDESC_BUFFER2_SIZESHIFT :: nat where [reg_defs]: "ETH_DMARXDESC_BUFFER2_SIZESHIFT = 16"
definition ETH_DMARXDESC_FRAME_LENGTHSHIFT :: nat where [reg_defs]: "ETH_DMARXDESC_FRAME_LENGTHSHIFT = 16"
definition ETH_DMARxDesc_Buffer1 :: u32 where [reg_defs]: "ETH_DMARxDesc_Buffer1 = 0x00000000"
definition ETH_DMARxDesc_DIC :: u32 where [reg_defs]: "ETH_DMARxDesc_DIC = 0x80000000"
definition ETH_DMARxDesc_ES :: u32 where [reg_defs]: "ETH_DMARxDesc_ES = 0x00008000"
definition ETH_DMARxDesc_FL :: u32 where [reg_defs]: "ETH_DMARxDesc_FL = 0x3FFF0000"
definition ETH_DMARxDesc_FS :: u32 where [reg_defs]: "ETH_DMARxDesc_FS = 0x00000200"
definition ETH_DMARxDesc_LS :: u32 where [reg_defs]: "ETH_DMARxDesc_LS = 0x00000100"
definition ETH_DMARxDesc_OWN :: u32 where [reg_defs]: "ETH_DMARxDesc_OWN = 0x80000000"
definition ETH_DMARxDesc_RBS1 :: u32 where [reg_defs]: "ETH_DMARxDesc_RBS1 = 0x00001FFF"
definition ETH_DMARxDesc_RBS2 :: u32 where [reg_defs]: "ETH_DMARxDesc_RBS2 = 0x1FFF0000"
definition ETH_DMARxDesc_RCH :: u32 where [reg_defs]: "ETH_DMARxDesc_RCH = 0x00004000"
definition ETH_DMARxDesc_RER :: u32 where [reg_defs]: "ETH_DMARxDesc_RER = 0x00008000"
definition ETH_DMASR_RBUS :: u32 where [reg_defs]: "ETH_DMASR_RBUS = 0x00000080"
definition ETH_DMASR_RS :: u32 where [reg_defs]: "ETH_DMASR_RS = 0x00000040"
definition ETH_DMASR_TBUS :: u32 where [reg_defs]: "ETH_DMASR_TBUS = 0x00000004"
definition ETH_DMASR_TS :: u32 where [reg_defs]: "ETH_DMASR_TS = 0x00000001"
definition ETH_DMATXDESC_BUFFER2_SIZESHIFT :: nat where [reg_defs]: "ETH_DMATXDESC_BUFFER2_SIZESHIFT = 16"
definition ETH_DMATXDESC_COLLISION_COUNTSHIFT :: nat where [reg_defs]: "ETH_DMATXDESC_COLLISION_COUNTSHIFT = 3"
definition ETH_DMATxDesc_CC :: u32 where [reg_defs]: "ETH_DMATxDesc_CC = 0x00000078"
definition ETH_DMATxDesc_DC :: u32 where [reg_defs]: "ETH_DMATxDesc_DC = 0x08000000"
definition ETH_DMATxDesc_DP :: u32 where [reg_defs]: "ETH_DMATxDesc_DP = 0x04000000"
definition ETH_DMATxDesc_FS :: u32 where [reg_defs]: "ETH_DMATxDesc_FS = 0x10000000"
definition ETH_DMATxDesc_IC :: u32 where [reg_defs]: "ETH_DMATxDesc_IC = 0x40000000"
definition ETH_DMATxDesc_LS :: u32 where [reg_defs]: "ETH_DMATxDesc_LS = 0x20000000"
definition ETH_DMATxDesc_OWN :: u32 where [reg_defs]: "ETH_DMATxDesc_OWN = 0x80000000"
definition ETH_DMATxDesc_TBS1 :: u32 where [reg_defs]: "ETH_DMATxDesc_TBS1 = 0x00001FFF"
definition ETH_DMATxDesc_TCH :: u32 where [reg_defs]: "ETH_DMATxDesc_TCH = 0x00100000"
definition ETH_DMATxDesc_TER :: u32 where [reg_defs]: "ETH_DMATxDesc_TER = 0x00200000"
definition ETH_DMATxDesc_TTSE :: u32 where [reg_defs]: "ETH_DMATxDesc_TTSE = 0x02000000"
definition ETH_DMATxDesc_TTSS :: u32 where [reg_defs]: "ETH_DMATxDesc_TTSS = 0x00020000"
definition ETH_DMA_RX_OVERFLOW_MISSEDFRAMES_COUNTERSHIFT :: nat where [reg_defs]: "ETH_DMA_RX_OVERFLOW_MISSEDFRAMES_COUNTERSHIFT = 17"
definition ETH_DeferralCheck_Disable :: u32 where [reg_defs]: "ETH_DeferralCheck_Disable = 0x00000000"
definition ETH_DestinationAddrFilter_Normal :: u32 where [reg_defs]: "ETH_DestinationAddrFilter_Normal = 0x00000000"
definition ETH_DropTCPIPChecksumErrorFrame_Disable :: u32 where [reg_defs]: "ETH_DropTCPIPChecksumErrorFrame_Disable = 0x04000000"
definition ETH_ERROR :: u32 where [reg_defs]: "ETH_ERROR = 0x00000000"
definition ETH_FixedBurst_Disable :: u32 where [reg_defs]: "ETH_FixedBurst_Disable = 0x00000000"
definition ETH_FlushReceivedFrame_Disable :: u32 where [reg_defs]: "ETH_FlushReceivedFrame_Disable = 0x01000000"
definition ETH_ForwardErrorFrames_Disable :: u32 where [reg_defs]: "ETH_ForwardErrorFrames_Disable = 0x00000000"
definition ETH_ForwardUndersizedGoodFrames_Disable :: u32 where [reg_defs]: "ETH_ForwardUndersizedGoodFrames_Disable = 0x00000000"
definition ETH_InterFrameGap_96Bit :: u32 where [reg_defs]: "ETH_InterFrameGap_96Bit = 0x00000000"
definition ETH_Jabber_Enable :: u32 where [reg_defs]: "ETH_Jabber_Enable = 0x00000000"
definition ETH_LoopbackMode_Disable :: u32 where [reg_defs]: "ETH_LoopbackMode_Disable = 0x00000000"
definition ETH_MACA1HR_AE :: u32 where [reg_defs]: "ETH_MACA1HR_AE = 0x80000000"
definition ETH_MACA1HR_MBC :: u32 where [reg_defs]: "ETH_MACA1HR_MBC = 0x3F000000"
definition ETH_MACA1HR_SA :: u32 where [reg_defs]: "ETH_MACA1HR_SA = 0x40000000"
definition ETH_MACCR_RE :: u32 where [reg_defs]: "ETH_MACCR_RE = 0x00000004"
definition ETH_MACCR_TE :: u32 where [reg_defs]: "ETH_MACCR_TE = 0x00000008"
definition ETH_MACFCR_FCBBPA :: u32 where [reg_defs]: "ETH_MACFCR_FCBBPA = 0x00000001"
definition ETH_MACMIIAR_CR_Div16 :: u32 where [reg_defs]: "ETH_MACMIIAR_CR_Div16 = 0x00000008"
definition ETH_MACMIIAR_CR_Div26 :: u32 where [reg_defs]: "ETH_MACMIIAR_CR_Div26 = 0x0000000C"
definition ETH_MACMIIAR_CR_Div42 :: u32 where [reg_defs]: "ETH_MACMIIAR_CR_Div42 = 0x00000000"
definition ETH_MACMIIAR_MB :: u32 where [reg_defs]: "ETH_MACMIIAR_MB = 0x00000001"
definition ETH_MACMIIAR_MR :: u32 where [reg_defs]: "ETH_MACMIIAR_MR = 0x000007C0"
definition ETH_MACMIIAR_MW :: u32 where [reg_defs]: "ETH_MACMIIAR_MW = 0x00000002"
definition ETH_MACMIIAR_PA :: u32 where [reg_defs]: "ETH_MACMIIAR_PA = 0x0000F800"
definition ETH_MACPMTCSR_GU :: u32 where [reg_defs]: "ETH_MACPMTCSR_GU = 0x00000200"
definition ETH_MACPMTCSR_MPE :: u32 where [reg_defs]: "ETH_MACPMTCSR_MPE = 0x00000002"
definition ETH_MACPMTCSR_PD :: u32 where [reg_defs]: "ETH_MACPMTCSR_PD = 0x00000001"
definition ETH_MACPMTCSR_WFE :: u32 where [reg_defs]: "ETH_MACPMTCSR_WFE = 0x00000004"
definition ETH_MACPMTCSR_WFFRPR :: u32 where [reg_defs]: "ETH_MACPMTCSR_WFFRPR = 0x80000000"
definition ETH_MAC_ADDR_HBASE :: u32 where [reg_defs]: "ETH_MAC_ADDR_HBASE = 0x40028040"
definition ETH_MAC_ADDR_LBASE :: u32 where [reg_defs]: "ETH_MAC_ADDR_LBASE = 0x40028044"
definition ETH_MAC_AddressFilter_DA :: u32 where [reg_defs]: "ETH_MAC_AddressFilter_DA = 0x00000008"
definition ETH_MAC_BASE :: u32 where [reg_defs]: "ETH_MAC_BASE = 0x40028000"
definition ETH_MAX_PACKET_SIZE :: u32 where [reg_defs]: "ETH_MAX_PACKET_SIZE = 0x000005F0"
definition ETH_MMCCR_CR :: u32 where [reg_defs]: "ETH_MMCCR_CR = 0x00000001"
definition ETH_MMCCR_CSR :: u32 where [reg_defs]: "ETH_MMCCR_CSR = 0x00000002"
definition ETH_MMCCR_MCF :: u32 where [reg_defs]: "ETH_MMCCR_MCF = 0x00000008"
definition ETH_MMCCR_ROR :: u32 where [reg_defs]: "ETH_MMCCR_ROR = 0x00000004"
definition ETH_Mode_FullDuplex :: u32 where [reg_defs]: "ETH_Mode_FullDuplex = 0x00000800"
definition ETH_Mode_HalfDuplex :: u32 where [reg_defs]: "ETH_Mode_HalfDuplex = 0x00000000"
definition ETH_MulticastFramesFilter_Perfect :: u32 where [reg_defs]: "ETH_MulticastFramesFilter_Perfect = 0x00000000"
definition ETH_PTPTSCR_TSARU :: u32 where [reg_defs]: "ETH_PTPTSCR_TSARU = 0x00000020"
definition ETH_PTPTSCR_TSE :: u32 where [reg_defs]: "ETH_PTPTSCR_TSE = 0x00000001"
definition ETH_PTPTSCR_TSFCU :: u32 where [reg_defs]: "ETH_PTPTSCR_TSFCU = 0x00000002"
definition ETH_PTPTSCR_TSITE :: u32 where [reg_defs]: "ETH_PTPTSCR_TSITE = 0x00000010"
definition ETH_PTPTSCR_TSSTI :: u32 where [reg_defs]: "ETH_PTPTSCR_TSSTI = 0x00000004"
definition ETH_PTPTSCR_TSSTU :: u32 where [reg_defs]: "ETH_PTPTSCR_TSSTU = 0x00000008"
definition ETH_PTP_CoarseUpdate :: u32 where [reg_defs]: "ETH_PTP_CoarseUpdate = 0x00000000"
definition ETH_PassControlFrames_BlockAll :: u32 where [reg_defs]: "ETH_PassControlFrames_BlockAll = 0x00000040"
definition ETH_PauseLowThreshold_Minus4 :: u32 where [reg_defs]: "ETH_PauseLowThreshold_Minus4 = 0x00000000"
definition ETH_PromiscuousMode_Disable :: u32 where [reg_defs]: "ETH_PromiscuousMode_Disable = 0x00000000"
definition ETH_ReceiveAll_Disable :: u32 where [reg_defs]: "ETH_ReceiveAll_Disable = 0x00000000"
definition ETH_ReceiveFlowControl_Disable :: u32 where [reg_defs]: "ETH_ReceiveFlowControl_Disable = 0x00000000"
definition ETH_ReceiveOwn_Enable :: u32 where [reg_defs]: "ETH_ReceiveOwn_Enable = 0x00000000"
definition ETH_ReceiveStoreForward_Enable :: u32 where [reg_defs]: "ETH_ReceiveStoreForward_Enable = 0x02000000"
definition ETH_ReceiveThresholdControl_64Bytes :: u32 where [reg_defs]: "ETH_ReceiveThresholdControl_64Bytes = 0x00000000"
definition ETH_RetryTransmission_Enable :: u32 where [reg_defs]: "ETH_RetryTransmission_Enable = 0x00000000"
definition ETH_RxDMABurstLength_1Beat :: u32 where [reg_defs]: "ETH_RxDMABurstLength_1Beat = 0x00020000"
definition ETH_SUCCESS :: u32 where [reg_defs]: "ETH_SUCCESS = 0x00000001"
definition ETH_SecondFrameOperate_Disable :: u32 where [reg_defs]: "ETH_SecondFrameOperate_Disable = 0x00000000"
definition ETH_SourceAddrFilter_Disable :: u32 where [reg_defs]: "ETH_SourceAddrFilter_Disable = 0x00000000"
definition ETH_Speed_100M :: u32 where [reg_defs]: "ETH_Speed_100M = 0x00004000"
definition ETH_Speed_10M :: u32 where [reg_defs]: "ETH_Speed_10M = 0x00000000"
definition ETH_TransmitFlowControl_Disable :: u32 where [reg_defs]: "ETH_TransmitFlowControl_Disable = 0x00000000"
definition ETH_TransmitStoreForward_Enable :: u32 where [reg_defs]: "ETH_TransmitStoreForward_Enable = 0x00200000"
definition ETH_TransmitThresholdControl_64Bytes :: u32 where [reg_defs]: "ETH_TransmitThresholdControl_64Bytes = 0x00000000"
definition ETH_TxDMABurstLength_1Beat :: u32 where [reg_defs]: "ETH_TxDMABurstLength_1Beat = 0x00000100"
definition ETH_UnicastFramesFilter_Perfect :: u32 where [reg_defs]: "ETH_UnicastFramesFilter_Perfect = 0x00000000"
definition ETH_UnicastPauseFrameDetect_Disable :: u32 where [reg_defs]: "ETH_UnicastPauseFrameDetect_Disable = 0x00000000"
definition ETH_VLANTagComparison_16Bit :: u32 where [reg_defs]: "ETH_VLANTagComparison_16Bit = 0x00000000"
definition ETH_WAKEUP_REGISTER_LENGTH :: nat where [reg_defs]: "ETH_WAKEUP_REGISTER_LENGTH = 8"
definition ETH_Watchdog_Enable :: u32 where [reg_defs]: "ETH_Watchdog_Enable = 0x00000000"
definition ETH_ZeroQuantaPause_Disable :: u32 where [reg_defs]: "ETH_ZeroQuantaPause_Disable = 0x00000080"
definition MACCR_CLEAR_MASK :: u32 where [reg_defs]: "MACCR_CLEAR_MASK = 0xFF20810F"
definition MACFCR_CLEAR_MASK :: u32 where [reg_defs]: "MACFCR_CLEAR_MASK = 0x0000FF41"
definition MACMIIAR_CR_MASK :: u32 where [reg_defs]: "MACMIIAR_CR_MASK = 0xFFFFFFE3"
definition PHY_AutoNego_Complete :: u16 where [reg_defs]: "PHY_AutoNego_Complete = 0x0020"
definition PHY_AutoNegotiation :: u16 where [reg_defs]: "PHY_AutoNegotiation = 0x1000"
definition PHY_BCR :: u16 where [reg_defs]: "PHY_BCR = 0x0000"
definition PHY_BSR :: u16 where [reg_defs]: "PHY_BSR = 0x0001"
definition PHY_Duplex_Status :: u16 where [reg_defs]: "PHY_Duplex_Status = 0x0004"
definition PHY_Linked_Status :: u16 where [reg_defs]: "PHY_Linked_Status = 0x0004"
definition PHY_Loopback :: u16 where [reg_defs]: "PHY_Loopback = 0x4000"
definition PHY_READ_TO :: u32 where [reg_defs]: "PHY_READ_TO = 0x0004FFFF"
definition PHY_Reset :: u16 where [reg_defs]: "PHY_Reset = 0x8000"
definition PHY_SR :: u16 where [reg_defs]: "PHY_SR = 0x0010"
definition PHY_Speed_Status :: u16 where [reg_defs]: "PHY_Speed_Status = 0x0002"
definition PHY_WRITE_TO :: u32 where [reg_defs]: "PHY_WRITE_TO = 0x0004FFFF"
definition ETH_MAC_Address0 :: u32 where [reg_defs]: "ETH_MAC_Address0 = 0x00000000"
definition ETH_DMA_IT_NIS :: u32 where [reg_defs]: "ETH_DMA_IT_NIS = 0x00010000"
definition ETH_DMA_IT_R :: u32 where [reg_defs]: "ETH_DMA_IT_R = 0x00000040"
definition ETH_DMATxDesc_ChecksumTCPUDPICMPFull :: u32 where [reg_defs]: "ETH_DMATxDesc_ChecksumTCPUDPICMPFull = 0x00C00000"
definition ETH_ChecksumOffload_Enable :: u32 where [reg_defs]: "ETH_ChecksumOffload_Enable = 0x00000400"
definition ETH_BroadcastFramesReception_Enable :: u32 where [reg_defs]: "ETH_BroadcastFramesReception_Enable = 0x00000000"
definition ETH_DropTCPIPChecksumErrorFrame_Enable :: u32 where [reg_defs]: "ETH_DropTCPIPChecksumErrorFrame_Enable = 0x00000000"
definition ETH_SecondFrameOperate_Enable :: u32 where [reg_defs]: "ETH_SecondFrameOperate_Enable = 0x00000004"
definition ETH_FixedBurst_Enable :: u32 where [reg_defs]: "ETH_FixedBurst_Enable = 0x00010000"
definition ETH_RxDMABurstLength_32Beat :: u32 where [reg_defs]: "ETH_RxDMABurstLength_32Beat = 0x00400000"
definition ETH_TxDMABurstLength_32Beat :: u32 where [reg_defs]: "ETH_TxDMABurstLength_32Beat = 0x00002000"
definition ETH_DMAArbitration_RoundRobin_RxTx_2_1 :: u32 where [reg_defs]: "ETH_DMAArbitration_RoundRobin_RxTx_2_1 = 0x00004000"
definition RCC_AHBPeriph_ETH_MAC :: u32 where [reg_defs]: "RCC_AHBPeriph_ETH_MAC = 0x00004000"
definition RCC_AHBPeriph_ETH_MAC_Tx :: u32 where [reg_defs]: "RCC_AHBPeriph_ETH_MAC_Tx = 0x00008000"
definition RCC_AHBPeriph_ETH_MAC_Rx :: u32 where [reg_defs]: "RCC_AHBPeriph_ETH_MAC_Rx = 0x00010000"

record ETH_InitTypeDef =
  ETH_AutoNegotiation :: u32
  ETH_Watchdog :: u32
  ETH_Jabber :: u32
  ETH_InterFrameGap :: u32
  ETH_CarrierSense :: u32
  ETH_Speed :: u32
  ETH_ReceiveOwn :: u32
  ETH_LoopbackMode :: u32
  ETH_Mode :: u32
  ETH_ChecksumOffload :: u32
  ETH_RetryTransmission :: u32
  ETH_AutomaticPadCRCStrip :: u32
  ETH_BackOffLimit :: u32
  ETH_DeferralCheck :: u32
  ETH_ReceiveAll :: u32
  ETH_SourceAddrFilter :: u32
  ETH_PassControlFrames :: u32
  ETH_BroadcastFramesReception :: u32
  ETH_DestinationAddrFilter :: u32
  ETH_PromiscuousMode :: u32
  ETH_MulticastFramesFilter :: u32
  ETH_UnicastFramesFilter :: u32
  ETH_HashTableHigh :: u32
  ETH_HashTableLow :: u32
  ETH_PauseTime :: u32
  ETH_ZeroQuantaPause :: u32
  ETH_PauseLowThreshold :: u32
  ETH_UnicastPauseFrameDetect :: u32
  ETH_ReceiveFlowControl :: u32
  ETH_TransmitFlowControl :: u32
  ETH_VLANTagComparison :: u32
  ETH_VLANTagIdentifier :: u32
  ETH_DropTCPIPChecksumErrorFrame :: u32
  ETH_ReceiveStoreForward :: u32
  ETH_FlushReceivedFrame :: u32
  ETH_TransmitStoreForward :: u32
  ETH_TransmitThresholdControl :: u32
  ETH_ForwardErrorFrames :: u32
  ETH_ForwardUndersizedGoodFrames :: u32
  ETH_ReceiveThresholdControl :: u32
  ETH_SecondFrameOperate :: u32
  ETH_AddressAlignedBeats :: u32
  ETH_FixedBurst :: u32
  ETH_RxDMABurstLength :: u32
  ETH_TxDMABurstLength :: u32
  ETH_DescriptorSkipLength :: u32
  ETH_DMAArbitration :: u32

section \<open>Shared statements\<close>

text \<open>A test of one register, and a bit that a command sets or clears.\<close>

definition flag32 :: "'h mmio \<Rightarrow> u32 \<Rightarrow> u32 \<Rightarrow> 'h \<Rightarrow> FlagStatus \<times> 'h" where
  "flag32 hw r m h = (let (v, h) = rd32 hw r h in (if v AND m \<noteq> 0 then SET else RESET, h))"

definition cmd32 :: "'h mmio \<Rightarrow> u32 \<Rightarrow> u32 \<Rightarrow> FunctionalState \<Rightarrow> 'h \<Rightarrow> 'h" where
  "cmd32 hw r m NewState h = (if NewState \<noteq> DISABLE then or32 hw r m h else and32 hw r (NOT m) h)"

text \<open>The same for bits that disable something when they are set.\<close>

definition mask32 :: "'h mmio \<Rightarrow> u32 \<Rightarrow> u32 \<Rightarrow> FunctionalState \<Rightarrow> 'h \<Rightarrow> 'h" where
  "mask32 hw r m NewState h = (if NewState \<noteq> DISABLE then and32 hw r (NOT m) h else or32 hw r m h)"

definition field32 :: "'h mmio \<Rightarrow> u32 \<Rightarrow> u32 \<Rightarrow> nat \<Rightarrow> 'h \<Rightarrow> u32 \<times> 'h" where
  "field32 hw r m k h = (let (v, h) = rd32 hw r h in (drop_bit k (v AND m), h))"

section \<open>The management interface of the PHY\<close>

text \<open>The wait for the busy flag: \<open>n\<close> is what is missing to the limit of the counter, and the first result is
  what is still missing when the loop ends, 0 after a time-out.\<close>

fun mii_wait :: "'h mmio \<Rightarrow> nat \<Rightarrow> 'h \<Rightarrow> nat \<times> 'h" where
  "mii_wait hw 0 h = (0, h)"
| "mii_wait hw (Suc n) h =
     (let (v, h) = rd32 hw ETH_MACMIIAR h
      in if v AND ETH_MACMIIAR_MB \<noteq> 0 then mii_wait hw n h else (n, h))"

text \<open>The value for the address register, without the direction bit.\<close>

definition mii_address :: "u32 \<Rightarrow> u16 \<Rightarrow> u16 \<Rightarrow> u32" where
  "mii_address v PHYAddress PHYReg =
     (v AND NOT MACMIIAR_CR_MASK) OR (push_bit 11 (ucast PHYAddress) AND ETH_MACMIIAR_PA) OR
     (push_bit 6 (ucast PHYReg) AND ETH_MACMIIAR_MR)"

definition ETH_ReadPHYRegister :: "'h mmio \<Rightarrow> u16 \<Rightarrow> u16 \<Rightarrow> 'h \<Rightarrow> u16 \<times> 'h" where
  "ETH_ReadPHYRegister hw PHYAddress PHYReg h =
     (let (v, h) = rd32 hw ETH_MACMIIAR h;
          tmpreg = (mii_address v PHYAddress PHYReg AND NOT ETH_MACMIIAR_MW) OR ETH_MACMIIAR_MB;
          h = wr32 hw ETH_MACMIIAR tmpreg h;
          (left, h) = mii_wait hw (unat PHY_READ_TO) h
      in if left = 0 then (ucast ETH_ERROR, h)
         else let (v, h) = rd32 hw ETH_MACMIIDR h in (ucast v, h))"

definition ETH_WritePHYRegister :: "'h mmio \<Rightarrow> u16 \<Rightarrow> u16 \<Rightarrow> u16 \<Rightarrow> 'h \<Rightarrow> u32 \<times> 'h" where
  "ETH_WritePHYRegister hw PHYAddress PHYReg PHYValue h =
     (let (v, h) = rd32 hw ETH_MACMIIAR h;
          tmpreg = mii_address v PHYAddress PHYReg OR ETH_MACMIIAR_MW OR ETH_MACMIIAR_MB;
          h = wr32 hw ETH_MACMIIDR (ucast PHYValue) h;
          h = wr32 hw ETH_MACMIIAR tmpreg h;
          (left, h) = mii_wait hw (unat PHY_WRITE_TO) h
      in (if left = 0 then ETH_ERROR else ETH_SUCCESS, h))"

definition ETH_PHYLoopBackCmd :: "'h mmio \<Rightarrow> u16 \<Rightarrow> FunctionalState \<Rightarrow> 'h \<Rightarrow> u32 \<times> 'h" where
  "ETH_PHYLoopBackCmd hw PHYAddress NewState h =
     (let (tmpreg, h) = ETH_ReadPHYRegister hw PHYAddress PHY_BCR h;
          tmpreg = (if NewState \<noteq> DISABLE then tmpreg OR PHY_Loopback else tmpreg AND NOT PHY_Loopback);
          (ok, h) = ETH_WritePHYRegister hw PHYAddress PHY_BCR tmpreg h
      in (if ok \<noteq> 0 then ETH_SUCCESS else ETH_ERROR, h))"

text \<open>The two waits of \<open>ETH_Init\<close> for a bit of the PHY's status register.\<close>

fun phy_wait :: "'h mmio \<Rightarrow> u16 \<Rightarrow> u16 \<Rightarrow> nat \<Rightarrow> 'h \<Rightarrow> nat \<times> 'h" where
  "phy_wait hw PHYAddress m 0 h = (0, h)"
| "phy_wait hw PHYAddress m (Suc n) h =
     (let (v, h) = ETH_ReadPHYRegister hw PHYAddress PHY_BSR h
      in if v AND m = 0 then phy_wait hw PHYAddress m n h else (n, h))"

section \<open>Initialisation\<close>

definition ETH_DeInit :: "'h mmio \<Rightarrow> 'h \<Rightarrow> 'h" where
  "ETH_DeInit hw h =
     RCC_AHBPeriphResetCmd hw RCC_AHBPeriph_ETH_MAC DISABLE (RCC_AHBPeriphResetCmd hw RCC_AHBPeriph_ETH_MAC ENABLE h)"

text \<open>The divider of the management clock.\<close>

definition csr_clock_range :: "u32 \<Rightarrow> u32" where
  "csr_clock_range hclk =
     (if 20000000 \<le> hclk \<and> hclk < 35000000 then ETH_MACMIIAR_CR_Div16
      else if 35000000 \<le> hclk \<and> hclk < 60000000 then ETH_MACMIIAR_CR_Div26
      else ETH_MACMIIAR_CR_Div42)"

text \<open>Auto-negotiation: the result is written back to the configuration; \<open>None\<close> is the return with an
  error.\<close>

definition eth_negotiate :: "'h mmio \<Rightarrow> ETH_InitTypeDef \<Rightarrow> u16 \<Rightarrow> 'h \<Rightarrow> ETH_InitTypeDef option \<times> 'h" where
  "eth_negotiate hw e PHYAddress h =
     (let (left, h) = phy_wait hw PHYAddress PHY_Linked_Status (unat PHY_READ_TO) h in
      if left = 0 then (None, h)
      else
        let (ok, h) = ETH_WritePHYRegister hw PHYAddress PHY_BCR PHY_AutoNegotiation h in
        if ok = 0 then (None, h)
        else
          let (left, h) = phy_wait hw PHYAddress PHY_AutoNego_Complete (unat PHY_READ_TO) h in
          if left = 0 then (None, h)
          else
            let (RegValue, h) = ETH_ReadPHYRegister hw PHYAddress PHY_SR h;
                e = e\<lparr>ETH_Mode := (if RegValue AND PHY_Duplex_Status \<noteq> 0 then ETH_Mode_FullDuplex else ETH_Mode_HalfDuplex)\<rparr>;
                e = e\<lparr>ETH_Speed := (if RegValue AND PHY_Speed_Status \<noteq> 0 then ETH_Speed_10M else ETH_Speed_100M)\<rparr>
            in (Some e, h))"

definition eth_link :: "'h mmio \<Rightarrow> ETH_InitTypeDef \<Rightarrow> u16 \<Rightarrow> 'h \<Rightarrow> ETH_InitTypeDef option \<times> 'h" where
  "eth_link hw e PHYAddress h =
     (if ETH_AutoNegotiation e \<noteq> ETH_AutoNegotiation_Disable then eth_negotiate hw e PHYAddress h
      else
        let (ok, h) = ETH_WritePHYRegister hw PHYAddress PHY_BCR
                        (ucast (drop_bit 3 (ETH_Mode e)) OR ucast (drop_bit 1 (ETH_Speed e))) h
        in (if ok = 0 then None else Some e, h))"

text \<open>The registers of the MAC and of its DMA from the configuration.\<close>

definition eth_mac_config :: "'h mmio \<Rightarrow> ETH_InitTypeDef \<Rightarrow> 'h \<Rightarrow> 'h" where
  "eth_mac_config hw e h =
     (let h = modify32 hw ETH_MACCR MACCR_CLEAR_MASK
                (ETH_Watchdog e OR ETH_Jabber e OR ETH_InterFrameGap e OR ETH_CarrierSense e OR ETH_Speed e OR
                 ETH_ReceiveOwn e OR ETH_LoopbackMode e OR ETH_Mode e OR ETH_ChecksumOffload e OR
                 ETH_RetryTransmission e OR ETH_AutomaticPadCRCStrip e OR ETH_BackOffLimit e OR ETH_DeferralCheck e) h;
          h = wr32 hw ETH_MACFFR
                (ETH_ReceiveAll e OR ETH_SourceAddrFilter e OR ETH_PassControlFrames e OR ETH_BroadcastFramesReception e OR
                 ETH_DestinationAddrFilter e OR ETH_PromiscuousMode e OR ETH_MulticastFramesFilter e OR
                 ETH_UnicastFramesFilter e) h;
          h = wr32 hw ETH_MACHTHR (ETH_HashTableHigh e) h;
          h = wr32 hw ETH_MACHTLR (ETH_HashTableLow e) h;
          h = modify32 hw ETH_MACFCR MACFCR_CLEAR_MASK
                (push_bit 16 (ETH_PauseTime e) OR ETH_ZeroQuantaPause e OR ETH_PauseLowThreshold e OR
                 ETH_UnicastPauseFrameDetect e OR ETH_ReceiveFlowControl e OR ETH_TransmitFlowControl e) h
      in wr32 hw ETH_MACVLANTR (ETH_VLANTagComparison e OR ETH_VLANTagIdentifier e) h)"

definition eth_dma_config :: "'h mmio \<Rightarrow> ETH_InitTypeDef \<Rightarrow> 'h \<Rightarrow> 'h" where
  "eth_dma_config hw e h =
     (let h = modify32 hw ETH_DMAOMR DMAOMR_CLEAR_MASK
                (ETH_DropTCPIPChecksumErrorFrame e OR ETH_ReceiveStoreForward e OR ETH_FlushReceivedFrame e OR
                 ETH_TransmitStoreForward e OR ETH_TransmitThresholdControl e OR ETH_ForwardErrorFrames e OR
                 ETH_ForwardUndersizedGoodFrames e OR ETH_ReceiveThresholdControl e OR ETH_SecondFrameOperate e) h
      in wr32 hw ETH_DMABMR
           (ETH_AddressAlignedBeats e OR ETH_FixedBurst e OR ETH_RxDMABurstLength e OR ETH_TxDMABurstLength e OR
            push_bit 2 (ETH_DescriptorSkipLength e) OR ETH_DMAArbitration e OR ETH_DMABMR_USP) h)"

definition ETH_Init :: "'h mmio \<Rightarrow> ETH_InitTypeDef \<Rightarrow> u16 \<Rightarrow> 'h \<Rightarrow> u32 \<times> ETH_InitTypeDef \<times> 'h" where
  "ETH_Init hw e PHYAddress h =
     (let (tmpreg, h) = rd32 hw ETH_MACMIIAR h;
          (rcc_clocks, h) = RCC_GetClocksFreq hw h;
          h = wr32 hw ETH_MACMIIAR ((tmpreg AND MACMIIAR_CR_MASK) OR csr_clock_range (HCLK_Frequency rcc_clocks)) h;
          (ok, h) = ETH_WritePHYRegister hw PHYAddress PHY_BCR PHY_Reset h
      in if ok = 0 then (ETH_ERROR, e, h)
         else
           case eth_link hw e PHYAddress h of
             (None, h) \<Rightarrow> (ETH_ERROR, e, h)
           | (Some e, h) \<Rightarrow> (ETH_SUCCESS, e, eth_dma_config hw e (eth_mac_config hw e h)))"

definition ETH_StructInit :: ETH_InitTypeDef where
  "ETH_StructInit = \<lparr>
     ETH_AutoNegotiation = ETH_AutoNegotiation_Disable,
     ETH_Watchdog = ETH_Watchdog_Enable,
     ETH_Jabber = ETH_Jabber_Enable,
     ETH_InterFrameGap = ETH_InterFrameGap_96Bit,
     ETH_CarrierSense = ETH_CarrierSense_Enable,
     ETH_Speed = ETH_Speed_10M,
     ETH_ReceiveOwn = ETH_ReceiveOwn_Enable,
     ETH_LoopbackMode = ETH_LoopbackMode_Disable,
     ETH_Mode = ETH_Mode_HalfDuplex,
     ETH_ChecksumOffload = ETH_ChecksumOffload_Disable,
     ETH_RetryTransmission = ETH_RetryTransmission_Enable,
     ETH_AutomaticPadCRCStrip = ETH_AutomaticPadCRCStrip_Disable,
     ETH_BackOffLimit = ETH_BackOffLimit_10,
     ETH_DeferralCheck = ETH_DeferralCheck_Disable,
     ETH_ReceiveAll = ETH_ReceiveAll_Disable,
     ETH_SourceAddrFilter = ETH_SourceAddrFilter_Disable,
     ETH_PassControlFrames = ETH_PassControlFrames_BlockAll,
     ETH_BroadcastFramesReception = ETH_BroadcastFramesReception_Disable,
     ETH_DestinationAddrFilter = ETH_DestinationAddrFilter_Normal,
     ETH_PromiscuousMode = ETH_PromiscuousMode_Disable,
     ETH_MulticastFramesFilter = ETH_MulticastFramesFilter_Perfect,
     ETH_UnicastFramesFilter = ETH_UnicastFramesFilter_Perfect,
     ETH_HashTableHigh = 0,
     ETH_HashTableLow = 0,
     ETH_PauseTime = 0,
     ETH_ZeroQuantaPause = ETH_ZeroQuantaPause_Disable,
     ETH_PauseLowThreshold = ETH_PauseLowThreshold_Minus4,
     ETH_UnicastPauseFrameDetect = ETH_UnicastPauseFrameDetect_Disable,
     ETH_ReceiveFlowControl = ETH_ReceiveFlowControl_Disable,
     ETH_TransmitFlowControl = ETH_TransmitFlowControl_Disable,
     ETH_VLANTagComparison = ETH_VLANTagComparison_16Bit,
     ETH_VLANTagIdentifier = 0,
     ETH_DropTCPIPChecksumErrorFrame = ETH_DropTCPIPChecksumErrorFrame_Disable,
     ETH_ReceiveStoreForward = ETH_ReceiveStoreForward_Enable,
     ETH_FlushReceivedFrame = ETH_FlushReceivedFrame_Disable,
     ETH_TransmitStoreForward = ETH_TransmitStoreForward_Enable,
     ETH_TransmitThresholdControl = ETH_TransmitThresholdControl_64Bytes,
     ETH_ForwardErrorFrames = ETH_ForwardErrorFrames_Disable,
     ETH_ForwardUndersizedGoodFrames = ETH_ForwardUndersizedGoodFrames_Disable,
     ETH_ReceiveThresholdControl = ETH_ReceiveThresholdControl_64Bytes,
     ETH_SecondFrameOperate = ETH_SecondFrameOperate_Disable,
     ETH_AddressAlignedBeats = ETH_AddressAlignedBeats_Enable,
     ETH_FixedBurst = ETH_FixedBurst_Disable,
     ETH_RxDMABurstLength = ETH_RxDMABurstLength_1Beat,
     ETH_TxDMABurstLength = ETH_TxDMABurstLength_1Beat,
     ETH_DescriptorSkipLength = 0,
     ETH_DMAArbitration = ETH_DMAArbitration_RoundRobin_RxTx_1_1\<rparr>"

section \<open>The MAC\<close>

definition ETH_MACTransmissionCmd :: "'h mmio \<Rightarrow> FunctionalState \<Rightarrow> 'h \<Rightarrow> 'h" where
  "ETH_MACTransmissionCmd hw = cmd32 hw ETH_MACCR ETH_MACCR_TE"

definition ETH_MACReceptionCmd :: "'h mmio \<Rightarrow> FunctionalState \<Rightarrow> 'h \<Rightarrow> 'h" where
  "ETH_MACReceptionCmd hw = cmd32 hw ETH_MACCR ETH_MACCR_RE"

definition ETH_GetFlowControlBusyStatus :: "'h mmio \<Rightarrow> 'h \<Rightarrow> FlagStatus \<times> 'h" where
  "ETH_GetFlowControlBusyStatus hw = flag32 hw ETH_MACFCR ETH_MACFCR_FCBBPA"

definition ETH_InitiatePauseControlFrame :: "'h mmio \<Rightarrow> 'h \<Rightarrow> 'h" where
  "ETH_InitiatePauseControlFrame hw = or32 hw ETH_MACFCR ETH_MACFCR_FCBBPA"

definition ETH_BackPressureActivationCmd :: "'h mmio \<Rightarrow> FunctionalState \<Rightarrow> 'h \<Rightarrow> 'h" where
  "ETH_BackPressureActivationCmd hw = cmd32 hw ETH_MACFCR ETH_MACFCR_FCBBPA"

definition ETH_GetMACFlagStatus :: "'h mmio \<Rightarrow> u32 \<Rightarrow> 'h \<Rightarrow> FlagStatus \<times> 'h" where
  "ETH_GetMACFlagStatus hw ETH_MAC_FLAG = flag32 hw ETH_MACSR ETH_MAC_FLAG"

definition ETH_GetMACITStatus :: "'h mmio \<Rightarrow> u32 \<Rightarrow> 'h \<Rightarrow> FlagStatus \<times> 'h" where
  "ETH_GetMACITStatus hw ETH_MAC_IT = flag32 hw ETH_MACSR ETH_MAC_IT"

definition ETH_MACITConfig :: "'h mmio \<Rightarrow> u32 \<Rightarrow> FunctionalState \<Rightarrow> 'h \<Rightarrow> 'h" where
  "ETH_MACITConfig hw ETH_MAC_IT = mask32 hw ETH_MACIMR ETH_MAC_IT"

text \<open>An address of the MAC is given as the function of its six bytes.\<close>

definition ETH_MACAddressConfig :: "'h mmio \<Rightarrow> u32 \<Rightarrow> (nat \<Rightarrow> u8) \<Rightarrow> 'h \<Rightarrow> 'h" where
  "ETH_MACAddressConfig hw MacAddr Addr h =
     (let h = wr32 hw (ETH_MAC_ADDR_HBASE + MacAddr) (push_bit 8 (ucast (Addr 5)) OR ucast (Addr 4)) h
      in wr32 hw (ETH_MAC_ADDR_LBASE + MacAddr)
           (push_bit 24 (ucast (Addr 3)) OR push_bit 16 (ucast (Addr 2)) OR push_bit 8 (ucast (Addr 1)) OR ucast (Addr 0)) h)"

definition ETH_GetMACAddress :: "'h mmio \<Rightarrow> u32 \<Rightarrow> 'h \<Rightarrow> u8 list \<times> 'h" where
  "ETH_GetMACAddress hw MacAddr h =
     (let (hi, h) = rd32 hw (ETH_MAC_ADDR_HBASE + MacAddr) h;
          (lo, h) = rd32 hw (ETH_MAC_ADDR_LBASE + MacAddr) h
      in ([ucast (lo AND 0xFF), ucast (drop_bit 8 lo AND 0xFF), ucast (drop_bit 16 lo AND 0xFF),
           ucast (drop_bit 24 lo AND 0xFF), ucast (hi AND 0xFF), ucast (drop_bit 8 hi AND 0xFF)], h))"

definition ETH_MACAddressPerfectFilterCmd :: "'h mmio \<Rightarrow> u32 \<Rightarrow> FunctionalState \<Rightarrow> 'h \<Rightarrow> 'h" where
  "ETH_MACAddressPerfectFilterCmd hw MacAddr = cmd32 hw (ETH_MAC_ADDR_HBASE + MacAddr) ETH_MACA1HR_AE"

definition ETH_MACAddressFilterConfig :: "'h mmio \<Rightarrow> u32 \<Rightarrow> u32 \<Rightarrow> 'h \<Rightarrow> 'h" where
  "ETH_MACAddressFilterConfig hw MacAddr Filter h =
     (if Filter \<noteq> ETH_MAC_AddressFilter_DA then or32 hw (ETH_MAC_ADDR_HBASE + MacAddr) ETH_MACA1HR_SA h
      else and32 hw (ETH_MAC_ADDR_HBASE + MacAddr) (NOT ETH_MACA1HR_SA) h)"

definition ETH_MACAddressMaskBytesFilterConfig :: "'h mmio \<Rightarrow> u32 \<Rightarrow> u32 \<Rightarrow> 'h \<Rightarrow> 'h" where
  "ETH_MACAddressMaskBytesFilterConfig hw MacAddr MaskByte h =
     or32 hw (ETH_MAC_ADDR_HBASE + MacAddr) MaskByte (and32 hw (ETH_MAC_ADDR_HBASE + MacAddr) (NOT ETH_MACA1HR_MBC) h)"

section \<open>The DMA controls\<close>

definition ETH_SoftwareReset :: "'h mmio \<Rightarrow> 'h \<Rightarrow> 'h" where
  "ETH_SoftwareReset hw = or32 hw ETH_DMABMR ETH_DMABMR_SR"

definition ETH_GetSoftwareResetStatus :: "'h mmio \<Rightarrow> 'h \<Rightarrow> FlagStatus \<times> 'h" where
  "ETH_GetSoftwareResetStatus hw = flag32 hw ETH_DMABMR ETH_DMABMR_SR"

definition ETH_GetDMAFlagStatus :: "'h mmio \<Rightarrow> u32 \<Rightarrow> 'h \<Rightarrow> FlagStatus \<times> 'h" where
  "ETH_GetDMAFlagStatus hw ETH_DMA_FLAG = flag32 hw ETH_DMASR ETH_DMA_FLAG"

definition ETH_DMAClearFlag :: "'h mmio \<Rightarrow> u32 \<Rightarrow> 'h \<Rightarrow> 'h" where
  "ETH_DMAClearFlag hw ETH_DMA_FLAG = wr32 hw ETH_DMASR ETH_DMA_FLAG"

definition ETH_GetDMAITStatus :: "'h mmio \<Rightarrow> u32 \<Rightarrow> 'h \<Rightarrow> FlagStatus \<times> 'h" where
  "ETH_GetDMAITStatus hw ETH_DMA_IT = flag32 hw ETH_DMASR ETH_DMA_IT"

definition ETH_DMAClearITPendingBit :: "'h mmio \<Rightarrow> u32 \<Rightarrow> 'h \<Rightarrow> 'h" where
  "ETH_DMAClearITPendingBit hw ETH_DMA_IT = wr32 hw ETH_DMASR ETH_DMA_IT"

definition ETH_GetTransmitProcessState :: "'h mmio \<Rightarrow> 'h \<Rightarrow> u32 \<times> 'h" where
  "ETH_GetTransmitProcessState hw = field32 hw ETH_DMASR ETH_DMASR_TS 0"

definition ETH_GetReceiveProcessState :: "'h mmio \<Rightarrow> 'h \<Rightarrow> u32 \<times> 'h" where
  "ETH_GetReceiveProcessState hw = field32 hw ETH_DMASR ETH_DMASR_RS 0"

definition ETH_FlushTransmitFIFO :: "'h mmio \<Rightarrow> 'h \<Rightarrow> 'h" where
  "ETH_FlushTransmitFIFO hw = or32 hw ETH_DMAOMR ETH_DMAOMR_FTF"

definition ETH_GetFlushTransmitFIFOStatus :: "'h mmio \<Rightarrow> 'h \<Rightarrow> FlagStatus \<times> 'h" where
  "ETH_GetFlushTransmitFIFOStatus hw = flag32 hw ETH_DMAOMR ETH_DMAOMR_FTF"

definition ETH_DMATransmissionCmd :: "'h mmio \<Rightarrow> FunctionalState \<Rightarrow> 'h \<Rightarrow> 'h" where
  "ETH_DMATransmissionCmd hw = cmd32 hw ETH_DMAOMR ETH_DMAOMR_ST"

definition ETH_DMAReceptionCmd :: "'h mmio \<Rightarrow> FunctionalState \<Rightarrow> 'h \<Rightarrow> 'h" where
  "ETH_DMAReceptionCmd hw = cmd32 hw ETH_DMAOMR ETH_DMAOMR_SR"

definition ETH_DMAITConfig :: "'h mmio \<Rightarrow> u32 \<Rightarrow> FunctionalState \<Rightarrow> 'h \<Rightarrow> 'h" where
  "ETH_DMAITConfig hw ETH_DMA_IT = cmd32 hw ETH_DMAIER ETH_DMA_IT"

definition ETH_GetDMAOverflowStatus :: "'h mmio \<Rightarrow> u32 \<Rightarrow> 'h \<Rightarrow> FlagStatus \<times> 'h" where
  "ETH_GetDMAOverflowStatus hw ETH_DMA_Overflow = flag32 hw ETH_DMAMFBOCR ETH_DMA_Overflow"

definition ETH_GetRxOverflowMissedFrameCounter :: "'h mmio \<Rightarrow> 'h \<Rightarrow> u32 \<times> 'h" where
  "ETH_GetRxOverflowMissedFrameCounter hw =
     field32 hw ETH_DMAMFBOCR ETH_DMAMFBOCR_MFA ETH_DMA_RX_OVERFLOW_MISSEDFRAMES_COUNTERSHIFT"

definition ETH_GetBufferUnavailableMissedFrameCounter :: "'h mmio \<Rightarrow> 'h \<Rightarrow> u32 \<times> 'h" where
  "ETH_GetBufferUnavailableMissedFrameCounter hw = field32 hw ETH_DMAMFBOCR ETH_DMAMFBOCR_MFC 0"

definition ETH_GetCurrentTxDescStartAddress :: "'h mmio \<Rightarrow> 'h \<Rightarrow> u32 \<times> 'h" where
  "ETH_GetCurrentTxDescStartAddress hw = rd32 hw ETH_DMACHTDR"

definition ETH_GetCurrentRxDescStartAddress :: "'h mmio \<Rightarrow> 'h \<Rightarrow> u32 \<times> 'h" where
  "ETH_GetCurrentRxDescStartAddress hw = rd32 hw ETH_DMACHRDR"

definition ETH_GetCurrentTxBufferAddress :: "'h mmio \<Rightarrow> 'h \<Rightarrow> u32 \<times> 'h" where
  "ETH_GetCurrentTxBufferAddress hw = rd32 hw ETH_DMACHTBAR"

definition ETH_GetCurrentRxBufferAddress :: "'h mmio \<Rightarrow> 'h \<Rightarrow> u32 \<times> 'h" where
  "ETH_GetCurrentRxBufferAddress hw = rd32 hw ETH_DMACHRBAR"

definition ETH_ResumeDMATransmission :: "'h mmio \<Rightarrow> 'h \<Rightarrow> 'h" where
  "ETH_ResumeDMATransmission hw = wr32 hw ETH_DMATPDR 0"

definition ETH_ResumeDMAReception :: "'h mmio \<Rightarrow> 'h \<Rightarrow> 'h" where
  "ETH_ResumeDMAReception hw = wr32 hw ETH_DMARPDR 0"

definition ETH_Start :: "'h mmio \<Rightarrow> 'h \<Rightarrow> 'h" where
  "ETH_Start hw h =
     (let h = ETH_MACTransmissionCmd hw ENABLE h;
          h = ETH_FlushTransmitFIFO hw h;
          h = ETH_MACReceptionCmd hw ENABLE h;
          h = ETH_DMATransmissionCmd hw ENABLE h
      in ETH_DMAReceptionCmd hw ENABLE h)"

section \<open>Power management\<close>

definition ETH_ResetWakeUpFrameFilterRegisterPointer :: "'h mmio \<Rightarrow> 'h \<Rightarrow> 'h" where
  "ETH_ResetWakeUpFrameFilterRegisterPointer hw = or32 hw ETH_MACPMTCSR ETH_MACPMTCSR_WFFRPR"

definition ETH_SetWakeUpFrameFilterRegister :: "'h mmio \<Rightarrow> (nat \<Rightarrow> u32) \<Rightarrow> 'h \<Rightarrow> 'h" where
  "ETH_SetWakeUpFrameFilterRegister hw Buffer h =
     fold (\<lambda>i. wr32 hw ETH_MACRWUFFR (Buffer i)) [0..<ETH_WAKEUP_REGISTER_LENGTH] h"

definition ETH_GlobalUnicastWakeUpCmd :: "'h mmio \<Rightarrow> FunctionalState \<Rightarrow> 'h \<Rightarrow> 'h" where
  "ETH_GlobalUnicastWakeUpCmd hw = cmd32 hw ETH_MACPMTCSR ETH_MACPMTCSR_GU"

definition ETH_GetPMTFlagStatus :: "'h mmio \<Rightarrow> u32 \<Rightarrow> 'h \<Rightarrow> FlagStatus \<times> 'h" where
  "ETH_GetPMTFlagStatus hw ETH_PMT_FLAG = flag32 hw ETH_MACPMTCSR ETH_PMT_FLAG"

definition ETH_WakeUpFrameDetectionCmd :: "'h mmio \<Rightarrow> FunctionalState \<Rightarrow> 'h \<Rightarrow> 'h" where
  "ETH_WakeUpFrameDetectionCmd hw = cmd32 hw ETH_MACPMTCSR ETH_MACPMTCSR_WFE"

definition ETH_MagicPacketDetectionCmd :: "'h mmio \<Rightarrow> FunctionalState \<Rightarrow> 'h \<Rightarrow> 'h" where
  "ETH_MagicPacketDetectionCmd hw = cmd32 hw ETH_MACPMTCSR ETH_MACPMTCSR_MPE"

definition ETH_PowerDownCmd :: "'h mmio \<Rightarrow> FunctionalState \<Rightarrow> 'h \<Rightarrow> 'h" where
  "ETH_PowerDownCmd hw = cmd32 hw ETH_MACPMTCSR ETH_MACPMTCSR_PD"

section \<open>Management counters\<close>

definition ETH_MMCCounterFreezeCmd :: "'h mmio \<Rightarrow> FunctionalState \<Rightarrow> 'h \<Rightarrow> 'h" where
  "ETH_MMCCounterFreezeCmd hw = cmd32 hw ETH_MMCCR ETH_MMCCR_MCF"

definition ETH_MMCResetOnReadCmd :: "'h mmio \<Rightarrow> FunctionalState \<Rightarrow> 'h \<Rightarrow> 'h" where
  "ETH_MMCResetOnReadCmd hw = cmd32 hw ETH_MMCCR ETH_MMCCR_ROR"

definition ETH_MMCCounterRolloverCmd :: "'h mmio \<Rightarrow> FunctionalState \<Rightarrow> 'h \<Rightarrow> 'h" where
  "ETH_MMCCounterRolloverCmd hw = mask32 hw ETH_MMCCR ETH_MMCCR_CSR"

definition ETH_MMCCountersReset :: "'h mmio \<Rightarrow> 'h \<Rightarrow> 'h" where
  "ETH_MMCCountersReset hw = or32 hw ETH_MMCCR ETH_MMCCR_CR"

definition ETH_MMCITConfig :: "'h mmio \<Rightarrow> u32 \<Rightarrow> FunctionalState \<Rightarrow> 'h \<Rightarrow> 'h" where
  "ETH_MMCITConfig hw ETH_MMC_IT NewState h =
     (if ETH_MMC_IT AND 0x10000000 \<noteq> 0 then mask32 hw ETH_MMCRIMR (ETH_MMC_IT AND 0xEFFFFFFF) NewState h
      else mask32 hw ETH_MMCTIMR ETH_MMC_IT NewState h)"

text \<open>The second operand of \<open>&&\<close> is read only if the first is true; both branches test the receive mask
  register.\<close>

definition ETH_GetMMCITStatus :: "'h mmio \<Rightarrow> u32 \<Rightarrow> 'h \<Rightarrow> FlagStatus \<times> 'h" where
  "ETH_GetMMCITStatus hw ETH_MMC_IT h =
     (let (st, h) = flag32 hw (if ETH_MMC_IT AND 0x10000000 \<noteq> 0 then ETH_MMCRIR else ETH_MMCTIR) ETH_MMC_IT h
      in if st = SET then flag32 hw ETH_MMCRIMR ETH_MMC_IT h else (RESET, h))"

definition ETH_GetMMCRegister :: "'h mmio \<Rightarrow> u32 \<Rightarrow> 'h \<Rightarrow> u32 \<times> 'h" where
  "ETH_GetMMCRegister hw ETH_MMCReg = rd32 hw (ETH_MAC_BASE + ETH_MMCReg)"

section \<open>Time stamps\<close>

definition ETH_EnablePTPTimeStampAddend :: "'h mmio \<Rightarrow> 'h \<Rightarrow> 'h" where
  "ETH_EnablePTPTimeStampAddend hw = or32 hw ETH_PTPTSCR ETH_PTPTSCR_TSARU"

definition ETH_EnablePTPTimeStampInterruptTrigger :: "'h mmio \<Rightarrow> 'h \<Rightarrow> 'h" where
  "ETH_EnablePTPTimeStampInterruptTrigger hw = or32 hw ETH_PTPTSCR ETH_PTPTSCR_TSITE"

definition ETH_EnablePTPTimeStampUpdate :: "'h mmio \<Rightarrow> 'h \<Rightarrow> 'h" where
  "ETH_EnablePTPTimeStampUpdate hw = or32 hw ETH_PTPTSCR ETH_PTPTSCR_TSSTU"

definition ETH_InitializePTPTimeStamp :: "'h mmio \<Rightarrow> 'h \<Rightarrow> 'h" where
  "ETH_InitializePTPTimeStamp hw = or32 hw ETH_PTPTSCR ETH_PTPTSCR_TSSTI"

definition ETH_PTPUpdateMethodConfig :: "'h mmio \<Rightarrow> u32 \<Rightarrow> 'h \<Rightarrow> 'h" where
  "ETH_PTPUpdateMethodConfig hw UpdateMethod h =
     (if UpdateMethod \<noteq> ETH_PTP_CoarseUpdate then or32 hw ETH_PTPTSCR ETH_PTPTSCR_TSFCU h
      else and32 hw ETH_PTPTSCR (NOT ETH_PTPTSCR_TSFCU) h)"

definition ETH_PTPTimeStampCmd :: "'h mmio \<Rightarrow> FunctionalState \<Rightarrow> 'h \<Rightarrow> 'h" where
  "ETH_PTPTimeStampCmd hw = cmd32 hw ETH_PTPTSCR ETH_PTPTSCR_TSE"

definition ETH_GetPTPFlagStatus :: "'h mmio \<Rightarrow> u32 \<Rightarrow> 'h \<Rightarrow> FlagStatus \<times> 'h" where
  "ETH_GetPTPFlagStatus hw ETH_PTP_FLAG = flag32 hw ETH_PTPTSCR ETH_PTP_FLAG"

definition ETH_SetPTPSubSecondIncrement :: "'h mmio \<Rightarrow> u32 \<Rightarrow> 'h \<Rightarrow> 'h" where
  "ETH_SetPTPSubSecondIncrement hw SubSecondValue = wr32 hw ETH_PTPSSIR SubSecondValue"

definition ETH_SetPTPTimeStampUpdate :: "'h mmio \<Rightarrow> u32 \<Rightarrow> u32 \<Rightarrow> u32 \<Rightarrow> 'h \<Rightarrow> 'h" where
  "ETH_SetPTPTimeStampUpdate hw Sign SecondValue SubSecondValue h =
     wr32 hw ETH_PTPTSLUR (Sign OR SubSecondValue) (wr32 hw ETH_PTPTSHUR SecondValue h)"

definition ETH_SetPTPTimeStampAddend :: "'h mmio \<Rightarrow> u32 \<Rightarrow> 'h \<Rightarrow> 'h" where
  "ETH_SetPTPTimeStampAddend hw Value = wr32 hw ETH_PTPTSAR Value"

definition ETH_SetPTPTargetTime :: "'h mmio \<Rightarrow> u32 \<Rightarrow> u32 \<Rightarrow> 'h \<Rightarrow> 'h" where
  "ETH_SetPTPTargetTime hw HighValue LowValue h = wr32 hw ETH_PTPTTLR LowValue (wr32 hw ETH_PTPTTHR HighValue h)"

definition ETH_GetPTPRegister :: "'h mmio \<Rightarrow> u32 \<Rightarrow> 'h \<Rightarrow> u32 \<times> 'h" where
  "ETH_GetPTPRegister hw ETH_PTPReg = rd32 hw (ETH_MAC_BASE + ETH_PTPReg)"

end
