(* ===== verification/EthDma.thy ===== *)
theory EthDma
  imports EthMac
begin

text \<open>
  The Ethernet MAC driver \<open>stm32_eth.c\<close>, part 2: the DMA descriptors in memory and the functions that send and
  receive frames through them, together with the three functions of the lwIP port \<open>ethernetif.c\<close> that do the
  same in chain mode. A descriptor is given by its address; its four words and the frame buffers are reached
  over the bus parameter \<open>hw\<close>, where the DMA may change them between two accesses.

  What the receive path relies on is the locale \<open>rx_memory\<close>: descriptors are memory, the DMA leaves a
  descriptor alone that the processor owns, and it never changes the addresses in a descriptor.
\<close>

unbundle bit_operations_syntax

section \<open>Descriptors\<close>

text \<open>The pointers that the driver keeps, and the words of a descriptor.\<close>

record 'h eth =
  eth_dev :: 'h
  DMATxDescToSet :: u32
  DMARxDescToGet :: u32
  DMAPTPTxDescToSet :: u32
  DMAPTPRxDescToGet :: u32

definition Status :: "u32 \<Rightarrow> u32" where [simp]: "Status d = d"
definition ControlBufferSize :: "u32 \<Rightarrow> u32" where [simp]: "ControlBufferSize d = d + 4"
definition Buffer1Addr :: "u32 \<Rightarrow> u32" where [simp]: "Buffer1Addr d = d + 8"
definition Buffer2NextDescAddr :: "u32 \<Rightarrow> u32" where [simp]: "Buffer2NextDescAddr d = d + 12"

text \<open>A statement on the hardware part of the state.\<close>

definition on_dev :: "('h \<Rightarrow> 'h) \<Rightarrow> 'h eth \<Rightarrow> 'h eth" where
  "on_dev f s = s\<lparr>eth_dev := f (eth_dev s)\<rparr>"

definition get_dev :: "('h \<Rightarrow> 'a \<times> 'h) \<Rightarrow> 'h eth \<Rightarrow> 'a \<times> 'h eth" where
  "get_dev f s = (let (x, h) = f (eth_dev s) in (x, s\<lparr>eth_dev := h\<rparr>))"

text \<open>The address of the next descriptor of a chain of \<open>n\<close> at \<open>tab\<close>.\<close>

definition chain_next :: "u32 \<Rightarrow> u32 \<Rightarrow> u32 \<Rightarrow> u32" where
  "chain_next tab n i = (if i < n - 1 then tab + 16 * (i + 1) else tab)"

section \<open>Transmit descriptors\<close>

definition tx_chain_desc :: "'h mmio \<Rightarrow> u32 \<Rightarrow> u32 \<Rightarrow> u32 \<Rightarrow> nat \<Rightarrow> 'h \<Rightarrow> 'h" where
  "tx_chain_desc hw tab TxBuff n i h =
     (let d = tab + 16 * of_nat i;
          h = wr32 hw (Status d) ETH_DMATxDesc_TCH h;
          h = wr32 hw (Buffer1Addr d) (TxBuff + of_nat i * ETH_MAX_PACKET_SIZE) h
      in wr32 hw (Buffer2NextDescAddr d) (chain_next tab n (of_nat i)) h)"

definition ETH_DMATxDescChainInit :: "'h mmio \<Rightarrow> u32 \<Rightarrow> u32 \<Rightarrow> u32 \<Rightarrow> 'h eth \<Rightarrow> 'h eth" where
  "ETH_DMATxDescChainInit hw DMATxDescTab TxBuff TxBuffCount s =
     on_dev (\<lambda>h. wr32 hw ETH_DMATDLAR DMATxDescTab
                  (fold (tx_chain_desc hw DMATxDescTab TxBuff TxBuffCount) [0..<unat TxBuffCount] h))
       (s\<lparr>DMATxDescToSet := DMATxDescTab\<rparr>)"

definition tx_ring_desc :: "'h mmio \<Rightarrow> u32 \<Rightarrow> u32 \<Rightarrow> u32 \<Rightarrow> u32 \<Rightarrow> nat \<Rightarrow> 'h \<Rightarrow> 'h" where
  "tx_ring_desc hw tab TxBuff1 TxBuff2 n i h =
     (let d = tab + 16 * of_nat i;
          h = wr32 hw (Buffer1Addr d) (TxBuff1 + of_nat i * ETH_MAX_PACKET_SIZE) h;
          h = wr32 hw (Buffer2NextDescAddr d) (TxBuff2 + of_nat i * ETH_MAX_PACKET_SIZE) h
      in if of_nat i = n - 1 then wr32 hw (Status d) ETH_DMATxDesc_TER h else h)"

definition ETH_DMATxDescRingInit :: "'h mmio \<Rightarrow> u32 \<Rightarrow> u32 \<Rightarrow> u32 \<Rightarrow> u32 \<Rightarrow> 'h eth \<Rightarrow> 'h eth" where
  "ETH_DMATxDescRingInit hw DMATxDescTab TxBuff1 TxBuff2 TxBuffCount s =
     on_dev (\<lambda>h. wr32 hw ETH_DMATDLAR DMATxDescTab
                  (fold (tx_ring_desc hw DMATxDescTab TxBuff1 TxBuff2 TxBuffCount) [0..<unat TxBuffCount] h))
       (s\<lparr>DMATxDescToSet := DMATxDescTab\<rparr>)"

definition ETH_GetDMATxDescFlagStatus :: "'h mmio \<Rightarrow> u32 \<Rightarrow> u32 \<Rightarrow> 'h \<Rightarrow> FlagStatus \<times> 'h" where
  "ETH_GetDMATxDescFlagStatus hw DMATxDesc ETH_DMATxDescFlag = flag32 hw (Status DMATxDesc) ETH_DMATxDescFlag"

definition ETH_GetDMATxDescCollisionCount :: "'h mmio \<Rightarrow> u32 \<Rightarrow> 'h \<Rightarrow> u32 \<times> 'h" where
  "ETH_GetDMATxDescCollisionCount hw DMATxDesc =
     field32 hw (Status DMATxDesc) ETH_DMATxDesc_CC ETH_DMATXDESC_COLLISION_COUNTSHIFT"

definition ETH_SetDMATxDescOwnBit :: "'h mmio \<Rightarrow> u32 \<Rightarrow> 'h \<Rightarrow> 'h" where
  "ETH_SetDMATxDescOwnBit hw DMATxDesc = or32 hw (Status DMATxDesc) ETH_DMATxDesc_OWN"

definition ETH_DMATxDescTransmitITConfig :: "'h mmio \<Rightarrow> u32 \<Rightarrow> FunctionalState \<Rightarrow> 'h \<Rightarrow> 'h" where
  "ETH_DMATxDescTransmitITConfig hw DMATxDesc = cmd32 hw (Status DMATxDesc) ETH_DMATxDesc_IC"

definition ETH_DMATxDescFrameSegmentConfig :: "'h mmio \<Rightarrow> u32 \<Rightarrow> u32 \<Rightarrow> 'h \<Rightarrow> 'h" where
  "ETH_DMATxDescFrameSegmentConfig hw DMATxDesc DMATxDesc_FrameSegment = or32 hw (Status DMATxDesc) DMATxDesc_FrameSegment"

definition ETH_DMATxDescChecksumInsertionConfig :: "'h mmio \<Rightarrow> u32 \<Rightarrow> u32 \<Rightarrow> 'h \<Rightarrow> 'h" where
  "ETH_DMATxDescChecksumInsertionConfig hw DMATxDesc DMATxDesc_Checksum = or32 hw (Status DMATxDesc) DMATxDesc_Checksum"

definition ETH_DMATxDescCRCCmd :: "'h mmio \<Rightarrow> u32 \<Rightarrow> FunctionalState \<Rightarrow> 'h \<Rightarrow> 'h" where
  "ETH_DMATxDescCRCCmd hw DMATxDesc = mask32 hw (Status DMATxDesc) ETH_DMATxDesc_DC"

definition ETH_DMATxDescEndOfRingCmd :: "'h mmio \<Rightarrow> u32 \<Rightarrow> FunctionalState \<Rightarrow> 'h \<Rightarrow> 'h" where
  "ETH_DMATxDescEndOfRingCmd hw DMATxDesc = cmd32 hw (Status DMATxDesc) ETH_DMATxDesc_TER"

definition ETH_DMATxDescSecondAddressChainedCmd :: "'h mmio \<Rightarrow> u32 \<Rightarrow> FunctionalState \<Rightarrow> 'h \<Rightarrow> 'h" where
  "ETH_DMATxDescSecondAddressChainedCmd hw DMATxDesc = cmd32 hw (Status DMATxDesc) ETH_DMATxDesc_TCH"

definition ETH_DMATxDescShortFramePaddingCmd :: "'h mmio \<Rightarrow> u32 \<Rightarrow> FunctionalState \<Rightarrow> 'h \<Rightarrow> 'h" where
  "ETH_DMATxDescShortFramePaddingCmd hw DMATxDesc = mask32 hw (Status DMATxDesc) ETH_DMATxDesc_DP"

definition ETH_DMATxDescTimeStampCmd :: "'h mmio \<Rightarrow> u32 \<Rightarrow> FunctionalState \<Rightarrow> 'h \<Rightarrow> 'h" where
  "ETH_DMATxDescTimeStampCmd hw DMATxDesc = cmd32 hw (Status DMATxDesc) ETH_DMATxDesc_TTSE"

definition ETH_DMATxDescBufferSizeConfig :: "'h mmio \<Rightarrow> u32 \<Rightarrow> u32 \<Rightarrow> u32 \<Rightarrow> 'h \<Rightarrow> 'h" where
  "ETH_DMATxDescBufferSizeConfig hw DMATxDesc BufferSize1 BufferSize2 =
     or32 hw (ControlBufferSize DMATxDesc) (BufferSize1 OR push_bit ETH_DMATXDESC_BUFFER2_SIZESHIFT BufferSize2)"

section \<open>Receive descriptors\<close>

definition rx_chain_desc :: "'h mmio \<Rightarrow> u32 \<Rightarrow> u32 \<Rightarrow> u32 \<Rightarrow> nat \<Rightarrow> 'h \<Rightarrow> 'h" where
  "rx_chain_desc hw tab RxBuff n i h =
     (let d = tab + 16 * of_nat i;
          h = wr32 hw (Status d) ETH_DMARxDesc_OWN h;
          h = wr32 hw (ControlBufferSize d) (ETH_DMARxDesc_RCH OR ETH_MAX_PACKET_SIZE) h;
          h = wr32 hw (Buffer1Addr d) (RxBuff + of_nat i * ETH_MAX_PACKET_SIZE) h
      in wr32 hw (Buffer2NextDescAddr d) (chain_next tab n (of_nat i)) h)"

definition ETH_DMARxDescChainInit :: "'h mmio \<Rightarrow> u32 \<Rightarrow> u32 \<Rightarrow> u32 \<Rightarrow> 'h eth \<Rightarrow> 'h eth" where
  "ETH_DMARxDescChainInit hw DMARxDescTab RxBuff RxBuffCount s =
     on_dev (\<lambda>h. wr32 hw ETH_DMARDLAR DMARxDescTab
                  (fold (rx_chain_desc hw DMARxDescTab RxBuff RxBuffCount) [0..<unat RxBuffCount] h))
       (s\<lparr>DMARxDescToGet := DMARxDescTab\<rparr>)"

definition rx_ring_desc :: "'h mmio \<Rightarrow> u32 \<Rightarrow> u32 \<Rightarrow> u32 \<Rightarrow> u32 \<Rightarrow> nat \<Rightarrow> 'h \<Rightarrow> 'h" where
  "rx_ring_desc hw tab RxBuff1 RxBuff2 n i h =
     (let d = tab + 16 * of_nat i;
          h = wr32 hw (Status d) ETH_DMARxDesc_OWN h;
          h = wr32 hw (ControlBufferSize d) ETH_MAX_PACKET_SIZE h;
          h = wr32 hw (Buffer1Addr d) (RxBuff1 + of_nat i * ETH_MAX_PACKET_SIZE) h;
          h = wr32 hw (Buffer2NextDescAddr d) (RxBuff2 + of_nat i * ETH_MAX_PACKET_SIZE) h
      in if of_nat i = n - 1 then or32 hw (ControlBufferSize d) ETH_DMARxDesc_RER h else h)"

definition ETH_DMARxDescRingInit :: "'h mmio \<Rightarrow> u32 \<Rightarrow> u32 \<Rightarrow> u32 \<Rightarrow> u32 \<Rightarrow> 'h eth \<Rightarrow> 'h eth" where
  "ETH_DMARxDescRingInit hw DMARxDescTab RxBuff1 RxBuff2 RxBuffCount s =
     on_dev (\<lambda>h. wr32 hw ETH_DMARDLAR DMARxDescTab
                  (fold (rx_ring_desc hw DMARxDescTab RxBuff1 RxBuff2 RxBuffCount) [0..<unat RxBuffCount] h))
       (s\<lparr>DMARxDescToGet := DMARxDescTab\<rparr>)"

definition ETH_GetDMARxDescFlagStatus :: "'h mmio \<Rightarrow> u32 \<Rightarrow> u32 \<Rightarrow> 'h \<Rightarrow> FlagStatus \<times> 'h" where
  "ETH_GetDMARxDescFlagStatus hw DMARxDesc ETH_DMARxDescFlag = flag32 hw (Status DMARxDesc) ETH_DMARxDescFlag"

definition ETH_SetDMARxDescOwnBit :: "'h mmio \<Rightarrow> u32 \<Rightarrow> 'h \<Rightarrow> 'h" where
  "ETH_SetDMARxDescOwnBit hw DMARxDesc = or32 hw (Status DMARxDesc) ETH_DMARxDesc_OWN"

definition ETH_GetDMARxDescFrameLength :: "'h mmio \<Rightarrow> u32 \<Rightarrow> 'h \<Rightarrow> u32 \<times> 'h" where
  "ETH_GetDMARxDescFrameLength hw DMARxDesc =
     field32 hw (Status DMARxDesc) ETH_DMARxDesc_FL ETH_DMARXDESC_FRAME_LENGTHSHIFT"

definition ETH_DMARxDescReceiveITConfig :: "'h mmio \<Rightarrow> u32 \<Rightarrow> FunctionalState \<Rightarrow> 'h \<Rightarrow> 'h" where
  "ETH_DMARxDescReceiveITConfig hw DMARxDesc = mask32 hw (ControlBufferSize DMARxDesc) ETH_DMARxDesc_DIC"

definition ETH_DMARxDescEndOfRingCmd :: "'h mmio \<Rightarrow> u32 \<Rightarrow> FunctionalState \<Rightarrow> 'h \<Rightarrow> 'h" where
  "ETH_DMARxDescEndOfRingCmd hw DMARxDesc = cmd32 hw (ControlBufferSize DMARxDesc) ETH_DMARxDesc_RER"

definition ETH_DMARxDescSecondAddressChainedCmd :: "'h mmio \<Rightarrow> u32 \<Rightarrow> FunctionalState \<Rightarrow> 'h \<Rightarrow> 'h" where
  "ETH_DMARxDescSecondAddressChainedCmd hw DMARxDesc = cmd32 hw (ControlBufferSize DMARxDesc) ETH_DMARxDesc_RCH"

definition ETH_GetDMARxDescBufferSize :: "'h mmio \<Rightarrow> u32 \<Rightarrow> u32 \<Rightarrow> 'h \<Rightarrow> u32 \<times> 'h" where
  "ETH_GetDMARxDescBufferSize hw DMARxDesc DMARxDesc_Buffer =
     (if DMARxDesc_Buffer \<noteq> ETH_DMARxDesc_Buffer1
      then field32 hw (ControlBufferSize DMARxDesc) ETH_DMARxDesc_RBS2 ETH_DMARXDESC_BUFFER2_SIZESHIFT
      else field32 hw (ControlBufferSize DMARxDesc) ETH_DMARxDesc_RBS1 0)"

section \<open>Sending\<close>

text \<open>When the DMA has run out of buffers: acknowledge and resume.\<close>

definition resume_tx :: "'h mmio \<Rightarrow> 'h \<Rightarrow> 'h" where
  "resume_tx hw h =
     (let (tbus, h) = flag32 hw ETH_DMASR ETH_DMASR_TBUS h
      in if tbus = SET then wr32 hw ETH_DMATPDR 0 (wr32 hw ETH_DMASR ETH_DMASR_TBUS h) else h)"

definition resume_rx :: "'h mmio \<Rightarrow> 'h \<Rightarrow> 'h" where
  "resume_rx hw h =
     (let (rbus, h) = flag32 hw ETH_DMASR ETH_DMASR_RBUS h
      in if rbus = SET then wr32 hw ETH_DMARPDR 0 (wr32 hw ETH_DMASR ETH_DMASR_RBUS h) else h)"

text \<open>Hand the current transmit descriptor to the DMA.\<close>

definition tx_submit :: "'h mmio \<Rightarrow> u32 \<Rightarrow> u32 \<Rightarrow> 'h \<Rightarrow> 'h" where
  "tx_submit hw d sz h =
     (let h = wr32 hw (ControlBufferSize d) sz h;
          h = or32 hw (Status d) (ETH_DMATxDesc_LS OR ETH_DMATxDesc_FS) h;
          h = or32 hw (Status d) ETH_DMATxDesc_OWN h
      in resume_tx hw h)"

text \<open>The step to the next descriptor where there is no chain: the start of the list after the end of the ring,
  and the next address otherwise.\<close>

definition ring_step :: "'h mmio \<Rightarrow> u32 \<Rightarrow> u32 \<Rightarrow> u32 \<Rightarrow> u32 \<Rightarrow> 'h \<Rightarrow> u32 \<times> 'h" where
  "ring_step hw ctrl last_bit list_reg d h =
     (let (eor, h) = flag32 hw ctrl last_bit h in
      if eor = SET then rd32 hw list_reg h
      else let (v, h) = field32 hw ETH_DMABMR ETH_DMABMR_DSL 2 h in (d + 0x10 + v, h))"

definition next_tx :: "'h mmio \<Rightarrow> u32 \<Rightarrow> 'h \<Rightarrow> u32 \<times> 'h" where
  "next_tx hw d h =
     (let (chained, h) = flag32 hw (Status d) ETH_DMATxDesc_TCH h in
      if chained = SET then rd32 hw (Buffer2NextDescAddr d) h
      else ring_step hw (Status d) ETH_DMATxDesc_TER ETH_DMATDLAR d h)"

definition next_rx :: "'h mmio \<Rightarrow> u32 \<Rightarrow> 'h \<Rightarrow> u32 \<times> 'h" where
  "next_rx hw d h =
     (let (chained, h) = flag32 hw (ControlBufferSize d) ETH_DMARxDesc_RCH h in
      if chained = SET then rd32 hw (Buffer2NextDescAddr d) h
      else ring_step hw (ControlBufferSize d) ETH_DMARxDesc_RER ETH_DMARDLAR d h)"

text \<open>Bytes are copied one by one, and the address of the buffer is read for each.\<close>

definition put_frame :: "'h mmio \<Rightarrow> u32 \<Rightarrow> (nat \<Rightarrow> u8) \<Rightarrow> nat \<Rightarrow> 'h \<Rightarrow> 'h" where
  "put_frame hw d ppkt n h =
     fold (\<lambda>i h. let (a, h) = rd32 hw (Buffer1Addr d) h in wr8 hw (a + of_nat i) (ppkt i) h) [0..<n] h"

definition get_frame :: "'h mmio \<Rightarrow> u32 \<Rightarrow> nat \<Rightarrow> 'h \<Rightarrow> u8 list \<times> 'h" where
  "get_frame hw d n h =
     fold (\<lambda>i (bs, h). let (a, h) = rd32 hw (Buffer1Addr d) h in (bs @ [ld8 hw (a + of_nat i) h], h)) [0..<n] ([], h)"

definition ETH_HandleTxPkt :: "'h mmio \<Rightarrow> (nat \<Rightarrow> u8) \<Rightarrow> u16 \<Rightarrow> 'h eth \<Rightarrow> u32 \<times> 'h eth" where
  "ETH_HandleTxPkt hw ppkt FrameLength s =
     (let d = DMATxDescToSet s;
          (own, h) = flag32 hw (Status d) ETH_DMATxDesc_OWN (eth_dev s)
      in if own = SET then (ETH_ERROR, s\<lparr>eth_dev := h\<rparr>)
         else
           let h = put_frame hw d ppkt (unat FrameLength) h;
               h = tx_submit hw d (ucast FrameLength AND ETH_DMATxDesc_TBS1) h;
               (d', h) = next_tx hw d h
           in (ETH_SUCCESS, s\<lparr>eth_dev := h, DMATxDescToSet := d'\<rparr>))"

definition ETH_TxPkt_ChainMode :: "'h mmio \<Rightarrow> u16 \<Rightarrow> 'h eth \<Rightarrow> u32 \<times> 'h eth" where
  "ETH_TxPkt_ChainMode hw FrameLength s =
     (let d = DMATxDescToSet s;
          (own, h) = flag32 hw (Status d) ETH_DMATxDesc_OWN (eth_dev s)
      in if own = SET then (ETH_ERROR, s\<lparr>eth_dev := h\<rparr>)
         else
           let h = tx_submit hw d (ucast FrameLength AND ETH_DMATxDesc_TBS1) h;
               (d', h) = rd32 hw (Buffer2NextDescAddr d) h
           in (ETH_SUCCESS, s\<lparr>eth_dev := h, DMATxDescToSet := d'\<rparr>))"

definition ETH_GetCurrentTxBuffer :: "'h mmio \<Rightarrow> 'h eth \<Rightarrow> u32 \<times> 'h eth" where
  "ETH_GetCurrentTxBuffer hw s = get_dev (rd32 hw (Buffer1Addr (DMATxDescToSet s))) s"

section \<open>Receiving\<close>

text \<open>The test for a whole frame without an error; each condition is a read of the status and the later ones
  are not read when an earlier one fails.\<close>

definition rx_good :: "'h mmio \<Rightarrow> u32 \<Rightarrow> 'h \<Rightarrow> bool \<times> 'h" where
  "rx_good hw d h =
     (let (es, h) = flag32 hw (Status d) ETH_DMARxDesc_ES h in
      if es = SET then (False, h)
      else
        let (ls, h) = flag32 hw (Status d) ETH_DMARxDesc_LS h in
        if ls = RESET then (False, h)
        else let (fs, h) = flag32 hw (Status d) ETH_DMARxDesc_FS h in (fs = SET, h))"

definition ETH_HandleRxPkt :: "'h mmio \<Rightarrow> 'h eth \<Rightarrow> u32 \<times> u8 list \<times> 'h eth" where
  "ETH_HandleRxPkt hw s =
     (let d = DMARxDescToGet s;
          (own, h) = flag32 hw (Status d) ETH_DMARxDesc_OWN (eth_dev s)
      in if own = SET then (ETH_ERROR, [], s\<lparr>eth_dev := h\<rparr>)
         else
           let (good, h) = rx_good hw d h;
               (framelength, bs, h) =
                 (if good then
                    let (fl, h) = ETH_GetDMARxDescFrameLength hw d h;
                        (bs, h) = get_frame hw d (unat (fl - 4)) h
                    in (fl - 4, bs, h)
                  else (ETH_ERROR, [], h));
               h = wr32 hw (Status d) ETH_DMARxDesc_OWN h;
               h = resume_rx hw h;
               (d', h) = next_rx hw d h
           in (framelength, bs, s\<lparr>eth_dev := h, DMARxDescToGet := d'\<rparr>))"

definition ETH_GetRxPktSize :: "'h mmio \<Rightarrow> 'h eth \<Rightarrow> u32 \<times> 'h eth" where
  "ETH_GetRxPktSize hw s =
     (let d = DMARxDescToGet s;
          (own, h) = flag32 hw (Status d) ETH_DMARxDesc_OWN (eth_dev s)
      in if own = SET then (0, s\<lparr>eth_dev := h\<rparr>)
         else
           let (good, h) = rx_good hw d h in
           if good then let (fl, h) = ETH_GetDMARxDescFrameLength hw d h in (fl, s\<lparr>eth_dev := h\<rparr>)
           else (0, s\<lparr>eth_dev := h\<rparr>))"

definition ETH_DropRxPkt :: "'h mmio \<Rightarrow> 'h eth \<Rightarrow> 'h eth" where
  "ETH_DropRxPkt hw s =
     (let d = DMARxDescToGet s;
          h = wr32 hw (Status d) ETH_DMARxDesc_OWN (eth_dev s);
          (d', h) = next_rx hw d h
      in s\<lparr>eth_dev := h, DMARxDescToGet := d'\<rparr>)"

text \<open>The result of the chain mode: length, buffer and descriptor. A frame that is not there leaves the
  descriptor null.\<close>

record FrameTypeDef =
  f_length :: u32
  f_buffer :: u32
  f_descriptor :: "u32 option"

definition ETH_RxPkt_ChainMode :: "'h mmio \<Rightarrow> 'h eth \<Rightarrow> FrameTypeDef \<times> 'h eth" where
  "ETH_RxPkt_ChainMode hw s =
     (let d = DMARxDescToGet s;
          (own, h) = flag32 hw (Status d) ETH_DMARxDesc_OWN (eth_dev s)
      in if own = SET then
           (\<lparr>f_length = ETH_ERROR, f_buffer = 0, f_descriptor = None\<rparr>, s\<lparr>eth_dev := resume_rx hw h\<rparr>)
         else
           let (good, h) = rx_good hw d h;
               (framelength, buffer, h) =
                 (if good then
                    let (fl, h) = field32 hw (Status d) ETH_DMARxDesc_FL ETH_DMARXDESC_FRAME_LENGTHSHIFT h;
                        (b, h) = rd32 hw (Buffer1Addr d) h
                    in (fl - 4, b, h)
                  else (ETH_ERROR, 0, h));
               (d', h) = rd32 hw (Buffer2NextDescAddr d) h
           in (\<lparr>f_length = framelength, f_buffer = buffer, f_descriptor = Some d\<rparr>,
               s\<lparr>eth_dev := h, DMARxDescToGet := d'\<rparr>))"

section \<open>Time-stamped frames\<close>

text \<open>A second table keeps the addresses that the DMA overwrites with time stamps; the status of its last entry
  is the address of its first.\<close>

definition ptp_copy :: "'h mmio \<Rightarrow> u32 \<Rightarrow> u32 \<Rightarrow> 'h \<Rightarrow> 'h" where
  "ptp_copy hw d p h =
     (let (a, h) = rd32 hw (Buffer1Addr d) h;
          h = wr32 hw (Buffer1Addr p) a h;
          (b, h) = rd32 hw (Buffer2NextDescAddr d) h
      in wr32 hw (Buffer2NextDescAddr p) b h)"

definition tx_ptp_desc :: "'h mmio \<Rightarrow> u32 \<Rightarrow> u32 \<Rightarrow> u32 \<Rightarrow> u32 \<Rightarrow> nat \<Rightarrow> 'h \<Rightarrow> 'h" where
  "tx_ptp_desc hw tab ptab TxBuff n i h =
     (let d = tab + 16 * of_nat i;
          h = wr32 hw (Status d) (ETH_DMATxDesc_TCH OR ETH_DMATxDesc_TTSE) h;
          h = wr32 hw (Buffer1Addr d) (TxBuff + of_nat i * ETH_MAX_PACKET_SIZE) h;
          h = wr32 hw (Buffer2NextDescAddr d) (chain_next tab n (of_nat i)) h
      in ptp_copy hw d (ptab + 16 * of_nat i) h)"

definition ETH_DMAPTPTxDescChainInit :: "'h mmio \<Rightarrow> u32 \<Rightarrow> u32 \<Rightarrow> u32 \<Rightarrow> u32 \<Rightarrow> 'h eth \<Rightarrow> 'h eth" where
  "ETH_DMAPTPTxDescChainInit hw DMATxDescTab DMAPTPTxDescTab TxBuff TxBuffCount s =
     on_dev (\<lambda>h. let h = fold (tx_ptp_desc hw DMATxDescTab DMAPTPTxDescTab TxBuff TxBuffCount) [0..<unat TxBuffCount] h;
                     h = wr32 hw (Status (DMAPTPTxDescTab + 16 * (TxBuffCount - 1))) DMAPTPTxDescTab h
                 in wr32 hw ETH_DMATDLAR DMATxDescTab h)
       (s\<lparr>DMATxDescToSet := DMATxDescTab, DMAPTPTxDescToSet := DMAPTPTxDescTab\<rparr>)"

definition rx_ptp_desc :: "'h mmio \<Rightarrow> u32 \<Rightarrow> u32 \<Rightarrow> u32 \<Rightarrow> u32 \<Rightarrow> nat \<Rightarrow> 'h \<Rightarrow> 'h" where
  "rx_ptp_desc hw tab ptab RxBuff n i h =
     ptp_copy hw (tab + 16 * of_nat i) (ptab + 16 * of_nat i) (rx_chain_desc hw tab RxBuff n i h)"

definition ETH_DMAPTPRxDescChainInit :: "'h mmio \<Rightarrow> u32 \<Rightarrow> u32 \<Rightarrow> u32 \<Rightarrow> u32 \<Rightarrow> 'h eth \<Rightarrow> 'h eth" where
  "ETH_DMAPTPRxDescChainInit hw DMARxDescTab DMAPTPRxDescTab RxBuff RxBuffCount s =
     on_dev (\<lambda>h. let h = fold (rx_ptp_desc hw DMARxDescTab DMAPTPRxDescTab RxBuff RxBuffCount) [0..<unat RxBuffCount] h;
                     h = wr32 hw (Status (DMAPTPRxDescTab + 16 * (RxBuffCount - 1))) DMAPTPRxDescTab h
                 in wr32 hw ETH_DMARDLAR DMARxDescTab h)
       (s\<lparr>DMARxDescToGet := DMARxDescTab, DMAPTPRxDescToGet := DMAPTPRxDescTab\<rparr>)"

text \<open>The step in the second table.\<close>

definition ptp_step :: "'h mmio \<Rightarrow> u32 \<Rightarrow> 'h \<Rightarrow> u32 \<times> 'h" where
  "ptp_step hw p h =
     (let (v, h) = rd32 hw (Status p) h in
      if v \<noteq> 0 then rd32 hw (Status p) h else (p + 16, h))"

text \<open>The wait for the time stamp, by what is missing to its limit.\<close>

fun ttss_wait :: "'h mmio \<Rightarrow> u32 \<Rightarrow> nat \<Rightarrow> 'h \<Rightarrow> nat \<times> 'h" where
  "ttss_wait hw d 0 h = (0, h)"
| "ttss_wait hw d (Suc n) h =
     (let (ttss, h) = flag32 hw (Status d) ETH_DMATxDesc_TTSS h
      in if ttss = RESET then ttss_wait hw d n h else (n, h))"

definition ptp_next_tx :: "'h mmio \<Rightarrow> u32 \<Rightarrow> u32 \<Rightarrow> 'h \<Rightarrow> u32 \<times> u32 \<times> 'h" where
  "ptp_next_tx hw d p h =
     (let (chained, h) = flag32 hw (Status d) ETH_DMATxDesc_TCH h in
      if chained = SET then
        let (d', h) = rd32 hw (Buffer2NextDescAddr p) h; (p', h) = ptp_step hw p h in (d', p', h)
      else
        let (eor, h) = flag32 hw (Status d) ETH_DMATxDesc_TER h in
        if eor = SET then
          let (d', h) = rd32 hw ETH_DMATDLAR h; (p', h) = rd32 hw ETH_DMATDLAR h in (d', p', h)
        else
          let (v, h) = field32 hw ETH_DMABMR ETH_DMABMR_DSL 2 h;
              (w, h) = field32 hw ETH_DMABMR ETH_DMABMR_DSL 2 h
          in (d + 0x10 + v, p + 0x10 + w, h))"

definition ETH_HandlePTPTxPkt :: "'h mmio \<Rightarrow> (nat \<Rightarrow> u8) \<Rightarrow> u16 \<Rightarrow> 'h eth \<Rightarrow> u32 \<times> (u32 \<times> u32) option \<times> 'h eth" where
  "ETH_HandlePTPTxPkt hw ppkt FrameLength s =
     (let d = DMATxDescToSet s; p = DMAPTPTxDescToSet s;
          (own, h) = flag32 hw (Status d) ETH_DMATxDesc_OWN (eth_dev s)
      in if own = SET then (ETH_ERROR, None, s\<lparr>eth_dev := h\<rparr>)
         else
           let h = put_frame hw p ppkt (unat FrameLength) h;
               h = tx_submit hw d (ucast FrameLength AND 0x1FFF) h;
               (left, h) = ttss_wait hw d 0xFFFF h
           in if 0xFFFF - of_nat left = PHY_READ_TO then (ETH_ERROR, None, s\<lparr>eth_dev := h\<rparr>)
              else
                let h = and32 hw (Status d) (NOT ETH_DMATxDesc_TTSS) h;
                    (lo, h) = rd32 hw (Buffer1Addr d) h;
                    (hi, h) = rd32 hw (Buffer2NextDescAddr d) h;
                    (d', p', h) = ptp_next_tx hw d p h
                in (ETH_SUCCESS, Some (lo, hi), s\<lparr>eth_dev := h, DMATxDescToSet := d', DMAPTPTxDescToSet := p'\<rparr>))"

definition ptp_next_rx :: "'h mmio \<Rightarrow> u32 \<Rightarrow> u32 \<Rightarrow> 'h \<Rightarrow> u32 \<times> u32 \<times> 'h" where
  "ptp_next_rx hw d p h =
     (let (chained, h) = flag32 hw (ControlBufferSize d) ETH_DMARxDesc_RCH h in
      if chained = SET then
        let (d', h) = rd32 hw (Buffer2NextDescAddr p) h; (p', h) = ptp_step hw p h in (d', p', h)
      else
        let (d', h) = ring_step hw (ControlBufferSize d) ETH_DMARxDesc_RER ETH_DMARDLAR d h in (d', p, h))"

definition ETH_HandlePTPRxPkt :: "'h mmio \<Rightarrow> 'h eth \<Rightarrow> u32 \<times> u8 list \<times> (u32 \<times> u32) option \<times> 'h eth" where
  "ETH_HandlePTPRxPkt hw s =
     (let d = DMARxDescToGet s; p = DMAPTPRxDescToGet s;
          (own, h) = flag32 hw (Status d) ETH_DMARxDesc_OWN (eth_dev s)
      in if own = SET then (ETH_ERROR, [], None, s\<lparr>eth_dev := h\<rparr>)
         else
           let (good, h) = rx_good hw d h;
               (framelength, bs, h) =
                 (if good then
                    let (fl, h) = field32 hw (Status d) ETH_DMARxDesc_FL ETH_DMARXDESC_FRAME_LENGTHSHIFT h;
                        (bs, h) = get_frame hw p (unat (fl - 4)) h
                    in (fl - 4, bs, h)
                  else (ETH_ERROR, [], h));
               h = resume_rx hw h;
               (lo, h) = rd32 hw (Buffer1Addr d) h;
               (hi, h) = rd32 hw (Buffer2NextDescAddr d) h;
               h = or32 hw (Status d) ETH_DMARxDesc_OWN h;
               (d', p', h) = ptp_next_rx hw d p h
           in (framelength, bs, Some (lo, hi), s\<lparr>eth_dev := h, DMARxDescToGet := d', DMAPTPRxDescToGet := p'\<rparr>))"

section \<open>The memory of the receive descriptors\<close>

definition good_status :: "u32 \<Rightarrow> bool" where
  "good_status st \<longleftrightarrow> st AND ETH_DMARxDesc_ES = 0 \<and> st AND ETH_DMARxDesc_LS \<noteq> 0 \<and> st AND ETH_DMARxDesc_FS \<noteq> 0"

abbreviation cpu_owned :: "u32 \<Rightarrow> bool" where
  "cpu_owned st \<equiv> st AND ETH_DMARxDesc_OWN = 0"

definition frame_length :: "u32 \<Rightarrow> u32" where
  "frame_length st = drop_bit 16 (st AND ETH_DMARxDesc_FL)"

text \<open>From one state of the hardware to another, the descriptors in \<open>D\<close> keep their addresses, and those that the
  processor owns their status.\<close>

definition keeps :: "('h \<Rightarrow> u32 \<Rightarrow> u32) \<Rightarrow> u32 set \<Rightarrow> 'h \<Rightarrow> 'h \<Rightarrow> bool" where
  "keeps cont D h h' \<longleftrightarrow> (\<forall>d \<in> D. (\<forall>k \<in> {4, 8, 12}. cont h' (d + k) = cont h (d + k)) \<and> (cpu_owned (cont h d) \<longrightarrow> cont h' d = cont h d))"

lemma keeps_refl [simp]: "keeps cont D h h"
  by (simp add: keeps_def)

lemma keeps_trans [trans]: "keeps cont D h h' \<Longrightarrow> keeps cont D h' h'' \<Longrightarrow> keeps cont D h h''"
  by (simp add: keeps_def)

locale rx_memory =
  fixes hw :: "'h mmio" and cont :: "'h \<Rightarrow> u32 \<Rightarrow> u32" and D :: "u32 set"
  assumes rd_desc: "d \<in> D \<Longrightarrow> k \<in> {0, 4, 8, 12} \<Longrightarrow> fst (rd32 hw (d + k) h) = cont h (d + k)"
    and rd_keeps: "keeps cont D h (snd (rd32 hw r h))"
    and wr_addr: "d \<in> D \<Longrightarrow> k \<in> {4, 8, 12} \<Longrightarrow> cont (wr32 hw r x h) (d + k) = (if r = d + k then x else cont h (d + k))"
    and wr_owned: "d \<in> D \<Longrightarrow> cpu_owned (cont h d) \<Longrightarrow> r \<noteq> d \<Longrightarrow> cont (wr32 hw r x h) d = cont h d"
begin

lemma wr_keeps:
  assumes "\<And>d k. d \<in> D \<Longrightarrow> k \<in> {0, 4, 8, 12} \<Longrightarrow> r \<noteq> d + k"
  shows "keeps cont D h (wr32 hw r x h)"
  unfolding keeps_def using wr_addr wr_owned assms by (metis add.right_neutral insertCI)

lemma rd_descE:
  assumes "d \<in> D" "k \<in> {0, 4, 8, 12}"
  obtains h' where "rd32 hw (d + k) h = (cont h (d + k), h')" "keeps cont D h h'"
  using rd_desc [OF assms, of h] rd_keeps [of h "d + k"] by (metis prod.collapse)

lemma flag_descE:
  assumes "d \<in> D"
  obtains h' where "flag32 hw d m h = (if cont h d AND m \<noteq> 0 then SET else RESET, h')" "keeps cont D h h'"
proof -
  obtain h' where "rd32 hw (d + 0) h = (cont h (d + 0), h')" "keeps cont D h h'" by (rule rd_descE [OF assms insertI1])
  then show ?thesis using that by (simp add: flag32_def)
qed

lemma keeps_owned: "keeps cont D h h' \<Longrightarrow> d \<in> D \<Longrightarrow> cpu_owned (cont h d) \<Longrightarrow> cont h' d = cont h d"
  by (simp add: keeps_def)

lemma keeps_addr: "keeps cont D h h' \<Longrightarrow> d \<in> D \<Longrightarrow> k \<in> {4, 8, 12} \<Longrightarrow> cont h' (d + k) = cont h (d + k)"
  unfolding keeps_def by blast

lemma rx_good_keeps:
  assumes "d \<in> D" "cpu_owned (cont h d)"
  obtains h' where "rx_good hw d h = (good_status (cont h d), h')" "keeps cont D h h'"
proof -
  obtain h1 where 1: "flag32 hw d ETH_DMARxDesc_ES h = (if cont h d AND ETH_DMARxDesc_ES \<noteq> 0 then SET else RESET, h1)" "keeps cont D h h1"
    by (rule flag_descE [OF assms(1)])
  obtain h2 where 2: "flag32 hw d ETH_DMARxDesc_LS h1 = (if cont h1 d AND ETH_DMARxDesc_LS \<noteq> 0 then SET else RESET, h2)" "keeps cont D h1 h2"
    by (rule flag_descE [OF assms(1)])
  obtain h3 where 3: "flag32 hw d ETH_DMARxDesc_FS h2 = (if cont h2 d AND ETH_DMARxDesc_FS \<noteq> 0 then SET else RESET, h3)" "keeps cont D h2 h3"
    by (rule flag_descE [OF assms(1)])
  note k2 = keeps_trans [OF 1(2) 2(2)] and k3 = keeps_trans [OF keeps_trans [OF 1(2) 2(2)] 3(2)]
  note c1 = keeps_owned [OF 1(2) assms] and c2 = keeps_owned [OF k2 assms]
  consider "cont h d AND ETH_DMARxDesc_ES \<noteq> 0" | "cont h d AND ETH_DMARxDesc_ES = 0" "cont h d AND ETH_DMARxDesc_LS = 0"
    | "cont h d AND ETH_DMARxDesc_ES = 0" "cont h d AND ETH_DMARxDesc_LS \<noteq> 0" by argo
  then show ?thesis
  proof cases
    case 1
    then show ?thesis using \<open>flag32 hw d ETH_DMARxDesc_ES h = _\<close> \<open>keeps cont D h h1\<close> by (intro that [of h1]) (simp_all add: rx_good_def good_status_def)
  next
    case 2
    then show ?thesis using \<open>flag32 hw d ETH_DMARxDesc_ES h = _\<close> \<open>flag32 hw d ETH_DMARxDesc_LS h1 = _\<close> k2 c1
      by (intro that [of h2]) (simp_all add: rx_good_def good_status_def)
  next
    case 3
    then show ?thesis using \<open>flag32 hw d ETH_DMARxDesc_ES h = _\<close> \<open>flag32 hw d ETH_DMARxDesc_LS h1 = _\<close> \<open>flag32 hw d ETH_DMARxDesc_FS h2 = _\<close> k3 c1 c2
      by (intro that [of h3]) (simp_all add: rx_good_def good_status_def)
  qed
qed

lemma resume_rx_keeps:
  assumes "\<And>d k. d \<in> D \<Longrightarrow> k \<in> {0, 4, 8, 12} \<Longrightarrow> ETH_DMASR \<noteq> d + k"
    and "\<And>d k. d \<in> D \<Longrightarrow> k \<in> {0, 4, 8, 12} \<Longrightarrow> ETH_DMARPDR \<noteq> d + k"
  shows "keeps cont D h (resume_rx hw h)"
proof -
  have w: "keeps cont D h' (wr32 hw ETH_DMARPDR 0 (wr32 hw ETH_DMASR x h'))" for h' x
    by (rule keeps_trans [OF wr_keeps [OF assms(1)] wr_keeps [OF assms(2)]])
  show ?thesis using keeps_trans [OF rd_keeps w] rd_keeps by (simp add: resume_rx_def flag32_def Let_def case_prod_unfold)
qed

text \<open>Receiving from a descriptor that the processor owns.\<close>

lemma rx_owned:
  assumes d: "DMARxDescToGet s \<in> D" and own: "cpu_owned (cont (eth_dev s) (DMARxDescToGet s))"
  obtains h' where "ETH_RxPkt_ChainMode hw s =
      (let d = DMARxDescToGet s; st = cont (eth_dev s) d
       in (\<lparr>f_length = (if good_status st then frame_length st - 4 else 0),
            f_buffer = (if good_status st then cont (eth_dev s) (d + 8) else 0), f_descriptor = Some d\<rparr>,
           s\<lparr>eth_dev := h', DMARxDescToGet := cont (eth_dev s) (d + 12)\<rparr>))"
    and "keeps cont D (eth_dev s) h'"
proof -
  let ?d = "DMARxDescToGet s" and ?h = "eth_dev s"
  obtain h1 where 1: "flag32 hw ?d ETH_DMARxDesc_OWN ?h = (if cont ?h ?d AND ETH_DMARxDesc_OWN \<noteq> 0 then SET else RESET, h1)"
    "keeps cont D ?h h1" by (rule flag_descE [OF d])
  note o1 = keeps_owned [OF 1(2) d own]
  have own1: "cpu_owned (cont h1 ?d)" using own by (simp only: o1)
  obtain h2 where 2: "rx_good hw ?d h1 = (good_status (cont h1 ?d), h2)" "keeps cont D h1 h2" by (rule rx_good_keeps [OF d own1])
  note k2 = keeps_trans [OF 1(2) 2(2)]
  note o2 = keeps_owned [OF k2 d own] and a2 = keeps_addr [OF k2 d]
  obtain h3 where 3: "rd32 hw (?d + 0) h2 = (cont h2 (?d + 0), h3)" "keeps cont D h2 h3" by (rule rd_descE [OF d insertI1])
  note k3 = keeps_trans [OF k2 3(2)]
  have in8: "(8 :: u32) \<in> {0, 4, 8, 12}" and in12: "(12 :: u32) \<in> {0, 4, 8, 12}" by (intro insertI1 insertI2)+
  obtain h4 where 4: "rd32 hw (?d + 8) h3 = (cont h3 (?d + 8), h4)" "keeps cont D h3 h4" by (rule rd_descE [OF d in8])
  note k4 = keeps_trans [OF k3 4(2)]
  obtain h5 where 5: "rd32 hw (?d + 12) h4 = (cont h4 (?d + 12), h5)" "keeps cont D h4 h5" by (rule rd_descE [OF d in12])
  obtain h6 where 6: "rd32 hw (?d + 12) h2 = (cont h2 (?d + 12), h6)" "keeps cont D h2 h6" by (rule rd_descE [OF d in12])
  have a: "cont h3 (?d + 8) = cont ?h (?d + 8)" "cont h4 (?d + 12) = cont ?h (?d + 12)" "cont h2 (?d + 12) = cont ?h (?d + 12)"
    by (rule keeps_addr [OF k3 d] keeps_addr [OF k4 d] keeps_addr [OF k2 d]; intro insertI1 insertI2)+
  show ?thesis
  proof (cases "good_status (cont ?h ?d)")
    case True
    then show ?thesis using 1 2 3 4 5 own o1 o2 a keeps_trans [OF k4 5(2)]
      by (intro that [of h5])
        (simp_all add: ETH_RxPkt_ChainMode_def Let_def field32_def frame_length_def ETH_DMARXDESC_FRAME_LENGTHSHIFT_def)
  next
    case False
    then show ?thesis using 1 2 6 own o1 o2 a keeps_trans [OF k2 6(2)]
      by (intro that [of h6]) (simp_all add: ETH_RxPkt_ChainMode_def Let_def ETH_ERROR_def)
  qed
qed

end

section \<open>The receive ring\<close>

definition ring_descs :: "u32 \<Rightarrow> nat \<Rightarrow> u32 set" where
  "ring_descs tab n = (\<lambda>i. tab + 16 * of_nat i) ` {..<n}"

definition ring_built :: "('h \<Rightarrow> u32 \<Rightarrow> u32) \<Rightarrow> u32 \<Rightarrow> u32 \<Rightarrow> nat \<Rightarrow> nat \<Rightarrow> 'h \<Rightarrow> bool" where
  "ring_built cont tab buf n m h \<longleftrightarrow>
     (\<forall>i < m. cont h (tab + 16 * of_nat i + 8) = buf + of_nat i * ETH_MAX_PACKET_SIZE \<and>
        cont h (tab + 16 * of_nat i + 12) = tab + 16 * of_nat (Suc i mod n))"

lemma of_nat_u32_eq: "i < 2 ^ 32 \<Longrightarrow> j < 2 ^ 32 \<Longrightarrow> (of_nat i = (of_nat j :: u32)) = (i = j)"
  by (simp add: word_of_nat_eq_iff take_bit_nat_eq_self)

lemma unat_of_nat_u32: "i < 2 ^ 32 \<Longrightarrow> unat (of_nat i :: u32) = i"
  by (simp add: unsigned_of_nat take_bit_nat_eq_self)

lemma ring_word_eq:
  assumes "i < n" "j < n" "n \<le> 2 ^ 28" "a < 16" "b < 16"
    and "tab + 16 * of_nat i + of_nat a = (tab + 16 * of_nat j + of_nat b :: u32)"
  shows "i = j \<and> a = b"
proof -
  have "of_nat (16 * i + a) = (of_nat (16 * j + b) :: u32)" using assms(6) by (simp add: add.assoc)
  then have "16 * i + a = 16 * j + b" by (subst (asm) of_nat_u32_eq) (use assms(1-5) in auto)
  then have "(16 * i + a) div 16 = (16 * j + b) div 16" "(16 * i + a) mod 16 = (16 * j + b) mod 16" by simp_all
  then show ?thesis using assms(4,5) by simp
qed

lemma chain_next_mod:
  assumes "i < n" "n \<le> 2 ^ 28"
  shows "chain_next tab (of_nat n) (of_nat i) = tab + 16 * of_nat (Suc i mod n)"
proof -
  have "of_nat n - 1 = (of_nat (n - 1) :: u32)" using assms by (simp add: of_nat_diff)
  moreover have "unat (of_nat i :: u32) = i" "unat (of_nat (n - 1) :: u32) = n - 1" by (rule unat_of_nat_u32, use assms in simp)+
  ultimately have lt: "(of_nat i :: u32) < of_nat n - 1 \<longleftrightarrow> i < n - 1" by (simp add: word_less_nat_alt)
  show ?thesis
  proof (cases "i < n - 1")
    case True
    then show ?thesis using lt by (simp add: chain_next_def add.commute)
  next
    case False
    then have "Suc i = n" using assms(1) by simp
    then show ?thesis using lt False by (simp add: chain_next_def)
  qed
qed

locale rx_ring = rx_memory hw cont "ring_descs tab n" for hw :: "'h mmio" and cont tab n +
  fixes buf :: u32
  assumes n_pos: "0 < n" and n_max: "n \<le> 2 ^ 28"
    and regs_apart: "i < n \<Longrightarrow> a < 16 \<Longrightarrow> tab + 16 * of_nat i + of_nat a \<notin> {ETH_DMARDLAR, ETH_DMASR, ETH_DMARPDR}"
begin

lemma wr_ring:
  assumes "i < n" "j < n" "k \<in> {4, 8, 12}" "a < 16" "tab + 16 * of_nat j + of_nat a = r"
  shows "cont (wr32 hw r x h) (tab + 16 * of_nat i + k) = (if i = j \<and> k = of_nat a then x else cont h (tab + 16 * of_nat i + k))"
proof -
  obtain b :: nat where b: "k = of_nat b" "b < 16" using assms(3) that [of 4] that [of 8] that [of 12] by auto
  have "tab + 16 * of_nat i \<in> ring_descs tab n" using assms(1) by (auto simp: ring_descs_def)
  note w = wr_addr [OF this assms(3), of r x h]
  have "r = tab + 16 * of_nat i + k \<longleftrightarrow> i = j \<and> k = of_nat a"
  proof
    assume "r = tab + 16 * of_nat i + k"
    then have "tab + 16 * of_nat j + of_nat a = tab + 16 * of_nat i + of_nat b" by (simp only: assms(5) b(1))
    from ring_word_eq [OF assms(2,1) n_max assms(4) b(2) this] show "i = j \<and> k = of_nat a" by (simp only: b(1) simp_thms)
  qed (simp only: assms(5) [symmetric])
  then show ?thesis using w by simp
qed

text \<open>Writing one descriptor of the chain.\<close>

lemma chain_desc_addr:
  assumes "i < n" "j < n" "k \<in> {8, 12}"
  shows "cont (rx_chain_desc hw tab buf (of_nat n) j h) (tab + 16 * of_nat i + k) =
    (if i = j then if k = 8 then buf + of_nat j * ETH_MAX_PACKET_SIZE else tab + 16 * of_nat (Suc j mod n)
     else cont h (tab + 16 * of_nat i + k))"
proof -
  have k: "k \<in> {4, 8, 12}" and ne: "k \<noteq> 0" "k \<noteq> 4" "k = 8 \<or> k = 12" using assms(3) by auto
  let ?d = "tab + 16 * of_nat j"
  have w: "cont (wr32 hw ?d x h) (tab + 16 * of_nat i + k) = cont h (tab + 16 * of_nat i + k)"
    "cont (wr32 hw (?d + 4) x h) (tab + 16 * of_nat i + k) = cont h (tab + 16 * of_nat i + k)"
    "cont (wr32 hw (?d + 8) x h) (tab + 16 * of_nat i + k) = (if i = j \<and> k = 8 then x else cont h (tab + 16 * of_nat i + k))"
    "cont (wr32 hw (?d + 12) x h) (tab + 16 * of_nat i + k) = (if i = j \<and> k = 12 then x else cont h (tab + 16 * of_nat i + k))" for x h
    using wr_ring [OF assms(1,2) k, of 0 ?d x h] wr_ring [OF assms(1,2) k, of 4 "?d + 4" x h] ne
      wr_ring [OF assms(1,2) k, of 8 "?d + 8" x h] wr_ring [OF assms(1,2) k, of 12 "?d + 12" x h] by simp_all
  show ?thesis
    unfolding rx_chain_desc_def Let_def chain_next_mod [OF assms(2) n_max] Status_def ControlBufferSize_def Buffer1Addr_def
      Buffer2NextDescAddr_def w
    using ne(3) by auto
qed

lemma chain_built: "m \<le> n \<Longrightarrow> ring_built cont tab buf n m (fold (rx_chain_desc hw tab buf (of_nat n)) [0..<m] h)"
proof (induction m)
  case (Suc m)
  then show ?case using chain_desc_addr [of _ m 8] chain_desc_addr [of _ m 12]
    by (auto simp: ring_built_def less_Suc_eq)
qed (simp add: ring_built_def)

lemma chain_init:
  "DMARxDescToGet (ETH_DMARxDescChainInit hw tab buf (of_nat n) s) = tab"
  "ring_built cont tab buf n n (eth_dev (ETH_DMARxDescChainInit hw tab buf (of_nat n) s))"
proof -
  let ?h = "fold (rx_chain_desc hw tab buf (of_nat n)) [0..<n] (eth_dev s)"
  have u: "unat (of_nat n :: u32) = n" by (rule unat_of_nat_u32, use n_max in simp)
  have "cont (wr32 hw ETH_DMARDLAR tab ?h) (tab + 16 * of_nat i + k) = cont ?h (tab + 16 * of_nat i + k)"
    if i: "i < n" and k: "k \<in> {8, 12}" for i k
  proof -
    obtain b :: nat where b: "k = of_nat b" "b < 16" using k that [of 8] that [of 12] by auto
    have "tab + 16 * of_nat i \<in> ring_descs tab n" using i by (auto simp: ring_descs_def)
    moreover have "k \<in> {4, 8, 12}" using k by blast
    moreover have "ETH_DMARDLAR \<noteq> tab + 16 * of_nat i + k" using regs_apart [OF i b(2)] b(1) by auto
    ultimately show ?thesis by (simp only: wr_addr if_False)
  qed
  then have "ring_built cont tab buf n n (wr32 hw ETH_DMARDLAR tab ?h)"
    using chain_built [of n "eth_dev s"] by (simp add: ring_built_def)
  then show "DMARxDescToGet (ETH_DMARxDescChainInit hw tab buf (of_nat n) s) = tab"
    "ring_built cont tab buf n n (eth_dev (ETH_DMARxDescChainInit hw tab buf (of_nat n) s))"
    by (simp_all add: ETH_DMARxDescChainInit_def on_dev_def u)
qed

lemma keeps_built:
  assumes "keeps cont (ring_descs tab n) h h'" "ring_built cont tab buf n n h"
  shows "ring_built cont tab buf n n h'"
proof -
  have "cont h' (tab + 16 * of_nat i + k) = cont h (tab + 16 * of_nat i + k)" if "i < n" "k \<in> {4, 8, 12}" for i k
    by (rule keeps_addr [OF assms(1) _ that(2)]) (use that(1) in \<open>auto simp: ring_descs_def\<close>)
  then show ?thesis using assms(2) by (simp add: ring_built_def)
qed

end

text \<open>What happens on the receive side: set-up, anything the DMA does, receiving, and giving a buffer back. The
  number counts the frames received.\<close>

inductive rx_run :: "'h mmio \<Rightarrow> ('h \<Rightarrow> u32 \<Rightarrow> u32) \<Rightarrow> u32 \<Rightarrow> u32 \<Rightarrow> nat \<Rightarrow> nat \<Rightarrow> 'h eth \<Rightarrow> bool" for hw cont tab buf n where
  init: "rx_run hw cont tab buf n 0 (ETH_DMARxDescChainInit hw tab buf (of_nat n) s)"
| dma: "rx_run hw cont tab buf n k s \<Longrightarrow> keeps cont (ring_descs tab n) (eth_dev s) h \<Longrightarrow> rx_run hw cont tab buf n k (s\<lparr>eth_dev := h\<rparr>)"
| receive: "rx_run hw cont tab buf n k s \<Longrightarrow> ETH_RxPkt_ChainMode hw s = (f, s') \<Longrightarrow>
    rx_run hw cont tab buf n (if f_descriptor f = None then k else Suc k) s'"
| give_back: "rx_run hw cont tab buf n k s \<Longrightarrow> d \<in> ring_descs tab n \<Longrightarrow>
    rx_run hw cont tab buf n k (on_dev (wr32 hw (Status d) ETH_DMARxDesc_OWN) s)"

context rx_ring
begin

lemma status_write_built:
  assumes "d \<in> ring_descs tab n" "ring_built cont tab buf n n h"
  shows "ring_built cont tab buf n n (wr32 hw d x h)"
proof -
  obtain j where j: "j < n" "d = tab + 16 * of_nat j" using assms(1) by (auto simp: ring_descs_def)
  have "cont (wr32 hw d x h) (tab + 16 * of_nat i + k) = cont h (tab + 16 * of_nat i + k)" if "i < n" "k \<in> {8, 12}" for i k
  proof -
    have k: "k \<in> {4, 8, 12}" "k \<noteq> 0" using that(2) by auto
    show ?thesis using wr_ring [OF that(1) j(1) k(1), of 0 d x h] j(2) k(2) by simp
  qed
  then show ?thesis using assms(2) by (simp add: ring_built_def)
qed

lemma rx_none:
  assumes "DMARxDescToGet s \<in> ring_descs tab n" "\<not> cpu_owned (cont (eth_dev s) (DMARxDescToGet s))"
  obtains h' where "ETH_RxPkt_ChainMode hw s = (\<lparr>f_length = 0, f_buffer = 0, f_descriptor = None\<rparr>, s\<lparr>eth_dev := h'\<rparr>)"
    "keeps cont (ring_descs tab n) (eth_dev s) h'"
proof -
  let ?d = "DMARxDescToGet s"
  obtain h1 where 1: "flag32 hw ?d ETH_DMARxDesc_OWN (eth_dev s) = (if cont (eth_dev s) ?d AND ETH_DMARxDesc_OWN \<noteq> 0 then SET else RESET, h1)"
    "keeps cont (ring_descs tab n) (eth_dev s) h1" by (rule flag_descE [OF assms(1)])
  have apart: "r \<noteq> d + k" if r: "r \<in> {ETH_DMASR, ETH_DMARPDR}" and d: "d \<in> ring_descs tab n" and k: "k \<in> {0, 4, 8, 12}" for r d k
  proof -
    obtain i where i: "i < n" "d = tab + 16 * of_nat i" using d by (auto simp: ring_descs_def)
    obtain b :: nat where b: "k = of_nat b" "b < 16" using k that [of 0] that [of 4] that [of 8] that [of 12] by auto
    show ?thesis using regs_apart [OF i(1) b(2)] i(2) b(1) r by auto
  qed
  have "keeps cont (ring_descs tab n) h1 (resume_rx hw h1)" by (rule resume_rx_keeps) (rule apart, simp_all)+
  with 1 assms(2) show ?thesis
    by (intro that [of "resume_rx hw h1"]) (auto simp: ETH_RxPkt_ChainMode_def ETH_ERROR_def intro: keeps_trans)
qed

lemma rx_run_inv:
  "rx_run hw cont tab buf n k s \<Longrightarrow>
    DMARxDescToGet s = tab + 16 * of_nat (k mod n) \<and> ring_built cont tab buf n n (eth_dev s)"
proof (induction rule: rx_run.induct)
  case (init s)
  then show ?case by (simp add: chain_init)
next
  case (dma k s h)
  then show ?case using keeps_built by simp
next
  case (give_back k s d)
  then show ?case by (simp add: on_dev_def status_write_built)
next
  case (receive k s f s')
  let ?d = "DMARxDescToGet s"
  have km: "k mod n < n" using n_pos by simp
  then have d: "?d \<in> ring_descs tab n" using receive.IH by (auto simp: ring_descs_def)
  show ?case
  proof (cases "cpu_owned (cont (eth_dev s) ?d)")
    case True
    obtain h' where e: "ETH_RxPkt_ChainMode hw s = (let d = ?d; st = cont (eth_dev s) d
       in (\<lparr>f_length = (if good_status st then frame_length st - 4 else 0),
            f_buffer = (if good_status st then cont (eth_dev s) (d + 8) else 0), f_descriptor = Some d\<rparr>,
           s\<lparr>eth_dev := h', DMARxDescToGet := cont (eth_dev s) (d + 12)\<rparr>))" and kp: "keeps cont (ring_descs tab n) (eth_dev s) h'"
      by (rule rx_owned [OF d True])
    then have h': "f_descriptor f = Some ?d" "s' = s\<lparr>eth_dev := h', DMARxDescToGet := cont (eth_dev s) (?d + 12)\<rparr>"
      using receive.hyps(2) by (simp_all add: Let_def)
    have "cont (eth_dev s) (?d + 12) = tab + 16 * of_nat (Suc k mod n)"
      using receive.IH km by (simp add: ring_built_def mod_Suc_eq)
    with h' show ?thesis using keeps_built [OF kp] receive.IH by simp
  next
    case False
    obtain h' where h': "f_descriptor f = None" "s' = s\<lparr>eth_dev := h'\<rparr>" "keeps cont (ring_descs tab n) (eth_dev s) h'"
      using rx_none [OF d False] receive.hyps(2) by (metis FrameTypeDef.select_convs(3) prod.inject)
    then show ?thesis using keeps_built receive.IH by simp
  qed
qed

end

text \<open>The size of the current frame, as the interrupt handler asks for it.\<close>

context rx_memory
begin

lemma pkt_size_owned:
  assumes d: "DMARxDescToGet s \<in> D" and own: "cpu_owned (cont (eth_dev s) (DMARxDescToGet s))"
  obtains h' where "ETH_GetRxPktSize hw s =
      (if good_status (cont (eth_dev s) (DMARxDescToGet s)) then frame_length (cont (eth_dev s) (DMARxDescToGet s)) else 0, s\<lparr>eth_dev := h'\<rparr>)"
    and "keeps cont D (eth_dev s) h'"
proof -
  let ?d = "DMARxDescToGet s" and ?h = "eth_dev s"
  obtain h1 where 1: "flag32 hw ?d ETH_DMARxDesc_OWN ?h = (if cont ?h ?d AND ETH_DMARxDesc_OWN \<noteq> 0 then SET else RESET, h1)"
    "keeps cont D ?h h1" by (rule flag_descE [OF d])
  note o1 = keeps_owned [OF 1(2) d own]
  have own1: "cpu_owned (cont h1 ?d)" using own by (simp only: o1)
  obtain h2 where 2: "rx_good hw ?d h1 = (good_status (cont h1 ?d), h2)" "keeps cont D h1 h2" by (rule rx_good_keeps [OF d own1])
  note k2 = keeps_trans [OF 1(2) 2(2)]
  note o2 = keeps_owned [OF k2 d own]
  obtain h3 where 3: "rd32 hw (?d + 0) h2 = (cont h2 (?d + 0), h3)" "keeps cont D h2 h3" by (rule rd_descE [OF d insertI1])
  show ?thesis
    by (rule that [of "if good_status (cont ?h ?d) then h3 else h2"])
      (use 1 2 3 o1 o2 k2 own keeps_trans [OF k2 3(2)] in
        \<open>simp_all add: ETH_GetRxPktSize_def ETH_GetDMARxDescFrameLength_def field32_def frame_length_def ETH_DMARXDESC_FRAME_LENGTHSHIFT_def\<close>)
qed

end

section \<open>A reference memory\<close>

text \<open>Plain memory, with the table of the firmware's four descriptors at the start of the RAM.\<close>

interpretation ram_rx: rx_ring ram_hw "\<lambda>m. m" "0x20000000" 4 buf for buf
proof
  fix d k r x :: u32 and h :: "u32 \<Rightarrow> u32"
  show "fst (rd32 ram_hw (d + k) h) = h (d + k)" by (simp add: ram_hw_def)
  show "keeps (\<lambda>m. m) (ring_descs 0x20000000 4) h (snd (rd32 ram_hw r h))" by (simp add: ram_hw_def)
  show "wr32 ram_hw r x h (d + k) = (if r = d + k then x else h (d + k))" by (simp add: ram_hw_def)
  show "wr32 ram_hw r x h d = h d" if "r \<noteq> d" using that by (simp add: ram_hw_def)
next
  fix i a :: nat
  assume ia: "i < 4" "a < 16"
  have "16 * i + a < 64" using ia by linarith
  then have lt: "unat (of_nat (16 * i + a) :: u32) < 64" by (subst unat_of_nat_u32) simp_all
  have "(0x20000000 :: u32) + 16 * of_nat i + of_nat a \<noteq> c" if "64 \<le> unat (c - 0x20000000)" for c
  proof
    assume "0x20000000 + 16 * of_nat i + of_nat a = c"
    then have "c - 0x20000000 = of_nat (16 * i + a)" by auto
    then show False using lt that by simp
  qed
  then show "0x20000000 + 16 * of_nat i + of_nat a \<notin> {ETH_DMARDLAR, ETH_DMASR, ETH_DMARPDR}"
    by (auto simp: ETH_DMARDLAR_def ETH_DMASR_def ETH_DMARPDR_def)
qed simp_all

section \<open>Properties\<close>

text \<open>C22: The receive ring. However the driver, the processor's returns of buffers and the DMA interleave, the
  driver's pointer after \<open>k\<close> received frames is at descriptor \<open>k mod n\<close>, and receiving a whole frame there
  returns that descriptor, its own buffer and the length without the checksum.\<close>

theorem rx_ring_order:
  assumes "rx_ring hw cont tab n" and "rx_run hw cont tab buf n k s"
    and "st = cont (eth_dev s) (tab + 16 * of_nat (k mod n))" and "cpu_owned st" and "good_status st"
  shows "DMARxDescToGet s = tab + 16 * of_nat (k mod n) \<and>
    fst (ETH_RxPkt_ChainMode hw s) = \<lparr>f_length = frame_length st - 4,
      f_buffer = buf + of_nat (k mod n) * ETH_MAX_PACKET_SIZE, f_descriptor = Some (tab + 16 * of_nat (k mod n))\<rparr>"
proof -
  note inv = rx_ring.rx_run_inv [OF assms(1,2)]
  have km: "k mod n < n" using rx_ring.n_pos [OF assms(1)] by simp
  have d: "DMARxDescToGet s \<in> ring_descs tab n" using inv km by (auto simp: ring_descs_def)
  have own: "cpu_owned (cont (eth_dev s) (DMARxDescToGet s))" using inv assms(3,4) by simp
  have mem: "rx_memory hw cont (ring_descs tab n)" using assms(1) by (simp add: rx_ring_def)
  obtain h' where "ETH_RxPkt_ChainMode hw s = (let d = DMARxDescToGet s; st = cont (eth_dev s) d
       in (\<lparr>f_length = (if good_status st then frame_length st - 4 else 0),
            f_buffer = (if good_status st then cont (eth_dev s) (d + 8) else 0), f_descriptor = Some d\<rparr>,
           s\<lparr>eth_dev := h', DMARxDescToGet := cont (eth_dev s) (d + 12)\<rparr>))"
    by (rule rx_memory.rx_owned [OF mem d own])
  then show ?thesis using inv km assms(3,5) by (simp add: Let_def ring_built_def)
qed

theorem rx_ring_order_witness:
  "DMARxDescToGet (ETH_DMARxDescChainInit ram_hw 0x20000000 0x20001000 4 \<lparr>eth_dev = (\<lambda>_. 0), DMATxDescToSet = 0,
     DMARxDescToGet = 0, DMAPTPTxDescToSet = 0, DMAPTPRxDescToGet = 0\<rparr>) = 0x20000000"
proof -
  let ?s = "ETH_DMARxDescChainInit ram_hw 0x20000000 0x20001000 (of_nat 4) \<lparr>eth_dev = (\<lambda>_. 0), DMATxDescToSet = 0,
     DMARxDescToGet = 0, DMAPTPTxDescToSet = 0, DMAPTPRxDescToGet = 0\<rparr>"
  let ?h = "(eth_dev ?s)(0x20000000 := 0x00440300)"
  have "rx_run ram_hw (\<lambda>m. m) 0x20000000 0x20001000 4 0 ?s" by (rule rx_run.init)
  then have "rx_run ram_hw (\<lambda>m. m) 0x20000000 0x20001000 4 0 (?s\<lparr>eth_dev := ?h\<rparr>)"
  proof (rule rx_run.dma)
    have "ring_descs 0x20000000 4 = {0x20000000, 0x20000010, 0x20000020, 0x20000030}"
      by (auto simp: ring_descs_def numeral_eq_Suc lessThan_Suc)
    moreover have "eth_dev ?s 0x20000000 = ETH_DMARxDesc_OWN"
      by (simp add: ETH_DMARxDescChainInit_def on_dev_def rx_chain_desc_def ram_hw_def ETH_DMARDLAR_def upt_rec Let_def)
    ultimately show "keeps (\<lambda>m. m) (ring_descs 0x20000000 4) (eth_dev ?s) ?h"
      by (auto simp: keeps_def ETH_DMARxDesc_OWN_def)
  qed
  from rx_ring_order [OF ram_rx.rx_ring_axioms this refl] show ?thesis
    by (simp add: good_status_def ETH_DMARxDesc_OWN_def ETH_DMARxDesc_ES_def ETH_DMARxDesc_LS_def ETH_DMARxDesc_FS_def)
qed

end
