(* ===== verification/Ethernetif.thy ===== *)
theory Ethernetif
  imports Etharp EthDma
begin

text \<open>
  The lwIP port \<open>ethernetif.c\<close>: the interface of the Ethernet controller, between the packet buffers of the stack
  and the frame buffers of the DMA. The functions that work on the descriptors are in the theory \<open>EthDma\<close>.
  The places of the static arrays are the linker's choice, the record \<open>port_mem\<close>.

  The controller is reached over the bus parameter \<open>hw\<close>. The state below the stack (the last field of the record
  \<open>net\<close>) is a type of its own that contains the port, reached by the two functions of the record \<open>port_of\<close>.
\<close>

unbundle bit_operations_syntax

section \<open>State\<close>

record 'h port =
  p_eth :: "'h eth"
  MACaddr :: "u8 list"

record port_mem =
  DMATxDscrTab :: u32
  DMARxDscrTab :: u32
  Tx_Buff :: u32
  Rx_Buff :: u32

record ('d, 'h) port_of =
  get_port :: "'d \<Rightarrow> 'h port"
  put_port :: "'h port \<Rightarrow> 'd \<Rightarrow> 'd"

definition ETH_RXBUFNB :: u32 where [simp]: "ETH_RXBUFNB = 4"
definition ETH_TXBUFNB :: u32 where [simp]: "ETH_TXBUFNB = 2"
definition SIZEOF_ETHERNETIF :: u16 where [simp]: "SIZEOF_ETHERNETIF = 8"

definition the_port :: "('d, 'h) port_of \<Rightarrow> ('c, 'd) net \<Rightarrow> 'h port" where
  "the_port P s = get_port P (n_dev s)"

definition set_port :: "('d, 'h) port_of \<Rightarrow> 'h port \<Rightarrow> ('c, 'd) net \<Rightarrow> ('c, 'd) net" where
  "set_port P x s = s\<lparr>n_dev := put_port P x (n_dev s)\<rparr>"

definition on_eth :: "('d, 'h) port_of \<Rightarrow> ('h eth \<Rightarrow> 'h eth) \<Rightarrow> ('c, 'd) net \<Rightarrow> ('c, 'd) net" where
  "on_eth P f s = (let x = the_port P s in set_port P (x\<lparr>p_eth := f (p_eth x)\<rparr>) s)"

definition get_eth :: "('d, 'h) port_of \<Rightarrow> ('h eth \<Rightarrow> 'a \<times> 'h eth) \<Rightarrow> ('c, 'd) net \<Rightarrow> 'a \<times> ('c, 'd) net" where
  "get_eth P f s = (let x = the_port P s; (r, e) = f (p_eth x) in (r, set_port P (x\<lparr>p_eth := e\<rparr>) s))"

section \<open>Set-up\<close>

definition Set_MAC_Address :: "'h mmio \<Rightarrow> ('d, 'h) port_of \<Rightarrow> (nat \<Rightarrow> u8) \<Rightarrow> ('c, 'd) net \<Rightarrow> ('c, 'd) net" where
  "Set_MAC_Address hw P macadd s =
     on_eth P (on_dev (ETH_MACAddressConfig hw ETH_MAC_Address0 macadd))
       (set_port P ((the_port P s)\<lparr>MACaddr := map macadd [0..<6]\<rparr>) s)"

definition low_level_init :: "'h mmio \<Rightarrow> port_mem \<Rightarrow> ('d, 'h) port_of \<Rightarrow> nat \<Rightarrow> ('c, 'd) net \<Rightarrow> ('c, 'd) net" where
  "low_level_init hw M P netif s =
     (let s = if_upd netif (\<lambda>n. n\<lparr>if_hwaddr_len := ETHARP_HWADDR_LEN, if_hwaddr := MACaddr (the_port P s), if_mtu := 1500,
                if_flags := NETIF_FLAG_BROADCAST OR NETIF_FLAG_ETHARP OR NETIF_FLAG_LINK_UP\<rparr>) s;
          s = on_eth P (ETH_DMATxDescChainInit hw (DMATxDscrTab M) (Tx_Buff M) ETH_TXBUFNB) s;
          s = on_eth P (ETH_DMARxDescChainInit hw (DMARxDscrTab M) (Rx_Buff M) ETH_RXBUFNB) s;
          s = on_eth P (on_dev (fold (\<lambda>i. ETH_DMARxDescReceiveITConfig hw (DMARxDscrTab M + 16 * of_nat i) ENABLE) [0..<unat ETH_RXBUFNB])) s;
          s = on_eth P (on_dev (fold (\<lambda>i. ETH_DMATxDescChecksumInsertionConfig hw (DMATxDscrTab M + 16 * of_nat i)
                ETH_DMATxDesc_ChecksumTCPUDPICMPFull) [0..<unat ETH_TXBUFNB])) s
      in on_eth P (on_dev (ETH_Start hw)) s)"

definition ethernetif_init :: "'h mmio \<Rightarrow> port_mem \<Rightarrow> ('d, 'h) port_of \<Rightarrow> nat \<Rightarrow> ('c, 'd) net \<Rightarrow> (int \<times> ('c, 'd) net) option" where
  "ethernetif_init hw M P netif s = do {
     let l = n_lwip s;
     (ethernetif, heap) \<leftarrow> mem_malloc SIZEOF_ETHERNETIF (l_heap l);
     let s = s\<lparr>n_lwip := l\<lparr>l_heap := heap\<rparr>\<rparr>;
     case ethernetif of
       None \<Rightarrow> Some (ERR_MEM, s)
     | Some a \<Rightarrow>
         let s = if_upd netif (\<lambda>n. n\<lparr>if_state := Some a, if_name := (CHR ''s'', CHR ''t'')\<rparr>) s
         in Some (ERR_OK, low_level_init hw M P netif s)
   }"

section \<open>Sending\<close>

text \<open>\<open>memcpy\<close> from a packet buffer into a frame buffer; from null only if nothing is copied.\<close>

definition copy_out :: "'h mmio \<Rightarrow> u32 \<Rightarrow> loc option \<Rightarrow> nat \<Rightarrow> lwip \<Rightarrow> 'h \<Rightarrow> 'h option" where
  "copy_out hw d p n l h =
     (if n = 0 then Some h
      else do { p \<leftarrow> p; Some (fold (\<lambda>i. wr8 hw (d + of_nat i) (l_bytes l (loc_add p (int i)))) [0..<n] h) })"

text \<open>The loop over the buffers of a packet; \<open>n\<close> is the number of bytes copied so far.\<close>

partial_function (option) output_loop :: "'h mmio \<Rightarrow> u32 \<Rightarrow> lwip \<Rightarrow> loc option \<Rightarrow> nat \<Rightarrow> 'h \<Rightarrow> (nat \<times> 'h) option" where
  "output_loop hw buffer l q n h =
     (case q of
        None \<Rightarrow> Some (n, h)
      | Some q \<Rightarrow> do {
          let len = unat (p_len (pb l q));
          h \<leftarrow> copy_out hw (buffer + of_nat n) (p_payload (pb l q)) len l h;
          output_loop hw buffer l (p_next (pb l q)) (n + len) h
        })"

definition low_level_output :: "'h mmio \<Rightarrow> ('d, 'h) port_of \<Rightarrow> nat \<Rightarrow> loc \<Rightarrow> ('c, 'd) net \<Rightarrow> (int \<times> ('c, 'd) net) option" where
  "low_level_output hw P netif p s = do {
     let (buffer, s) = get_eth P (ETH_GetCurrentTxBuffer hw) s;
     (n, h) \<leftarrow> output_loop hw buffer (n_lwip s) (Some p) 0 (eth_dev (p_eth (the_port P s)));
     let s = on_eth P (\<lambda>e. e\<lparr>eth_dev := h\<rparr>) s;
     let (res, s) = get_eth P (ETH_TxPkt_ChainMode hw (of_nat n)) s;
     Some (ERR_OK, s)
   }"

section \<open>Receiving\<close>

text \<open>The way back, into the buffers of a packet.\<close>

definition copy_in :: "'h mmio \<Rightarrow> loc option \<Rightarrow> u32 \<Rightarrow> nat \<Rightarrow> 'h \<Rightarrow> lwip \<Rightarrow> lwip option" where
  "copy_in hw p b n h l =
     (if n = 0 then Some l
      else do { p \<leftarrow> p; Some (l\<lparr>l_bytes := fold (\<lambda>i m. m(loc_add p (int i) := ld8 hw (b + of_nat i) h)) [0..<n] (l_bytes l)\<rparr>) })"

partial_function (option) input_loop :: "'h mmio \<Rightarrow> u32 \<Rightarrow> 'h \<Rightarrow> loc option \<Rightarrow> nat \<Rightarrow> lwip \<Rightarrow> lwip option" where
  "input_loop hw buffer h q n l =
     (case q of
        None \<Rightarrow> Some l
      | Some q \<Rightarrow> do {
          let len = unat (p_len (pb l q));
          l \<leftarrow> copy_in hw (p_payload (pb l q)) (buffer + of_nat n) len h l;
          input_loop hw buffer h (p_next (pb l q)) (n + len) l
        })"

text \<open>A frame without a descriptor makes the last statements write through a null pointer.\<close>

definition low_level_input :: "'h mmio \<Rightarrow> ('d, 'h) port_of \<Rightarrow> nat \<Rightarrow> ('c, 'd) net \<Rightarrow> (loc option \<times> ('c, 'd) net) option" where
  "low_level_input hw P netif s = do {
     let (frame, s) = get_eth P (ETH_RxPkt_ChainMode hw) s;
     (p, s) \<leftarrow> on_lwip (pbuf_alloc PBUF_RAW (ucast (f_length frame)) PBUF_POOL) s;
     l \<leftarrow> (case p of
             None \<Rightarrow> Some (n_lwip s)
           | Some q \<Rightarrow> input_loop hw (f_buffer frame) (eth_dev (p_eth (the_port P s))) (Some q) 0 (n_lwip s));
     d \<leftarrow> f_descriptor frame;
     Some (p, on_eth P (on_dev (\<lambda>h. resume_rx hw (wr32 hw (Status d) ETH_DMARxDesc_OWN h))) (s\<lparr>n_lwip := l\<rparr>))
   }"

definition ethernetif_input :: "'h mmio \<Rightarrow> ('d, 'h) port_of \<Rightarrow> ('c, 'd) arp_env \<Rightarrow> (loc \<Rightarrow> nat \<Rightarrow> ('c, 'd) net \<Rightarrow> ('c, 'd) net option) \<Rightarrow>
    nat \<Rightarrow> ('c, 'd) net \<Rightarrow> (int \<times> ('c, 'd) net) option" where
  "ethernetif_input hw P E ip_in netif s = do {
     (p, s) \<leftarrow> low_level_input hw P netif s;
     case p of
       None \<Rightarrow> Some (ERR_MEM, s)
     | Some p \<Rightarrow> do {
         (err, s) \<leftarrow> ethernet_input E ip_in p netif s;
         s \<leftarrow> (if err \<noteq> ERR_OK then net_free p s else Some s);
         Some (err, s)
       }
   }"

section \<open>What the driver promises to ARP\<close>

text \<open>The driver as the ARP module uses it, and that it leaves the table alone.\<close>

definition drv_env :: "'h mmio \<Rightarrow> ('d, 'h) port_of \<Rightarrow> (nat \<Rightarrow> u32 \<Rightarrow> ('c, 'd) net \<Rightarrow> ('c, 'd) net option) \<Rightarrow> ('c, 'd) arp_env" where
  "drv_env hw P dhcp = \<lparr>linkoutput = low_level_output hw P, dhcp_arp_reply = dhcp\<rparr>"

lemma set_port_same [simp]: "arp_same s (set_port P x s)"
  by (simp add: set_port_def arp_same_def)

lemma on_eth_same [simp]: "arp_same s (on_eth P f s)"
  by (simp add: on_eth_def Let_def)

lemma get_eth_snd [simp]: "arp_same s (snd (get_eth P f s))"
  by (simp add: get_eth_def Let_def case_prod_unfold)

lemma low_level_output_same:
  assumes "low_level_output hw P netif p s = Some (err, s')"
  shows "arp_same s s'"
proof -
  obtain n h where "s' = snd (get_eth P (ETH_TxPkt_ChainMode hw (of_nat n))
      (on_eth P (\<lambda>e. e\<lparr>eth_dev := h\<rparr>) (snd (get_eth P (ETH_GetCurrentTxBuffer hw) s))))"
    using assms unfolding low_level_output_def Let_def case_prod_unfold bind_eq_Some_conv by auto
  then show ?thesis using arp_same_trans [OF arp_same_trans [OF get_eth_snd on_eth_same] get_eth_snd] by simp
qed

interpretation drv: arp_link "drv_env hw P dhcp" for hw P dhcp
  by unfold_locales (auto simp: drv_env_def dest: low_level_output_same)

section \<open>The bytes of a frame\<close>

text \<open>Bytes of the frame buffers; the bus stores them one by one.\<close>

primrec bus_put :: "u32 \<Rightarrow> u8 list \<Rightarrow> (u32 \<Rightarrow> u8) \<Rightarrow> u32 \<Rightarrow> u8" where
  "bus_put a [] m = m"
| "bus_put a (x # xs) m = bus_put (a + 1) xs (m(a := x))"

lemma bus_put_append: "bus_put a (xs @ ys) m = bus_put (a + of_nat (length xs)) ys (bus_put a xs m)"
  by (induction xs arbitrary: a m) (simp_all add: add.assoc)

lemma bus_put_cong:
  assumes "\<forall>c \<in> B. m c = m' c"
  shows "\<forall>c \<in> B. bus_put a xs m c = bus_put a xs m' c"
  using assms
proof (induction xs arbitrary: a m m')
  case (Cons x xs)
  then have "\<forall>c \<in> B. (m(a := x)) c = (m'(a := x)) c" by simp
  from Cons.IH [OF this, of "a + 1"] show ?case unfolding bus_put.simps .
qed simp

definition span :: "u32 \<Rightarrow> nat \<Rightarrow> u32 set" where
  "span a n = (\<lambda>i. a + of_nat i) ` {..<n}"

lemma span_part: "span a (m + n) \<subseteq> B \<Longrightarrow> span a m \<subseteq> B" "span a (m + n) \<subseteq> B \<Longrightarrow> span (a + of_nat m) n \<subseteq> B"
proof -
  show "span a m \<subseteq> B" if "span a (m + n) \<subseteq> B" using that by (auto simp: span_def)
  show "span (a + of_nat m) n \<subseteq> B" if h: "span a (m + n) \<subseteq> B"
  proof
    fix c
    assume "c \<in> span (a + of_nat m) n"
    then obtain i where "i < n" "c = a + of_nat (m + i)" by (auto simp: span_def add.assoc)
    then have "c \<in> span a (m + n)" unfolding span_def by (intro image_eqI [of _ _ "m + i"]) simp_all
    then show "c \<in> B" using h by blast
  qed
qed

lemma bus_put_frame: "c \<notin> span a (length xs) \<Longrightarrow> bus_put a xs m c = m c"
proof (induction xs rule: rev_induct)
  case (snoc x xs)
  then have "c \<notin> span a (length xs)" "c \<noteq> a + of_nat (length xs)" by (auto simp: span_def)
  then show ?case using snoc.IH by (simp add: bus_put_append)
qed simp

lemma bus_put_nth:
  assumes "i < length xs" "length xs \<le> 2 ^ 32"
  shows "bus_put a xs m (a + of_nat i) = xs ! i"
  using assms
proof (induction xs rule: rev_induct)
  case (snoc x xs)
  have "(of_nat i :: u32) \<noteq> of_nat (length xs)" if "i < length xs"
  proof
    assume "(of_nat i :: u32) = of_nat (length xs)"
    then have "unat (of_nat i :: u32) = unat (of_nat (length xs) :: u32)" by simp
    then show False using that snoc.prems(2) by (simp add: unsigned_of_nat take_bit_nat_eq_self)
  qed
  moreover have "i = length xs" if "\<not> i < length xs" using that snoc.prems(1) by simp
  ultimately show ?case using snoc by (cases "i < length xs") (auto simp: bus_put_append nth_append)
qed simp

text \<open>What sending relies on: the bytes of the area \<open>B\<close>, the frame buffers, are memory that only the processor
  writes, and writes of words outside the area do not reach it.\<close>

locale frame_memory =
  fixes hw :: "'h mmio" and mem :: "'h \<Rightarrow> u32 \<Rightarrow> u8" and B :: "u32 set"
  assumes wr8_mem: "a \<in> B \<Longrightarrow> c \<in> B \<Longrightarrow> mem (wr8 hw a x h) c = (if c = a then x else mem h c)"
    and wr32_mem: "c \<in> B \<Longrightarrow> span r 4 \<inter> B = {} \<Longrightarrow> mem (wr32 hw r w h) c = mem h c"
    and rd32_mem: "c \<in> B \<Longrightarrow> mem (snd (rd32 hw r h)) c = mem h c"
begin

lemma fold_wr8:
  assumes "span d n \<subseteq> B" "c \<in> B"
  shows "mem (fold (\<lambda>i. wr8 hw (d + of_nat i) (f i)) [0..<n] h) c = bus_put d (map f [0..<n]) (mem h) c"
  using assms
proof (induction n)
  case (Suc n)
  have "span d n \<subseteq> B" "d + of_nat n \<in> B" using Suc.prems(1) by (auto simp: span_def)
  then show ?case using Suc by (simp add: wr8_mem bus_put_append)
qed simp

lemma copy_out_mem:
  assumes "payloads l [q]" "span d (length (pdata l q)) \<subseteq> B"
  shows "\<exists>h'. copy_out hw d (p_payload (pb l q)) (unat (p_len (pb l q))) l h = Some h' \<and>
    (\<forall>c \<in> B. mem h' c = bus_put d (pdata l q) (mem h) c)"
proof (cases "p_payload (pb l q)")
  case None
  then show ?thesis using assms by (simp add: copy_out_def payloads_def pdata_def)
next
  case (Some a)
  then have "length (pdata l q) = unat (p_len (pb l q))" using assms(1) length_pdata by blast
  then show ?thesis using Some assms(2) by (auto simp: copy_out_def pdata_def read_at_def fold_wr8)
qed

lemma output_loop_mem:
  assumes "chain_at l q ps" "payloads l ps" "span (b + of_nat n) (length (chain_data l ps)) \<subseteq> B"
  shows "\<exists>h'. output_loop hw b l q n h = Some (n + length (chain_data l ps), h') \<and>
    (\<forall>c \<in> B. mem h' c = bus_put (b + of_nat n) (chain_data l ps) (mem h) c)"
  using assms
proof (induction ps arbitrary: q n h)
  case Nil
  then show ?case by (subst output_loop.simps) (simp add: chain_data_def)
next
  case (Cons x ps)
  have pl: "payloads l [x]" "payloads l ps" using Cons.prems(2) by (simp_all add: payloads_def)
  let ?k = "unat (p_len (pb l x))"
  have len: "length (pdata l x) = ?k" by (rule length_pdata [OF pl(1)])
  have sp: "span (b + of_nat n) (length (pdata l x)) \<subseteq> B" "span (b + of_nat n + of_nat ?k) (length (chain_data l ps)) \<subseteq> B"
    using span_part [of "b + of_nat n" ?k "length (chain_data l ps)" B] Cons.prems(3) len by (simp_all add: chain_data_Cons)
  obtain h1 where h1: "copy_out hw (b + of_nat n) (p_payload (pb l x)) ?k l h = Some h1"
    "\<forall>c \<in> B. mem h1 c = bus_put (b + of_nat n) (pdata l x) (mem h) c" using copy_out_mem [OF pl(1) sp(1)] by blast
  have "chain_at l (p_next (pb l x)) ps" "span (b + of_nat (n + ?k)) (length (chain_data l ps)) \<subseteq> B"
    using Cons.prems(1) sp(2) by (simp_all add: add.assoc)
  from Cons.IH [OF this(1) pl(2) this(2), of h1] obtain h2 where
    h2: "output_loop hw b l (p_next (pb l x)) (n + ?k) h1 = Some (n + ?k + length (chain_data l ps), h2)"
    "\<forall>c \<in> B. mem h2 c = bus_put (b + of_nat (n + ?k)) (chain_data l ps) (mem h1) c" by blast
  have step: "output_loop hw b l q n h = output_loop hw b l (p_next (pb l x)) (n + ?k) h1"
    using Cons.prems(1) h1(1) by (subst output_loop.simps) simp
  have "mem h2 c = bus_put (b + of_nat n) (chain_data l (x # ps)) (mem h) c" if "c \<in> B" for c
    using h2(2) that bus_put_cong [OF h1(2)] len by (simp add: chain_data_Cons bus_put_append add.assoc)
  then show ?case using step h2(1) len by (simp add: chain_data_Cons)
qed

lemma or32_mem: "c \<in> B \<Longrightarrow> span r 4 \<inter> B = {} \<Longrightarrow> mem (or32 hw r m h) c = mem h c"
  by (simp add: or32_def Let_def case_prod_unfold wr32_mem rd32_mem)

lemma flag32_mem: "c \<in> B \<Longrightarrow> mem (snd (flag32 hw r m h)) c = mem h c"
  by (simp add: flag32_def Let_def case_prod_unfold rd32_mem)

lemma tx_chain_mem:
  assumes "c \<in> B" "\<And>r. r \<in> {d, d + 4, ETH_DMASR, ETH_DMATPDR} \<Longrightarrow> span r 4 \<inter> B = {}" "d = DMATxDescToSet e"
  shows "mem (eth_dev (snd (ETH_TxPkt_ChainMode hw n e))) c = mem (eth_dev e) c"
  using assms by (simp add: ETH_TxPkt_ChainMode_def tx_submit_def resume_tx_def Let_def case_prod_unfold
      or32_mem flag32_mem wr32_mem rd32_mem)

end

text \<open>Memory of bytes.\<close>

definition byte_hw :: "(u32 \<Rightarrow> u8) mmio" where
  "byte_hw = \<lparr>rd32 = (\<lambda>r m. (mem32 m r, m)), wr32 = put32, wr16 = put16, wr8 = (\<lambda>a x m. m(a := x)), ld8 = (\<lambda>a m. m a)\<rparr>"

lemma span4: "span r 4 = {r, r + 1, r + 2, r + 3}"
  by (auto simp: span_def numeral_eq_Suc lessThan_Suc)

interpretation bytes: frame_memory byte_hw "\<lambda>m. m" B for B
  by unfold_locales (auto simp: byte_hw_def put32_def span4)

text \<open>Receiving: the buffers of a chain get the bytes of the frame in order.\<close>

lemma fold_put_at: "fold (\<lambda>i m. m(loc_add p (int i) := f i)) [0..<n] m = put_at p (map f [0..<n]) m"
  by (induction n) (auto simp: put_append fun_eq_iff)

lemma copy_in_data:
  assumes "payloads l [q]"
  shows "\<exists>m. copy_in hw (p_payload (pb l q)) b (unat (p_len (pb l q))) h l = Some (l\<lparr>l_bytes := m\<rparr>) \<and>
    pdata (l\<lparr>l_bytes := m\<rparr>) q = map (\<lambda>i. ld8 hw (b + of_nat i) h) [0..<unat (p_len (pb l q))] \<and>
    (\<forall>a. a \<notin> payload_area l q \<longrightarrow> m a = l_bytes l a)"
proof (cases "unat (p_len (pb l q)) = 0")
  case True
  then show ?thesis by (intro exI [of _ "l_bytes l"]) (auto simp: copy_in_def pdata_def read_at_def split: option.splits)
next
  case False
  then obtain p where p: "p_payload (pb l q) = Some p" using assms by (auto simp: payloads_def)
  let ?xs = "map (\<lambda>i. ld8 hw (b + of_nat i) h) [0..<unat (p_len (pb l q))]"
  have "put_at p ?xs (l_bytes l) a = l_bytes l a" if "a \<notin> payload_area l q" for a
    using that p by (intro put_out) (simp add: payload_area_def)
  then show ?thesis using False p read_put [of ?xs "unat (p_len (pb l q))" p "l_bytes l"]
    by (intro exI [of _ "put_at p ?xs (l_bytes l)"]) (simp add: copy_in_def fold_put_at pdata_def)
qed

lemma input_loop_data:
  assumes "chain_at l q ps" "payloads l ps" "payloads_apart l ps"
  shows "\<exists>m. input_loop hw b h q n l = Some (l\<lparr>l_bytes := m\<rparr>) \<and>
    chain_data (l\<lparr>l_bytes := m\<rparr>) ps = map (\<lambda>i. ld8 hw (b + of_nat (n + i)) h) [0..<len_sum l ps] \<and>
    (\<forall>a. a \<notin> (\<Union>x \<in> set ps. payload_area l x) \<longrightarrow> m a = l_bytes l a)"
  using assms
proof (induction ps arbitrary: q n l)
  case Nil
  then show ?case by (subst input_loop.simps) (auto simp: chain_data_def intro!: exI [of _ "l_bytes l"])
next
  case (Cons x ps)
  let ?k = "unat (p_len (pb l x))"
  have pl: "payloads l [x]" "payloads l ps" using Cons.prems(2) by (simp_all add: payloads_def)
  obtain m where m: "copy_in hw (p_payload (pb l x)) (b + of_nat n) ?k h l = Some (l\<lparr>l_bytes := m\<rparr>)"
    "pdata (l\<lparr>l_bytes := m\<rparr>) x = map (\<lambda>i. ld8 hw (b + of_nat n + of_nat i) h) [0..<?k]" "\<forall>a. a \<notin> payload_area l x \<longrightarrow> m a = l_bytes l a"
    using copy_in_data [OF pl(1), of hw "b + of_nat n" h] by blast
  have "chain_at (l\<lparr>l_bytes := m\<rparr>) (p_next (pb l x)) ps" "payloads (l\<lparr>l_bytes := m\<rparr>) ps" "payloads_apart (l\<lparr>l_bytes := m\<rparr>) ps"
    using Cons.prems pl by simp_all
  from Cons.IH [OF this, of "n + ?k"] obtain k where
    k: "input_loop hw b h (p_next (pb l x)) (n + ?k) (l\<lparr>l_bytes := m\<rparr>) = Some (l\<lparr>l_bytes := k\<rparr>)"
    "chain_data (l\<lparr>l_bytes := k\<rparr>) ps = map (\<lambda>i. ld8 hw (b + of_nat (n + ?k + i)) h) [0..<len_sum l ps]"
    "\<forall>a. a \<notin> (\<Union>x \<in> set ps. payload_area l x) \<longrightarrow> k a = m a" by auto
  have step: "input_loop hw b h q n l = Some (l\<lparr>l_bytes := k\<rparr>)"
    using Cons.prems(1) m(1) k(1) by (subst input_loop.simps) simp
  have "chain_data (l\<lparr>l_bytes := m\<rparr>\<lparr>l_bytes := k\<rparr>) [x] = chain_data (l\<lparr>l_bytes := m\<rparr>) [x]"
    by (rule chain_data_cong) (use k(3) Cons.prems(3) in auto)
  then have front: "pdata (l\<lparr>l_bytes := k\<rparr>) x = map (\<lambda>i. ld8 hw (b + of_nat n + of_nat i) h) [0..<?k]" using m(2) by (simp add: chain_data_def)
  have "map (\<lambda>i. ld8 hw (b + of_nat (n + i)) h) [0..<?k + len_sum l ps] =
      map (\<lambda>i. ld8 hw (b + of_nat n + of_nat i) h) [0..<?k] @ map (\<lambda>i. ld8 hw (b + of_nat (n + ?k + i)) h) [0..<len_sum l ps]"
    by (rule nth_equalityI) (auto simp: nth_append add.assoc)
  then show ?case using step front k m(3) by (intro exI [of _ k]) (auto simp: chain_data_Cons)
qed

section \<open>Properties\<close>

lemma frame_length_max: "unat (frame_length st) < 2 ^ 14"
proof -
  have "frame_length st = drop_bit 16 st AND 0x3FFF" by (simp add: frame_length_def ETH_DMARxDesc_FL_def drop_bit_and)
  then have "frame_length st \<le> 0x3FFF" by (simp add: word_and_le1)
  then show ?thesis by (simp add: word_le_nat_alt)
qed

lemma frame_length_u16:
  assumes "4 \<le> frame_length st"
  shows "unat (ucast (frame_length st - 4) :: u16) = unat (frame_length st) - 4"
proof -
  have "unat (frame_length st - 4) = unat (frame_length st) - 4" using unat_sub [OF assms] by simp
  then show ?thesis using frame_length_max [of st] by (simp add: unsigned_ucast_eq take_bit_nat_eq_self)
qed

lemma pbuf_live_bytes [simp]: "pbuf_live sizes (l\<lparr>l_bytes := m\<rparr>) = pbuf_live sizes l"
  by (simp add: pbuf_live_def in_pool_def in_heap_def)



section \<open>Witnesses\<close>

text \<open>The port as the whole state below the stack, on plain memory.\<close>

definition id_port :: "('h port, 'h) port_of" where
  "id_port = \<lparr>get_port = (\<lambda>x. x), put_port = (\<lambda>x _. x)\<rparr>"

definition eth_w :: "(u32 \<Rightarrow> u32) eth" where
  "eth_w = \<lparr>eth_dev = (\<lambda>_. 0)(0x20000000 := 0x00440300, 0x20000008 := 0x20001000, 0x2000000C := 0x20000010),
     DMATxDescToSet = 0, DMARxDescToGet = 0x20000000, DMAPTPTxDescToSet = 0, DMAPTPRxDescToGet = 0\<rparr>"

definition port_w :: "(unit, (u32 \<Rightarrow> u32) port) net" where
  "port_w = arp_net \<lparr>p_eth = eth_w, MACaddr = []\<rparr> (\<lambda>_. \<lparr>arp_q = None, arp_ip = 0, arp_eth = [], arp_state = ETHARP_STATE_EMPTY, arp_ctime = 0, arp_netif = None\<rparr>)"


definition tx_w :: "(unit, (u32 \<Rightarrow> u8) port) net" where
  "tx_w = arp_net \<lparr>p_eth = \<lparr>eth_dev = put32 0x20000048 0x20004000 (\<lambda>_. 0), DMATxDescToSet = 0x20000040, DMARxDescToGet = 0,
       DMAPTPTxDescToSet = 0, DMAPTPRxDescToGet = 0\<rparr>, MACaddr = []\<rparr>
     (\<lambda>_. \<lparr>arp_q = None, arp_ip = 0, arp_eth = [], arp_state = ETHARP_STATE_EMPTY, arp_ctime = 0, arp_netif = None\<rparr>)"


end
