(* ===== verification/Ethernet.thy ===== *)
theory Ethernet
  imports IpIn Ethernetif Updater Clock Gpio Cortex
begin

text \<open>
  The network part of the updater, \<open>ethernet.c\<close>, with the interrupt handlers \<open>stm32f1xx_it.c\<close> that drive it and
  \<open>main.c\<close>. It puts the layers together: the driver below ARP, ARP below IP, the callbacks above UDP.

  The record \<open>board\<close> has the global variables of the firmware and the port; it is the state below the stack. The
  device is that of the port; the field \<open>udev\<close> of the protocol state is filled in while a protocol function
  runs. What is outside (DHCP, TCP, the places of static arrays, the sizes of the pools' elements) is the
  record \<open>outside\<close>.

  None is an access without a defined outcome (a null pointer, a copy beyond the end of an array) or a loop
  without an end.
\<close>

unbundle bit_operations_syntax

section \<open>State\<close>

datatype callback = Udp_receive_callback | Udp_upd_receive_callback

record 'h board =
  b_port :: "'h port"
  p_tx :: "loc option"
  upcb_tx :: "nat option"
  p_upd_tx :: "loc option"
  upcb_upd :: "nat option"
  rx_buff :: "u8 list"
  rx_upd_buff :: "u8 list"
  tx_buf :: "u8 list"
  arp_timer :: u32
  localtime :: u32
  b_upd :: "'h updater"

type_synonym 'h fw = "(callback, 'h board) net"

record 'h outside =
  o_dhcp :: "nat \<Rightarrow> u32 \<Rightarrow> 'h fw \<Rightarrow> 'h fw option"
  o_tcp :: "loc \<Rightarrow> nat \<Rightarrow> 'h fw \<Rightarrow> 'h fw option"
  o_frag_buf :: loc
  o_mem :: port_mem
  o_sizes :: "memp_t \<Rightarrow> nat"

definition board_port :: "('h board, 'h) port_of" where
  "board_port = \<lparr>get_port = b_port, put_port = (\<lambda>x b. b\<lparr>b_port := x\<rparr>)\<rparr>"

definition on_board :: "('h board \<Rightarrow> 'h board) \<Rightarrow> 'h fw \<Rightarrow> 'h fw" where
  "on_board f s = s\<lparr>n_dev := f (n_dev s)\<rparr>"

definition on_hw :: "('h \<Rightarrow> 'h) \<Rightarrow> 'h fw \<Rightarrow> 'h fw" where
  "on_hw f = on_eth board_port (on_dev f)"

definition hw_of :: "'h fw \<Rightarrow> 'h" where
  "hw_of s = eth_dev (p_eth (b_port (n_dev s)))"

section \<open>Constants\<close>

definition PHYAddress :: u16 where "PHYAddress = 0"
definition LOCAL_IP :: u32 where "LOCAL_IP = IP4_ADDR 192 168 1 3"
definition REMOTE_IP :: u32 where "REMOTE_IP = IP4_ADDR 192 168 1 4"
definition DEFAULT_GATEWAY :: u32 where "DEFAULT_GATEWAY = IP4_ADDR 192 168 1 1"
definition REMOTE_RX_PORT :: u16 where "REMOTE_RX_PORT = 50001"
definition REMOTE_TX_PORT :: u16 where "REMOTE_TX_PORT = 51004"
definition DEVICE_TX_PORT :: u16 where "DEVICE_TX_PORT = 50002"
definition DEVICE_RX_PORT :: u16 where "DEVICE_RX_PORT = 51003"
definition UPDATE_PORT_LOCAL :: u16 where "UPDATE_PORT_LOCAL = 55555"
definition UPDATE_PORT_REMOTE :: u16 where "UPDATE_PORT_REMOTE = 55556"
definition TX_PACKET_SIZE :: nat where "TX_PACKET_SIZE = 3"
definition RX_PACKET_SIZE :: nat where "RX_PACKET_SIZE = 3"
definition RX_UPD_PACKET_SIZE :: nat where "RX_UPD_PACKET_SIZE = 512"
definition UPD_ACK_PKT_SIZE :: nat where "UPD_ACK_PKT_SIZE = 3"
definition UPD_NACK_PKT_SIZE :: nat where "UPD_NACK_PKT_SIZE = 3"
definition ARP_TMR_INTERVAL :: u32 where "ARP_TMR_INTERVAL = 5000"

definition GPIO_Pin_1 :: u16 where "GPIO_Pin_1 = 0x0002"
definition GPIO_Pin_2 :: u16 where "GPIO_Pin_2 = 0x0004"
definition GPIO_Pin_4 :: u16 where "GPIO_Pin_4 = 0x0010"
definition GPIO_Pin_5 :: u16 where "GPIO_Pin_5 = 0x0020"
definition GPIO_Pin_7 :: u16 where "GPIO_Pin_7 = 0x0080"
definition GPIO_Pin_8 :: u16 where "GPIO_Pin_8 = 0x0100"
definition GPIO_Pin_11 :: u16 where "GPIO_Pin_11 = 0x0800"
definition GPIO_Pin_12 :: u16 where "GPIO_Pin_12 = 0x1000"
definition GPIO_Pin_13 :: u16 where "GPIO_Pin_13 = 0x2000"
definition GPIO_ETH_MediaInterface_RMII :: u32 where "GPIO_ETH_MediaInterface_RMII = 1"

text \<open>The interface \<open>netif\<close> of \<open>ethernet.c\<close>.\<close>

definition netif0 :: nat where "netif0 = 0"

section \<open>The layers\<close>

definition link_env :: "'h mmio \<Rightarrow> 'h outside \<Rightarrow> (callback, 'h board) arp_env" where
  "link_env hw X = drv_env hw board_port (o_dhcp X)"

text \<open>IP above ARP with the receive functions of the control blocks; the firmware registers none for raw
  packets.\<close>

definition stack_env :: "'h mmio \<Rightarrow> 'h outside \<Rightarrow> (callback \<Rightarrow> loc option \<Rightarrow> nat \<Rightarrow> loc \<Rightarrow> loc \<Rightarrow> u16 \<Rightarrow> 'h fw \<Rightarrow> 'h fw option) \<Rightarrow>
    (callback, 'h board) ip_env" where
  "stack_env hw X cb = \<lparr>netif_output = etharp_output (link_env hw X), udp_recv_fn = cb, raw_recv_fn = (\<lambda>_ _ _ _ _ _. None),
     tcp_input = o_tcp X, frag_buf = o_frag_buf X\<rparr>"

text \<open>Sending does not use the receive functions.\<close>

definition udp_out :: "'h mmio \<Rightarrow> 'h outside \<Rightarrow> (callback, 'h board) ip_out" where
  "udp_out hw X p src dest ttl tos proto i s =
     ip_output_if (stack_env hw X (\<lambda>_ _ _ _ _ _ _. None)) p src (Some dest) ttl tos proto i s"

section \<open>The Ethernet controller\<close>

partial_function (option) wait_reset :: "('h \<Rightarrow> FlagStatus \<times> 'h) \<Rightarrow> 'h \<Rightarrow> 'h option" where
  "wait_reset flag h = (case flag h of (SET, h) \<Rightarrow> wait_reset flag h | (RESET, h) \<Rightarrow> Some h)"

definition eth_pins :: "'h mmio \<Rightarrow> 'h \<Rightarrow> 'h" where
  "eth_pins hw h =
     (let h = RCC_APB2PeriphClockCmd hw (RCC_APB2Periph_GPIOA OR RCC_APB2Periph_GPIOB OR RCC_APB2Periph_GPIOC OR RCC_APB2Periph_AFIO) ENABLE h;
          g = \<lparr>GPIO_Pin = GPIO_Pin_2 OR GPIO_Pin_8, GPIO_Speed = GPIO_Speed_50MHz, GPIO_Mode = GPIO_Mode_AF_PP\<rparr>;
          h = GPIO_Init hw GPIOA g h;
          g = g\<lparr>GPIO_Pin := GPIO_Pin_11 OR GPIO_Pin_12 OR GPIO_Pin_13\<rparr>;
          h = GPIO_Init hw GPIOB g h;
          g = g\<lparr>GPIO_Pin := GPIO_Pin_1\<rparr>;
          h = GPIO_Init hw GPIOC g h;
          g = g\<lparr>GPIO_Mode := GPIO_Mode_IN_FLOATING, GPIO_Pin := GPIO_Pin_1 OR GPIO_Pin_7\<rparr>;
          h = GPIO_Init hw GPIOA g h;
          g = g\<lparr>GPIO_Pin := GPIO_Pin_4 OR GPIO_Pin_5\<rparr>;
          h = GPIO_Init hw GPIOC g h;
          g = g\<lparr>GPIO_Mode := GPIO_Mode_Out_PP, GPIO_Pin := GPIO_Pin_8\<rparr>
      in GPIO_Init hw GPIOC g h)"

definition eth_config :: "'h mmio \<Rightarrow> 'h \<Rightarrow> 'h option" where
  "eth_config hw h = do {
     let h = eth_pins hw h;
     let h = NVIC_PriorityGroupConfig hw NVIC_PriorityGroup_2 h;
     let h = NVIC_Init hw \<lparr>NVIC_IRQChannel = ETH_IRQn, NVIC_IRQChannelPreemptionPriority = 2, NVIC_IRQChannelSubPriority = 0,
               NVIC_IRQChannelCmd = ENABLE\<rparr> h;
     let h = RCC_AHBPeriphClockCmd hw (RCC_AHBPeriph_ETH_MAC OR RCC_AHBPeriph_ETH_MAC_Tx OR RCC_AHBPeriph_ETH_MAC_Rx) ENABLE h;
     let h = GPIO_ETH_MediaInterfaceConfig hw GPIO_ETH_MediaInterface_RMII h;
     let h = RCC_PLL3Cmd hw ENABLE (RCC_PLL3Config hw RCC_PLL3Mul_10 h);
     h \<leftarrow> wait_reset (RCC_GetFlagStatus hw RCC_FLAG_PLL3RDY) h;
     let h = RCC_MCOConfig hw RCC_MCO_PLL3CLK h;
     let h = ETH_SoftwareReset hw (ETH_DeInit hw h);
     h \<leftarrow> wait_reset (ETH_GetSoftwareResetStatus hw) h;
     let e = ETH_StructInit\<lparr>ETH_AutoNegotiation := ETH_AutoNegotiation_Disable, ETH_Speed := ETH_Speed_100M,
               ETH_ChecksumOffload := ETH_ChecksumOffload_Enable, ETH_BroadcastFramesReception := ETH_BroadcastFramesReception_Enable,
               ETH_DropTCPIPChecksumErrorFrame := ETH_DropTCPIPChecksumErrorFrame_Enable,
               ETH_SecondFrameOperate := ETH_SecondFrameOperate_Enable, ETH_FixedBurst := ETH_FixedBurst_Enable,
               ETH_RxDMABurstLength := ETH_RxDMABurstLength_32Beat, ETH_TxDMABurstLength := ETH_TxDMABurstLength_32Beat,
               ETH_DMAArbitration := ETH_DMAArbitration_RoundRobin_RxTx_2_1\<rparr>;
     let (ok, e, h) = ETH_Init hw e PHYAddress h;
     Some (ETH_DMAITConfig hw (ETH_DMA_IT_NIS OR ETH_DMA_IT_R) ENABLE h)
   }"

section \<open>The stack\<close>

definition macaddress :: "nat \<Rightarrow> u8" where
  "macaddress i = [0x00, 0x22, 0x11, 0x22, 0x11, 0x22] ! i"

definition lwip_initialization :: "'h mmio \<Rightarrow> 'h outside \<Rightarrow> 'h fw \<Rightarrow> 'h fw option" where
  "lwip_initialization hw X s = do {
     let l = n_lwip s;
     let s = s\<lparr>n_lwip := l\<lparr>l_heap := mem_init (l_heap l), l_memp := memp_init (o_sizes X) (l_memp l)\<rparr>\<rparr>;
     let s = Set_MAC_Address hw board_port macaddress s;
     (netif, s) \<leftarrow> netif_add (ethernetif_init hw (o_mem X) board_port) netif0 (Some LOCAL_IP) (Some (IP4_ADDR 255 255 255 0))
        (Some DEFAULT_GATEWAY) None s;
     let s = netif_set_default (Some netif0) s;
     netif_set_up (link_env hw X) netif0 s
   }"

definition udp_transmit_configuration :: "'h fw \<Rightarrow> 'h fw option" where
  "udp_transmit_configuration s = do {
     let (upcb, s) = udp_new s;
     let s = on_board (\<lambda>b. b\<lparr>upcb_tx := upcb\<rparr>) s;
     case upcb of
       None \<Rightarrow> Some s
     | Some u \<Rightarrow> do {
         (err, s) \<leftarrow> udp_bind u (Some LOCAL_IP) DEVICE_TX_PORT s;
         if err = ERR_OK then map_option snd (udp_connect u (Some REMOTE_IP) REMOTE_RX_PORT s) else Some s
       }
   }"

definition udp_receive_configuration :: "'h fw \<Rightarrow> 'h fw option" where
  "udp_receive_configuration s = do {
     let (upcb, s) = udp_new s;
     case upcb of
       None \<Rightarrow> Some s
     | Some u \<Rightarrow> do {
         (err, s) \<leftarrow> udp_bind u (Some LOCAL_IP) DEVICE_RX_PORT s;
         (err', s) \<leftarrow> udp_connect u (Some REMOTE_IP) REMOTE_TX_PORT s;
         Some (if err = ERR_OK then udp_recv u (Some Udp_receive_callback) None s else s)
       }
   }"

definition udp_update_configuration :: "'h fw \<Rightarrow> 'h fw option" where
  "udp_update_configuration s =
     (case upcb_upd (n_dev s) of
        None \<Rightarrow> Some s
      | Some u \<Rightarrow> do {
          (upd_err, s) \<leftarrow> udp_bind u (Some LOCAL_IP) UPDATE_PORT_LOCAL s;
          (err, s) \<leftarrow> udp_connect u (Some REMOTE_IP) UPDATE_PORT_LOCAL s;
          Some (if upd_err = ERR_OK then udp_recv u (Some Udp_upd_receive_callback) None s else s)
        })"

definition udp_configuration :: "'h fw \<Rightarrow> 'h fw option" where
  "udp_configuration s = do {
     s \<leftarrow> udp_transmit_configuration s;
     s \<leftarrow> udp_receive_configuration s;
     udp_update_configuration s
   }"

definition eth_initialisation :: "'h mmio \<Rightarrow> 'h outside \<Rightarrow> 'h fw \<Rightarrow> 'h fw option" where
  "eth_initialisation hw X s = do {
     h \<leftarrow> eth_config hw (hw_of s);
     s \<leftarrow> lwip_initialization hw X (on_hw (\<lambda>_. h) s);
     udp_configuration s
   }"

section \<open>Sending\<close>

text \<open>\<open>while (0 == pbuf_free(p));\<close>\<close>

partial_function (option) free_until :: "loc option \<Rightarrow> 'h fw \<Rightarrow> 'h fw option" where
  "free_until p s = do {
     (n, s) \<leftarrow> on_lwip (pbuf_free p) s;
     if n = 0 then free_until p s else Some s
   }"

definition udp_data_transmit :: "'h mmio \<Rightarrow> 'h outside \<Rightarrow> 'h fw \<Rightarrow> 'h fw option" where
  "udp_data_transmit hw X s = do {
     (p, s) \<leftarrow> on_lwip (pbuf_alloc PBUF_TRANSPORT (of_nat TX_PACKET_SIZE) PBUF_RAM) s;
     let s = on_board (\<lambda>b. b\<lparr>p_tx := p\<rparr>) s;
     q \<leftarrow> p;
     a \<leftarrow> p_payload (pb (n_lwip s) q);
     let s = put_bytes (put_at a (take TX_PACKET_SIZE (tx_buf (n_dev s)))) s;
     u \<leftarrow> upcb_tx (n_dev s);
     (err, s) \<leftarrow> udp_send (udp_out hw X) u q s;
     free_until (p_tx (n_dev s)) s
   }"

text \<open>The two answers of the updater, three equal bytes.\<close>

definition send_updater :: "'h mmio \<Rightarrow> 'h outside \<Rightarrow> nat \<Rightarrow> u8 \<Rightarrow> 'h fw \<Rightarrow> 'h fw option" where
  "send_updater hw X n b s = do {
     (p, s) \<leftarrow> on_lwip (pbuf_alloc PBUF_TRANSPORT (of_nat n) PBUF_RAM) s;
     let s = on_board (\<lambda>b. b\<lparr>p_upd_tx := p\<rparr>) s;
     q \<leftarrow> p;
     a \<leftarrow> p_payload (pb (n_lwip s) q);
     let s = put_bytes (put_at a (replicate n b)) s;
     u \<leftarrow> upcb_upd (n_dev s);
     (err, s) \<leftarrow> udp_send (udp_out hw X) u q s;
     free_until (p_upd_tx (n_dev s)) s
   }"

definition send_updater_ack :: "'h mmio \<Rightarrow> 'h outside \<Rightarrow> 'h fw \<Rightarrow> 'h fw option" where
  "send_updater_ack hw X = send_updater hw X UPD_ACK_PKT_SIZE 0xAA"

definition send_updater_nack :: "'h mmio \<Rightarrow> 'h outside \<Rightarrow> 'h fw \<Rightarrow> 'h fw option" where
  "send_updater_nack hw X = send_updater hw X UPD_NACK_PKT_SIZE 0xBB"

section \<open>Receiving\<close>

text \<open>\<open>memcpy\<close> from the first buffer of a packet into an array.\<close>

definition copy_to :: "u8 list \<Rightarrow> loc \<Rightarrow> 'h fw \<Rightarrow> u8 list option" where
  "copy_to xs q s =
     (let n = unat (p_len (pb (n_lwip s) q)) in
      if n = 0 then Some xs
      else if n > length xs then None
      else do { a \<leftarrow> p_payload (pb (n_lwip s) q); Some (read_at (bytes s) a n @ drop n xs) })"

definition udp_receive_callback :: "loc option \<Rightarrow> 'h fw \<Rightarrow> 'h fw option" where
  "udp_receive_callback p s = do {
     q \<leftarrow> p;
     xs \<leftarrow> copy_to (rx_buff (n_dev s)) q s;
     free_until p (on_board (\<lambda>b. b\<lparr>rx_buff := xs\<rparr>) s)
   }"

text \<open>The protocol functions on the device of the port.\<close>

definition upd_of :: "'h fw \<Rightarrow> 'h updater" where
  "upd_of s = (b_upd (n_dev s))\<lparr>udev := hw_of s\<rparr>"

definition put_upd :: "'h updater \<Rightarrow> 'h fw \<Rightarrow> 'h fw" where
  "put_upd u s = on_board (\<lambda>b. b\<lparr>b_upd := u\<rparr>) (on_hw (\<lambda>_. udev u) s)"

definition of_option :: "'a option \<Rightarrow> (unit, 'a) run" where
  "of_option r = (case r of None \<Rightarrow> Fault | Some s \<Rightarrow> Done () s)"

definition udp_upd_receive_callback :: "'h mmio \<Rightarrow> 'h outside \<Rightarrow> loc option \<Rightarrow> 'h fw \<Rightarrow> (unit, 'h fw) run" where
  "udp_upd_receive_callback hw X p s =
     (case p of
        None \<Rightarrow> Fault
      | Some q \<Rightarrow>
          let len = p_len (pb (n_lwip s) q); fin = (\<lambda>s. of_option (Option.bind s (free_until p))) in
          if unat len > RX_UPD_PACKET_SIZE then fin (Some s)
          else
            case copy_to (rx_upd_buff (n_dev s)) q s of
              None \<Rightarrow> Fault
            | Some xs \<Rightarrow>
                let s = on_board (\<lambda>b. b\<lparr>rx_upd_buff := xs\<rparr>) s in
                if g_upd (b_upd (n_dev s)) \<noteq> 0 then
                  (case handle_upd_packet hw (rx_buff (n_dev s)) len (upd_of s) of
                     Fault \<Rightarrow> Fault
                   | Rebooted u \<Rightarrow> Rebooted (put_upd u s)
                   | Done result u \<Rightarrow>
                       let s = put_upd u s
                       in fin (if result = ALL_OK then send_updater_ack hw X s else send_updater_nack hw X s))
                else
                  (case check_upd_request hw (rx_buff (n_dev s)) len (upd_of s) of
                     Fault \<Rightarrow> Fault
                   | Rebooted u \<Rightarrow> Rebooted (put_upd u s)
                   | Done ok u \<Rightarrow> let s = put_upd u s in fin (if ok = 1 then send_updater_ack hw X s else Some s)))"

text \<open>The call through the pointer in a control block. The stack passes \<open>recv_arg\<close>, the control block, the packet,
  the address and the port; the callbacks have one parameter and get the first argument in it.\<close>

definition call_callback :: "'h mmio \<Rightarrow> 'h outside \<Rightarrow> callback \<Rightarrow> loc option \<Rightarrow> nat \<Rightarrow> loc \<Rightarrow> loc \<Rightarrow> u16 \<Rightarrow> 'h fw \<Rightarrow> 'h fw option" where
  "call_callback hw X f arg pcb p addr port s =
     (case f of
        Udp_receive_callback \<Rightarrow> udp_receive_callback arg s
      | Udp_upd_receive_callback \<Rightarrow>
          (case udp_upd_receive_callback hw X arg s of Done _ s \<Rightarrow> Some s | _ \<Rightarrow> None))"

definition fw_env :: "'h mmio \<Rightarrow> 'h outside \<Rightarrow> (callback, 'h board) ip_env" where
  "fw_env hw X = stack_env hw X (call_callback hw X)"

definition lwip_pkt_handle :: "'h mmio \<Rightarrow> 'h outside \<Rightarrow> 'h fw \<Rightarrow> 'h fw option" where
  "lwip_pkt_handle hw X s = map_option snd (ethernetif_input hw board_port (link_env hw X) (ip_input (fw_env hw X)) netif0 s)"

definition lwip_periodic_handle :: "u32 \<Rightarrow> 'h fw \<Rightarrow> 'h fw option" where
  "lwip_periodic_handle t s =
     (if t - arp_timer (n_dev s) \<ge> ARP_TMR_INTERVAL then etharp_tmr (on_board (\<lambda>b. b\<lparr>arp_timer := t\<rparr>) s) else Some s)"

section \<open>Interrupts and main\<close>

definition SysTick_Handler :: "'h fw \<Rightarrow> 'h fw option" where
  "SysTick_Handler s =
     (let s = on_board (\<lambda>b. b\<lparr>localtime := localtime b + 1\<rparr>) s in lwip_periodic_handle (localtime (n_dev s)) s)"

partial_function (option) irq_loop :: "'h mmio \<Rightarrow> 'h outside \<Rightarrow> 'h fw \<Rightarrow> 'h fw option" where
  "irq_loop hw X s =
     (let (n, s) = get_eth board_port (ETH_GetRxPktSize hw) s in
      if n \<noteq> 0 then do { s \<leftarrow> lwip_pkt_handle hw X s; irq_loop hw X s } else Some s)"

definition ETH_IRQHandler :: "'h mmio \<Rightarrow> 'h outside \<Rightarrow> 'h fw \<Rightarrow> 'h fw option" where
  "ETH_IRQHandler hw X s = do {
     s \<leftarrow> irq_loop hw X s;
     Some (on_hw (\<lambda>h. ETH_DMAClearITPendingBit hw ETH_DMA_IT_NIS (ETH_DMAClearITPendingBit hw ETH_DMA_IT_R h)) s)
   }"

text \<open>The handlers of the processor's own exceptions, the same in both firmwares.\<close>

partial_function (option) for_ever :: "'s \<Rightarrow> 's option" where
  "for_ever s = for_ever s"

definition NMI_Handler :: "'s \<Rightarrow> 's option" where "NMI_Handler s = Some s"
definition HardFault_Handler :: "'s \<Rightarrow> 's option" where "HardFault_Handler s = for_ever s"
definition MemManage_Handler :: "'s \<Rightarrow> 's option" where "MemManage_Handler s = for_ever s"
definition BusFault_Handler :: "'s \<Rightarrow> 's option" where "BusFault_Handler s = for_ever s"
definition UsageFault_Handler :: "'s \<Rightarrow> 's option" where "UsageFault_Handler s = for_ever s"
definition SVC_Handler :: "'s \<Rightarrow> 's option" where "SVC_Handler s = Some s"
definition DebugMon_Handler :: "'s \<Rightarrow> 's option" where "DebugMon_Handler s = Some s"
definition PendSV_Handler :: "'s \<Rightarrow> 's option" where "PendSV_Handler s = Some s"

text \<open>\<open>main\<close> of the updater up to its empty endless loop, in which only the interrupts do something.\<close>

definition updater_main :: "'h mmio \<Rightarrow> u32 \<Rightarrow> 'h \<Rightarrow> (u32 \<times> 'h) option" where
  "updater_main hw clk h = system_init hw clk h"

section \<open>The clock of the ARP table\<close>

lemma on_board_sel [simp]:
  "n_dev (on_board f s) = f (n_dev s)" "arp_table (on_board f s) = arp_table s" "udp_pcbs (on_board f s) = udp_pcbs s"
  "n_pcb (on_board f s) = n_pcb s" "n_lwip (on_board f s) = n_lwip s"
  by (simp_all add: on_board_def)

lemma tmr_entry_idle:
  assumes "arp_q (arp_table s i) = None"
  shows "tmr_entry i s = Some (s\<lparr>arp_table := (arp_table s)(i := aged (arp_table s i))\<rparr>)"
  using assms by (cases "arp_table s i") (auto simp: tmr_entry_def arp_upd_def aged_def expired_def Let_def)

lemma etharp_tmr_dev:
  assumes "\<forall>i < ARP_TABLE_SIZE. arp_q (arp_table s i) = None" "etharp_tmr s = Some s'"
  shows "n_dev s' = n_dev s"
proof -
  have q: "arp_q (aged e) = None" if "arp_q e = None" for e using that by (simp add: aged_def Let_def)
  have "\<exists>t. fold (\<lambda>i r. Option.bind r (tmr_entry i)) is (Some s) = Some t \<and> n_dev t = n_dev s \<and>
      (\<forall>i < ARP_TABLE_SIZE. arp_q (arp_table t i) = None)" if "set is \<subseteq> {..<ARP_TABLE_SIZE}" for "is"
    using that
  proof (induction "is" rule: rev_induct)
    case Nil
    then show ?case using assms(1) by simp
  next
    case (snoc i "is")
    then obtain t where t: "fold (\<lambda>i r. Option.bind r (tmr_entry i)) is (Some s) = Some t" "n_dev t = n_dev s"
      "\<forall>i < ARP_TABLE_SIZE. arp_q (arp_table t i) = None" by auto
    then have "tmr_entry i t = Some (t\<lparr>arp_table := (arp_table t)(i := aged (arp_table t i))\<rparr>)" using snoc.prems by (intro tmr_entry_idle) simp
    then show ?case using t q by simp
  qed
  from this [of "[0..<ARP_TABLE_SIZE]"] show ?thesis using assms(2) unfolding etharp_tmr_def by (auto simp: atLeast0LessThan)
qed

text \<open>The state after some ticks: how long ago the timer ran, and how often it has run.\<close>

definition ticked :: "nat \<Rightarrow> nat \<Rightarrow> 'h fw \<Rightarrow> 'h fw \<Rightarrow> bool" where
  "ticked d n s t \<longleftrightarrow> unat (localtime (n_dev t) - arp_timer (n_dev t)) = (d + n) mod 5000 \<and>
     (\<forall>i < ARP_TABLE_SIZE. arp_q (arp_table t i) = None \<and> arp_table t i = (aged ^^ ((d + n) div 5000)) (arp_table s i))"

lemma ticked_step:
  assumes "ticked d n s t"
  shows "\<exists>t'. SysTick_Handler t = Some t' \<and> ticked d (Suc n) s t'"
proof -
  let ?t1 = "on_board (\<lambda>b. b\<lparr>localtime := localtime b + 1\<rparr>) t" and ?k = "(d + n) mod 5000"
  have k: "unat (localtime (n_dev t) - arp_timer (n_dev t)) = ?k" "?k < 5000" using assms by (simp_all add: ticked_def)
  have suc: "unat (x + 1 :: u32) = Suc (unat x)" if "unat x < 5000" for x using that by (simp add: unat_word_ariths)
  have "localtime (n_dev t) + 1 - arp_timer (n_dev t) = localtime (n_dev t) - arp_timer (n_dev t) + 1" by simp
  then have k1: "unat (localtime (n_dev t) + 1 - arp_timer (n_dev t)) = Suc ?k" using k suc by metis
  then have ge: "localtime (n_dev t) + 1 - arp_timer (n_dev t) \<ge> ARP_TMR_INTERVAL \<longleftrightarrow> Suc ?k = 5000"
    using k(2) by (auto simp: word_le_nat_alt ARP_TMR_INTERVAL_def)
  have q: "\<forall>i < ARP_TABLE_SIZE. arp_q (arp_table t i) = None" using assms unfolding ticked_def by blast
  show ?thesis
  proof (cases "Suc ?k = 5000")
    case True
    let ?t2 = "on_board (\<lambda>b. b\<lparr>arp_timer := localtime (n_dev t) + 1\<rparr>) ?t1"
    have dm: "Suc (d + n) mod 5000 = 0" "Suc (d + n) div 5000 = Suc ((d + n) div 5000)" using True by (simp_all add: mod_Suc div_Suc)
    obtain t' where t': "etharp_tmr ?t2 = Some t'" "\<forall>i < ARP_TABLE_SIZE. arp_q (arp_table t' i) = None"
      using etharp_tmr_total [of ?t2] q by auto
    have "n_dev t' = n_dev ?t2" using etharp_tmr_dev [of ?t2 t'] q t'(1) by simp
    moreover have "arp_table t' i = aged (arp_table t i)" if "i < ARP_TABLE_SIZE" for i using etharp_tmr_table(2) [OF t'(1)] that by simp
    moreover have "SysTick_Handler t = Some t'" using True ge t'(1) by (simp add: SysTick_Handler_def lwip_periodic_handle_def Let_def)
    ultimately show ?thesis using t'(2) assms dm by (intro exI [of _ t']) (auto simp: ticked_def)
  next
    case False
    then have "Suc (d + n) mod 5000 = Suc ?k" "Suc (d + n) div 5000 = (d + n) div 5000" by (simp_all add: mod_Suc div_Suc)
    moreover have "SysTick_Handler t = Some ?t1" using False ge by (simp add: SysTick_Handler_def lwip_periodic_handle_def Let_def)
    ultimately show ?thesis using assms k1 unfolding ticked_def by (intro exI [of _ ?t1]) auto
  qed
qed



section \<open>Control blocks\<close>

lemma bind_new:
  assumes "pcb_list s (udp_pcbs s) ps" "p \<notin> set ps" "port \<noteq> 0"
  shows "udp_bind p ip port s = Some (ERR_OK,
    (pcb_upd p (\<lambda>u. u\<lparr>local_ip := ip_addr_set ip, local_port := port, u_next := udp_pcbs s\<rparr>) s)\<lparr>udp_pcbs := Some p\<rparr>)"
  using assms udp_listed_ok [OF assms(1), of p False] by (simp add: udp_bind_def pcb_upd_def)

lemma connect_listed:
  assumes "pcb_list s (udp_pcbs s) ps" "p \<in> set ps" "local_port (n_pcb s p) \<noteq> 0"
  shows "udp_connect p ip port s = Some (ERR_OK,
    pcb_upd p (\<lambda>u. u\<lparr>remote_ip := ip_addr_set ip, remote_port := port, u_flags := u_flags u OR UDP_FLAGS_CONNECTED\<rparr>) s)"
proof -
  let ?f = "\<lambda>u. u\<lparr>remote_ip := ip_addr_set ip, remote_port := port, u_flags := u_flags u OR UDP_FLAGS_CONNECTED\<rparr>"
  have "pcb_list (pcb_upd p ?f s) (udp_pcbs (pcb_upd p ?f s)) ps" using assms(1) pcb_list_upd [of ?f s p] by simp
  from udp_listed_ok [OF this, of p False] assms(2,3) show ?thesis by (simp add: udp_connect_def)
qed

lemma udp_new_fresh:
  assumes "lwip_ok sizes (n_lwip s)" "card U < 6" "memp_taken sizes MEMP_UDP_PCB (l_memp (n_lwip s)) = U"
  shows "\<exists>a l. udp_new s = (Some a, pcb_upd a (\<lambda>_. \<lparr>local_ip = 0, remote_ip = 0, u_tos = 0, u_ttl = UDP_TTL, u_next = None, u_flags = 0,
       local_port = 0, remote_port = 0, recv = None, recv_arg = None\<rparr>) (s\<lparr>n_lwip := l\<rparr>)) \<and>
    a \<notin> U \<and> lwip_ok sizes l \<and> memp_taken sizes MEMP_UDP_PCB (l_memp l) = insert a U"
proof -
  let ?m = "l_memp (n_lwip s)"
  have z: "memp_sizes_ok sizes" "memp_ok sizes ?m" using assms(1) by (simp_all add: lwip_ok_def)
  then have c: "card (memp_elems sizes MEMP_UDP_PCB) = 6" using memp_elems_card [of sizes MEMP_UDP_PCB] by (simp add: memp_sizes_ok_def)
  obtain r m where rm: "memp_malloc MEMP_UDP_PCB ?m = (r, m)" by (cases "memp_malloc MEMP_UDP_PCB ?m")
  note ok = memp_malloc_ok [OF z, of MEMP_UDP_PCB, unfolded rm prod.case]
  obtain a where a: "r = Some a" using ok c assms(2,3) by (cases r) auto
  show ?thesis
    using ok a rm assms(1,3) by (intro exI [of _ a] exI [of _ "(n_lwip s)\<lparr>l_memp := m\<rparr>"]) (auto simp: udp_new_def lwip_ok_def)
qed

text \<open>C30: The ports of the updater. On a fresh stack the configuration returns with two control blocks, the
  transmit block from port 50002 to port 50001 and the receive block on port 51003 for port 51004 with its callback.
  The update protocol gets none: no datagram to port 55555 has a receiver. And the callback of the receive block is
  called with the argument it was registered with, a null pointer, whatever arrives there.\<close>

theorem udp_configuration_ports:
  fixes s :: "'h fw"
  assumes "lwip_ok sizes (n_lwip s)" "memp_taken sizes MEMP_UDP_PCB (l_memp (n_lwip s)) = {}" "udp_pcbs s = None" "upcb_upd (n_dev s) = None"
  shows "\<exists>s' a b. udp_configuration s = Some s' \<and> pcb_list s' (udp_pcbs s') [b, a] \<and> a \<noteq> b \<and> upcb_tx (n_dev s') = Some a \<and>
    (local_port (n_pcb s' a), remote_port (n_pcb s' a), recv (n_pcb s' a)) = (50002, 50001, None) \<and>
    (local_port (n_pcb s' b), remote_port (n_pcb s' b), recv (n_pcb s' b)) = (51003, 51004, Some Udp_receive_callback) \<and>
    (\<forall>d. d_dest d = UPDATE_PORT_LOCAL \<longrightarrow> udp_demux d s' = Some (None, s')) \<and>
    (\<forall>hw X p adr port (t :: 'h fw). call_callback hw X Udp_receive_callback (recv_arg (n_pcb s' b)) b p adr port t = None)"
proof -
  let ?new = "\<lparr>local_ip = 0, remote_ip = 0, u_tos = 0, u_ttl = UDP_TTL, u_next = None, u_flags = 0,
       local_port = 0, remote_port = 0, recv = None, recv_arg = None\<rparr> :: callback udp_pcb"
  obtain a l where a: "udp_new s = (Some a, pcb_upd a (\<lambda>_. ?new) (s\<lparr>n_lwip := l\<rparr>))" "lwip_ok sizes l" "memp_taken sizes MEMP_UDP_PCB (l_memp l) = {a}"
    using udp_new_fresh [OF assms(1) _ assms(2)] by auto
  define s1 where "s1 = on_board (\<lambda>b. b\<lparr>upcb_tx := Some a\<rparr>) (pcb_upd a (\<lambda>_. ?new) (s\<lparr>n_lwip := l\<rparr>))"
  define s2 where "s2 = (pcb_upd a (\<lambda>u. u\<lparr>local_ip := ip_addr_set (Some LOCAL_IP), local_port := DEVICE_TX_PORT, u_next := udp_pcbs s1\<rparr>) s1)\<lparr>udp_pcbs := Some a\<rparr>"
  define s3 where "s3 = pcb_upd a (\<lambda>u. u\<lparr>remote_ip := ip_addr_set (Some REMOTE_IP), remote_port := REMOTE_RX_PORT, u_flags := u_flags u OR UDP_FLAGS_CONNECTED\<rparr>) s2"
  have "udp_bind a (Some LOCAL_IP) DEVICE_TX_PORT s1 = Some (ERR_OK, s2)"
    unfolding s2_def using assms(3) by (intro bind_new [of _ "[]"]) (simp_all add: s1_def DEVICE_TX_PORT_def)
  moreover have "udp_connect a (Some REMOTE_IP) REMOTE_RX_PORT s2 = Some (ERR_OK, s3)"
    unfolding s3_def using assms(3) by (intro connect_listed [of _ "[a]"]) (simp_all add: s2_def s1_def pcb_upd_def DEVICE_TX_PORT_def)
  ultimately have tx: "udp_transmit_configuration s = Some s3" by (simp add: udp_transmit_configuration_def a(1) s1_def)
  have s3: "n_lwip s3 = l" "udp_pcbs s3 = Some a" "u_next (n_pcb s3 a) = None" "local_port (n_pcb s3 a) = DEVICE_TX_PORT"
    "remote_port (n_pcb s3 a) = REMOTE_RX_PORT" "recv (n_pcb s3 a) = None" "upcb_tx (n_dev s3) = Some a" "upcb_upd (n_dev s3) = None"
    using assms(3,4) by (simp_all add: s3_def s2_def s1_def) (simp_all add: pcb_upd_def)
  obtain b k where b: "udp_new s3 = (Some b, pcb_upd b (\<lambda>_. ?new) (s3\<lparr>n_lwip := k\<rparr>))" "b \<notin> {a}"
    using udp_new_fresh [of sizes s3 "{a}"] a(2,3) s3(1) by auto
  define t1 where "t1 = pcb_upd b (\<lambda>_. ?new) (s3\<lparr>n_lwip := k\<rparr>)"
  define t2 where "t2 = (pcb_upd b (\<lambda>u. u\<lparr>local_ip := ip_addr_set (Some LOCAL_IP), local_port := DEVICE_RX_PORT, u_next := udp_pcbs t1\<rparr>) t1)\<lparr>udp_pcbs := Some b\<rparr>"
  define t3 where "t3 = pcb_upd b (\<lambda>u. u\<lparr>remote_ip := ip_addr_set (Some REMOTE_IP), remote_port := REMOTE_TX_PORT, u_flags := u_flags u OR UDP_FLAGS_CONNECTED\<rparr>) t2"
  define s' where "s' = udp_recv b (Some Udp_receive_callback) None t3"
  have "udp_bind b (Some LOCAL_IP) DEVICE_RX_PORT t1 = Some (ERR_OK, t2)"
    unfolding t2_def using b(2) s3 by (intro bind_new [of _ "[a]"]) (simp_all add: t1_def pcb_upd_def DEVICE_RX_PORT_def)
  moreover have "udp_connect b (Some REMOTE_IP) REMOTE_TX_PORT t2 = Some (ERR_OK, t3)"
    unfolding t3_def using b(2) s3 by (intro connect_listed [of _ "[b, a]"]) (simp_all add: t2_def t1_def pcb_upd_def DEVICE_RX_PORT_def)
  ultimately have rx: "udp_receive_configuration s3 = Some s'" by (simp add: udp_receive_configuration_def b(1) t1_def s'_def)
  have s': "udp_pcbs s' = Some b" "u_next (n_pcb s' b) = Some a" "n_pcb s' a = n_pcb s3 a" "n_dev s' = n_dev s3"
    "local_port (n_pcb s' b) = DEVICE_RX_PORT" "remote_port (n_pcb s' b) = REMOTE_TX_PORT" "recv (n_pcb s' b) = Some Udp_receive_callback" "recv_arg (n_pcb s' b) = None"
    using b(2) s3 by (simp_all add: s'_def t3_def t2_def t1_def udp_recv_def) (simp_all add: pcb_upd_def)
  have l: "pcb_list s' (udp_pcbs s') [b, a]" using s' s3 by simp
  have "udp_configuration s = Some s'" using tx rx s'(4) s3(8) by (simp add: udp_configuration_def udp_update_configuration_def)
  moreover have "udp_demux d s' = Some (None, s')" if "d_dest d = UPDATE_PORT_LOCAL" for d
  proof -
    have "\<not> local_match d (n_pcb s3 a)" "\<not> local_match d (n_pcb s' b)"
      using that s' s3 by (simp_all add: local_match_def UPDATE_PORT_LOCAL_def DEVICE_TX_PORT_def DEVICE_RX_PORT_def)
    then have "demux_loop s' d None None (Some b) = Some (None, Some a, None)"
      using s' s3 by (simp add: demux_loop.simps full_match_def Let_def)
    then show ?thesis using s'(1) by (simp add: udp_demux_def)
  qed
  moreover have "call_callback hw X Udp_receive_callback None b p adr port t = None" for hw X p adr port and t :: "'h fw"
    by (simp add: call_callback_def udp_receive_callback_def)
  ultimately show ?thesis using l s' s3 b(2) by (intro exI [of _ s'] exI [of _ a] exI [of _ b])
    (auto simp: DEVICE_TX_PORT_def DEVICE_RX_PORT_def REMOTE_TX_PORT_def REMOTE_RX_PORT_def)
qed


section \<open>A frame with an error\<close>

text \<open>What may happen while a frame with an error is at the head of the ring: interrupts of the controller and of the
  clock, and whatever the DMA does to the descriptors and buffers that it owns.\<close>

inductive blocked_run :: "'h mmio \<Rightarrow> 'h outside \<Rightarrow> ('h \<Rightarrow> u32 \<Rightarrow> u32) \<Rightarrow> u32 set \<Rightarrow> 'h fw \<Rightarrow> 'h fw \<Rightarrow> bool"
  for hw X cont D s where
  start: "blocked_run hw X cont D s s"
| irq: "blocked_run hw X cont D s t \<Longrightarrow> ETH_IRQHandler hw X t = Some t' \<Longrightarrow> blocked_run hw X cont D s t'"
| tick: "blocked_run hw X cont D s t \<Longrightarrow> \<forall>i < ARP_TABLE_SIZE. arp_q (arp_table t i) = None \<Longrightarrow> SysTick_Handler t = Some t' \<Longrightarrow>
    blocked_run hw X cont D s t'"
| dma: "blocked_run hw X cont D s t \<Longrightarrow> keeps cont D (hw_of t) h \<Longrightarrow> blocked_run hw X cont D s (on_hw (\<lambda>_. h) t)"

lemma on_hw_sel [simp]:
  "hw_of (on_hw f s) = f (hw_of s)" "DMARxDescToGet (p_eth (b_port (n_dev (on_hw f s)))) = DMARxDescToGet (p_eth (b_port (n_dev s)))"
  "n_lwip (on_hw f s) = n_lwip s" "arp_table (on_hw f s) = arp_table s"
  by (simp_all add: on_hw_def on_eth_def on_dev_def hw_of_def set_port_def the_port_def board_port_def Let_def)

lemma SysTick_port:
  assumes "\<forall>i < ARP_TABLE_SIZE. arp_q (arp_table t i) = None" "SysTick_Handler t = Some t'"
  shows "b_port (n_dev t') = b_port (n_dev t)"
proof -
  define u where "u = on_board (\<lambda>b. b\<lparr>localtime := localtime b + 1\<rparr>) t"
  have u: "arp_table u = arp_table t" "b_port (n_dev u) = b_port (n_dev t)" by (simp_all add: u_def)
  have "t' = u \<or> (\<exists>v. etharp_tmr (on_board (\<lambda>b. b\<lparr>arp_timer := v\<rparr>) u) = Some t')"
    using assms(2) unfolding SysTick_Handler_def lwip_periodic_handle_def Let_def u_def [symmetric] by (auto split: if_splits)
  then show ?thesis
  proof
    assume "\<exists>v. etharp_tmr (on_board (\<lambda>b. b\<lparr>arp_timer := v\<rparr>) u) = Some t'"
    then obtain v where "etharp_tmr (on_board (\<lambda>b. b\<lparr>arp_timer := v\<rparr>) u) = Some t'" by blast
    from etharp_tmr_dev [OF _ this] show ?thesis using assms(1) u by simp
  qed (simp add: u)
qed

lemma irq_blocked:
  assumes mem: "rx_memory hw cont D" and d: "d = DMARxDescToGet (p_eth (b_port (n_dev t)))" "d \<in> D"
    and st: "cpu_owned (cont (hw_of t) d)" "\<not> good_status (cont (hw_of t) d)"
    and sr: "\<And>d k. d \<in> D \<Longrightarrow> k \<in> {0, 4, 8, 12} \<Longrightarrow> ETH_DMASR \<noteq> d + k"
  shows "\<exists>t'. ETH_IRQHandler hw X t = Some t' \<and> DMARxDescToGet (p_eth (b_port (n_dev t'))) = d \<and>
    cont (hw_of t') d = cont (hw_of t) d \<and> n_lwip t' = n_lwip t \<and> arp_table t' = arp_table t"
proof -
  let ?e = "p_eth (b_port (n_dev t))"
  have own: "DMARxDescToGet ?e \<in> D" "cpu_owned (cont (eth_dev ?e) (DMARxDescToGet ?e))" using d st by (simp_all add: hw_of_def)
  obtain h where h: "ETH_GetRxPktSize hw ?e =
      (if good_status (cont (eth_dev ?e) (DMARxDescToGet ?e)) then frame_length (cont (eth_dev ?e) (DMARxDescToGet ?e)) else 0, ?e\<lparr>eth_dev := h\<rparr>)"
    "keeps cont D (eth_dev ?e) h" by (rule rx_memory.pkt_size_owned [OF mem own])
  have bad: "\<not> good_status (cont (eth_dev ?e) (DMARxDescToGet ?e))" using st d by (simp add: hw_of_def)
  let ?g = "\<lambda>h. ETH_DMAClearITPendingBit hw ETH_DMA_IT_NIS (ETH_DMAClearITPendingBit hw ETH_DMA_IT_R h)"
  have g: "get_eth board_port (ETH_GetRxPktSize hw) t = (0, on_hw (\<lambda>_. h) t)"
    using h(1) bad by (simp add: get_eth_def the_port_def board_port_def on_hw_def on_eth_def on_dev_def set_port_def Let_def)
  then have irq: "ETH_IRQHandler hw X t = Some (on_hw ?g (on_hw (\<lambda>_. h) t))"
    by (simp add: ETH_IRQHandler_def irq_loop.simps)
  have "keeps cont D h' (?g h')" for h'
    unfolding ETH_DMAClearITPendingBit_def by (rule keeps_trans [OF rx_memory.wr_keeps [OF mem sr] rx_memory.wr_keeps [OF mem sr]])
  then have "keeps cont D (eth_dev ?e) (?g h)" using keeps_trans [OF h(2)] by blast
  then have "cont (?g h) d = cont (hw_of t) d" using rx_memory.keeps_owned [OF mem _ d(2)] st(1) by (simp add: hw_of_def)
  then show ?thesis using irq d(1) by (intro exI [of _ "on_hw ?g (on_hw (\<lambda>_. h) t)"]) simp
qed



section \<open>Witnesses\<close>

text \<open>A firmware with a fresh stack, a full ARP table and an incomplete frame in the first descriptor, shortly before the
  millisecond counter wraps around.\<close>

definition board_w :: "(u32 \<Rightarrow> u32) board" where
  "board_w = \<lparr>b_port = \<lparr>p_eth = \<lparr>eth_dev = (\<lambda>_. 0), DMATxDescToSet = 0, DMARxDescToGet = 0x20000000, DMAPTPTxDescToSet = 0, DMAPTPRxDescToGet = 0\<rparr>,
       MACaddr = []\<rparr>, p_tx = None, upcb_tx = None, p_upd_tx = None, upcb_upd = None, rx_buff = [0, 0, 0], rx_upd_buff = replicate 512 0,
     tx_buf = [0, 0, 0], arp_timer = 0xFFFFF000, localtime = 0xFFFFFFFF, b_upd = updater_start (\<lambda>_. 0)\<rparr>"

definition fw_w :: "(u32 \<Rightarrow> u32) fw" where
  "fw_w = arp_net board_w (arp_table (arp_w ETHARP_STATE_STABLE 230))"

definition outside_w :: "'h outside" where
  "outside_w = \<lparr>o_dhcp = (\<lambda>_ _. Some), o_tcp = (\<lambda>_ _. Some), o_frag_buf = Ext 0,
     o_mem = \<lparr>DMATxDscrTab = 0x20000040, DMARxDscrTab = 0x20000000, Tx_Buff = 0x20004000, Rx_Buff = 0x20001000\<rparr>, o_sizes = (\<lambda>_. 1516)\<rparr>"

lemma fw_w_sel:
  "n_dev fw_w = board_w" "n_lwip fw_w = lwip_a" "udp_pcbs fw_w = None" "arp_table fw_w = arp_table (arp_w ETHARP_STATE_STABLE 230)" "arp_ok fw_w"
  using arp_w_ok [of 230] by (simp_all add: fw_w_def arp_net_def arp_ok_def arp_w_def)


theorem udp_configuration_ports_witness:
  "\<exists>s'. udp_configuration fw_w = Some s' \<and> udp_demux \<lparr>d_src_ip = 1, d_dest_ip = 2, d_src = 55555, d_dest = 55555, d_bcast = False\<rparr> s' = Some (None, s')"
proof -
  have "memp_taken (\<lambda>_. 1516) MEMP_UDP_PCB (l_memp lwip_a) = {}"
    using memp_init_ok(2) [of "\<lambda>_. 1516" MEMP_UDP_PCB] by (simp add: lwip_a_def memp_sizes_ok_def)
  then show ?thesis using udp_configuration_ports [of "\<lambda>_. 1516" fw_w] lwip_a_ok by (auto simp: fw_w_sel board_w_def UPDATE_PORT_LOCAL_def)
qed


end
